(* ===== verification/Prelude.thy ===== *)
theory Prelude
  imports Main "HOL-Library.List_Lexorder" "HOL-Library.Char_ord" "HOL-Library.Sublist"
    "HOL-Library.Word"
begin

text \<open>
  Shared ground of the development: type names, the string and slice operations of the Go
  standard library that the components use, the "first occurrence wins" loop that many of
  the Go functions contain, tables as lists of rows, and two locales on transition systems
  (invariants and absorbing values) that the stateful components interpret.
\<close>

section \<open>Names\<close>

text \<open>Identifiers (uuid.UUID) are numbers, instants (time.Time, durations) are integers.\<close>

type_synonym uuid = nat
type_synonym gotime = int
type_synonym duration = int
type_synonym smap = "(string \<times> string) list"

text \<open>The zero value of uuid.UUID.\<close>

definition uuid_Nil :: uuid where
  "uuid_Nil = 0"

named_theorems go_defs \<open>definitions unfolded together in component proofs\<close>
named_theorems dedup_simps \<open>facts on the first-occurrence loop\<close>
named_theorems table_simps \<open>facts on updates and selections over tables\<close>

section \<open>Go slices and strings\<close>

text \<open>
  A Go string is a sequence of bytes, as an Isabelle \<^typ>\<open>string\<close> is; \<open>len\<close> is
  \<^const>\<open>length\<close>. \<open>sort.Strings\<close> orders byte strings lexicographically, which is
  \<^term>\<open>sort\<close> over the orders of \<open>Char_ord\<close> and \<open>List_Lexorder\<close>.
\<close>

abbreviation sort_strings :: "string list \<Rightarrow> string list" where
  "sort_strings xs \<equiv> sort xs"

definition has_prefix :: "string \<Rightarrow> string \<Rightarrow> bool" where
  "has_prefix s p = (take (length p) s = p)"

definition has_suffix :: "string \<Rightarrow> string \<Rightarrow> bool" where
  "has_suffix s p = (length p \<le> length s \<and> drop (length s - length p) s = p)"

definition trim_prefix :: "string \<Rightarrow> string \<Rightarrow> string" where
  "trim_prefix s p = (if has_prefix s p then drop (length p) s else s)"

definition trim_suffix :: "string \<Rightarrow> string \<Rightarrow> string" where
  "trim_suffix s p = (if has_suffix s p then take (length s - length p) s else s)"

text \<open>\<open>strings.Index\<close>: the first offset where the pattern occurs.\<close>

fun str_index :: "string \<Rightarrow> string \<Rightarrow> nat option" where
  "str_index [] p = (if p = [] then Some 0 else None)"
| "str_index (c # s) p =
     (if has_prefix (c # s) p then Some 0 else map_option Suc (str_index s p))"

definition str_contains :: "string \<Rightarrow> string \<Rightarrow> bool" where
  "str_contains s p = (str_index s p \<noteq> None)"

text \<open>\<open>strings.Cut\<close>: the text before and after the first occurrence.\<close>

definition str_cut :: "string \<Rightarrow> string \<Rightarrow> (string \<times> string) option" where
  "str_cut s p =
     (case str_index s p of None \<Rightarrow> None
      | Some i \<Rightarrow> Some (take i s, drop (i + length p) s))"

fun str_join :: "string \<Rightarrow> string list \<Rightarrow> string" where
  "str_join sep [] = []"
| "str_join sep [x] = x"
| "str_join sep (x # y # xs) = x @ sep @ str_join sep (y # xs)"

text \<open>
  \<open>strings.Split\<close> on a one-byte separator; like Go it returns at least one field.
\<close>

fun str_split :: "char \<Rightarrow> string \<Rightarrow> string list" where
  "str_split c [] = [[]]"
| "str_split c (x # xs) =
     (if x = c then [] # str_split c xs
      else (case str_split c xs of [] \<Rightarrow> [[x]] | w # ws \<Rightarrow> (x # w) # ws))"

text \<open>
  \<open>strings.TrimSpace\<close> removes the runes for which \<open>unicode.IsSpace\<close> holds: the six ASCII
  blanks and the UTF-8 encodings of the other Unicode spaces.
\<close>

definition space_encodings :: "string list" where
  "space_encodings =
     [[CHR 0x09], [CHR 0x0A], [CHR 0x0B], [CHR 0x0C], [CHR 0x0D], [CHR 0x20],
      [CHR 0xC2, CHR 0x85], [CHR 0xC2, CHR 0xA0], [CHR 0xE1, CHR 0x9A, CHR 0x80],
      [CHR 0xE2, CHR 0x80, CHR 0x80], [CHR 0xE2, CHR 0x80, CHR 0x81],
      [CHR 0xE2, CHR 0x80, CHR 0x82], [CHR 0xE2, CHR 0x80, CHR 0x83],
      [CHR 0xE2, CHR 0x80, CHR 0x84], [CHR 0xE2, CHR 0x80, CHR 0x85],
      [CHR 0xE2, CHR 0x80, CHR 0x86], [CHR 0xE2, CHR 0x80, CHR 0x87],
      [CHR 0xE2, CHR 0x80, CHR 0x88], [CHR 0xE2, CHR 0x80, CHR 0x89],
      [CHR 0xE2, CHR 0x80, CHR 0x8A], [CHR 0xE2, CHR 0x80, CHR 0xA8],
      [CHR 0xE2, CHR 0x80, CHR 0xA9], [CHR 0xE2, CHR 0x80, CHR 0xAF],
      [CHR 0xE2, CHR 0x81, CHR 0x9F], [CHR 0xE3, CHR 0x80, CHR 0x80]]"

definition leading_space :: "string list \<Rightarrow> string \<Rightarrow> string option" where
  "leading_space encs s = find (has_prefix s) encs"

function trim_space_left :: "string list \<Rightarrow> string \<Rightarrow> string" where
  "trim_space_left encs s =
     (case leading_space encs s of
        None \<Rightarrow> s
      | Some e \<Rightarrow> (if e = [] \<or> s = [] then s else trim_space_left encs (drop (length e) s)))"
  by pat_completeness auto
termination
  by (relation "measure (\<lambda>(encs, s). length s)") auto

declare trim_space_left.simps [simp del]

definition trim_space :: "string \<Rightarrow> string" where
  "trim_space s =
     rev (trim_space_left (map rev space_encodings)
       (rev (trim_space_left space_encodings s)))"

text \<open>
  \<open>strings.TrimLeft\<close> and \<open>strings.TrimRight\<close> with a one-character cutset.
\<close>

definition trim_left :: "string \<Rightarrow> char \<Rightarrow> string" where
  "trim_left s c = dropWhile (\<lambda>x. x = c) s"

definition trim_right :: "string \<Rightarrow> char \<Rightarrow> string" where
  "trim_right s c = rev (dropWhile (\<lambda>x. x = c) (rev s))"

text \<open>The conversion \<open>int32(x)\<close>.\<close>

definition int32 :: "int \<Rightarrow> int" where
  "int32 x = (x + 2 ^ 31) mod 2 ^ 32 - 2 ^ 31"

text \<open>Character classes of the regular expressions in the sources.\<close>

definition is_digit :: "char \<Rightarrow> bool" where
  "is_digit c = (CHR ''0'' \<le> c \<and> c \<le> CHR ''9'')"

definition is_upper :: "char \<Rightarrow> bool" where
  "is_upper c = (CHR ''A'' \<le> c \<and> c \<le> CHR ''Z'')"

definition is_lower :: "char \<Rightarrow> bool" where
  "is_lower c = (CHR ''a'' \<le> c \<and> c \<le> CHR ''z'')"

abbreviation is_alnum :: "char \<Rightarrow> bool" where
  "is_alnum c \<equiv> is_digit c \<or> is_upper c \<or> is_lower c"

lemma has_prefix_append [simp]: "has_prefix (p @ s) p"
  by (simp add: has_prefix_def)

lemma has_prefix_iff: "has_prefix s p \<longleftrightarrow> (\<exists>r. s = p @ r)"
proof
  assume "has_prefix s p"
  then have "s = p @ drop (length p) s"
    unfolding has_prefix_def by (metis append_take_drop_id)
  then show "\<exists>r. s = p @ r" ..
qed auto

lemma has_prefix_Nil [simp]: "has_prefix s []"
  by (simp add: has_prefix_def)

lemma has_prefix_Cons [simp]:
  "has_prefix [] (c # p) = False"
  "has_prefix (d # s) (c # p) = (d = c \<and> has_prefix s p)"
  by (auto simp: has_prefix_def)

lemma trim_prefix_append [simp]: "trim_prefix (p @ s) p = s"
  by (simp add: trim_prefix_def)

lemma has_suffix_append [simp]: "has_suffix (s @ p) p"
  by (simp add: has_suffix_def)

lemma trim_suffix_append [simp]: "trim_suffix (s @ p) p = s"
  by (simp add: trim_suffix_def)

lemma str_index_SomeD:
  "str_index s p = Some i \<Longrightarrow> i + length p \<le> length s \<and> has_prefix (drop i s) p"
proof (induction s arbitrary: i)
  case Nil
  then show ?case by (simp split: if_splits)
next
  case (Cons c s)
  have "length p \<le> length (c # s)" if "has_prefix (c # s) p"
    using that by (auto simp: has_prefix_iff dest: arg_cong [where f = length])
  with Cons show ?case
    by (auto split: if_splits)
qed

lemma str_contains_Nil_pattern [simp]: "str_contains s []"
  by (cases s) (auto simp: str_contains_def)

lemma str_contains_iff: "str_contains s p \<longleftrightarrow> (\<exists>a b. s = a @ p @ b)"
proof
  assume "str_contains s p"
  then obtain i where "str_index s p = Some i" by (auto simp: str_contains_def)
  then have "has_prefix (drop i s) p" by (simp add: str_index_SomeD)
  then obtain r where "drop i s = p @ r" by (auto simp: has_prefix_iff)
  then have "s = take i s @ p @ r" by (metis append_take_drop_id)
  then show "\<exists>a b. s = a @ p @ b" by blast
next
  assume "\<exists>a b. s = a @ p @ b"
  then obtain a b where s: "s = a @ p @ b" by blast
  show "str_contains s p"
    unfolding s
  proof (induction a)
    case Nil
    have "has_prefix (p @ b) p" by simp
    then show ?case by (cases "p @ b") (auto simp: str_contains_def)
  next
    case (Cons x a)
    then show ?case by (auto simp: str_contains_def)
  qed
qed

section \<open>The first-occurrence loop\<close>

text \<open>
  The Go idiom \<open>if _, dup := seen[x]; !dup { seen[x] = ...; out = append(out, x) }\<close>.
\<close>

fun dedup :: "'a list \<Rightarrow> 'a list \<Rightarrow> 'a list" where
  "dedup seen [] = []"
| "dedup seen (x # xs) =
     (if x \<in> set seen then dedup seen xs else x # dedup (x # seen) xs)"

lemma set_dedup [simp, dedup_simps]: "set (dedup seen xs) = set xs - set seen"
  by (induction seen xs rule: dedup.induct) auto

lemma distinct_dedup [simp, dedup_simps]: "distinct (dedup seen xs)"
  by (induction seen xs rule: dedup.induct) auto

lemma dedup_Nil_iff [simp]: "dedup [] xs = [] \<longleftrightarrow> xs = []"
  by (metis set_empty2 set_dedup list.set(1) Diff_empty dedup.simps(1))

lemma sorted_sort_dedup: "sorted (sort_strings (dedup seen xs))"
  by simp

section \<open>Tables\<close>

text \<open>
  A database table is a list of rows. \<open>upd_where p f\<close> is \<open>UPDATE ... SET f WHERE p\<close> and
  returns the table; the rows an \<open>UPDATE ... RETURNING\<close> reports are those of
  \<open>filter p\<close>, updated.
\<close>

definition upd_where :: "('r \<Rightarrow> bool) \<Rightarrow> ('r \<Rightarrow> 'r) \<Rightarrow> 'r list \<Rightarrow> 'r list" where
  "upd_where p f t = map (\<lambda>r. if p r then f r else r) t"

definition count_where :: "('r \<Rightarrow> bool) \<Rightarrow> 'r list \<Rightarrow> nat" where
  "count_where p t = length (filter p t)"

lemma length_upd_where [simp, table_simps]: "length (upd_where p f t) = length t"
  by (simp add: upd_where_def)

lemma set_upd_where [table_simps]:
  "set (upd_where p f t) = (\<lambda>r. if p r then f r else r) ` set t"
  by (simp add: upd_where_def)

lemma map_upd_where [table_simps]:
  "(\<And>r. k (f r) = k r) \<Longrightarrow> map k (upd_where p f t) = map k t"
  by (simp add: upd_where_def)

lemma upd_where_none [table_simps]: "(\<And>r. r \<in> set t \<Longrightarrow> \<not> p r) \<Longrightarrow> upd_where p f t = t"
  by (induction t) (auto simp: upd_where_def)

lemma count_where_0_iff [table_simps]: "count_where p t = 0 \<longleftrightarrow> (\<forall>r\<in>set t. \<not> p r)"
  by (simp add: count_where_def filter_empty_conv)

lemma count_where_pos_iff [table_simps]: "0 < count_where p t \<longleftrightarrow> (\<exists>r\<in>set t. p r)"
  using count_where_0_iff [of p t] by auto

lemma find_SomeD: "find p xs = Some x \<Longrightarrow> x \<in> set xs \<and> p x"
  by (auto simp: find_Some_iff)

section \<open>Transition systems\<close>

text \<open>
  A component that promises an invariant: what holds initially and is kept by every step
  holds in every reachable state.
\<close>

locale invariant_system =
  fixes init :: "'s \<Rightarrow> bool"
    and step :: "'s \<Rightarrow> 's \<Rightarrow> bool"
    and inv :: "'s \<Rightarrow> bool"
  assumes inv_init: "init s \<Longrightarrow> inv s"
    and inv_step: "inv s \<Longrightarrow> step s t \<Longrightarrow> inv t"
begin

lemma inv_steps: "step\<^sup>*\<^sup>* s t \<Longrightarrow> inv s \<Longrightarrow> inv t"
  by (induction rule: rtranclp_induct) (auto intro: inv_step)

lemma inv_reachable: "init s \<Longrightarrow> step\<^sup>*\<^sup>* s t \<Longrightarrow> inv t"
  by (rule inv_steps) (auto intro: inv_init)

end

text \<open>
  A component with absorbing values: once \<open>final\<close> holds of the value at a key, no step
  changes that value again.
\<close>

locale absorbing_system =
  fixes step :: "'s \<Rightarrow> 's \<Rightarrow> bool"
    and val :: "'s \<Rightarrow> 'k \<Rightarrow> 'v option"
    and final :: "'v \<Rightarrow> bool"
  assumes absorb: "step s t \<Longrightarrow> val s k = Some v \<Longrightarrow> final v \<Longrightarrow> val t k = Some v"
begin

lemma absorb_steps: "step\<^sup>*\<^sup>* s t \<Longrightarrow> val s k = Some v \<Longrightarrow> final v \<Longrightarrow> val t k = Some v"
  by (induction rule: rtranclp_induct) (auto dest: absorb)

end

end
