(* ===== verification/Domain.thy ===== *)
theory Domain
  imports Prelude
begin

text \<open>
  The canonical in-memory types of \<open>server/pkg/domain/pipeline.go\<close>, one record per Go
  struct with all its fields, and the small decision functions of the package: the target
  environment of a job, the approval-timeout precedence, the log-archive policy
  (\<open>log_archive.go\<close>), approver references (\<open>approver_ref.go\<close>), plugin references and
  the names of synthetic notification jobs.

  Conventions: a pointer is an \<^typ>\<open>'a option\<close>; a Go map that the code ranges over is an
  association list in the order of one iteration; a float64 is its 64-bit pattern (no
  function modelled here computes with one); an \<open>int\<close> of a counter is \<^typ>\<open>int\<close>.
\<close>

section \<open>Leaf structs\<close>

record ResourceQuantities =
  rqCPU :: string
  rqMemory :: string

record ResourceSpec =
  rsRequests :: ResourceQuantities
  rsLimits :: ResourceQuantities

definition zero_quantities :: ResourceQuantities where
  "zero_quantities = \<lparr>rqCPU = [], rqMemory = []\<rparr>"

definition ResourceSpec_IsZero :: "ResourceSpec \<Rightarrow> bool" where
  "ResourceSpec_IsZero r = (rsRequests r = zero_quantities \<and> rsLimits r = zero_quantities)"

record Toleration =
  tolKey :: string
  tolOperator :: string
  tolValue :: string
  tolEffect :: string
  tolSeconds :: "int option"

record Service =
  svcName :: string
  svcImage :: string
  svcEnv :: smap
  svcCommand :: "string list"
  svcNodeSelector :: smap
  svcTolerations :: "Toleration list"

datatype NotificationTrigger =
  NotifyOnFailure | NotifyOnSuccess | NotifyOnAlways | NotifyOnCanceled | NotifyOther string

record Notification =
  ntOn :: NotificationTrigger
  ntUses :: string
  ntWith :: smap
  ntSecrets :: "string list"

datatype MaterialType = MaterialGit | MaterialUpstream | MaterialCron | MaterialManual

record GitMaterial =
  gmURL :: string
  gmBranch :: string
  gmEvents :: "string list"
  gmAutoRegisterWebhook :: bool
  gmSecretRef :: string
  gmPaths :: "string list"
  gmPollInterval :: duration

record UpstreamMaterial =
  umPipeline :: string
  umStage :: string
  umStatus :: string

record CronMaterial =
  cmExpression :: string

record Material =
  mtID :: string
  mtType :: MaterialType
  mtFingerprint :: string
  mtAutoUpdate :: bool
  mtImplicit :: bool
  mtGit :: "GitMaterial option"
  mtUpstream :: "UpstreamMaterial option"
  mtCron :: "CronMaterial option"

record PluginStep =
  psImage :: string
  psSettings :: smap

record Task =
  tkScript :: string
  tkPlugin :: "PluginStep option"

record Rule =
  rlIfExpr :: string
  rlWhen :: string
  rlChanges :: "string list"

record IDTokenSpec =
  idAud :: "string list"

record DeployTargetSpec =
  dtsCluster :: string
  dtsApplication :: string
  dtsNamespace :: string
  dtsSyncMode :: string

record DeploySpec =
  dpEnvironment :: string
  dpVersion :: string
  dpRevision :: string
  dpTarget :: "DeployTargetSpec option"

record ApprovalSpec =
  apApprovers :: "string list"
  apApproverGroups :: "string list"
  apRequired :: int
  apQuorumByLabel :: "(string \<times> int) list"
  apDescription :: string
  apTimeout :: duration

record CacheSpec =
  csKey :: string
  csPaths :: "string list"

record ArtifactDep =
  adFromJob :: string
  adFromPipeline :: string
  adPaths :: "string list"
  adDest :: string

record CoverageReportSpec =
  crPath :: string
  crFormat :: string
  crFailUnder :: "64 word"

section \<open>Jobs and pipelines\<close>

record Job =
  jName :: string
  jStage :: string
  jImage :: string
  jProfile :: string
  jCluster :: string
  jResources :: ResourceSpec
  jNeeds :: "string list"
  jTasks :: "Task list"
  jSettings :: smap
  jVariables :: smap
  jMatrix :: "(string \<times> string list) list"
  jRules :: "Rule list"
  jSecrets :: "string list"
  jTags :: "string list"
  jArtifactPaths :: "string list"
  jOptionalArtifactPaths :: "string list"
  jArtifactsWhen :: string
  jArtifactDeps :: "ArtifactDep list"
  jDocker :: bool
  jCache :: "CacheSpec list"
  jApproval :: "ApprovalSpec option"
  jCoverageReport :: "CoverageReportSpec option"
  jTestReports :: "string list"
  jOutputs :: smap
  jOutputMasks :: "(string \<times> bool) list"
  jIDTokens :: "(string \<times> IDTokenSpec) list"
  jDeploy :: "DeploySpec option"
  jEnvironment :: string

datatype Concurrency = ConcurrencyParallel | ConcurrencySerial | ConcurrencyOther string

datatype Supersede = SupersedeOff | SupersedeBranch | SupersedePipeline | SupersedeOther string

record Pipeline =
  plID :: string
  plProjectID :: string
  plName :: string
  plMaterials :: "Material list"
  plStages :: "string list"
  plJobs :: "Job list"
  plVariables :: smap
  plTemplate :: string
  plConcurrency :: Concurrency
  plSupersede :: Supersede
  plTriggerEvents :: "string list"
  plTriggerBranches :: "string list"
  plTriggerPaths :: "string list"
  plServices :: "Service list"
  plNotifications :: "Notification list option"

text \<open>The zero value of the Go struct \<open>Job\<close>, used to write concrete pipelines.\<close>

definition zero_job :: Job where
  "zero_job =
     \<lparr>jName = [], jStage = [], jImage = [], jProfile = [], jCluster = [],
      jResources = \<lparr>rsRequests = zero_quantities, rsLimits = zero_quantities\<rparr>,
      jNeeds = [], jTasks = [], jSettings = [], jVariables = [], jMatrix = [], jRules = [],
      jSecrets = [], jTags = [], jArtifactPaths = [], jOptionalArtifactPaths = [],
      jArtifactsWhen = [], jArtifactDeps = [], jDocker = False, jCache = [],
      jApproval = None, jCoverageReport = None, jTestReports = [], jOutputs = [],
      jOutputMasks = [], jIDTokens = [], jDeploy = None, jEnvironment = []\<rparr>"

definition zero_pipeline :: Pipeline where
  "zero_pipeline =
     \<lparr>plID = [], plProjectID = [], plName = [], plMaterials = [], plStages = [], plJobs = [],
      plVariables = [], plTemplate = [], plConcurrency = ConcurrencyOther [],
      plSupersede = SupersedeOther [], plTriggerEvents = [], plTriggerBranches = [],
      plTriggerPaths = [], plServices = [], plNotifications = None\<rparr>"

text \<open>\<open>Job.TargetEnvironment\<close>: the deploy marker's environment, else the bare one.\<close>

definition TargetEnvironment :: "Job \<Rightarrow> string" where
  "TargetEnvironment j =
     (case jDeploy j of
        Some d \<Rightarrow> (if dpEnvironment d \<noteq> [] then dpEnvironment d else jEnvironment j)
      | None \<Rightarrow> jEnvironment j)"

section \<open>Approval timeouts\<close>

definition ApprovalTimeoutNever :: duration where
  "ApprovalTimeoutNever = -1"

text \<open>
  \<open>EffectiveApprovalTimeout\<close>: \<open>None\<close> is the Go result \<open>(0, false)\<close>, "never expires".
\<close>

definition EffectiveApprovalTimeout :: "ApprovalSpec option \<Rightarrow> duration \<Rightarrow> duration option" where
  "EffectiveApprovalTimeout a serverDefault =
     (case a of
        None \<Rightarrow> None
      | Some sp \<Rightarrow>
          (if apTimeout sp = ApprovalTimeoutNever then None
           else if apTimeout sp > 0 then Some (apTimeout sp)
           else if serverDefault > 0 then Some serverDefault
           else None))"

section \<open>Log archive policy\<close>

datatype LogArchivePolicy =
  LogArchiveAuto | LogArchiveOn | LogArchiveOff | LogArchiveOther string

definition EffectiveLogArchive :: "LogArchivePolicy \<Rightarrow> bool option \<Rightarrow> bool \<Rightarrow> bool" where
  "EffectiveLogArchive global projectFlag hasStore =
     (case global of
        LogArchiveOff \<Rightarrow> False
      | LogArchiveOn \<Rightarrow>
          (case projectFlag of Some b \<Rightarrow> b \<and> hasStore | None \<Rightarrow> hasStore)
      | _ \<Rightarrow> (case projectFlag of Some b \<Rightarrow> b \<and> hasStore | None \<Rightarrow> hasStore))"

lemma EffectiveLogArchive_iff:
  "EffectiveLogArchive g f h \<longleftrightarrow> g \<noteq> LogArchiveOff \<and> f \<noteq> Some False \<and> h"
  by (cases g; cases f) (auto simp: EffectiveLogArchive_def)

section \<open>Approver references\<close>

definition ApproverSubjectPrefix :: string where
  "ApproverSubjectPrefix = ''sub:''"

definition ApproverSubjectRef :: "string \<Rightarrow> string \<Rightarrow> string" where
  "ApproverSubjectRef provider subject =
     (if provider = [] \<or> subject = [] then []
      else ApproverSubjectPrefix @ provider @ '':'' @ subject)"

datatype approver_error =
  SubjectShape | MissingProvider | MissingSubject | ProviderTooLong | SubjectTooLong
| SubjectBlankOrControl

text \<open>
  \<open>unicode.IsSpace\<close> or \<open>unicode.IsControl\<close> of some rune, on the bytes of the string: the
  ASCII and C1 controls (the latter encoded C2 80 .. C2 9F) and the Unicode spaces.
\<close>

fun has_c1_control :: "string \<Rightarrow> bool" where
  "has_c1_control (a # b # s) =
     ((of_char a = (0xC2 :: nat) \<and> 0x80 \<le> (of_char b :: nat) \<and> (of_char b :: nat) \<le> 0x9F)
      \<or> has_c1_control (b # s))"
| "has_c1_control _ = False"

definition has_blank_or_control :: "string \<Rightarrow> bool" where
  "has_blank_or_control s =
     (list_ex (\<lambda>c. (of_char c :: nat) < 32 \<or> (of_char c :: nat) = 127) s
      \<or> has_c1_control s \<or> list_ex (str_contains s) space_encodings)"

definition ValidateApproverRef :: "string \<Rightarrow> approver_error option" where
  "ValidateApproverRef entry =
     (if \<not> has_prefix entry ApproverSubjectPrefix then None
      else
        (let rest = drop (length ApproverSubjectPrefix) entry in
         case str_cut rest '':'' of
           None \<Rightarrow> Some SubjectShape
         | Some (provider, subject) \<Rightarrow>
             (if provider = [] then Some MissingProvider
              else if subject = [] then Some MissingSubject
              else if length provider > 64 then Some ProviderTooLong
              else if length subject > 255 then Some SubjectTooLong
              else if has_blank_or_control rest then Some SubjectBlankOrControl
              else None)))"

section \<open>Plugin references\<close>

datatype plugin_ref_error = UsesEmpty | UsesWhitespace string | UsesNoImage string | UsesNoVersion string

definition ResolvePluginRef :: "string \<Rightarrow> plugin_ref_error + string" where
  "ResolvePluginRef uses0 =
     (let uses = trim_space uses0 in
      if uses = [] then Inl UsesEmpty
      else if list_ex (\<lambda>c. c = CHR '' '' \<or> c = CHR 0x09 \<or> c = CHR 0x0A) uses
        then Inl (UsesWhitespace uses)
      else
        (case str_index uses ''@'' of
           None \<Rightarrow> Inr uses
         | Some at \<Rightarrow>
             (let base = take at uses; suffix = drop (at + 1) uses in
              if base = [] then Inl (UsesNoImage uses)
              else if suffix = [] then Inl (UsesNoVersion uses)
              else if has_prefix suffix ''sha256:'' then Inr uses
              else Inr (base @ '':'' @ suffix))))"

section \<open>Run statuses and causes\<close>

text \<open>
  \<open>RunStatus\<close> as the text columns of the run tables hold it; \<open>awaiting_approval\<close> is the
  status of an undecided approval gate.
\<close>

datatype RunStatus =
  StatusQueued | StatusRunning | StatusSuccess | StatusFailed | StatusCanceled
| StatusSkipped | StatusWaiting | StatusAwaitingApproval

definition NotificationStageName :: string where
  "NotificationStageName = ''_notifications''"

end
