(* ===== verification/NeedsGraph.thy ===== *)
theory NeedsGraph
  imports Domain
begin

text \<open>
  The apply-time checks of \<open>server/pkg/parser/parse_validate.go\<close> on the \<open>needs:\<close> graph:
  \<open>validateNeeds\<close> (self, unknown and forward references) and \<open>validateNoCycles\<close> (the
  three-colour depth-first search). The search is shown to accept exactly the acyclic
  graphs and to report a genuine closed walk otherwise.
\<close>

section \<open>The needs relation\<close>

text \<open>Go map construction in a loop: a later entry with the same key wins.\<close>

definition needs_of :: "Job list \<Rightarrow> string \<Rightarrow> string list option" where
  "needs_of jobs = map_of (rev (map (\<lambda>j. (jName j, jNeeds j)) jobs))"

definition job_named :: "Job list \<Rightarrow> string \<Rightarrow> Job option" where
  "job_named jobs = map_of (rev (map (\<lambda>j. (jName j, j)) jobs))"

definition needs_rel :: "Job list \<Rightarrow> (string \<times> string) set" where
  "needs_rel jobs = {(a, b). \<exists>ns. needs_of jobs a = Some ns \<and> b \<in> set ns}"

lemma dom_needs_of: "dom (needs_of jobs) = jName ` set jobs"
  by (auto simp: needs_of_def dom_map_of_conv_image_fst image_image)

lemma dom_job_named: "dom (job_named jobs) = jName ` set jobs"
  by (auto simp: job_named_def dom_map_of_conv_image_fst image_image)

lemma needs_of_job_named: "needs_of jobs n = map_option jNeeds (job_named jobs n)"
proof -
  have "map_of (map (\<lambda>j. (jName j, jNeeds j)) xs) n =
        map_option jNeeds (map_of (map (\<lambda>j. (jName j, j)) xs) n)" for xs
    by (induction xs) auto
  from this [of "rev jobs"] show ?thesis
    by (simp add: needs_of_def job_named_def rev_map)
qed

lemma job_named_SomeD: "job_named jobs n = Some j \<Longrightarrow> j \<in> set jobs \<and> jName j = n"
  by (auto simp: job_named_def dest: map_of_SomeD)

lemma job_named_distinct:
  "distinct (map jName jobs) \<Longrightarrow> j \<in> set jobs \<Longrightarrow> job_named jobs (jName j) = Some j"
  unfolding job_named_def by (rule map_of_is_SomeI) (auto simp: rev_map [symmetric] o_def)

lemma needs_relI:
  "distinct (map jName jobs) \<Longrightarrow> j \<in> set jobs \<Longrightarrow> n \<in> set (jNeeds j) \<Longrightarrow> (jName j, n) \<in> needs_rel jobs"
  by (auto simp: needs_rel_def needs_of_job_named job_named_distinct)

section \<open>validateNeeds\<close>

datatype needs_error =
  NeedsSelf string
| NeedsUnknown string string
| NeedsForward string string

definition stage_ordinal :: "string list \<Rightarrow> string \<Rightarrow> nat option" where
  "stage_ordinal stages = map_of (rev (zip stages [0..<length stages]))"

fun validate_deps :: "Job list \<Rightarrow> string list \<Rightarrow> Job \<Rightarrow> string list \<Rightarrow> needs_error option" where
  "validate_deps jobs stages j [] = None"
| "validate_deps jobs stages j (dep # deps) =
     (if dep = jName j then Some (NeedsSelf (jName j))
      else
        (case job_named jobs dep of
           None \<Rightarrow> Some (NeedsUnknown (jName j) dep)
         | Some target \<Rightarrow>
             (case (stage_ordinal stages (jStage j), stage_ordinal stages (jStage target)) of
                (Some myOrd, Some targetOrd) \<Rightarrow>
                  (if targetOrd > myOrd then Some (NeedsForward (jName j) dep)
                   else validate_deps jobs stages j deps)
              | _ \<Rightarrow> validate_deps jobs stages j deps)))"

fun validate_needs_loop :: "Job list \<Rightarrow> string list \<Rightarrow> Job list \<Rightarrow> needs_error option" where
  "validate_needs_loop jobs stages [] = None"
| "validate_needs_loop jobs stages (j # js) =
     (case validate_deps jobs stages j (jNeeds j) of
        Some e \<Rightarrow> Some e
      | None \<Rightarrow> validate_needs_loop jobs stages js)"

definition validateNeeds :: "Job list \<Rightarrow> string list \<Rightarrow> needs_error option" where
  "validateNeeds jobs stages = validate_needs_loop jobs stages jobs"

definition dep_ok :: "Job list \<Rightarrow> string list \<Rightarrow> Job \<Rightarrow> string \<Rightarrow> bool" where
  "dep_ok jobs stages j dep =
     (dep \<noteq> jName j \<and>
      (case job_named jobs dep of
         None \<Rightarrow> False
       | Some target \<Rightarrow>
           (case (stage_ordinal stages (jStage j), stage_ordinal stages (jStage target)) of
              (Some m, Some t) \<Rightarrow> t \<le> m
            | _ \<Rightarrow> True)))"

lemma validate_deps_None_iff:
  "validate_deps jobs stages j deps = None \<longleftrightarrow> (\<forall>dep\<in>set deps. dep_ok jobs stages j dep)"
  by (induction deps) (auto simp: dep_ok_def split: option.splits)

lemma validate_needs_loop_None_iff:
  "validate_needs_loop jobs stages js = None \<longleftrightarrow>
   (\<forall>j\<in>set js. \<forall>dep\<in>set (jNeeds j). dep_ok jobs stages j dep)"
  by (induction js) (simp_all add: validate_deps_None_iff [symmetric] split: option.split)

lemma validateNeeds_None_iff:
  "validateNeeds jobs stages = None \<longleftrightarrow>
   (\<forall>j\<in>set jobs. \<forall>dep\<in>set (jNeeds j). dep_ok jobs stages j dep)"
  by (simp add: validateNeeds_def validate_needs_loop_None_iff)

section \<open>validateNoCycles\<close>

datatype color = White | Gray | Black

text \<open>
  The closure \<open>visit\<close> inlined in the loops that call it. The top-level loop over the sorted
  names and the loop over the sorted dependencies of a node have the same body, so one
  function with the list still to visit models both: \<open>Inl c\<close> is the error with the trace
  \<open>c\<close>, \<open>Inr (color, stack)\<close> the state after the loop.
\<close>

definition back_edge_trace :: "string list \<Rightarrow> string \<Rightarrow> string list" where
  "back_edge_trace stack name = dropWhile (\<lambda>n. n \<noteq> name) stack @ [name]"

function visit_all ::
  "Job list \<Rightarrow> string list \<Rightarrow> (string \<Rightarrow> color) \<Rightarrow> string list \<Rightarrow>
   string list + (string \<Rightarrow> color) \<times> string list" where
  "visit_all jobs [] color stack = Inr (color, stack)"
| "visit_all jobs (name # rest) color stack =
     (case needs_of jobs name of
        None \<Rightarrow> visit_all jobs rest color stack
      | Some deps \<Rightarrow>
          (case color name of
             Black \<Rightarrow> visit_all jobs rest color stack
           | Gray \<Rightarrow> Inl (back_edge_trace stack name)
           | White \<Rightarrow>
               (case visit_all jobs (sort_strings deps) (color(name := Gray)) (stack @ [name]) of
                  Inl c \<Rightarrow> Inl c
                | Inr (color', stack') \<Rightarrow>
                    visit_all jobs rest (color'(name := Black)) (butlast stack'))))"
  by pat_completeness auto

definition white_names :: "Job list \<Rightarrow> (string \<Rightarrow> color) \<Rightarrow> string set" where
  "white_names jobs color = {n \<in> jName ` set jobs. color n = White}"

lemma finite_white_names [simp]: "finite (white_names jobs color)"
  by (simp add: white_names_def)

lemma visit_all_white:
  "visit_all_dom (jobs, ds, color, stack) \<Longrightarrow>
   visit_all jobs ds color stack = Inr (color', stack') \<Longrightarrow> color' n = White \<Longrightarrow> color n = White"
proof (induction arbitrary: color' stack' rule: visit_all.pinduct)
  case (1 jobs color stack)
  then show ?case by (simp add: visit_all.psimps)
next
  case (2 jobs name rest color stack)
  show ?case
  proof (cases "needs_of jobs name")
    case None
    with 2 show ?thesis by (simp add: visit_all.psimps)
  next
    case (Some deps)
    show ?thesis
    proof (cases "color name")
      case White
      obtain color1 stack1 where first:
          "visit_all jobs (sort_strings deps) (color(name := Gray)) (stack @ [name]) =
           Inr (color1, stack1)"
        and rest: "visit_all jobs rest (color1(name := Black)) (butlast stack1) =
           Inr (color', stack')"
        using 2(1) 2(6) Some White by (auto simp: visit_all.psimps split: sum.splits)
      have "(color1(name := Black)) n = White"
        using "2.IH"(3) [OF Some White first refl rest "2.prems"(2)] .
      then have "color1 n = White" and "n \<noteq> name" by (auto split: if_splits)
      with "2.IH"(2) [OF Some White first] show ?thesis by simp
    qed (use 2 Some in \<open>simp_all add: visit_all.psimps\<close>)
  qed
qed

lemma white_names_Gray:
  assumes "needs_of jobs name = Some deps" and "color name = White"
  shows "card (white_names jobs (color(name := Gray))) < card (white_names jobs color)"
proof -
  have "name \<in> white_names jobs color"
    using assms dom_needs_of [of jobs] by (auto simp: white_names_def)
  moreover have "white_names jobs (color(name := Gray)) = white_names jobs color - {name}"
    by (auto simp: white_names_def)
  ultimately show ?thesis
    by (simp only: card_Diff1_less finite_white_names)
qed

termination visit_all
proof (relation "inv_image (less_than <*lex*> less_than)
    (\<lambda>(jobs, ds, color, stack). (card (white_names jobs color), length ds))", goal_cases)
  case 1
  show ?case by (intro wf_inv_image wf_lex_prod wf_less_than)
next
  case (2 jobs name rest color stack)
  then show ?case by simp
next
  case (3 jobs name rest color stack deps)
  from white_names_Gray [of jobs name deps color] 3 show ?case by simp
next
  case (4 jobs name rest color stack deps st color' stack')
  have "(color(name := Gray)) n = White" if "color' n = White" for n
    using visit_all_white [OF 4(5)] 4(3,4) that by blast
  then have "white_names jobs (color'(name := Black)) \<subseteq> white_names jobs color"
    by (fastforce simp: white_names_def split: if_splits)
  then have "card (white_names jobs (color'(name := Black))) \<le> card (white_names jobs color)"
    by (intro card_mono) auto
  then show ?case by auto
next
  case (5 jobs name rest color stack deps)
  then show ?case by simp
qed

definition validateNoCycles :: "Job list \<Rightarrow> string list option" where
  "validateNoCycles jobs =
     (case visit_all jobs (sort_strings (map jName jobs)) (\<lambda>_. White) [] of
        Inl c \<Rightarrow> Some c
      | Inr _ \<Rightarrow> None)"


section \<open>Correctness of the search\<close>

abbreviation needs_walk :: "Job list \<Rightarrow> string list \<Rightarrow> bool" where
  "needs_walk jobs \<equiv> successively (\<lambda>a b. (a, b) \<in> needs_rel jobs)"

definition closed_walk :: "Job list \<Rightarrow> string list \<Rightarrow> bool" where
  "closed_walk jobs c = (2 \<le> length c \<and> hd c = last c \<and> needs_walk jobs c)"

definition blacks_ok :: "Job list \<Rightarrow> (string \<Rightarrow> color) \<Rightarrow> bool" where
  "blacks_ok jobs color =
     (\<forall>n. color n = Black \<longrightarrow>
        (n, n) \<notin> (needs_rel jobs)\<^sup>+ \<and>
        (\<forall>m. (n, m) \<in> needs_rel jobs \<longrightarrow> m \<in> jName ` set jobs \<longrightarrow> color m = Black))"

definition dfs_inv :: "Job list \<Rightarrow> (string \<Rightarrow> color) \<Rightarrow> string list \<Rightarrow> bool" where
  "dfs_inv jobs color stack =
     ((\<forall>n. color n = Gray \<longleftrightarrow> n \<in> set stack) \<and> needs_walk jobs stack \<and> blacks_ok jobs color)"

definition dfs_post ::
  "Job list \<Rightarrow> string list \<Rightarrow> (string \<Rightarrow> color) \<Rightarrow> string list \<Rightarrow>
   string list + (string \<Rightarrow> color) \<times> string list \<Rightarrow> bool" where
  "dfs_post jobs ds color stack r =
     (case r of
        Inl c \<Rightarrow> closed_walk jobs c
      | Inr (color', stack') \<Rightarrow>
          stack' = stack \<and> dfs_inv jobs color' stack \<and>
          (\<forall>n. color n = Black \<longrightarrow> color' n = Black) \<and>
          (\<forall>d\<in>set ds. d \<in> jName ` set jobs \<longrightarrow> color' d = Black))"

lemma needs_rel_source: "(a, b) \<in> needs_rel jobs \<Longrightarrow> a \<in> jName ` set jobs"
  using dom_needs_of [of jobs] by (auto simp: needs_rel_def)

lemma blacks_closed:
  assumes "(n, m) \<in> (needs_rel jobs)\<^sup>*" and "blacks_ok jobs color"
    and "color n = Black" and "m \<in> jName ` set jobs"
  shows "color m = Black"
  using assms
proof (induction rule: converse_rtrancl_induct)
  case (step y z)
  from step.hyps(2) step.prems(3) have "z \<in> jName ` set jobs"
    by (cases rule: converse_rtranclE) (auto intro: needs_rel_source)
  with step show ?case by (auto simp: blacks_ok_def)
qed

lemma back_edge_closed_walk:
  assumes "needs_walk jobs stack" and "name \<in> set stack"
    and "(last stack, name) \<in> needs_rel jobs"
  shows "closed_walk jobs (back_edge_trace stack name)"
proof -
  obtain a b where st: "stack = a @ name # b" and a: "name \<notin> set a"
    using split_list_first [OF assms(2)] by blast
  have dw: "dropWhile (\<lambda>n. n \<noteq> name) stack = name # b"
    unfolding st using a by (subst dropWhile_append2) auto
  have "needs_walk jobs ((name # b) @ [name])"
    using assms st by (simp only: successively_append_iff) (auto simp: successively_append_iff)
  then show ?thesis
    unfolding closed_walk_def back_edge_trace_def dw by simp
qed

lemma blacken:
  assumes inv: "dfs_inv jobs color (stack @ [name])" and nm: "needs_of jobs name = Some deps"
    and deps: "\<forall>d\<in>set deps. d \<in> jName ` set jobs \<longrightarrow> color d = Black"
    and fresh: "name \<notin> set stack"
  shows "dfs_inv jobs (color(name := Black)) stack"
proof -
  have bo: "blacks_ok jobs color" and gray: "color name = Gray"
    using inv by (auto simp: dfs_inv_def)
  have nin: "name \<in> jName ` set jobs"
    using nm dom_needs_of [of jobs] by auto
  have "(name, name) \<notin> (needs_rel jobs)\<^sup>+"
  proof
    assume "(name, name) \<in> (needs_rel jobs)\<^sup>+"
    then obtain m where m: "(name, m) \<in> needs_rel jobs" "(m, name) \<in> (needs_rel jobs)\<^sup>*"
      by (meson tranclD)
    then have "m \<in> jName ` set jobs"
      using nin by (metis converse_rtranclE needs_rel_source)
    with m(1) nm deps have "color m = Black" by (auto simp: needs_rel_def)
    with blacks_closed [OF m(2) bo _ nin] gray show False by simp
  qed
  moreover have "\<forall>m. (name, m) \<in> needs_rel jobs \<longrightarrow> m \<in> jName ` set jobs \<longrightarrow> color m = Black"
    using nm deps by (auto simp: needs_rel_def)
  ultimately have "blacks_ok jobs (color(name := Black))"
    using bo by (auto simp: blacks_ok_def)
  with inv fresh show ?thesis
    by (auto simp: dfs_inv_def successively_append_iff)
qed

lemma visit_all_post:
  assumes "dfs_inv jobs color stack" and "stack \<noteq> [] \<longrightarrow> (\<forall>d\<in>set ds. (last stack, d) \<in> needs_rel jobs)"
  shows "dfs_post jobs ds color stack (visit_all jobs ds color stack)"
  using assms
proof (induction jobs ds color stack rule: visit_all.induct)
  case (1 jobs color stack)
  then show ?case by (simp add: dfs_post_def)
next
  case (2 jobs name rest color stack)
  show ?case
  proof (cases "needs_of jobs name")
    case None
    then have "name \<notin> jName ` set jobs" using dom_needs_of [of jobs] by auto
    with 2 None show ?thesis by (auto simp: dfs_post_def split: sum.splits)
  next
    case (Some deps)
    show ?thesis
    proof (cases "color name")
      case Black
      with 2 Some show ?thesis by (auto simp: dfs_post_def split: sum.splits)
    next
      case Gray
      then have "name \<in> set stack" using 2 by (auto simp: dfs_inv_def)
      moreover from this have "(last stack, name) \<in> needs_rel jobs" using 2 by auto
      moreover have "needs_walk jobs stack" using 2 by (simp add: dfs_inv_def)
      ultimately show ?thesis
        using Some Gray by (simp add: dfs_post_def back_edge_closed_walk)
    next
      case White
      let ?v = "visit_all jobs (sort_strings deps) (color(name := Gray)) (stack @ [name])"
      have fresh: "name \<notin> set stack"
        using "2.prems"(1) White unfolding dfs_inv_def by (metis color.distinct(1))
      have pre: "dfs_inv jobs (color(name := Gray)) (stack @ [name])"
        using "2.prems" White by (auto simp: dfs_inv_def blacks_ok_def successively_append_iff)
      have edges: "\<forall>d\<in>set (sort_strings deps). (last (stack @ [name]), d) \<in> needs_rel jobs"
        using Some by (auto simp: needs_rel_def)
      have post: "dfs_post jobs (sort_strings deps) (color(name := Gray)) (stack @ [name]) ?v"
        using "2.IH"(2) [OF Some White pre] edges by blast
      show ?thesis
      proof (cases ?v)
        case (Inl c)
        with post Some White show ?thesis by (simp add: dfs_post_def)
      next
        case (Inr r)
        then obtain color1 where v: "?v = Inr (color1, stack @ [name])"
          and inv1: "dfs_inv jobs color1 (stack @ [name])"
          and mono1: "\<forall>n. (color(name := Gray)) n = Black \<longrightarrow> color1 n = Black"
          and deps1: "\<forall>d\<in>set deps. d \<in> jName ` set jobs \<longrightarrow> color1 d = Black"
          using post by (cases r) (auto simp: dfs_post_def)
        have inv2: "dfs_inv jobs (color1(name := Black)) stack"
          by (rule blacken [OF inv1 Some deps1 fresh])
        have "dfs_post jobs rest (color1(name := Black)) stack
                (visit_all jobs rest (color1(name := Black)) stack)"
          by (rule "2.IH"(3) [OF Some White v refl, unfolded butlast_snoc, OF inv2])
            (use "2.prems"(2) in simp)
        with Some White v mono1 show ?thesis
          by (auto simp: dfs_post_def split: sum.splits if_splits)
      qed
    qed
  qed
qed

lemma dfs_inv_init: "dfs_inv jobs (\<lambda>_. White) []"
  by (simp add: dfs_inv_def blacks_ok_def)

lemma closed_walk_cyclic:
  assumes "closed_walk jobs c" shows "\<not> acyclic (needs_rel jobs)"
proof -
  obtain a b c' where c: "c = a # b # c'"
    using assms by (cases c; cases "tl c") (auto simp: closed_walk_def)
  have "(a, last xs) \<in> (needs_rel jobs)\<^sup>+" if "needs_walk jobs (a # xs)" "xs \<noteq> []" for xs
    using that
  proof (induction xs rule: rev_induct)
    case (snoc x xs)
    then show ?case
      by (cases "xs = []") (auto simp: successively_append_iff successively_Cons
          intro: trancl_into_trancl)
  qed simp
  from this [of "b # c'"] assms show ?thesis
    by (auto simp: closed_walk_def c acyclic_def)
qed

lemma validateNoCycles_SomeD: "validateNoCycles jobs = Some c \<Longrightarrow> closed_walk jobs c"
  using visit_all_post [OF dfs_inv_init [of jobs], of "sort_strings (map jName jobs)"]
  by (auto simp: validateNoCycles_def dfs_post_def split: sum.splits)

lemma validateNoCycles_NoneD:
  assumes "validateNoCycles jobs = None" shows "acyclic (needs_rel jobs)"
proof -
  obtain color where inv: "dfs_inv jobs color []"
    and black: "\<forall>d\<in>jName ` set jobs. color d = Black"
    using assms visit_all_post [OF dfs_inv_init [of jobs], of "sort_strings (map jName jobs)"]
    by (auto simp: validateNoCycles_def dfs_post_def split: sum.splits)
  have "(n, n) \<notin> (needs_rel jobs)\<^sup>+" for n
  proof
    assume c: "(n, n) \<in> (needs_rel jobs)\<^sup>+"
    then have "n \<in> jName ` set jobs" by (meson needs_rel_source tranclD)
    with black inv c show False by (auto simp: dfs_inv_def blacks_ok_def)
  qed
  then show ?thesis by (auto simp: acyclic_def)
qed

lemma validateNoCycles_None_iff: "validateNoCycles jobs = None \<longleftrightarrow> acyclic (needs_rel jobs)"
  using validateNoCycles_NoneD [of jobs] validateNoCycles_SomeD [of jobs]
    closed_walk_cyclic [of jobs]
  by (cases "validateNoCycles jobs") auto

section \<open>Properties\<close>

text \<open>
  C12: \<open>validateNoCycles\<close> accepts exactly the acyclic needs graphs; when it rejects, the
  trace it reports is a genuine cycle: at least one edge, consecutive names are in the needs
  relation, and it ends where it starts.
\<close>

theorem needs_cycle_check:
  "case validateNoCycles jobs of
     None \<Rightarrow> acyclic (needs_rel jobs)
   | Some c \<Rightarrow> closed_walk jobs c \<and> \<not> acyclic (needs_rel jobs)"
  using validateNoCycles_NoneD validateNoCycles_SomeD closed_walk_cyclic
  by (cases "validateNoCycles jobs") (simp_all, blast)

end
