(* ===== verification/GateGraph.thy ===== *)
theory GateGraph
  imports NeedsGraph
begin

text \<open>
  The gate-governance graph of \<open>server/pkg/domain/gategraph.go\<close>: which approval gates
  must clear before a deploy, which environments a gate governs, and which gates are ready
  at the start of a run or after a stage. For pipelines that pass the parser's checks the
  must-pass-before relation is a strict order, so closest gates exist.
\<close>

section \<open>Lookups and transitive needs\<close>

text \<open>\<open>stageIndex\<close> read through a Go map: a missing stage reads as 0.\<close>

definition stageIndex :: "Pipeline \<Rightarrow> string \<Rightarrow> nat" where
  "stageIndex p s = (case stage_ordinal (plStages p) s of Some i \<Rightarrow> i | None \<Rightarrow> 0)"

definition byName :: "Pipeline \<Rightarrow> string \<Rightarrow> Job option" where
  "byName p = job_named (plJobs p)"

text \<open>
  The closure \<open>visit\<close> of \<open>transitivelyNeeds\<close>; the map \<open>seen\<close> is shared by all calls, so
  it is threaded through and returned.
\<close>

function tneeds_visit ::
  "Job list \<Rightarrow> string \<Rightarrow> string list \<Rightarrow> string set \<Rightarrow> bool \<times> string set" where
  "tneeds_visit jobs target [] seen = (False, seen)"
| "tneeds_visit jobs target (n # ns) seen =
     (if n = target then (True, seen)
      else if n \<in> seen then tneeds_visit jobs target ns seen
      else
        (case job_named jobs n of
           None \<Rightarrow> tneeds_visit jobs target ns (insert n seen)
         | Some child \<Rightarrow>
             (case tneeds_visit jobs target (jNeeds child) (insert n seen) of
                (True, seen') \<Rightarrow> (True, seen')
              | (False, seen') \<Rightarrow> tneeds_visit jobs target ns seen')))"
  by pat_completeness auto

definition unseen :: "Job list \<Rightarrow> string set \<Rightarrow> string set" where
  "unseen jobs seen = jName ` set jobs - seen"

lemma finite_unseen [simp]: "finite (unseen jobs seen)"
  by (simp add: unseen_def)

lemma card_unseen_mono: "s \<subseteq> t \<Longrightarrow> card (unseen jobs t) \<le> card (unseen jobs s)"
  by (rule card_mono) (auto simp: unseen_def)

lemma card_unseen_insert:
  assumes "job_named jobs n = Some j" and "n \<notin> seen"
  shows "card (unseen jobs (insert n seen)) < card (unseen jobs seen)"
proof -
  have "n \<in> unseen jobs seen"
    using assms job_named_SomeD [of jobs n j] by (auto simp: unseen_def)
  moreover have "unseen jobs (insert n seen) = unseen jobs seen - {n}"
    by (auto simp: unseen_def)
  ultimately show ?thesis by (simp only: card_Diff1_less finite_unseen)
qed

lemma tneeds_visit_seen:
  "tneeds_visit_dom (jobs, target, ns, seen) \<Longrightarrow>
   seen \<subseteq> snd (tneeds_visit jobs target ns seen)"
proof (induction rule: tneeds_visit.pinduct)
  case (2 jobs target n ns seen)
  note [simp] = tneeds_visit.psimps(2) [OF 2(1)]
  show ?case
  proof (cases "n = target \<or> n \<in> seen")
    case True
    with "2.IH"(1) show ?thesis by auto
  next
    case False
    then have new: "n \<noteq> target" "n \<notin> seen" by auto
    show ?thesis
    proof (cases "job_named jobs n")
      case None
      with "2.IH"(2) [OF new None] new show ?thesis by simp
    next
      case (Some child)
      obtain found seen' where r: "tneeds_visit jobs target (jNeeds child) (insert n seen) = (found, seen')"
        by fastforce
      from "2.IH"(3) [OF new Some] r have "seen \<subseteq> seen'" by simp
      with "2.IH"(4) [OF new Some r [symmetric]] r new Some show ?thesis
        by (cases found) auto
    qed
  qed
qed (simp add: tneeds_visit.psimps)

termination tneeds_visit
proof (relation "inv_image (less_than <*lex*> less_than)
    (\<lambda>(jobs, target, ns, seen). (card (unseen jobs seen), length ns))", goal_cases)
  case 1
  show ?case by (intro wf_inv_image wf_lex_prod wf_less_than)
next
  case (2 jobs target n ns seen)
  then show ?case by simp
next
  case (3 jobs target n ns seen)
  have "card (unseen jobs (insert n seen)) \<le> card (unseen jobs seen)"
    by (rule card_unseen_mono) auto
  then show ?case by auto
next
  case (4 jobs target n ns seen child)
  then show ?case using card_unseen_insert [of jobs n child seen] by simp
next
  case (5 jobs target n ns seen child found seen')
  have "insert n seen \<subseteq> seen'"
    using tneeds_visit_seen [OF 5(6)] 5(4,5) by (metis snd_conv)
  then have "card (unseen jobs seen') \<le> card (unseen jobs (insert n seen))"
    by (rule card_unseen_mono)
  also have "\<dots> < card (unseen jobs seen)"
    using 5 by (intro card_unseen_insert)
  finally show ?case by simp
qed

definition transitivelyNeeds :: "Pipeline \<Rightarrow> Job \<Rightarrow> string \<Rightarrow> bool" where
  "transitivelyNeeds p j target = fst (tneeds_visit (plJobs p) target (jNeeds j) {})"

definition precedes :: "Pipeline \<Rightarrow> Job \<Rightarrow> Job \<Rightarrow> bool" where
  "precedes p a b =
     (stageIndex p (jStage a) < stageIndex p (jStage b) \<or> transitivelyNeeds p b (jName a))"

section \<open>Governing gates\<close>

definition gates_before :: "Pipeline \<Rightarrow> Job \<Rightarrow> Job list" where
  "gates_before p d = filter (\<lambda>g. jApproval g \<noteq> None \<and> precedes p g d) (plJobs p)"

definition shadowed :: "Pipeline \<Rightarrow> Job list \<Rightarrow> Job \<Rightarrow> bool" where
  "shadowed p waits g = list_ex (\<lambda>g2. jName g2 \<noteq> jName g \<and> precedes p g g2) waits"

definition governingGatesForJob :: "Pipeline \<Rightarrow> Job \<Rightarrow> string list" where
  "governingGatesForJob p d =
     (let waits = gates_before p d in map jName (filter (\<lambda>g. \<not> shadowed p waits g) waits))"

text \<open>\<open>d.Deploy != nil && d.Deploy.Environment != ""\<close>, and the environment then.\<close>

definition deploy_env :: "Job \<Rightarrow> string option" where
  "deploy_env d =
     (case jDeploy d of
        None \<Rightarrow> None
      | Some sp \<Rightarrow> (if dpEnvironment sp = [] then None else Some (dpEnvironment sp)))"

text \<open>The nested loops that collect an environment once per governing gate.\<close>

definition collect_envs :: "(Job \<Rightarrow> string option) \<Rightarrow> Pipeline \<Rightarrow> string \<Rightarrow> string list" where
  "collect_envs env_of p gateName =
     dedup [] (concat (map (\<lambda>d.
       (case env_of d of
          None \<Rightarrow> []
        | Some e \<Rightarrow> map (\<lambda>_. e) (filter (\<lambda>g. g = gateName) (governingGatesForJob p d))))
       (plJobs p)))"

definition GovernedEnvs :: "Pipeline \<Rightarrow> string \<Rightarrow> string list" where
  "GovernedEnvs p gateName = sort_strings (collect_envs deploy_env p gateName)"

definition freeze_env :: "Job \<Rightarrow> string option" where
  "freeze_env d = (if TargetEnvironment d = [] then None else Some (TargetEnvironment d))"

definition GovernedFreezeEnvs :: "Pipeline \<Rightarrow> string \<Rightarrow> string list" where
  "GovernedFreezeEnvs p gateName = sort_strings (collect_envs freeze_env p gateName)"

definition GoverningGates :: "Pipeline \<Rightarrow> string \<Rightarrow> string list" where
  "GoverningGates p env =
     sort_strings (dedup [] (concat (map (\<lambda>d.
       (case jDeploy d of
          None \<Rightarrow> []
        | Some sp \<Rightarrow> (if dpEnvironment sp \<noteq> env then [] else governingGatesForJob p d)))
       (plJobs p))))"

section \<open>Ready gates\<close>

definition hasGovernedDeploy :: "Pipeline \<Rightarrow> bool" where
  "hasGovernedDeploy p = list_ex (\<lambda>j. deploy_env j \<noteq> None) (plJobs p)"

definition gateNeedsSatisfied :: "Pipeline \<Rightarrow> Job \<Rightarrow> int \<Rightarrow> bool" where
  "gateNeedsSatisfied p g completedOrdinal =
     list_all (\<lambda>n.
       (case byName p n of
          None \<Rightarrow> False
        | Some dep \<Rightarrow> int (stageIndex p (jStage dep)) \<le> completedOrdinal)) (jNeeds g)"

text \<open>The common tail of the two resolvers, on the gates that are ready.\<close>

definition ready_result :: "Pipeline \<Rightarrow> Job list \<Rightarrow> string list \<times> bool" where
  "ready_result p gates =
     (let envs = dedup [] (concat (map (\<lambda>j. GovernedEnvs p (jName j)) gates));
          ready = (gates \<noteq> []) in
      if ready \<and> envs = [] \<and> hasGovernedDeploy p then ([], False)
      else (sort_strings envs, ready))"

definition gates_ready_at_start :: "Pipeline \<Rightarrow> Job list" where
  "gates_ready_at_start p =
     filter (\<lambda>j. jApproval j \<noteq> None \<and> jStage j = hd (plStages p) \<and> jNeeds j = []) (plJobs p)"

definition ReadyGateEnvsAtStart :: "Pipeline \<Rightarrow> string list \<times> bool" where
  "ReadyGateEnvsAtStart p =
     (if plStages p = [] then ([], False) else ready_result p (gates_ready_at_start p))"

definition gates_ready_after :: "Pipeline \<Rightarrow> int \<Rightarrow> Job list" where
  "gates_ready_after p completedOrdinal =
     filter (\<lambda>j. jApproval j \<noteq> None \<and> jStage j = plStages p ! nat (completedOrdinal + 1)
       \<and> gateNeedsSatisfied p j completedOrdinal) (plJobs p)"

definition ReadyGateEnvsAfterStage :: "Pipeline \<Rightarrow> int \<Rightarrow> string list \<times> bool" where
  "ReadyGateEnvsAfterStage p completedOrdinal =
     (let nxt = completedOrdinal + 1 in
      if nxt \<le> 0 \<or> nxt \<ge> int (length (plStages p)) then ([], False)
      else ready_result p (gates_ready_after p completedOrdinal))"

section \<open>Correctness of the transitive search\<close>

definition tneeds_post ::
  "Job list \<Rightarrow> string \<Rightarrow> string list \<Rightarrow> string set \<Rightarrow> bool \<times> string set \<Rightarrow> bool" where
  "tneeds_post jobs target ns seen r =
     (if fst r then (\<exists>n\<in>set ns. (n, target) \<in> (needs_rel jobs)\<^sup>*)
      else
        seen \<union> set ns \<subseteq> snd r \<and> (target \<notin> seen \<longrightarrow> target \<notin> snd r) \<and>
        (\<forall>x\<in>snd r - seen. \<forall>y. (x, y) \<in> needs_rel jobs \<longrightarrow> y \<in> snd r))"

lemma needs_rel_job_named:
  "(x, y) \<in> needs_rel jobs \<longleftrightarrow> (\<exists>j. job_named jobs x = Some j \<and> y \<in> set (jNeeds j))"
  by (auto simp: needs_rel_def needs_of_job_named)

lemma tneeds_post_unknown:
  assumes "tneeds_post jobs target ns (insert n seen) r" and "n \<noteq> target"
    and "\<And>m. (n, m) \<notin> needs_rel jobs"
  shows "tneeds_post jobs target (n # ns) seen r"
proof (cases "fst r")
  case True
  with assms show ?thesis by (auto simp: tneeds_post_def)
next
  case False
  then have *: "insert n seen \<union> set ns \<subseteq> snd r" "target \<notin> insert n seen \<Longrightarrow> target \<notin> snd r"
    "\<forall>x\<in>snd r - insert n seen. \<forall>y. (x, y) \<in> needs_rel jobs \<longrightarrow> y \<in> snd r"
    using assms(1) unfolding tneeds_post_def by simp_all
  have "\<forall>x\<in>snd r - seen. \<forall>y. (x, y) \<in> needs_rel jobs \<longrightarrow> y \<in> snd r"
    using *(3) assms(3) by blast
  moreover have "seen \<union> set (n # ns) \<subseteq> snd r" using *(1) by auto
  ultimately show ?thesis
    using *(2) False assms(2) unfolding tneeds_post_def by (simp only: if_False) blast
qed

lemma tneeds_post_child:
  assumes "tneeds_post jobs target ns seen' r"
    and "tneeds_post jobs target ms (insert n seen) (False, seen')"
    and "\<And>m. (n, m) \<in> needs_rel jobs \<longleftrightarrow> m \<in> set ms" and "n \<noteq> target"
  shows "tneeds_post jobs target (n # ns) seen r"
proof (cases "fst r")
  case True
  with assms(1) show ?thesis by (auto simp: tneeds_post_def)
next
  case False
  then have *: "seen' \<union> set ns \<subseteq> snd r" "target \<notin> seen' \<Longrightarrow> target \<notin> snd r"
    "\<forall>x\<in>snd r - seen'. \<forall>y. (x, y) \<in> needs_rel jobs \<longrightarrow> y \<in> snd r"
    using assms(1) unfolding tneeds_post_def by simp_all
  have **: "insert n seen \<union> set ms \<subseteq> seen'" "target \<notin> insert n seen \<Longrightarrow> target \<notin> seen'"
    "\<forall>x\<in>seen' - insert n seen. \<forall>y. (x, y) \<in> needs_rel jobs \<longrightarrow> y \<in> seen'"
    using assms(2) unfolding tneeds_post_def by simp_all
  have "\<forall>x\<in>snd r - seen. \<forall>y. (x, y) \<in> needs_rel jobs \<longrightarrow> y \<in> snd r"
    using *(1,3) **(1,3) assms(3) by blast
  moreover have "seen \<union> set (n # ns) \<subseteq> snd r" using *(1) **(1) by auto
  ultimately show ?thesis
    using *(2) **(2) False assms(4) unfolding tneeds_post_def by (simp only: if_False) blast
qed

lemma tneeds_visit_post: "tneeds_post jobs target ns seen (tneeds_visit jobs target ns seen)"
proof (induction jobs target ns seen rule: tneeds_visit.induct)
  case (1 jobs target seen)
  then show ?case by (simp add: tneeds_post_def)
next
  case (2 jobs target n ns seen)
  show ?case
  proof (cases "n = target \<or> n \<in> seen")
    case True
    then show ?thesis
      using "2.IH"(1) by (cases "n = target") (auto simp: tneeds_post_def split: if_splits)
  next
    case False
    then have new: "n \<noteq> target" "n \<notin> seen" by auto
    show ?thesis
    proof (cases "job_named jobs n")
      case None
      then have "(n, m) \<notin> needs_rel jobs" for m by (simp add: needs_rel_job_named)
      moreover have "tneeds_visit jobs target (n # ns) seen =
          tneeds_visit jobs target ns (insert n seen)"
        using new None by simp
      ultimately show ?thesis
        using "2.IH"(2) [OF new None] new(1) tneeds_post_unknown by simp
    next
      case (Some child)
      obtain found seen' where
        r: "tneeds_visit jobs target (jNeeds child) (insert n seen) = (found, seen')"
        by fastforce
      have child: "(n, m) \<in> needs_rel jobs \<longleftrightarrow> m \<in> set (jNeeds child)" for m
        using Some by (auto simp: needs_rel_job_named)
      note p1 = "2.IH"(3) [OF new Some, unfolded r]
      show ?thesis
      proof (cases found)
        case True
        with p1 obtain m where "m \<in> set (jNeeds child)" "(m, target) \<in> (needs_rel jobs)\<^sup>*"
          by (auto simp: tneeds_post_def)
        with child have "(n, target) \<in> (needs_rel jobs)\<^sup>*"
          by (meson converse_rtrancl_into_rtrancl)
        with True new Some r show ?thesis by (auto simp: tneeds_post_def)
      next
        case False
        have "tneeds_visit jobs target (n # ns) seen = tneeds_visit jobs target ns seen'"
          using False new Some r by simp
        moreover have "tneeds_post jobs target ns seen' (tneeds_visit jobs target ns seen')"
          using "2.IH"(4) [OF new Some r [symmetric]] False by simp
        moreover have "tneeds_post jobs target (jNeeds child) (insert n seen) (False, seen')"
          using p1 False by simp
        ultimately show ?thesis
          using tneeds_post_child [OF _ _ child new(1)] by simp
      qed
    qed
  qed
qed

lemma transitivelyNeeds_iff:
  "transitivelyNeeds p j target \<longleftrightarrow>
   (\<exists>n\<in>set (jNeeds j). (n, target) \<in> (needs_rel (plJobs p))\<^sup>*)"
proof -
  obtain found seen where
    r: "tneeds_visit (plJobs p) target (jNeeds j) {} = (found, seen)" by fastforce
  note post = tneeds_visit_post [of "plJobs p" target "jNeeds j" "{}", unfolded r]
  have "m \<in> seen" if "(n, m) \<in> (needs_rel (plJobs p))\<^sup>*" "n \<in> set (jNeeds j)" "\<not> found" for n m
    using that post by (induction rule: rtrancl_induct) (auto simp: tneeds_post_def)
  with post r show ?thesis
    by (cases found) (auto simp: transitivelyNeeds_def tneeds_post_def)
qed

section \<open>Accepted pipelines\<close>

text \<open>
  What the parser guarantees of a pipeline before it is stored: job names are the keys of a
  Go map, every stage is declared, and both checks on \<open>needs:\<close> passed.
\<close>

definition stages_declared :: "Pipeline \<Rightarrow> bool" where
  "stages_declared p = list_all (\<lambda>j. jStage j \<in> set (plStages p)) (plJobs p)"

definition accepted :: "Pipeline \<Rightarrow> bool" where
  "accepted p =
     (distinct (map jName (plJobs p)) \<and> stages_declared p
      \<and> validateNeeds (plJobs p) (plStages p) = None \<and> validateNoCycles (plJobs p) = None)"

lemma stage_ordinal_declared: "s \<in> set stages \<Longrightarrow> \<exists>i. stage_ordinal stages s = Some i"
proof -
  assume "s \<in> set stages"
  then have "s \<in> dom (stage_ordinal stages)"
    by (simp add: stage_ordinal_def dom_map_of_conv_image_fst set_zip in_set_conv_nth)
      (force simp: image_iff)
  then show ?thesis by auto
qed

lemma stage_ordinal_nth: "distinct stages \<Longrightarrow> i < length stages \<Longrightarrow> stage_ordinal stages (stages ! i) = Some i"
  unfolding stage_ordinal_def
  by (rule map_of_is_SomeI)
    (auto simp: rev_map [symmetric] set_zip distinct_map intro: inj_onI)

lemma accepted_needs:
  assumes "accepted p" and "(a, b) \<in> needs_rel (plJobs p)" and "byName p a = Some ja"
  shows "\<exists>jb. byName p b = Some jb \<and> stageIndex p (jStage jb) \<le> stageIndex p (jStage ja)"
proof -
  have ja: "ja \<in> set (plJobs p)" "jName ja = a" and b: "b \<in> set (jNeeds ja)"
    using assms by (auto simp: byName_def needs_rel_job_named dest: job_named_SomeD)
  have ok: "dep_ok (plJobs p) (plStages p) ja b"
    using assms(1) ja b by (auto simp: accepted_def validateNeeds_None_iff)
  then obtain jb where jb: "job_named (plJobs p) b = Some jb"
    by (auto simp: dep_ok_def split: option.splits)
  have "jb \<in> set (plJobs p)" using jb by (auto dest: job_named_SomeD)
  then obtain i k where "stage_ordinal (plStages p) (jStage ja) = Some i"
    and "stage_ordinal (plStages p) (jStage jb) = Some k"
    using assms(1) ja stage_ordinal_declared
    by (force simp: accepted_def stages_declared_def list_all_iff)
  with ok jb show ?thesis
    by (simp add: dep_ok_def byName_def stageIndex_def)
qed

lemma accepted_needs_rtrancl:
  assumes "accepted p" and "(a, b) \<in> (needs_rel (plJobs p))\<^sup>*" and "byName p a = Some ja"
  shows "\<exists>jb. byName p b = Some jb \<and> stageIndex p (jStage jb) \<le> stageIndex p (jStage ja)"
  using assms(2)
proof (induction rule: rtrancl_induct)
  case (step b c)
  then show ?case using accepted_needs [OF assms(1), of b c] by (meson order_trans)
qed (use assms(3) in simp)

lemma accepted_byName: "accepted p \<Longrightarrow> j \<in> set (plJobs p) \<Longrightarrow> byName p (jName j) = Some j"
  by (simp add: accepted_def byName_def job_named_distinct)

lemma accepted_precedes_iff:
  assumes "accepted p" and "b \<in> set (plJobs p)"
  shows "precedes p a b \<longleftrightarrow>
    stageIndex p (jStage a) < stageIndex p (jStage b) \<or> (jName b, jName a) \<in> (needs_rel (plJobs p))\<^sup>+"
proof -
  have "n \<in> set (jNeeds b) \<longleftrightarrow> (jName b, n) \<in> needs_rel (plJobs p)" for n
    using accepted_byName [OF assms] by (auto simp: needs_rel_job_named byName_def)
  then show ?thesis
    by (auto simp: precedes_def transitivelyNeeds_iff dest: tranclD intro: rtrancl_into_trancl2)
qed

lemma accepted_precedes_stage:
  assumes "accepted p" and "a \<in> set (plJobs p)" "b \<in> set (plJobs p)" and "precedes p a b"
  shows "stageIndex p (jStage a) \<le> stageIndex p (jStage b)"
  using assms accepted_needs_rtrancl [OF assms(1), of "jName b" "jName a" b]
    accepted_byName [OF assms(1)]
  by (auto simp: accepted_precedes_iff dest: trancl_into_rtrancl)

section \<open>The must-pass-before order\<close>

text \<open>
  The contract the governing-gate logic relies on: on the elements of a well-formed
  structure, \<open>prec\<close> is a strict order. Then every element of a finite selection lies
  below (or is) a maximal one.
\<close>

locale strict_order_system =
  fixes ok :: "'p \<Rightarrow> bool"
    and elems :: "'p \<Rightarrow> 'a list"
    and prec :: "'p \<Rightarrow> 'a \<Rightarrow> 'a \<Rightarrow> bool"
  assumes prec_irrefl: "ok p \<Longrightarrow> a \<in> set (elems p) \<Longrightarrow> \<not> prec p a a"
    and prec_trans: "ok p \<Longrightarrow> a \<in> set (elems p) \<Longrightarrow> b \<in> set (elems p) \<Longrightarrow> c \<in> set (elems p) \<Longrightarrow>
      prec p a b \<Longrightarrow> prec p b c \<Longrightarrow> prec p a c"
begin

lemma prec_asym:
  "ok p \<Longrightarrow> a \<in> set (elems p) \<Longrightarrow> b \<in> set (elems p) \<Longrightarrow> prec p a b \<Longrightarrow> \<not> prec p b a"
  using prec_irrefl prec_trans by blast

lemma maximal_above:
  assumes "ok p" and "set w \<subseteq> set (elems p)" and "g \<in> set w"
  shows "\<exists>h\<in>set w. (h = g \<or> prec p g h) \<and> (\<forall>k\<in>set w. \<not> prec p h k)"
  using assms(3)
proof (induction "card {k \<in> set w. prec p g k}" arbitrary: g rule: less_induct)
  case less
  show ?case
  proof (cases "\<exists>k\<in>set w. prec p g k")
    case True
    then obtain k where k: "k \<in> set w" "prec p g k" by blast
    have "{m \<in> set w. prec p k m} \<subset> {m \<in> set w. prec p g m}"
      using k less.prems assms(1,2) prec_irrefl prec_trans by blast
    then have "card {m \<in> set w. prec p k m} < card {m \<in> set w. prec p g m}"
      by (intro psubset_card_mono) auto
    from less.hyps [OF this k(1)] obtain h where h: "h \<in> set w" "h = k \<or> prec p k h"
      "\<forall>m\<in>set w. \<not> prec p h m" by blast
    have "prec p g h"
      using h(1,2) k less.prems assms(1,2) prec_trans [of p g k h] by (metis subsetD)
    with h show ?thesis by blast
  qed (use less.prems in blast)
qed

end

text \<open>The converse of a strict order is one too, so minimal elements exist as well.\<close>

sublocale strict_order_system < dual: strict_order_system ok elems "\<lambda>p a b. prec p b a"
  by unfold_locales (auto dest: prec_irrefl intro: prec_trans)

interpretation gate_prec: strict_order_system accepted plJobs precedes
proof (unfold_locales, goal_cases)
  case (1 p a)
  then show ?case
    by (auto simp: accepted_precedes_iff accepted_def validateNoCycles_None_iff acyclic_def)
next
  case (2 p a b c)
  from 2 have "stageIndex p (jStage a) \<le> stageIndex p (jStage b)"
    "stageIndex p (jStage b) \<le> stageIndex p (jStage c)"
    by (auto intro: accepted_precedes_stage)
  with 2 show ?case
    by (auto simp: accepted_precedes_iff intro: trancl_trans)
qed

lemma gates_before_sub: "set (gates_before p d) \<subseteq> set (plJobs p)"
  by (auto simp: gates_before_def)

lemma not_shadowed_iff:
  assumes "accepted p" and "set waits \<subseteq> set (plJobs p)" and "g \<in> set waits"
  shows "\<not> shadowed p waits g \<longleftrightarrow> (\<forall>g2\<in>set waits. \<not> precedes p g g2)"
proof -
  have "g2 = g" if "g2 \<in> set waits" "jName g2 = jName g" for g2
    using that assms accepted_byName [OF assms(1)] by (metis option.inject subsetD)
  then show ?thesis
    using assms gate_prec.prec_irrefl [OF assms(1)] by (auto simp: shadowed_def list_ex_iff)
qed

lemma governing_iff:
  assumes "accepted p"
  shows "n \<in> set (governingGatesForJob p d) \<longleftrightarrow>
    (\<exists>g\<in>set (gates_before p d). jName g = n \<and> (\<forall>g2\<in>set (gates_before p d). \<not> precedes p g g2))"
  using not_shadowed_iff [OF assms gates_before_sub [of p d]]
  by (auto simp: governingGatesForJob_def Let_def)

lemma in_collect_envs:
  "e \<in> set (collect_envs f p gate) \<longleftrightarrow>
   (\<exists>d\<in>set (plJobs p). f d = Some e \<and> gate \<in> set (governingGatesForJob p d))"
proof -
  have "e \<in> set (case f d of None \<Rightarrow> [] | Some e \<Rightarrow> map (\<lambda>_. e) (filter (\<lambda>g. g = gate) gs)) \<longleftrightarrow>
      f d = Some e \<and> gate \<in> set gs" for d gs
    by (cases "f d") auto
  then show ?thesis by (simp add: collect_envs_def)
qed

lemma in_GoverningGates:
  "g \<in> set (GoverningGates p env) \<longleftrightarrow>
   (\<exists>d\<in>set (plJobs p). \<exists>sp. jDeploy d = Some sp \<and> dpEnvironment sp = env \<and>
      g \<in> set (governingGatesForJob p d))"
proof -
  have "g \<in> set (case jDeploy d of None \<Rightarrow> []
        | Some sp \<Rightarrow> if dpEnvironment sp \<noteq> env then [] else governingGatesForJob p d) \<longleftrightarrow>
      (\<exists>sp. jDeploy d = Some sp \<and> dpEnvironment sp = env \<and>
        g \<in> set (governingGatesForJob p d))" for d
    by (cases "jDeploy d") auto
  then show ?thesis
    by (simp only: GoverningGates_def set_sort set_dedup set_concat set_map list.set Diff_empty
        UN_iff bex_simps image_iff)
qed

section \<open>Properties\<close>

text \<open>
  C13: In an accepted pipeline the approval gates that must clear before a job are covered
  by its governing gates: each of them is a governing gate or must itself clear before one,
  so no gate is lost by shadowing; and no governing gate must clear before another gate of
  the same job, so only the closest ones govern.
\<close>

theorem governing_gates_closest:
  assumes "accepted p" and "g \<in> set (gates_before p d)"
  shows "(\<exists>h\<in>set (gates_before p d). jName h \<in> set (governingGatesForJob p d) \<and> (h = g \<or> precedes p g h)) \<and>
    (jName g \<in> set (governingGatesForJob p d) \<longleftrightarrow>
      (\<forall>h\<in>set (gates_before p d). \<not> precedes p g h))"
proof -
  have "\<exists>h\<in>set (gates_before p d). (h = g \<or> precedes p g h) \<and>
      (\<forall>k\<in>set (gates_before p d). \<not> precedes p h k)"
    by (rule gate_prec.maximal_above [OF assms(1) gates_before_sub assms(2)])
  moreover have "h = g" if "h \<in> set (gates_before p d)" "jName h = jName g" for h
    using that assms gates_before_sub [of p d] accepted_byName [OF assms(1)]
    by (metis option.inject subsetD)
  ultimately show ?thesis
    using assms(2) by (auto simp: governing_iff [OF assms(1)])
qed

text \<open>Among the unfinished jobs some job is first.\<close>

lemma accepted_progress:
  assumes "accepted p" and "j \<in> set (plJobs p)" and "jName j \<notin> finished"
  shows "\<exists>k\<in>set (plJobs p). jName k \<notin> finished \<and> set (jNeeds k) \<subseteq> finished \<and>
    (\<forall>e\<in>set (plJobs p). stageIndex p (jStage e) < stageIndex p (jStage k) \<longrightarrow> jName e \<in> finished)"
proof -
  let ?w = "filter (\<lambda>k. jName k \<notin> finished) (plJobs p)"
  have "\<exists>k\<in>set ?w. (k = j \<or> precedes p k j) \<and> (\<forall>e\<in>set ?w. \<not> precedes p e k)"
    by (rule gate_prec.dual.maximal_above) (use assms in auto)
  then obtain k where k: "k \<in> set (plJobs p)" "jName k \<notin> finished"
    and least: "\<And>e. e \<in> set (plJobs p) \<Longrightarrow> jName e \<notin> finished \<Longrightarrow> \<not> precedes p e k"
    by auto
  have "n \<in> finished" if "n \<in> set (jNeeds k)" for n
  proof -
    have "(jName k, n) \<in> needs_rel (plJobs p)"
      using assms(1) k(1) that by (auto simp: accepted_def intro: needs_relI)
    then obtain e where "byName p n = Some e"
      using accepted_needs [OF assms(1)] accepted_byName [OF assms(1) k(1)] by blast
    then have "e \<in> set (plJobs p)" "jName e = n"
      by (auto simp: byName_def dest: job_named_SomeD)
    with least [of e] that show ?thesis
      by (auto simp: precedes_def transitivelyNeeds_iff)
  qed
  with k least show ?thesis by (auto simp: precedes_def)
qed

text \<open>
  C11: The needs graph of an accepted pipeline cannot deadlock the dispatcher: whatever set of
  jobs has finished, if some job has not, then there is an unfinished job whose needs have
  all finished and whose earlier stages have all finished.
\<close>

theorem accepted_no_deadlock:
  assumes "accepted p" and "j \<in> set (plJobs p)" and "jName j \<notin> finished"
  shows "\<exists>k\<in>set (plJobs p). jName k \<notin> finished \<and> set (jNeeds k) \<subseteq> finished \<and>
    (\<forall>e\<in>set (plJobs p). stageIndex p (jStage e) < stageIndex p (jStage k) \<longrightarrow> jName e \<in> finished)"
  by (rule accepted_progress [OF assms])

text \<open>
  The two directions of the governance relation agree: an environment is governed by a
  gate exactly when the gate is among the environment's governing gates, so the lane
  supersede (keyed by gate) and the gate-pass marker (keyed by environment) see one relation.
\<close>

theorem governed_governing_dual:
  assumes "env \<noteq> []"
  shows "env \<in> set (GovernedEnvs p gate) \<longleftrightarrow> gate \<in> set (GoverningGates p env)"
  using assms
  by (auto simp: GovernedEnvs_def in_GoverningGates in_collect_envs deploy_env_def
      split: option.splits if_splits)

text \<open>
  \<open>GovernedEnvs\<close> and \<open>GovernedFreezeEnvs\<close> return sorted lists without repetition or
  the empty name, and every environment of the first is one of the second.
\<close>

theorem governed_envs_freeze:
  "set (GovernedEnvs p gate) \<subseteq> set (GovernedFreezeEnvs p gate)
   \<and> sorted (GovernedEnvs p gate) \<and> distinct (GovernedEnvs p gate)
   \<and> sorted (GovernedFreezeEnvs p gate) \<and> distinct (GovernedFreezeEnvs p gate)
   \<and> [] \<notin> set (GovernedFreezeEnvs p gate)"
proof -
  have "freeze_env d = Some e" if "deploy_env d = Some e" for d e
    using that by (auto simp: deploy_env_def freeze_env_def TargetEnvironment_def
        split: option.splits if_splits)
  then have "set (collect_envs deploy_env p gate) \<subseteq> set (collect_envs freeze_env p gate)"
    unfolding in_collect_envs subset_iff by blast
  moreover have "[] \<notin> set (collect_envs freeze_env p gate)"
    by (auto simp: in_collect_envs freeze_env_def split: if_splits)
  ultimately show ?thesis
    by (simp add: GovernedEnvs_def GovernedFreezeEnvs_def)
      (simp add: collect_envs_def)
qed

definition ready_gate :: "Pipeline \<Rightarrow> int \<Rightarrow> Job \<Rightarrow> bool" where
  "ready_gate p k g =
     (g \<in> set (plJobs p) \<and> jApproval g \<noteq> None \<and>
      (\<forall>j\<in>set (plJobs p). precedes p j g \<longrightarrow> int (stageIndex p (jStage j)) \<le> k))"

lemma gates_ready_after_sound:
  assumes "accepted p" and "distinct (plStages p)"
    and k: "0 \<le> k" "k + 1 < int (length (plStages p))" and g: "g \<in> set (gates_ready_after p k)"
  shows "ready_gate p k g"
proof -
  have mem: "g \<in> set (plJobs p)" "jApproval g \<noteq> None"
    and st: "jStage g = plStages p ! nat (k + 1)" and ns: "gateNeedsSatisfied p g k"
    using g by (auto simp: gates_ready_after_def)
  have idx: "int (stageIndex p (jStage g)) = k + 1"
    using st assms(2) k by (simp add: stageIndex_def stage_ordinal_nth)
  have "int (stageIndex p (jStage j)) \<le> k" if j: "j \<in> set (plJobs p)" and pr: "precedes p j g" for j
  proof (cases "stageIndex p (jStage j) < stageIndex p (jStage g)")
    case True
    with idx show ?thesis by linarith
  next
    case False
    with pr obtain n where n: "n \<in> set (jNeeds g)" "(n, jName j) \<in> (needs_rel (plJobs p))\<^sup>*"
      by (auto simp: precedes_def transitivelyNeeds_iff)
    then obtain dep where dep: "byName p n = Some dep" "int (stageIndex p (jStage dep)) \<le> k"
      using ns by (auto simp: gateNeedsSatisfied_def list_all_iff split: option.splits)
    from accepted_needs_rtrancl [OF assms(1) n(2) dep(1)] accepted_byName [OF assms(1) j] dep(2)
    show ?thesis by auto
  qed
  with mem show ?thesis by (auto simp: ready_gate_def)
qed

text \<open>
  When \<open>ReadyGateEnvsAfterStage\<close> reports readiness after stage \<open>k\<close> of an accepted
  pipeline, there is an approval gate all of whose predecessors lie in stages up to \<open>k\<close>,
  every reported environment is governed by such a gate, and an empty report (the whole-run
  scope) occurs only in a pipeline without deploy environments.
\<close>

theorem ready_gates_after_stage:
  assumes "accepted p" and "distinct (plStages p)" and "0 \<le> k"
    and "ReadyGateEnvsAfterStage p k = (envs, True)"
  shows "(\<exists>g. ready_gate p k g) \<and> (\<forall>e\<in>set envs. \<exists>g. ready_gate p k g \<and> e \<in> set (GovernedEnvs p (jName g)))
    \<and> (envs = [] \<longrightarrow> \<not> hasGovernedDeploy p)"
proof -
  have k: "k + 1 < int (length (plStages p))"
    and r: "ready_result p (gates_ready_after p k) = (envs, True)"
    using assms(4) by (auto simp: ReadyGateEnvsAfterStage_def Let_def split: if_splits)
  have sound: "ready_gate p k g" if "g \<in> set (gates_ready_after p k)" for g
    by (rule gates_ready_after_sound [OF assms(1,2,3) k that])
  from r have ne: "gates_ready_after p k \<noteq> []"
    and envs: "set envs = (\<Union>g\<in>set (gates_ready_after p k). set (GovernedEnvs p (jName g)))"
    and emp: "envs = [] \<longrightarrow> \<not> hasGovernedDeploy p"
    by (auto simp: ready_result_def Let_def split: if_splits dest: arg_cong [where f = length])
  from ne obtain g where "g \<in> set (gates_ready_after p k)"
    using hd_in_set by blast
  with sound envs emp show ?thesis by blast
qed

section \<open>Witnesses\<close>

text \<open>
  The pipeline of the source comment: build, approve-staging, deploy-staging, approve-prod,
  deploy-prod, in five stages.
\<close>

definition ex_gate :: "string \<Rightarrow> string \<Rightarrow> Job" where
  "ex_gate n s = zero_job \<lparr>jName := n, jStage := s,
     jApproval := Some \<lparr>apApprovers = [], apApproverGroups = [], apRequired = 1,
       apQuorumByLabel = [], apDescription = [], apTimeout = 0\<rparr>\<rparr>"

definition ex_deploy :: "string \<Rightarrow> string \<Rightarrow> string \<Rightarrow> Job" where
  "ex_deploy n s e = zero_job \<lparr>jName := n, jStage := s,
     jDeploy := Some \<lparr>dpEnvironment = e, dpVersion = [], dpRevision = [], dpTarget = None\<rparr>\<rparr>"

definition ex_pipeline :: Pipeline where
  "ex_pipeline = zero_pipeline
     \<lparr>plStages := [''build'', ''g1'', ''d1'', ''g2'', ''d2''],
      plJobs := [zero_job \<lparr>jName := ''compile'', jStage := ''build''\<rparr>,
        ex_gate ''approve-staging'' ''g1'', ex_deploy ''deploy-staging'' ''d1'' ''staging'',
        ex_gate ''approve-prod'' ''g2'' \<lparr>jNeeds := [''deploy-staging'']\<rparr>, ex_deploy ''deploy-prod'' ''d2'' ''prod'']\<rparr>"

lemma ex_pipeline_accepted: "accepted ex_pipeline"
  by code_simp

theorem governing_gates_closest_witness:
  "jName (ex_gate ''approve-prod'' ''g2'') \<in>
     set (governingGatesForJob ex_pipeline (ex_deploy ''deploy-prod'' ''d2'' ''prod''))"
proof -
  have "ex_gate ''approve-prod'' ''g2'' \<lparr>jNeeds := [''deploy-staging'']\<rparr> \<in>
      set (gates_before ex_pipeline (ex_deploy ''deploy-prod'' ''d2'' ''prod''))"
    by code_simp
  moreover have "\<forall>h\<in>set (gates_before ex_pipeline (ex_deploy ''deploy-prod'' ''d2'' ''prod'')).
      \<not> precedes ex_pipeline (ex_gate ''approve-prod'' ''g2'' \<lparr>jNeeds := [''deploy-staging'']\<rparr>) h"
    by code_simp
  ultimately have "jName (ex_gate ''approve-prod'' ''g2'' \<lparr>jNeeds := [''deploy-staging'']\<rparr>) \<in>
     set (governingGatesForJob ex_pipeline (ex_deploy ''deploy-prod'' ''d2'' ''prod''))"
    using governing_gates_closest [OF ex_pipeline_accepted] by blast
  then show ?thesis by simp
qed

theorem accepted_no_deadlock_witness:
  "\<exists>k\<in>set (plJobs ex_pipeline). jName k \<notin> {''compile'', ''approve-staging''} \<and>
     set (jNeeds k) \<subseteq> {''compile'', ''approve-staging''}"
proof -
  have "ex_deploy ''deploy-prod'' ''d2'' ''prod'' \<in> set (plJobs ex_pipeline)"
    and "jName (ex_deploy ''deploy-prod'' ''d2'' ''prod'') \<notin> {''compile'', ''approve-staging''}"
    by code_simp+
  from accepted_no_deadlock [OF ex_pipeline_accepted this] show ?thesis by blast
qed

theorem governed_governing_dual_witness:
  "''prod'' \<in> set (GovernedEnvs ex_pipeline ''approve-prod'') \<and>
   ''approve-prod'' \<in> set (GoverningGates ex_pipeline ''prod'')"
proof -
  have "''prod'' \<in> set (GovernedEnvs ex_pipeline ''approve-prod'')" by code_simp
  with governed_governing_dual [of "''prod''" ex_pipeline "''approve-prod''"] show ?thesis by simp
qed

theorem ready_gates_after_stage_witness:
  "\<exists>g. ready_gate ex_pipeline 2 g \<and> ''prod'' \<in> set (GovernedEnvs ex_pipeline (jName g))"
proof -
  have "ReadyGateEnvsAfterStage ex_pipeline 2 = ([''prod''], True)" by code_simp
  moreover have "distinct (plStages ex_pipeline)" by code_simp
  ultimately show ?thesis
    using ready_gates_after_stage [OF ex_pipeline_accepted, of 2 "[''prod'']"] by simp
qed

end
