(* ===== verification/GoChan.thy ===== *)
theory GoChan
  imports Prelude
begin

text \<open>
  Buffered Go channels, as the session store, the log batcher and the log broker use them:
  a non-blocking send (\<open>select\<close> with \<open>default\<close>), a receive and \<open>close\<close>. A send on a
  closed channel and a second \<open>close\<close> panic. The interface \<open>bounded_fifo\<close> is the contract
  the clients rely on.
\<close>

record 'a chan =
  ch_buf :: "'a list"
  ch_cap :: nat
  ch_closed :: bool

definition make_chan :: "nat \<Rightarrow> 'a chan" where
  "make_chan n = \<lparr>ch_buf = [], ch_cap = n, ch_closed = False\<rparr>"

datatype 'a send_result = SendPanic | SendFull | Sent "'a chan"

definition try_send :: "'a chan \<Rightarrow> 'a \<Rightarrow> 'a send_result" where
  "try_send c m =
     (if ch_closed c then SendPanic
      else if length (ch_buf c) < ch_cap c then Sent (c\<lparr>ch_buf := ch_buf c @ [m]\<rparr>)
      else SendFull)"

definition try_recv :: "'a chan \<Rightarrow> ('a \<times> 'a chan) option" where
  "try_recv c =
     (case ch_buf c of [] \<Rightarrow> None | m # ms \<Rightarrow> Some (m, c\<lparr>ch_buf := ms\<rparr>))"

text \<open>\<open>None\<close> is the panic "close of closed channel".\<close>

definition close_chan :: "'a chan \<Rightarrow> 'a chan option" where
  "close_chan c = (if ch_closed c then None else Some (c\<lparr>ch_closed := True\<rparr>))"

definition chan_ok :: "'a chan \<Rightarrow> bool" where
  "chan_ok c = (length (ch_buf c) \<le> ch_cap c)"

lemma chan_simps [simp]:
  "ch_buf (make_chan n) = []" "ch_cap (make_chan n) = n" "\<not> ch_closed (make_chan n)"
  "chan_ok (make_chan n)"
  by (simp_all add: make_chan_def chan_ok_def)

lemma try_send_Sent_iff:
  "try_send c m = Sent c' \<longleftrightarrow>
   \<not> ch_closed c \<and> length (ch_buf c) < ch_cap c \<and> c' = c\<lparr>ch_buf := ch_buf c @ [m]\<rparr>"
  by (auto simp: try_send_def)

lemma try_send_panic_iff [simp]: "try_send c m = SendPanic \<longleftrightarrow> ch_closed c"
  by (auto simp: try_send_def)

lemma try_send_full_iff:
  "try_send c m = SendFull \<longleftrightarrow> \<not> ch_closed c \<and> ch_cap c \<le> length (ch_buf c)"
  by (auto simp: try_send_def)

lemma try_recv_Some_iff:
  "try_recv c = Some (m, c') \<longleftrightarrow> ch_buf c = m # ch_buf c' \<and> c' = c\<lparr>ch_buf := ch_buf c'\<rparr>"
  by (auto simp: try_recv_def split: list.splits)

lemma close_chan_Some_iff: "close_chan c = Some c' \<longleftrightarrow> \<not> ch_closed c \<and> c' = c\<lparr>ch_closed := True\<rparr>"
  by (auto simp: close_chan_def)

section \<open>The contract of a bounded queue\<close>

text \<open>
  A bounded first-in first-out queue with a partial enqueue and a partial dequeue. The
  clients' facts: every run of operations delivers what was in the queue followed by what
  was accepted, in order and without loss, and never exceeds the capacity.
\<close>

locale bounded_fifo =
  fixes contents :: "'c \<Rightarrow> 'a list"
    and cap :: "'c \<Rightarrow> nat"
    and enq :: "'c \<Rightarrow> 'a \<Rightarrow> 'c option"
    and deq :: "'c \<Rightarrow> ('a \<times> 'c) option"
  assumes enq_contents: "enq c m = Some c' \<Longrightarrow> contents c' = contents c @ [m]"
    and enq_cap: "enq c m = Some c' \<Longrightarrow> cap c' = cap c \<and> length (contents c) < cap c"
    and deq_contents: "deq c = Some (m, c') \<Longrightarrow> contents c = m # contents c'"
    and deq_cap: "deq c = Some (m, c') \<Longrightarrow> cap c' = cap c"
begin

text \<open>One operation: \<open>Some m\<close> tries to enqueue, \<open>None\<close> tries to dequeue.\<close>

fun fifo_run :: "'c \<Rightarrow> 'a option list \<Rightarrow> 'a list \<times> 'a list \<times> 'c" where
  "fifo_run c [] = ([], [], c)"
| "fifo_run c (Some m # ops) =
     (case enq c m of
        None \<Rightarrow> fifo_run c ops
      | Some c1 \<Rightarrow> (case fifo_run c1 ops of (sent, got, c2) \<Rightarrow> (m # sent, got, c2)))"
| "fifo_run c (None # ops) =
     (case deq c of
        None \<Rightarrow> fifo_run c ops
      | Some (m, c1) \<Rightarrow> (case fifo_run c1 ops of (sent, got, c2) \<Rightarrow> (sent, m # got, c2)))"

lemma fifo_order:
  "fifo_run c ops = (sent, got, c') \<Longrightarrow> contents c @ sent = got @ contents c'"
proof (induction c ops arbitrary: sent got rule: fifo_run.induct)
  case (2 c m ops)
  then show ?case
    by (cases "enq c m") (fastforce split: prod.splits dest: enq_contents)+
next
  case (3 c ops)
  then show ?case
    by (auto split: option.splits prod.splits dest: deq_contents)
qed simp

lemma fifo_bounded:
  "fifo_run c ops = (sent, got, c') \<Longrightarrow> length (contents c) \<le> cap c \<Longrightarrow>
   length (contents c') \<le> cap c' \<and> cap c' = cap c"
proof (induction c ops arbitrary: sent got rule: fifo_run.induct)
  case (2 c m ops)
  show ?case
  proof (cases "enq c m")
    case None
    with 2 show ?thesis by simp
  next
    case (Some c1)
    with "2.prems" obtain sent1 where "fifo_run c1 ops = (sent1, got, c')"
      by (auto split: prod.splits)
    with "2.IH"(2) [OF Some] enq_cap [OF Some] enq_contents [OF Some] show ?thesis by simp
  qed
next
  case (3 c ops)
  show ?case
  proof (cases "deq c")
    case None
    with 3 show ?thesis by simp
  next
    case (Some mc)
    then obtain m c1 where d: "deq c = Some (m, c1)" by (cases mc) auto
    with "3.prems" obtain got1 where "fifo_run c1 ops = (sent, got1, c')"
      by (auto split: prod.splits)
    with "3.IH"(2) [OF d refl] "3.prems"(2) deq_cap [OF d] deq_contents [OF d] show ?thesis
      by simp
  qed
qed simp

end

definition chan_enq :: "'a chan \<Rightarrow> 'a \<Rightarrow> 'a chan option" where
  "chan_enq c m = (case try_send c m of Sent c' \<Rightarrow> Some c' | _ \<Rightarrow> None)"

interpretation go_chan: bounded_fifo ch_buf ch_cap chan_enq try_recv
  by unfold_locales
    (auto simp: chan_enq_def try_send_Sent_iff try_recv_Some_iff split: send_result.splits
      dest: arg_cong [where f = ch_cap])

end
