(* ===== verification/Sessions.thy ===== *)
theory Sessions
  imports GoChan "HOL-Library.AList"
begin

text \<open>
  The in-memory session store of \<open>server/internal/grpcsrv/sessions.go\<close>. Sessions are heap
  objects shared by the store, the Connect handlers and the reaper, so the model has an
  explicit heap (a list, the address is the index) and \<open>byID\<close> maps to addresses. Every
  operation is one function per critical section of the store mutex; the operations that
  release the mutex in the middle (\<open>RevokeForAgent\<close>, \<open>FenceStaleSession\<close>, \<open>Release\<close>)
  leave a pending continuation, so all interleavings are runs of the transition system. A
  panic (send on, or close of, a closed channel) is the result \<open>None\<close>.
\<close>

section \<open>State\<close>

datatype dispatch_error =
  ErrNoSession | ErrSessionBusy | ErrSessionRevoked | ErrConnectClaimed | ErrSessionDraining

datatype connState = stateRegistered | stateConnecting | stateReady

definition defaultSendBuffer :: nat where
  "defaultSendBuffer = 16"

text \<open>The \<open>oneof\<close> of the wire message, with opaque payloads.\<close>

datatype ServerMessage = MsgAssign string | MsgCancel string | MsgPong | MsgCleanup string

definition GetAssign :: "ServerMessage \<Rightarrow> bool" where
  "GetAssign m = (case m of MsgAssign _ \<Rightarrow> True | _ \<Rightarrow> False)"

record Session =
  ssID :: string
  ssAgentID :: uuid
  ssTags :: "string list"
  ssCapacity :: "32 word"
  ssEngine :: string
  ssGeneration :: "64 word"
  ssOut :: "ServerMessage chan"
  ssRunning :: "32 word"
  ssRevoked :: bool
  ssDraining :: bool
  ssDrainStartedAt :: gotime
  ssState :: connState
  ssSuperseded :: bool
  ssAssigned :: "uuid \<Rightarrow> 32 word option"

type_synonym sess_ref = nat

record SessionStore =
  stHeap :: "Session list"
  stByID :: "string \<Rightarrow> sess_ref option"
  stLatestByAg :: "(uuid \<times> string) list"
  stOnReady :: bool
  stReadyFired :: nat
  stAgentsOnline :: nat

definition NewSessionStore :: SessionStore where
  "NewSessionStore =
     \<lparr>stHeap = [], stByID = (\<lambda>_. None), stLatestByAg = [], stOnReady = False,
      stReadyFired = 0, stAgentsOnline = 0\<rparr>"

definition sess_at :: "SessionStore \<Rightarrow> sess_ref \<Rightarrow> Session" where
  "sess_at s r = stHeap s ! r"

definition upd_sess :: "sess_ref \<Rightarrow> (Session \<Rightarrow> Session) \<Rightarrow> SessionStore \<Rightarrow> SessionStore" where
  "upd_sess r f s = s\<lparr>stHeap := (stHeap s)[r := f (stHeap s ! r)]\<rparr>"

definition latest_ref :: "SessionStore \<Rightarrow> uuid \<Rightarrow> sess_ref option" where
  "latest_ref s ag = Option.bind (map_of (stLatestByAg s) ag) (stByID s)"

section \<open>Methods of a session\<close>

definition RecordAssignment :: "uuid \<Rightarrow> 32 word \<Rightarrow> Session \<Rightarrow> Session" where
  "RecordAssignment job attempt x = x\<lparr>ssAssigned := (ssAssigned x)(job \<mapsto> attempt)\<rparr>"

text \<open>\<open>sync.Map.LoadOrStore\<close>: the value found, if any, and the map afterwards.\<close>

definition LoadOrStore ::
  "('k \<Rightarrow> 'v option) \<Rightarrow> 'k \<Rightarrow> 'v \<Rightarrow> 'v option \<times> ('k \<Rightarrow> 'v option)" where
  "LoadOrStore m k v = (case m k of Some w \<Rightarrow> (Some w, m) | None \<Rightarrow> (None, m(k \<mapsto> v)))"

definition RecordAssignmentCAS :: "uuid \<Rightarrow> 32 word \<Rightarrow> Session \<Rightarrow> Session \<times> bool" where
  "RecordAssignmentCAS job attempt x =
     (case LoadOrStore (ssAssigned x) job attempt of
        (None, m) \<Rightarrow> (x\<lparr>ssAssigned := m\<rparr>, True)
      | (Some old, m) \<Rightarrow> (x\<lparr>ssAssigned := m\<rparr>, old = attempt))"

datatype recordResult = recordFresh | recordDuplicate | recordConflict

definition recordAssignmentResult :: "uuid \<Rightarrow> 32 word \<Rightarrow> Session \<Rightarrow> Session \<times> recordResult" where
  "recordAssignmentResult job attempt x =
     (case LoadOrStore (ssAssigned x) job attempt of
        (None, m) \<Rightarrow> (x\<lparr>ssAssigned := m\<rparr>, recordFresh)
      | (Some old, m) \<Rightarrow>
          (x\<lparr>ssAssigned := m\<rparr>, if old = attempt then recordDuplicate else recordConflict))"

definition LookupAssignment :: "Session \<Rightarrow> uuid \<Rightarrow> 32 word option" where
  "LookupAssignment x job = ssAssigned x job"

definition ClearAssignment :: "uuid \<Rightarrow> Session \<Rightarrow> Session" where
  "ClearAssignment job x = x\<lparr>ssAssigned := (ssAssigned x)(job := None)\<rparr>"

definition sess_ready :: "Session \<Rightarrow> bool" where
  "sess_ready x = (ssState x = stateReady)"

text \<open>\<open>atomic.Int32.Add\<close> wraps.\<close>

definition IncRunning :: "Session \<Rightarrow> Session" where
  "IncRunning x = x\<lparr>ssRunning := ssRunning x + 1\<rparr>"

definition DecRunning :: "Session \<Rightarrow> Session" where
  "DecRunning x = x\<lparr>ssRunning := ssRunning x - 1\<rparr>"

section \<open>Operations of the store\<close>

definition readyCountLocked :: "SessionStore \<Rightarrow> nat" where
  "readyCountLocked s =
     length (filter (\<lambda>(ag, i).
       (case stByID s i of
          None \<Rightarrow> False
        | Some r \<Rightarrow> \<not> ssRevoked (sess_at s r) \<and> sess_ready (sess_at s r))) (stLatestByAg s))"

definition set_gauge :: "SessionStore \<Rightarrow> SessionStore" where
  "set_gauge s = s\<lparr>stAgentsOnline := readyCountLocked s\<rparr>"

definition new_session ::
  "string \<Rightarrow> uuid \<Rightarrow> string list \<Rightarrow> 32 word \<Rightarrow> 64 word \<Rightarrow> string \<Rightarrow> Session" where
  "new_session sid ag tags capacity generation engine =
     \<lparr>ssID = sid, ssAgentID = ag, ssTags = tags,
      ssCapacity = (if sint capacity \<le> 0 then 1 else capacity), ssEngine = engine,
      ssGeneration = generation, ssOut = make_chan defaultSendBuffer, ssRunning = 0,
      ssRevoked = False, ssDraining = False, ssDrainStartedAt = 0,
      ssState = stateRegistered, ssSuperseded = False, ssAssigned = (\<lambda>_. None)\<rparr>"

text \<open>The block of \<open>CreateSession\<close> that supersedes the agent's previous session.\<close>

definition retire_previous :: "SessionStore \<Rightarrow> uuid \<Rightarrow> SessionStore option" where
  "retire_previous s ag =
     (case map_of (stLatestByAg s) ag of
        None \<Rightarrow> Some s
      | Some prev \<Rightarrow>
          (case stByID s prev of
             None \<Rightarrow> Some (s\<lparr>stByID := (stByID s)(prev := None)\<rparr>)
           | Some r \<Rightarrow>
               (case close_chan (ssOut (sess_at s r)) of
                  None \<Rightarrow> None
                | Some c \<Rightarrow>
                    Some ((upd_sess r (\<lambda>x. x\<lparr>ssSuperseded := True, ssRevoked := True, ssOut := c\<rparr>) s)
                      \<lparr>stByID := (stByID s)(prev := None)\<rparr>))))"

text \<open>
  \<open>sid\<close> is the value \<open>uuid.NewString()\<close> returns. The result is the store and the address
  of the new session.
\<close>

definition CreateSession ::
  "string \<Rightarrow> uuid \<Rightarrow> string list \<Rightarrow> 32 word \<Rightarrow> 64 word \<Rightarrow> string \<Rightarrow> SessionStore \<Rightarrow>
   (SessionStore \<times> sess_ref) option" where
  "CreateSession sid ag tags capacity generation engine s =
     (case retire_previous s ag of
        None \<Rightarrow> None
      | Some s1 \<Rightarrow>
          (let r = length (stHeap s1) in
           Some (set_gauge (s1\<lparr>
             stHeap := stHeap s1 @ [new_session sid ag tags capacity generation engine],
             stByID := (stByID s1)(sid \<mapsto> r),
             stLatestByAg := AList.update ag sid (stLatestByAg s1)\<rparr>), r)))"

definition Create :: "string \<Rightarrow> uuid \<Rightarrow> SessionStore \<Rightarrow> (SessionStore \<times> string) option" where
  "Create sid ag s =
     map_option (\<lambda>(s', r). (s', ssID (sess_at s' r))) (CreateSession sid ag [] 1 0 [] s)"

definition SetOnSessionReady :: "bool \<Rightarrow> SessionStore \<Rightarrow> SessionStore" where
  "SetOnSessionReady fn s = s\<lparr>stOnReady := fn\<rparr>"

definition Lookup :: "SessionStore \<Rightarrow> string \<Rightarrow> sess_ref option" where
  "Lookup s sid = stByID s sid"

definition Revoke :: "string \<Rightarrow> SessionStore \<Rightarrow> SessionStore option" where
  "Revoke sid s =
     (case stByID s sid of
        None \<Rightarrow> Some s
      | Some r \<Rightarrow>
          (let x = sess_at s r;
               closed = (if ssRevoked x then Some (ssOut x) else close_chan (ssOut x)) in
           case closed of
             None \<Rightarrow> None
           | Some c \<Rightarrow>
               Some (set_gauge ((upd_sess r (\<lambda>x. x\<lparr>ssRevoked := True, ssOut := c\<rparr>) s)
                 \<lparr>stByID := (stByID s)(sid := None),
                  stLatestByAg :=
                    (if map_of (stLatestByAg s) (ssAgentID x) = Some sid
                     then AList.delete (ssAgentID x) (stLatestByAg s)
                     else stLatestByAg s)\<rparr>))))"

text \<open>
  Continuations of the operations that drop the mutex between their lookup and their effect.
\<close>

datatype pending =
  PendSupersede "sess_ref option" string
| PendRevoke string
| PendFence string "64 word"
| PendDec sess_ref

definition run_pending :: "pending \<Rightarrow> SessionStore \<Rightarrow> (SessionStore \<times> pending list) option" where
  "run_pending p s =
     (case p of
        PendSupersede ro sid \<Rightarrow>
          Some ((case ro of Some r \<Rightarrow> upd_sess r (\<lambda>x. x\<lparr>ssSuperseded := True\<rparr>) s | None \<Rightarrow> s),
            [PendRevoke sid])
      | PendRevoke sid \<Rightarrow> map_option (\<lambda>s'. (s', [])) (Revoke sid s)
      | PendFence sid _ \<Rightarrow> map_option (\<lambda>s'. (s', [])) (Revoke sid s)
      | PendDec r \<Rightarrow> Some (upd_sess r DecRunning s, []))"

definition RevokeForAgent :: "uuid \<Rightarrow> SessionStore \<Rightarrow> pending list" where
  "RevokeForAgent ag s =
     (case map_of (stLatestByAg s) ag of
        None \<Rightarrow> []
      | Some sid \<Rightarrow> [PendSupersede (stByID s sid) sid])"

datatype FenceResult = FenceResultRevoked | FenceResultNoSession | FenceResultGenerationChanged

definition FenceStaleSession ::
  "uuid \<Rightarrow> 64 word \<Rightarrow> SessionStore \<Rightarrow> FenceResult \<times> pending list" where
  "FenceStaleSession ag observedGeneration s =
     (case map_of (stLatestByAg s) ag of
        None \<Rightarrow> (FenceResultNoSession, [])
      | Some sid \<Rightarrow>
          (case stByID s sid of
             None \<Rightarrow> (FenceResultNoSession, [])
           | Some r \<Rightarrow>
               (if ssGeneration (sess_at s r) \<noteq> observedGeneration
                then (FenceResultGenerationChanged, [])
                else (FenceResultRevoked, [PendFence sid observedGeneration]))))"

definition IsAgentSuperseded :: "SessionStore \<Rightarrow> uuid \<Rightarrow> string \<Rightarrow> bool" where
  "IsAgentSuperseded s ag closing =
     (case map_of (stLatestByAg s) ag of None \<Rightarrow> False | Some latest \<Rightarrow> latest \<noteq> closing)"

definition ClaimConnect ::
  "string \<Rightarrow> SessionStore \<Rightarrow> SessionStore \<times> (dispatch_error + sess_ref)" where
  "ClaimConnect sid s =
     (case stByID s sid of
        None \<Rightarrow> (s, Inl ErrNoSession)
      | Some r \<Rightarrow>
          (let x = sess_at s r in
           if ssRevoked x then (s, Inl ErrNoSession)
           else if map_of (stLatestByAg s) (ssAgentID x) \<noteq> Some sid then (s, Inl ErrNoSession)
           else if ssState x \<noteq> stateRegistered then (s, Inl ErrConnectClaimed)
           else (upd_sess r (\<lambda>x. x\<lparr>ssState := stateConnecting\<rparr>) s, Inr r)))"

definition MarkReady :: "string \<Rightarrow> SessionStore \<Rightarrow> SessionStore \<times> dispatch_error option" where
  "MarkReady sid s =
     (case stByID s sid of
        None \<Rightarrow> (s, Some ErrNoSession)
      | Some r \<Rightarrow>
          (let x = sess_at s r in
           if ssRevoked x then (s, Some ErrNoSession)
           else if ssState x \<noteq> stateConnecting then (s, Some ErrNoSession)
           else
             (let s1 = set_gauge (upd_sess r (\<lambda>x. x\<lparr>ssState := stateReady\<rparr>) s) in
              (if stOnReady s1 then s1\<lparr>stReadyFired := Suc (stReadyFired s1)\<rparr> else s1, None))))"

text \<open>The successful arm of the non-blocking send that both dispatch operations end in.\<close>

definition send_on :: "sess_ref \<Rightarrow> ServerMessage \<Rightarrow> ServerMessage chan \<Rightarrow> SessionStore \<Rightarrow> SessionStore" where
  "send_on r msg c s =
     upd_sess r (\<lambda>x. (if GetAssign msg then IncRunning else id) (x\<lparr>ssOut := c\<rparr>)) s"

definition Dispatch ::
  "uuid \<Rightarrow> ServerMessage \<Rightarrow> SessionStore \<Rightarrow> (SessionStore \<times> dispatch_error option) option" where
  "Dispatch ag msg s =
     (case latest_ref s ag of
        None \<Rightarrow> Some (s, Some ErrNoSession)
      | Some r \<Rightarrow>
          (if ssRevoked (sess_at s r) then Some (s, Some ErrNoSession)
           else
             (case try_send (ssOut (sess_at s r)) msg of
                SendPanic \<Rightarrow> None
              | Sent c \<Rightarrow> Some (send_on r msg c s, None)
              | SendFull \<Rightarrow> Some (s, Some ErrSessionBusy))))"

definition DispatchAssignment ::
  "uuid \<Rightarrow> ServerMessage \<Rightarrow> uuid \<Rightarrow> 32 word \<Rightarrow> SessionStore \<Rightarrow>
   (SessionStore \<times> dispatch_error option) option" where
  "DispatchAssignment ag msg job attempt s =
     (case latest_ref s ag of
        None \<Rightarrow> Some (s, Some ErrNoSession)
      | Some r \<Rightarrow>
          (let x = sess_at s r in
           if ssRevoked x then Some (s, Some ErrNoSession)
           else if \<not> sess_ready x then Some (s, Some ErrNoSession)
           else if ssDraining x then Some (s, Some ErrSessionDraining)
           else
             (let (x1, res) = recordAssignmentResult job attempt x;
                  s1 = upd_sess r (\<lambda>_. x1) s in
              case res of
                recordConflict \<Rightarrow> Some (s1, Some ErrSessionBusy)
              | recordDuplicate \<Rightarrow> Some (s1, None)
              | recordFresh \<Rightarrow>
                  (case try_send (ssOut x1) msg of
                     SendPanic \<Rightarrow> None
                   | Sent c \<Rightarrow> Some (send_on r msg c s1, None)
                   | SendFull \<Rightarrow>
                       Some (if LookupAssignment x1 job = Some attempt
                             then upd_sess r (ClearAssignment job) s1 else s1,
                             Some ErrSessionBusy)))))"

definition AllAgentIDs :: "SessionStore \<Rightarrow> string \<Rightarrow> uuid list" where
  "AllAgentIDs s engineFilter =
     map fst (filter (\<lambda>(ag, sid).
       engineFilter = [] \<or>
       (case stByID s sid of
          None \<Rightarrow> False
        | Some r \<Rightarrow> ssEngine (sess_at s r) = [] \<or> ssEngine (sess_at s r) = engineFilter))
       (stLatestByAg s))"

definition Release :: "uuid \<Rightarrow> SessionStore \<Rightarrow> pending list" where
  "Release ag s = (case latest_ref s ag of None \<Rightarrow> [] | Some r \<Rightarrow> [PendDec r])"

definition hasAllTags :: "string list \<Rightarrow> string list \<Rightarrow> bool" where
  "hasAllTags have required = (required = [] \<or> list_all (\<lambda>t. t \<in> set have) required)"

text \<open>The body of the scan in \<open>FindIdleWithTags\<close>: the address of a qualifying session.\<close>

definition idle_candidate :: "SessionStore \<Rightarrow> string list \<Rightarrow> string \<Rightarrow> sess_ref option" where
  "idle_candidate s required sid =
     (case stByID s sid of
        None \<Rightarrow> None
      | Some r \<Rightarrow>
          (let x = sess_at s r in
           if ssRevoked x \<or> \<not> sess_ready x \<or> ssDraining x
              \<or> sint (ssCapacity x) \<le> sint (ssRunning x) \<or> \<not> hasAllTags (ssTags x) required
           then None else Some r))"

text \<open>The scan itself, over one iteration order of the map.\<close>

fun find_idle_loop :: "SessionStore \<Rightarrow> string list \<Rightarrow> (uuid \<times> string) list \<Rightarrow> uuid option" where
  "find_idle_loop s required [] = None"
| "find_idle_loop s required ((ag, sid) # rest) =
     (case idle_candidate s required sid of
        None \<Rightarrow> find_idle_loop s required rest
      | Some r \<Rightarrow> Some (ssAgentID (sess_at s r)))"

definition FindIdleWithTags :: "SessionStore \<Rightarrow> string list \<Rightarrow> uuid option" where
  "FindIdleWithTags s required = find_idle_loop s required (stLatestByAg s)"

definition FindIdle :: "SessionStore \<Rightarrow> uuid option" where
  "FindIdle s = FindIdleWithTags s []"

record AgentCapacitySample =
  smAgentID :: uuid
  smRunning :: "32 word"
  smCapacity :: "32 word"

definition CapacitySnapshot :: "SessionStore \<Rightarrow> AgentCapacitySample list" where
  "CapacitySnapshot s =
     concat (map (\<lambda>(ag, sid).
       (case stByID s sid of
          None \<Rightarrow> []
        | Some r \<Rightarrow>
            (let x = sess_at s r in
             if ssRevoked x \<or> \<not> sess_ready x then []
             else [\<lparr>smAgentID = ssAgentID x, smRunning = ssRunning x, smCapacity = ssCapacity x\<rparr>])))
       (stLatestByAg s))"

section \<open>The server as a transition system\<close>

text \<open>
  The calls the Register, Connect, scheduler and reaper goroutines make, one constructor per
  critical section; \<open>OpPending i\<close> runs the \<open>i\<close>th pending continuation. \<open>OpRecv\<close> is the
  send pump, \<open>OpDrain\<close> the Draining frame of the recv loop, \<open>OpClear\<close> and \<open>OpDec\<close> the
  result handler.
\<close>

record server =
  svStore :: SessionStore
  svPending :: "pending list"

datatype op =
  OpCreate string uuid "string list" "32 word" "64 word" string
| OpRevokeForAgent uuid
| OpFence uuid "64 word"
| OpRevoke string
| OpPending nat
| OpClaim string
| OpMarkReady string
| OpDispatch uuid ServerMessage
| OpDispatchAssignment uuid ServerMessage uuid "32 word"
| OpRelease uuid
| OpClear sess_ref uuid
| OpDec sess_ref
| OpRecv sess_ref
| OpDrain sess_ref gotime
| OpSetOnReady bool

definition drain_session :: "gotime \<Rightarrow> Session \<Rightarrow> Session" where
  "drain_session now x =
     (if ssDraining x then x else x\<lparr>ssDraining := True, ssDrainStartedAt := now\<rparr>)"

definition recv_session :: "Session \<Rightarrow> Session" where
  "recv_session x = (case try_recv (ssOut x) of None \<Rightarrow> x | Some (m, c) \<Rightarrow> x\<lparr>ssOut := c\<rparr>)"

fun enabled :: "op \<Rightarrow> server \<Rightarrow> bool" where
  "enabled (OpCreate sid ag tags cap gen eng) v = (sid \<notin> ssID ` set (stHeap (svStore v)))"
| "enabled (OpPending i) v = (i < length (svPending v))"
| "enabled (OpClear r job) v = (r < length (stHeap (svStore v)))"
| "enabled (OpDec r) v = (r < length (stHeap (svStore v)))"
| "enabled (OpRecv r) v = (r < length (stHeap (svStore v)))"
| "enabled (OpDrain r now) v = (r < length (stHeap (svStore v)))"
| "enabled _ v = True"

fun exec :: "op \<Rightarrow> server \<Rightarrow> server option" where
  "exec (OpCreate sid ag tags cap gen eng) v =
     map_option (\<lambda>(s, r). v\<lparr>svStore := s\<rparr>) (CreateSession sid ag tags cap gen eng (svStore v))"
| "exec (OpRevokeForAgent ag) v =
     Some (v\<lparr>svPending := svPending v @ RevokeForAgent ag (svStore v)\<rparr>)"
| "exec (OpFence ag gen) v =
     Some (v\<lparr>svPending := svPending v @ snd (FenceStaleSession ag gen (svStore v))\<rparr>)"
| "exec (OpRevoke sid) v = map_option (\<lambda>s. v\<lparr>svStore := s\<rparr>) (Revoke sid (svStore v))"
| "exec (OpPending i) v =
     map_option (\<lambda>(s, more).
       v\<lparr>svStore := s, svPending := take i (svPending v) @ drop (Suc i) (svPending v) @ more\<rparr>)
       (run_pending (svPending v ! i) (svStore v))"
| "exec (OpClaim sid) v = Some (v\<lparr>svStore := fst (ClaimConnect sid (svStore v))\<rparr>)"
| "exec (OpMarkReady sid) v = Some (v\<lparr>svStore := fst (MarkReady sid (svStore v))\<rparr>)"
| "exec (OpDispatch ag msg) v =
     map_option (\<lambda>(s, e). v\<lparr>svStore := s\<rparr>) (Dispatch ag msg (svStore v))"
| "exec (OpDispatchAssignment ag msg job attempt) v =
     map_option (\<lambda>(s, e). v\<lparr>svStore := s\<rparr>) (DispatchAssignment ag msg job attempt (svStore v))"
| "exec (OpRelease ag) v = Some (v\<lparr>svPending := svPending v @ Release ag (svStore v)\<rparr>)"
| "exec (OpClear r job) v = Some (v\<lparr>svStore := upd_sess r (ClearAssignment job) (svStore v)\<rparr>)"
| "exec (OpDec r) v = Some (v\<lparr>svStore := upd_sess r DecRunning (svStore v)\<rparr>)"
| "exec (OpRecv r) v = Some (v\<lparr>svStore := upd_sess r recv_session (svStore v)\<rparr>)"
| "exec (OpDrain r now) v = Some (v\<lparr>svStore := upd_sess r (drain_session now) (svStore v)\<rparr>)"
| "exec (OpSetOnReady b) v = Some (v\<lparr>svStore := SetOnSessionReady b (svStore v)\<rparr>)"

definition server_init :: "server \<Rightarrow> bool" where
  "server_init v = (v = \<lparr>svStore = NewSessionStore, svPending = []\<rparr>)"

definition server_step :: "server \<Rightarrow> server \<Rightarrow> bool" where
  "server_step v w = (\<exists>c. enabled c v \<and> exec c v = Some w)"

section \<open>The store invariant\<close>

definition sess_ok :: "Session \<Rightarrow> bool" where
  "sess_ok x =
     (ch_closed (ssOut x) = ssRevoked x \<and> ch_cap (ssOut x) = defaultSendBuffer
      \<and> chan_ok (ssOut x) \<and> 1 \<le> sint (ssCapacity x))"

definition live_ok :: "SessionStore \<Rightarrow> bool" where
  "live_ok s =
     (\<forall>sid r. stByID s sid = Some r \<longrightarrow>
        r < length (stHeap s) \<and> ssID (sess_at s r) = sid \<and> \<not> ssRevoked (sess_at s r)
        \<and> map_of (stLatestByAg s) (ssAgentID (sess_at s r)) = Some sid)"

definition latest_ok :: "SessionStore \<Rightarrow> bool" where
  "latest_ok s =
     (\<forall>ag sid. map_of (stLatestByAg s) ag = Some sid \<longrightarrow>
        (\<exists>r. stByID s sid = Some r \<and> ssAgentID (sess_at s r) = ag))"

definition store_inv :: "SessionStore \<Rightarrow> bool" where
  "store_inv s =
     (live_ok s \<and> latest_ok s \<and> (\<forall>x\<in>set (stHeap s). sess_ok x)
      \<and> distinct (map ssID (stHeap s)) \<and> distinct (map fst (stLatestByAg s)))"

definition pending_ok :: "SessionStore \<Rightarrow> pending \<Rightarrow> bool" where
  "pending_ok s p =
     (case p of
        PendSupersede ro sid \<Rightarrow> (case ro of None \<Rightarrow> True | Some r \<Rightarrow> r < length (stHeap s))
      | PendRevoke sid \<Rightarrow> True
      | PendFence sid g \<Rightarrow>
          (\<exists>r<length (stHeap s). ssID (sess_at s r) = sid \<and> ssGeneration (sess_at s r) = g)
      | PendDec r \<Rightarrow> r < length (stHeap s))"

definition server_inv :: "server \<Rightarrow> bool" where
  "server_inv v = (store_inv (svStore v) \<and> (\<forall>p\<in>set (svPending v). pending_ok (svStore v) p))"

text \<open>
  How a session may change: its identity never, its one-way flags and its connect state only
  forward.
\<close>

fun conn_rank :: "connState \<Rightarrow> nat" where
  "conn_rank stateRegistered = 0"
| "conn_rank stateConnecting = 1"
| "conn_rank stateReady = 2"

definition sess_evolves :: "Session \<Rightarrow> Session \<Rightarrow> bool" where
  "sess_evolves x y =
     (ssID y = ssID x \<and> ssAgentID y = ssAgentID x \<and> ssGeneration y = ssGeneration x
      \<and> ssCapacity y = ssCapacity x \<and> (ssRevoked x \<longrightarrow> ssRevoked y)
      \<and> (ssDraining x \<longrightarrow> ssDraining y) \<and> (ssSuperseded x \<longrightarrow> ssSuperseded y)
      \<and> conn_rank (ssState x) \<le> conn_rank (ssState y))"

declare map_of_eq_Some_iff [simp del] Some_eq_map_of_iff [simp del]

lemma upd_sess_simps [simp]:
  "stByID (upd_sess r f s) = stByID s"
  "stLatestByAg (upd_sess r f s) = stLatestByAg s"
  "length (stHeap (upd_sess r f s)) = length (stHeap s)"
  by (simp_all add: upd_sess_def)

lemma sess_at_upd:
  "r < length (stHeap s) \<Longrightarrow> sess_at (upd_sess r f s) q = (if q = r then f (sess_at s r) else sess_at s q)"
  by (auto simp: upd_sess_def sess_at_def)

lemma set_gauge_simps [simp]:
  "stByID (set_gauge s) = stByID s" "stLatestByAg (set_gauge s) = stLatestByAg s"
  "stHeap (set_gauge s) = stHeap s" "sess_at (set_gauge s) r = sess_at s r"
  by (simp_all add: set_gauge_def sess_at_def)

text \<open>The invariant by addresses, which is how the operations change it.\<close>

lemma heap_all_iff:
  "(\<forall>x\<in>set (stHeap s). P x) \<longleftrightarrow> (\<forall>r<length (stHeap s). P (sess_at s r))"
  by (auto simp: sess_at_def all_set_conv_all_nth)

lemma heap_ids_iff:
  "distinct (map ssID (stHeap s)) \<longleftrightarrow>
   (\<forall>q<length (stHeap s). \<forall>r<length (stHeap s). q \<noteq> r \<longrightarrow> ssID (sess_at s q) \<noteq> ssID (sess_at s r))"
  by (auto simp: sess_at_def distinct_conv_nth)

lemmas store_inv_parts = store_inv_def live_ok_def latest_ok_def heap_all_iff heap_ids_iff

lemma store_inv_cong:
  assumes "stHeap s' = stHeap s" "stByID s' = stByID s" "stLatestByAg s' = stLatestByAg s"
  shows "store_inv s' = store_inv s" "pending_ok s' p = pending_ok s p"
  using assms
  by (simp_all add: store_inv_def live_ok_def latest_ok_def sess_at_def pending_ok_def
      split: pending.split option.split)

lemma store_inv_upd:
  assumes "store_inv s" and r: "r < length (stHeap s)"
    and k: "sess_evolves (sess_at s r) (f (sess_at s r))"
    and ok: "sess_ok (f (sess_at s r))"
    and rev: "ssRevoked (f (sess_at s r)) = ssRevoked (sess_at s r)"
  shows "store_inv (upd_sess r f s)"
proof -
  have at: "sess_at (upd_sess r f s) q = (if q = r then f (sess_at s r) else sess_at s q)" for q
    using r by (rule sess_at_upd)
  have ident: "ssID (sess_at (upd_sess r f s) q) = ssID (sess_at s q)"
    "ssAgentID (sess_at (upd_sess r f s) q) = ssAgentID (sess_at s q)"
    "ssRevoked (sess_at (upd_sess r f s) q) = ssRevoked (sess_at s q)" for q
    using k rev by (auto simp: at sess_evolves_def)
  have "\<forall>q<length (stHeap s). sess_ok (sess_at (upd_sess r f s) q)"
    using assms(1) ok by (auto simp: at store_inv_parts)
  with assms(1) show ?thesis
    by (simp add: store_inv_parts ident)
qed

lemma pending_ok_upd:
  assumes "pending_ok s p" and r: "r < length (stHeap s)"
    and k: "sess_evolves (sess_at s r) (f (sess_at s r))"
  shows "pending_ok (upd_sess r f s) p"
proof -
  have "ssID (sess_at (upd_sess r f s) q) = ssID (sess_at s q)"
    "ssGeneration (sess_at (upd_sess r f s) q) = ssGeneration (sess_at s q)" for q
    using k by (auto simp: sess_at_upd [OF r] sess_evolves_def)
  with assms(1) show ?thesis
    by (simp add: pending_ok_def split: pending.splits option.splits)
qed

lemma live_at:
  assumes "store_inv s" and "stByID s sid = Some r"
  shows "r < length (stHeap s)" "ssID (sess_at s r) = sid" "\<not> ssRevoked (sess_at s r)"
    "map_of (stLatestByAg s) (ssAgentID (sess_at s r)) = Some sid"
    "sess_ok (sess_at s r)" "\<not> ch_closed (ssOut (sess_at s r))"
proof -
  show r: "r < length (stHeap s)" "ssID (sess_at s r) = sid" "\<not> ssRevoked (sess_at s r)"
    "map_of (stLatestByAg s) (ssAgentID (sess_at s r)) = Some sid"
    using assms by (auto simp: store_inv_def live_ok_def)
  show ok: "sess_ok (sess_at s r)"
    using assms(1) r(1) by (auto simp: store_inv_def sess_at_def)
  then show "\<not> ch_closed (ssOut (sess_at s r))" using r(3) by (simp add: sess_ok_def)
qed

lemma latest_refD:
  assumes "store_inv s" and "latest_ref s ag = Some r"
  shows "\<exists>sid. map_of (stLatestByAg s) ag = Some sid \<and> stByID s sid = Some r \<and> ssAgentID (sess_at s r) = ag"
  using assms by (force simp: latest_ref_def store_inv_def latest_ok_def bind_eq_Some_conv)

lemma AList_update_map_of [simp]: "map_of (AList.update k v xs) = (map_of xs)(k \<mapsto> v)"
  by (rule AList.update_conv')

lemma AList_delete_map_of [simp]: "map_of (AList.delete k xs) = (map_of xs)(k := None)"
  by (rule AList.delete_conv')

section \<open>Preservation\<close>

definition drop_live :: "string \<Rightarrow> uuid \<Rightarrow> SessionStore \<Rightarrow> SessionStore" where
  "drop_live sid ag s =
     s\<lparr>stByID := (stByID s)(sid := None), stLatestByAg := AList.delete ag (stLatestByAg s)\<rparr>"

text \<open>
  Closing a live session: both \<open>CreateSession\<close> and \<open>Revoke\<close> do it, and after it the agent
  has no session.
\<close>

lemma close_live:
  assumes inv: "store_inv s" and b: "stByID s sid = Some r" and ag: "ssAgentID (sess_at s r) = ag"
    and k: "sess_evolves (sess_at s r) (f (sess_at s r))" and ok: "sess_ok (f (sess_at s r))"
  shows "store_inv (drop_live sid ag (upd_sess r f s))"
proof -
  note r = live_at [OF inv b]
  have at: "sess_at (drop_live sid ag (upd_sess r f s)) q = (if q = r then f (sess_at s r) else sess_at s q)" for q
    using sess_at_upd [OF r(1)] by (simp add: drop_live_def sess_at_def)
  have live: "q \<noteq> r \<and> ssAgentID (sess_at s q) \<noteq> ag" if "stByID s i = Some q" "i \<noteq> sid" for i q
    using that live_at [OF inv that(1)] r ag by auto
  have ident: "ssID (sess_at (drop_live sid ag (upd_sess r f s)) q) = ssID (sess_at s q)"
    "ssAgentID (sess_at (drop_live sid ag (upd_sess r f s)) q) = ssAgentID (sess_at s q)" for q
    using k by (auto simp: at sess_evolves_def)
  have len: "length (stHeap (drop_live sid ag (upd_sess r f s))) = length (stHeap s)"
    by (simp add: drop_live_def)
  have "live_ok (drop_live sid ag (upd_sess r f s))"
    using live live_at [OF inv] ag by (auto simp: live_ok_def ident len at) (auto simp: drop_live_def split: if_splits)
  moreover have "latest_ok (drop_live sid ag (upd_sess r f s))"
    unfolding latest_ok_def ident
  proof (intro allI impI)
    fix a i
    assume "map_of (stLatestByAg (drop_live sid ag (upd_sess r f s))) a = Some i"
    then have a: "a \<noteq> ag" "map_of (stLatestByAg s) a = Some i"
      by (auto simp: drop_live_def split: if_splits)
    then obtain q where q: "stByID s i = Some q" "ssAgentID (sess_at s q) = a"
      using inv by (auto simp: store_inv_def latest_ok_def)
    then have "i \<noteq> sid" using a b ag by auto
    with q show "\<exists>q. stByID (drop_live sid ag (upd_sess r f s)) i = Some q \<and> ssAgentID (sess_at s q) = a"
      by (simp add: drop_live_def)
  qed
  moreover have "\<forall>q<length (stHeap s). sess_ok (sess_at (drop_live sid ag (upd_sess r f s)) q)"
    using inv ok by (auto simp: at store_inv_parts)
  moreover have "distinct (map fst (stLatestByAg (drop_live sid ag (upd_sess r f s))))"
    using inv by (simp add: drop_live_def store_inv_def distinct_delete)
  ultimately show ?thesis
    using inv by (simp add: store_inv_def heap_all_iff heap_ids_iff ident len)
qed

lemma add_live:
  assumes inv: "store_inv s" and none: "map_of (stLatestByAg s) ag = None"
    and x: "sess_ok x" "ssID x = sid" "ssAgentID x = ag" "\<not> ssRevoked x"
    and fresh: "sid \<notin> ssID ` set (stHeap s)"
    and s': "stHeap s' = stHeap s @ [x]" "stByID s' = (stByID s)(sid \<mapsto> length (stHeap s))"
      "map_of (stLatestByAg s') = (map_of (stLatestByAg s))(ag \<mapsto> sid)"
      "distinct (map fst (stLatestByAg s'))"
  shows "store_inv s'"
proof -
  have at: "sess_at s' q = (if q = length (stHeap s) then x else sess_at s q)"
    if "q \<le> length (stHeap s)" for q
    using that s'(1) by (auto simp: sess_at_def nth_append)
  have old: "q < length (stHeap s) \<and> sess_at s' q = sess_at s q \<and> ssAgentID (sess_at s q) \<noteq> ag"
    if "stByID s i = Some q" for i q
    using live_at [OF inv that] none at [of q] by auto
  have sid: "stByID s sid = None"
    using live_at(1,2) [OF inv, of sid] fresh by (cases "stByID s sid") (auto simp: sess_at_def)
  have "live_ok s'"
    unfolding live_ok_def
  proof (intro allI impI, goal_cases)
    case (1 i q)
    then show ?case
      using old [of i q] live_at [OF inv, of i q] at [of q] x s' by (cases "i = sid") auto
  qed
  moreover have "latest_ok s'"
    unfolding latest_ok_def
  proof (intro allI impI, goal_cases)
    case (1 a i)
    show ?case
    proof (cases "a = ag")
      case True
      with 1 show ?thesis using s' x at by auto
    next
      case False
      with 1 s'(3) obtain q where q: "stByID s i = Some q" "ssAgentID (sess_at s q) = a"
        using inv by (auto simp: store_inv_def latest_ok_def)
      then have "i \<noteq> sid" using sid by auto
      with q old [OF q(1)] s'(2) show ?thesis by auto
    qed
  qed
  moreover have "distinct (map ssID (stHeap s'))"
    using inv fresh x(2) s'(1) by (auto simp: store_inv_def)
  moreover have "\<forall>y\<in>set (stHeap s'). sess_ok y"
    using inv x(1) s'(1) by (auto simp: store_inv_def)
  ultimately show ?thesis using s'(4) by (simp add: store_inv_def)
qed

lemma sess_ok_new [simp]: "sess_ok (new_session sid ag tags cap gen eng)"
  by (simp add: sess_ok_def new_session_def)

lemma new_session_simps [simp]:
  "ssID (new_session sid ag tags cap gen eng) = sid"
  "ssAgentID (new_session sid ag tags cap gen eng) = ag"
  "\<not> ssRevoked (new_session sid ag tags cap gen eng)"
  by (simp_all add: new_session_def)

lemma sess_ok_close:
  "sess_ok x \<Longrightarrow> close_chan (ssOut x) = Some c \<Longrightarrow> sess_ok (x\<lparr>ssRevoked := True, ssOut := c\<rparr>)"
  "sess_ok x \<Longrightarrow> close_chan (ssOut x) = Some c \<Longrightarrow>
   sess_ok (x\<lparr>ssSuperseded := True, ssRevoked := True, ssOut := c\<rparr>)"
  by (auto simp: sess_ok_def close_chan_Some_iff chan_ok_def)

lemma CreateSession_ok:
  assumes inv: "store_inv s" and fresh: "sid \<notin> ssID ` set (stHeap s)"
  shows "\<exists>s' r. CreateSession sid ag tags cap gen eng s = Some (s', r) \<and> store_inv s' \<and>
    length (stHeap s') = Suc (length (stHeap s)) \<and>
    (\<forall>q<length (stHeap s). sess_evolves (sess_at s q) (sess_at s' q))"
proof (cases "map_of (stLatestByAg s) ag")
  case None
  let ?s' = "s\<lparr>stHeap := stHeap s @ [new_session sid ag tags cap gen eng],
      stByID := (stByID s)(sid \<mapsto> length (stHeap s)),
      stLatestByAg := AList.update ag sid (stLatestByAg s)\<rparr>"
  have "store_inv ?s'"
    by (rule add_live [OF inv None _ _ _ _ fresh, where x = "new_session sid ag tags cap gen eng"])
      (use inv in \<open>auto simp: store_inv_def distinct_update\<close>)
  then have "store_inv (set_gauge ?s')" by (simp add: store_inv_cong [of "set_gauge ?s'" ?s'])
  then show ?thesis
    using None
    by (auto simp: CreateSession_def retire_previous_def Let_def sess_at_def nth_append sess_evolves_def)
next
  case (Some prev)
  then obtain r where b: "stByID s prev = Some r" and ag: "ssAgentID (sess_at s r) = ag"
    using inv by (auto simp: store_inv_def latest_ok_def)
  note r = live_at [OF inv b]
  obtain c where c: "close_chan (ssOut (sess_at s r)) = Some c"
    using r(6) by (simp add: close_chan_def)
  let ?f = "\<lambda>x. x\<lparr>ssSuperseded := True, ssRevoked := True, ssOut := c\<rparr>"
  let ?d = "drop_live prev ag (upd_sess r ?f s)"
  let ?s' = "(upd_sess r ?f s)
     \<lparr>stHeap := stHeap (upd_sess r ?f s) @ [new_session sid ag tags cap gen eng],
      stByID := (stByID s)(prev := None, sid \<mapsto> length (stHeap s)),
      stLatestByAg := AList.update ag sid (stLatestByAg s)\<rparr>"
  have k: "sess_evolves (sess_at s r) (?f (sess_at s r))" by (simp add: sess_evolves_def)
  have d: "store_inv ?d"
    using close_live [OF inv b ag, of ?f] k sess_ok_close(2) [OF r(5) c] by blast
  have ids: "map ssID (stHeap ?d) = map ssID (stHeap s)"
    using r(1) by (simp add: drop_live_def upd_sess_def map_update)
      (metis list_update_id map_update)
  have fresh': "sid \<notin> ssID ` set (stHeap ?d)"
    using fresh ids by (metis set_map)
  have "store_inv ?s'"
    by (rule add_live [OF d _ _ _ _ _ fresh', where x = "new_session sid ag tags cap gen eng" and ag = ag])
      (use inv in \<open>auto simp: drop_live_def store_inv_def distinct_update\<close>)
  then have "store_inv (set_gauge ?s')" by (simp add: store_inv_cong [of "set_gauge ?s'" ?s'])
  moreover have "CreateSession sid ag tags cap gen eng s = Some (set_gauge ?s', length (stHeap s))"
    using Some b c by (simp add: CreateSession_def retire_previous_def Let_def)
  moreover have "sess_evolves (sess_at s q) (sess_at ?s' q)" if "q < length (stHeap s)" for q
    using that r(1) by (auto simp: sess_at_def upd_sess_def nth_append nth_list_update sess_evolves_def)
  ultimately show ?thesis by auto
qed

lemma Revoke_ok:
  assumes inv: "store_inv s"
  shows "\<exists>s'. Revoke sid s = Some s' \<and> store_inv s' \<and> length (stHeap s') = length (stHeap s) \<and>
    (\<forall>q<length (stHeap s). sess_evolves (sess_at s q) (sess_at s' q) \<and>
      (ssID (sess_at s q) \<noteq> sid \<longrightarrow> sess_at s' q = sess_at s q))"
proof (cases "stByID s sid")
  case None
  with inv show ?thesis by (simp add: Revoke_def sess_evolves_def)
next
  case (Some r)
  note r = live_at [OF inv Some]
  obtain c where c: "close_chan (ssOut (sess_at s r)) = Some c"
    using r(6) by (simp add: close_chan_def)
  let ?f = "\<lambda>x. x\<lparr>ssRevoked := True, ssOut := c\<rparr>"
  let ?d = "drop_live sid (ssAgentID (sess_at s r)) (upd_sess r ?f s)"
  have "store_inv ?d"
    using close_live [OF inv Some refl, of ?f] sess_ok_close(1) [OF r(5) c]
    by (simp add: sess_evolves_def)
  then have "store_inv (set_gauge ?d)" by (simp add: store_inv_cong [of "set_gauge ?d" ?d])
  moreover have "Revoke sid s = Some (set_gauge ?d)"
    using Some c r by (simp add: Revoke_def Let_def drop_live_def)
  moreover have "sess_evolves (sess_at s q) (sess_at ?d q) \<and>
      (ssID (sess_at s q) \<noteq> sid \<longrightarrow> sess_at ?d q = sess_at s q)" if "q < length (stHeap s)" for q
    using that r by (auto simp: drop_live_def sess_at_def upd_sess_def nth_list_update sess_evolves_def)
  ultimately show ?thesis by (auto simp: drop_live_def)
qed

definition store_good :: "SessionStore \<Rightarrow> SessionStore \<Rightarrow> bool" where
  "store_good s s' =
     (store_inv s' \<and> length (stHeap s) \<le> length (stHeap s') \<and>
      (\<forall>q<length (stHeap s). sess_evolves (sess_at s q) (sess_at s' q)))"

lemma sess_evolves_refl [simp]: "sess_evolves x x"
  by (simp add: sess_evolves_def)

lemma sess_evolves_trans: "sess_evolves x y \<Longrightarrow> sess_evolves y z \<Longrightarrow> sess_evolves x z"
  by (auto simp: sess_evolves_def)

lemma good_refl: "store_inv s \<Longrightarrow> store_good s s"
  by (simp add: store_good_def)

lemma good_upd:
  assumes "store_inv s" and "r < length (stHeap s)"
    and "sess_evolves (sess_at s r) (f (sess_at s r))" and "sess_ok (f (sess_at s r))"
    and "ssRevoked (f (sess_at s r)) = ssRevoked (sess_at s r)"
  shows "store_good s (upd_sess r f s)"
  using assms store_inv_upd [of s r f] by (simp add: store_good_def sess_at_upd)

lemma good_cong:
  assumes "store_good s s'"
    and "stHeap t = stHeap s'" "stByID t = stByID s'" "stLatestByAg t = stLatestByAg s'"
  shows "store_good s t"
  using assms store_inv_cong(1) [OF assms(2-4)] by (simp add: store_good_def sess_at_def)

lemma pending_ok_good: "store_good s s' \<Longrightarrow> pending_ok s p \<Longrightarrow> pending_ok s' p"
proof (cases p)
  case (PendFence sid g)
  assume good: "store_good s s'" and "pending_ok s p"
  then obtain q where "q < length (stHeap s)" "ssID (sess_at s q) = sid" "ssGeneration (sess_at s q) = g"
    using PendFence by (auto simp: pending_ok_def)
  moreover from this good have "sess_evolves (sess_at s q) (sess_at s' q)" "q < length (stHeap s')"
    by (auto simp: store_good_def)
  ultimately show ?thesis using PendFence by (auto simp: pending_ok_def sess_evolves_def)
qed (auto simp: store_good_def pending_ok_def split: option.splits)

lemma sess_ok_at: "store_inv s \<Longrightarrow> r < length (stHeap s) \<Longrightarrow> sess_ok (sess_at s r)"
  by (simp add: store_inv_def sess_at_def)

lemma ClaimConnect_good:
  assumes "store_inv s" shows "store_good s (fst (ClaimConnect sid s))"
proof (cases "stByID s sid")
  case None
  with assms show ?thesis by (simp add: ClaimConnect_def good_refl)
next
  case (Some r)
  note r = live_at [OF assms Some]
  have "store_good s (upd_sess r (\<lambda>x. x\<lparr>ssState := stateConnecting\<rparr>) s)"
    if "ssState (sess_at s r) = stateRegistered"
    using that r by (intro good_upd [OF assms]) (auto simp: sess_evolves_def sess_ok_def)
  with assms Some show ?thesis
    by (auto simp: ClaimConnect_def Let_def good_refl)
qed

lemma MarkReady_good:
  assumes "store_inv s" shows "store_good s (fst (MarkReady sid s))"
proof (cases "stByID s sid")
  case None
  with assms show ?thesis by (simp add: MarkReady_def good_refl)
next
  case (Some r)
  note r = live_at [OF assms Some]
  have "store_good s (upd_sess r (\<lambda>x. x\<lparr>ssState := stateReady\<rparr>) s)"
    if "ssState (sess_at s r) = stateConnecting"
    using that r by (intro good_upd [OF assms]) (auto simp: sess_evolves_def sess_ok_def)
  with assms Some show ?thesis
    by (auto simp: MarkReady_def Let_def good_refl intro: good_cong)
qed

lemma sess_ok_send:
  assumes "sess_ok x" and "try_send (ssOut x) msg = Sent c"
  shows "sess_ok ((if GetAssign msg then IncRunning else id) (x\<lparr>ssOut := c\<rparr>))"
  using assms by (auto simp: sess_ok_def try_send_Sent_iff chan_ok_def IncRunning_def)

lemma Dispatch_good:
  assumes "store_inv s"
  shows "\<exists>s' e. Dispatch ag msg s = Some (s', e) \<and> store_good s s'"
proof (cases "latest_ref s ag")
  case None
  with assms show ?thesis by (simp add: Dispatch_def good_refl)
next
  case (Some r)
  then obtain sid where b: "stByID s sid = Some r" using latest_refD [OF assms] by blast
  note r = live_at [OF assms b]
  have "store_good s (send_on r msg c s)" if "try_send (ssOut (sess_at s r)) msg = Sent c" for c
    unfolding send_on_def
    by (rule good_upd [OF assms r(1)])
      (use sess_ok_send [OF r(5) that] in \<open>auto simp: sess_evolves_def IncRunning_def\<close>)
  with assms Some r show ?thesis
    by (cases "try_send (ssOut (sess_at s r)) msg") (auto simp: Dispatch_def good_refl)
qed

text \<open>
  The atomic record-and-dispatch path, by cases: what it returns and what it leaves, on a
  store that satisfies the invariant.
\<close>

definition dispatch_view ::
  "SessionStore \<Rightarrow> sess_ref \<Rightarrow> ServerMessage \<Rightarrow> uuid \<Rightarrow> 32 word \<Rightarrow> SessionStore \<times> dispatch_error option" where
  "dispatch_view s r msg job attempt =
     (let x = sess_at s r in
      if \<not> sess_ready x then (s, Some ErrNoSession)
      else if ssDraining x then (s, Some ErrSessionDraining)
      else
        (case ssAssigned x job of
           Some old \<Rightarrow> (s, if old = attempt then None else Some ErrSessionBusy)
         | None \<Rightarrow>
             (if length (ch_buf (ssOut x)) < defaultSendBuffer
              then (upd_sess r (\<lambda>x. (if GetAssign msg then IncRunning else id)
                      (x\<lparr>ssAssigned := (ssAssigned x)(job \<mapsto> attempt),
                         ssOut := (ssOut x)\<lparr>ch_buf := ch_buf (ssOut x) @ [msg]\<rparr>\<rparr>)) s, None)
              else (s, Some ErrSessionBusy))))"

lemma upd_sess_id: "r < length (stHeap s) \<Longrightarrow> f (sess_at s r) = sess_at s r \<Longrightarrow> upd_sess r f s = s"
  by (simp add: upd_sess_def sess_at_def)

lemma upd_sess_cong: "f (sess_at s r) = g (sess_at s r) \<Longrightarrow> upd_sess r f s = upd_sess r g s"
  by (simp add: upd_sess_def sess_at_def)

lemma upd_sess_twice:
  "r < length (stHeap s) \<Longrightarrow> upd_sess r g (upd_sess r f s) = upd_sess r (\<lambda>x. g (f x)) s"
  by (simp add: upd_sess_def)

lemma DispatchAssignment_view:
  assumes inv: "store_inv s" and "latest_ref s ag = Some r"
  shows "DispatchAssignment ag msg job attempt s = Some (dispatch_view s r msg job attempt)"
proof -
  let ?x = "sess_at s r"
  obtain sid where b: "stByID s sid = Some r" using latest_refD [OF assms] by blast
  note r = live_at [OF inv b]
  have cap: "ch_cap (ssOut ?x) = defaultSendBuffer" using r(5) by (simp add: sess_ok_def)
  show ?thesis
  proof (cases "ssAssigned ?x job")
    case (Some old)
    then show ?thesis
      using assms(2) r
      by (simp add: DispatchAssignment_def dispatch_view_def recordAssignmentResult_def
          LoadOrStore_def upd_sess_id Let_def)
  next
    case None
    have undo: "(ssAssigned ?x)(job := None) = ssAssigned ?x" using None by (simp add: fun_eq_iff)
    show ?thesis
      using assms(2) r None cap undo
      by (auto simp: DispatchAssignment_def dispatch_view_def recordAssignmentResult_def
          LoadOrStore_def Let_def try_send_def upd_sess_id upd_sess_twice send_on_def
          LookupAssignment_def ClearAssignment_def IncRunning_def
          intro!: upd_sess_cong)
  qed
qed

lemma DispatchAssignment_none:
  "latest_ref s ag = None \<Longrightarrow> DispatchAssignment ag msg job attempt s = Some (s, Some ErrNoSession)"
  by (simp add: DispatchAssignment_def)

lemma DispatchAssignment_good:
  assumes "store_inv s"
  shows "\<exists>s' e. DispatchAssignment ag msg job attempt s = Some (s', e) \<and> store_good s s'"
proof (cases "latest_ref s ag")
  case None
  with assms show ?thesis by (simp add: DispatchAssignment_none good_refl)
next
  case (Some r)
  then obtain sid where b: "stByID s sid = Some r" using latest_refD [OF assms] by blast
  note r = live_at [OF assms b]
  have "store_good s (fst (dispatch_view s r msg job attempt))"
    using r
    by (auto simp: dispatch_view_def Let_def good_refl [OF assms] sess_ok_def chan_ok_def
        sess_evolves_def IncRunning_def split: option.splits intro!: good_upd [OF assms])
  with DispatchAssignment_view [OF assms Some] show ?thesis
    by (cases "dispatch_view s r msg job attempt") auto
qed

lemma session_op_good:
  assumes "store_inv s" and "r < length (stHeap s)"
  shows "store_good s (upd_sess r (ClearAssignment job) s)"
    "store_good s (upd_sess r DecRunning s)" "store_good s (upd_sess r recv_session s)"
    "store_good s (upd_sess r (drain_session now) s)"
    "store_good s (upd_sess r (\<lambda>x. x\<lparr>ssSuperseded := True\<rparr>) s)"
  using sess_ok_at [OF assms]
  by (auto intro!: good_upd [OF assms]
      simp: sess_evolves_def sess_ok_def chan_ok_def ClearAssignment_def DecRunning_def
        recv_session_def drain_session_def try_recv_def split: list.splits if_splits)

lemma CreateSession_good:
  assumes "store_inv s" and "sid \<notin> ssID ` set (stHeap s)"
  shows "\<exists>s' r. CreateSession sid ag tags cap gen eng s = Some (s', r) \<and> store_good s s'"
  using CreateSession_ok [OF assms, of ag tags cap gen eng] by (auto simp: store_good_def)

lemma Revoke_good:
  assumes "store_inv s" shows "\<exists>s'. Revoke sid s = Some s' \<and> store_good s s'"
  using Revoke_ok [OF assms, of sid] by (auto simp: store_good_def)

lemma run_pending_good:
  assumes "store_inv s" and "pending_ok s p"
  shows "\<exists>s' more. run_pending p s = Some (s', more) \<and> store_good s s' \<and> (\<forall>q\<in>set more. pending_ok s' q)"
  using assms Revoke_good [OF assms(1)]
  by (cases p)
    (auto simp: run_pending_def pending_ok_def good_refl session_op_good split: option.splits)

lemma new_pending_ok:
  assumes "store_inv s"
  shows "\<forall>p\<in>set (RevokeForAgent ag s). pending_ok s p" "\<forall>p\<in>set (Release ag s). pending_ok s p"
    "\<forall>p\<in>set (snd (FenceStaleSession ag g s)). pending_ok s p"
proof -
  show "\<forall>p\<in>set (RevokeForAgent ag s). pending_ok s p"
    using live_at(1) [OF assms] by (auto simp: RevokeForAgent_def pending_ok_def split: option.splits)
  show "\<forall>p\<in>set (Release ag s). pending_ok s p"
    using live_at(1) [OF assms] latest_refD [OF assms, of ag]
    by (cases "latest_ref s ag") (auto simp: Release_def pending_ok_def)
  show "\<forall>p\<in>set (snd (FenceStaleSession ag g s)). pending_ok s p"
    using live_at(1,2) [OF assms]
    by (auto simp: FenceStaleSession_def pending_ok_def split: option.splits if_splits) blast
qed

lemma exec_good:
  assumes "server_inv v" and "enabled c v"
  shows "\<exists>w. exec c v = Some w \<and> store_good (svStore v) (svStore w) \<and> server_inv w"
proof -
  let ?s = "svStore v"
  have inv: "store_inv ?s" and pend: "\<And>p. p \<in> set (svPending v) \<Longrightarrow> pending_ok ?s p"
    using assms(1) by (auto simp: server_inv_def)
  have keep: "server_inv (v\<lparr>svStore := s'\<rparr>)" if "store_good ?s s'" for s'
    using that pend pending_ok_good [OF that] by (auto simp: server_inv_def store_good_def)
  have more: "server_inv (v\<lparr>svPending := svPending v @ ps\<rparr>)" if "\<forall>p\<in>set ps. pending_ok ?s p" for ps
    using that inv pend by (auto simp: server_inv_def)
  show ?thesis
  proof (cases c)
    case (OpCreate sid ag tags cap gen eng)
    with CreateSession_good [OF inv, of sid ag tags cap gen eng] assms(2) keep
    show ?thesis by auto
  next
    case (OpPending i)
    then have "pending_ok ?s (svPending v ! i)" using assms(2) pend by simp
    from run_pending_good [OF inv this] obtain s' ps where
      r: "run_pending (svPending v ! i) ?s = Some (s', ps)" "store_good ?s s'"
        "\<forall>q\<in>set ps. pending_ok s' q" by blast
    have "pending_ok s' p" if "p \<in> set (take i (svPending v) @ drop (Suc i) (svPending v) @ ps)" for p
      using that r(2,3) pend pending_ok_good by (auto dest: in_set_takeD in_set_dropD)
    with r OpPending show ?thesis by (auto simp: server_inv_def store_good_def)
  next
    case (OpRevoke sid)
    with Revoke_good [OF inv, of sid] keep show ?thesis by auto
  next
    case (OpDispatch ag msg)
    with Dispatch_good [OF inv, of ag msg] keep show ?thesis by auto
  next
    case (OpDispatchAssignment ag msg job attempt)
    with DispatchAssignment_good [OF inv, of ag msg job attempt] keep show ?thesis by auto
  next
    case (OpSetOnReady b)
    have "store_good ?s (SetOnSessionReady b ?s)"
      by (rule good_cong [OF good_refl [OF inv]]) (simp_all add: SetOnSessionReady_def)
    with OpSetOnReady keep show ?thesis by simp
  qed (use assms(2) inv keep more new_pending_ok [OF inv] ClaimConnect_good [OF inv]
      MarkReady_good [OF inv] session_op_good [OF inv] in \<open>simp_all add: good_refl\<close>)
qed

interpretation session_server: invariant_system server_init server_step server_inv
proof (unfold_locales, goal_cases)
  case (1 v)
  then show ?case
    by (simp add: server_init_def server_inv_def store_inv_parts NewSessionStore_def)
next
  case (2 v w)
  then show ?case using exec_good by (fastforce simp: server_step_def)
qed

lemma server_step_evolves:
  assumes "server_inv v" and "server_step v w"
  shows "store_good (svStore v) (svStore w)"
  using assms exec_good by (fastforce simp: server_step_def)

lemma server_steps_evolve:
  assumes "server_step\<^sup>*\<^sup>* v w" and "server_inv v" and "r < length (stHeap (svStore v))"
  shows "r < length (stHeap (svStore w)) \<and> sess_evolves (sess_at (svStore v) r) (sess_at (svStore w) r)"
  using assms(1)
proof (induction rule: rtranclp_induct)
  case base
  then show ?case using assms(3) by simp
next
  case (step u w)
  then have "server_inv u" using session_server.inv_steps assms(2) by blast
  with step server_step_evolves [of u w] show ?case
    by (auto simp: store_good_def intro: sess_evolves_trans)
qed

section \<open>Properties\<close>

lemmas server_reachable = session_server.inv_reachable

text \<open>
  C14: In every reachable state of the session store, under every interleaving of the
  goroutines, no enabled operation panics: nothing is ever sent on a closed queue and no
  queue is closed twice.
\<close>

theorem sessions_never_panic:
  assumes "server_init v0" and "server_step\<^sup>*\<^sup>* v0 v" and "enabled c v"
  shows "exec c v \<noteq> None"
  using exec_good [OF server_reachable [OF assms(1,2)] assms(3)] by auto

text \<open>
  C15: In every reachable state an agent has at most one live session: a session that is
  published and not revoked is the latest session of its agent, its queue is open, and any
  other session of that agent has been revoked and its queue closed. Every queue respects
  the send-buffer bound.
\<close>

theorem one_live_session:
  assumes "server_init v0" and "server_step\<^sup>*\<^sup>* v0 v"
    and "stByID (svStore v) sid = Some r" and "q < length (stHeap (svStore v))"
  shows "\<not> ssRevoked (sess_at (svStore v) r) \<and> latest_ref (svStore v) (ssAgentID (sess_at (svStore v) r)) = Some r
    \<and> (\<forall>sid'. stByID (svStore v) sid' = Some q \<longrightarrow> ssAgentID (sess_at (svStore v) q) = ssAgentID (sess_at (svStore v) r) \<longrightarrow> q = r)
    \<and> ch_closed (ssOut (sess_at (svStore v) q)) = ssRevoked (sess_at (svStore v) q)
    \<and> length (ch_buf (ssOut (sess_at (svStore v) q))) \<le> defaultSendBuffer"
proof -
  have inv: "store_inv (svStore v)"
    using server_reachable [OF assms(1,2)] by (simp add: server_inv_def)
  note r = live_at [OF inv assms(3)]
  have "q = r" if "stByID (svStore v) sid' = Some q"
      "ssAgentID (sess_at (svStore v) q) = ssAgentID (sess_at (svStore v) r)" for sid'
    using live_at [OF inv that(1)] r that assms(3) by auto
  with r assms(3) sess_ok_at [OF inv assms(4)] show ?thesis
    by (auto simp: latest_ref_def sess_ok_def chan_ok_def)
qed

text \<open>
  The connect claim is exclusive for ever: once \<open>ClaimConnect\<close> has succeeded on a
  session, no later state lets a second Connect stream claim the same session, so its queue
  never has two pumps.
\<close>

theorem connect_claim_exclusive:
  assumes "server_init v0" and "server_step\<^sup>*\<^sup>* v0 v"
    and "ClaimConnect sid (svStore v) = (s', Inr r)"
    and "server_step\<^sup>*\<^sup>* (v\<lparr>svStore := s'\<rparr>) w"
  shows "\<forall>q. snd (ClaimConnect sid (svStore w)) \<noteq> Inr q"
proof -
  have inv: "server_inv v" by (rule server_reachable [OF assms(1,2)])
  then have si: "store_inv (svStore v)" by (simp add: server_inv_def)
  have b: "stByID (svStore v) sid = Some r" and s': "s' = upd_sess r (\<lambda>x. x\<lparr>ssState := stateConnecting\<rparr>) (svStore v)"
    using assms(3) by (auto simp: ClaimConnect_def Let_def split: option.splits if_splits)
  note r = live_at [OF si b]
  let ?v = "v\<lparr>svStore := s'\<rparr>"
  have "server_step v ?v"
    unfolding server_step_def by (rule exI [of _ "OpClaim sid"]) (simp add: assms(3))
  then have inv': "server_inv ?v" using inv session_server.inv_step by blast
  have r': "r < length (stHeap (svStore ?v))" "ssState (sess_at (svStore ?v) r) = stateConnecting"
    "ssID (sess_at (svStore ?v) r) = sid"
    using r by (simp_all add: s' sess_at_upd)
  have ev: "r < length (stHeap (svStore w))" "sess_evolves (sess_at (svStore ?v) r) (sess_at (svStore w) r)"
    using server_steps_evolve [OF assms(4) inv' r'(1)] by auto
  have wi: "store_inv (svStore w)"
    using session_server.inv_steps [OF assms(4) inv'] by (simp add: server_inv_def)
  have "q = r" if "stByID (svStore w) sid = Some q" for q
    using live_at(1,2) [OF wi that] ev r'(3) wi
    by (auto simp: store_inv_parts sess_evolves_def)
  moreover have "ssState (sess_at (svStore w) r) \<noteq> stateRegistered"
    using ev(2) r'(2) by (auto simp: sess_evolves_def)
  ultimately show ?thesis
    by (auto simp: ClaimConnect_def Let_def split: option.splits)
qed

text \<open>
  \<open>DispatchAssignment\<close> on every branch: an error leaves the store exactly as it was
  (the recorded assignment is rolled back when the queue is full); success means the agent's
  current session is live, ready and not draining and holds this attempt for the job, and
  either it held it before and nothing changed, or the frame was appended to that same
  session's queue, the attempt recorded there and, for an Assign frame, one job counted.
\<close>

theorem dispatch_assignment_atomic:
  assumes "server_init v0" and "server_step\<^sup>*\<^sup>* v0 v"
    and "DispatchAssignment ag msg job attempt (svStore v) = Some (s', res)"
  shows "case res of
      Some e \<Rightarrow> s' = svStore v
    | None \<Rightarrow>
        (\<exists>r. latest_ref (svStore v) ag = Some r \<and>
          (let x = sess_at (svStore v) r; y = sess_at s' r in
           sess_ready x \<and> \<not> ssDraining x \<and> \<not> ssRevoked x \<and> LookupAssignment y job = Some attempt \<and>
           (if LookupAssignment x job = Some attempt then s' = svStore v
            else LookupAssignment x job = None \<and> ch_buf (ssOut y) = ch_buf (ssOut x) @ [msg] \<and>
              ssRunning y = ssRunning x + (if GetAssign msg then 1 else 0) \<and>
              (\<forall>q. q \<noteq> r \<longrightarrow> sess_at s' q = sess_at (svStore v) q))))"
proof -
  let ?s = "svStore v"
  have inv: "store_inv ?s"
    using server_reachable [OF assms(1,2)] by (simp add: server_inv_def)
  show ?thesis
  proof (cases "latest_ref ?s ag")
    case None
    with assms(3) show ?thesis by (auto simp: DispatchAssignment_none)
  next
    case (Some r)
    then obtain sid where b: "stByID ?s sid = Some r" using latest_refD [OF inv] by blast
    note r = live_at [OF inv b]
    have "(s', res) = dispatch_view ?s r msg job attempt"
      using DispatchAssignment_view [OF inv Some] assms(3) by simp
    with Some r show ?thesis
      by (auto simp: dispatch_view_def Let_def LookupAssignment_def sess_at_upd IncRunning_def
          split: if_splits option.splits)
  qed
qed

text \<open>
  The reaper's fence is a compare-and-swap on the session generation in spite of the
  window between its lookup and its revoke: whatever ran in that window, running the pending
  revoke of a fence for generation \<open>g\<close> only changes sessions of generation \<open>g\<close>, so a
  successor with another generation keeps its queue and its place.
\<close>

theorem fence_spares_successor:
  assumes "server_init v0" and "server_step\<^sup>*\<^sup>* v0 v" and "PendFence sid g \<in> set (svPending v)"
    and "run_pending (PendFence sid g) (svStore v) = Some (s', ps)"
    and "r < length (stHeap (svStore v))" and "ssGeneration (sess_at (svStore v) r) \<noteq> g"
  shows "sess_at s' r = sess_at (svStore v) r"
proof -
  have sv: "server_inv v" by (rule server_reachable [OF assms(1,2)])
  then have inv: "store_inv (svStore v)" and p: "pending_ok (svStore v) (PendFence sid g)"
    using assms(3) by (auto simp: server_inv_def)
  have rv: "Revoke sid (svStore v) = Some s'"
    using assms(4) by (auto simp: run_pending_def)
  from p obtain q where q: "q < length (stHeap (svStore v))" "ssID (sess_at (svStore v) q) = sid"
    "ssGeneration (sess_at (svStore v) q) = g" by (auto simp: pending_ok_def)
  have "ssID (sess_at (svStore v) r) \<noteq> sid"
    using q assms(5,6) inv by (auto simp: store_inv_parts)
  with Revoke_ok [OF inv, of sid] rv assms(5) show ?thesis by auto
qed

lemma find_idle_loop_Some:
  "find_idle_loop s required l = Some ag \<Longrightarrow>
   \<exists>a sid r. (a, sid) \<in> set l \<and> idle_candidate s required sid = Some r \<and> ag = ssAgentID (sess_at s r)"
  by (induction s required l rule: find_idle_loop.induct) (auto split: option.splits)

lemma find_idle_loop_None:
  "find_idle_loop s required l = None \<longleftrightarrow> (\<forall>(a, sid)\<in>set l. idle_candidate s required sid = None)"
  by (induction s required l rule: find_idle_loop.induct) (auto split: option.splits)

definition idle_session :: "SessionStore \<Rightarrow> string list \<Rightarrow> sess_ref \<Rightarrow> bool" where
  "idle_session s required r =
     (let x = sess_at s r in
      \<not> ssRevoked x \<and> sess_ready x \<and> \<not> ssDraining x \<and> sint (ssRunning x) < sint (ssCapacity x)
      \<and> set required \<subseteq> set (ssTags x))"

lemma idle_candidate_iff:
  "idle_candidate s required sid = Some r \<longleftrightarrow> stByID s sid = Some r \<and> idle_session s required r"
  by (auto simp: idle_candidate_def idle_session_def Let_def hasAllTags_def list_all_iff
      split: option.splits if_splits)

text \<open>
  \<open>FindIdleWithTags\<close> on a reachable store finds an agent exactly when some agent's
  current session is idle (live, ready, not draining, below capacity, with all required
  tags), whatever the iteration order of the map; and the session it names is such a one, so
  a dispatch that follows at once can fail only because the queue is full or the job is
  already recorded there.
\<close>

theorem find_idle_sound_complete:
  assumes "server_init v0" and "server_step\<^sup>*\<^sup>* v0 v"
  shows "case FindIdleWithTags (svStore v) required of
      Some ag \<Rightarrow> (\<exists>r. latest_ref (svStore v) ag = Some r \<and> idle_session (svStore v) required r \<and>
        (\<forall>msg job attempt. \<exists>s' e. DispatchAssignment ag msg job attempt (svStore v) = Some (s', e) \<and>
          e \<in> {None, Some ErrSessionBusy}))
    | None \<Rightarrow> (\<forall>ag r. latest_ref (svStore v) ag = Some r \<longrightarrow> \<not> idle_session (svStore v) required r)"
proof -
  let ?s = "svStore v"
  have inv: "store_inv ?s"
    using server_reachable [OF assms(1,2)] by (simp add: server_inv_def)
  show ?thesis
  proof (cases "FindIdleWithTags ?s required")
    case None
    have "idle_candidate ?s required sid = None" if "map_of (stLatestByAg ?s) ag = Some sid" for ag sid
      using None that unfolding FindIdleWithTags_def find_idle_loop_None by (fastforce dest: map_of_SomeD)
    then have "\<not> idle_session ?s required r" if "latest_ref ?s ag = Some r" for ag r
      using latest_refD [OF inv that] idle_candidate_iff [of ?s required] by (metis option.distinct(1))
    with None show ?thesis by simp
  next
    case (Some ag)
    then obtain a sid r where r: "(a, sid) \<in> set (stLatestByAg ?s)" "stByID ?s sid = Some r"
      "idle_session ?s required r" "ag = ssAgentID (sess_at ?s r)"
      unfolding FindIdleWithTags_def by (auto simp: idle_candidate_iff dest!: find_idle_loop_Some)
    have l: "latest_ref ?s ag = Some r"
      using live_at(4) [OF inv r(2)] r(2,4) by (simp add: latest_ref_def)
    have "snd (dispatch_view ?s r msg job attempt) \<in> {None, Some ErrSessionBusy}" for msg job attempt
      using r(3) by (auto simp: dispatch_view_def idle_session_def Let_def split: option.splits)
    then have "\<exists>s' e. DispatchAssignment ag msg job attempt ?s = Some (s', e) \<and> e \<in> {None, Some ErrSessionBusy}"
      for msg job attempt
      using DispatchAssignment_view [OF inv l, of msg job attempt]
      by (metis surjective_pairing)
    with Some l r(3) show ?thesis by auto
  qed
qed

section \<open>Witnesses\<close>

fun run_ops :: "op list \<Rightarrow> server \<Rightarrow> server option" where
  "run_ops [] v = Some v"
| "run_ops (c # cs) v =
     (if enabled c v then (case exec c v of None \<Rightarrow> None | Some w \<Rightarrow> run_ops cs w) else None)"

lemma run_ops_steps: "run_ops cs v = Some w \<Longrightarrow> server_step\<^sup>*\<^sup>* v w"
proof (induction cs v rule: run_ops.induct)
  case (2 c cs v)
  then show ?case
    by (auto simp: server_step_def split: if_splits option.splits intro: converse_rtranclp_into_rtranclp)
qed simp

definition ex_init :: server where
  "ex_init = \<lparr>svStore = NewSessionStore, svPending = []\<rparr>"

text \<open>
  An agent registers, connects and gets a job; a fence reads its generation, then the agent
  re-registers with the next generation before the fence revokes.
\<close>

definition ex_ops :: "op list" where
  "ex_ops = [OpCreate ''s1'' 7 [''linux''] 2 1 ''docker'', OpClaim ''s1'', OpMarkReady ''s1'']"

definition ex_race :: "op list" where
  "ex_race = ex_ops @ [OpDispatchAssignment 7 (MsgAssign ''j'') 40 1, OpFence 7 1,
     OpCreate ''s2'' 7 [''linux''] 2 2 ''docker'']"

definition ex_ready :: server where
  "ex_ready = (case run_ops ex_ops ex_init of Some w \<Rightarrow> w | None \<Rightarrow> ex_init)"

definition ex_raced :: server where
  "ex_raced = (case run_ops ex_race ex_init of Some w \<Rightarrow> w | None \<Rightarrow> ex_init)"

lemma ex_init_init: "server_init ex_init"
  by (simp add: server_init_def ex_init_def)

lemma ex_reachable: "server_step\<^sup>*\<^sup>* ex_init ex_ready" "server_step\<^sup>*\<^sup>* ex_init ex_raced"
proof -
  have "\<not> Option.is_none (run_ops ex_ops ex_init)" "\<not> Option.is_none (run_ops ex_race ex_init)"
    by code_simp+
  then show "server_step\<^sup>*\<^sup>* ex_init ex_ready" "server_step\<^sup>*\<^sup>* ex_init ex_raced"
    by (auto simp: ex_ready_def ex_raced_def Option.is_none_def intro: run_ops_steps)
qed

lemma ex_facts:
  "stByID (svStore ex_ready) ''s1'' = Some 0" "length (stHeap (svStore ex_ready)) = 1"
  "svPending ex_raced = [PendFence ''s1'' 1]" "length (stHeap (svStore ex_raced)) = 2"
  "ssGeneration (sess_at (svStore ex_raced) 1) = 2"
  by code_simp+

theorem sessions_never_panic_witness: "exec (OpPending 0) ex_raced \<noteq> None"
  by (rule sessions_never_panic [OF ex_init_init ex_reachable(2)]) (simp add: ex_facts)

theorem one_live_session_witness:
  "\<not> ssRevoked (sess_at (svStore ex_ready) 0) \<and> length (ch_buf (ssOut (sess_at (svStore ex_ready) 0))) \<le> 16"
  using one_live_session [OF ex_init_init ex_reachable(1) ex_facts(1), of 0]
  by (simp add: ex_facts defaultSendBuffer_def)

definition ex_registered :: server where
  "ex_registered =
     (case run_ops [OpCreate ''s1'' 7 [''linux''] 2 1 ''docker''] ex_init of Some w \<Rightarrow> w | None \<Rightarrow> ex_init)"

theorem connect_claim_exclusive_witness:
  "\<forall>q. snd (ClaimConnect ''s1'' (fst (ClaimConnect ''s1'' (svStore ex_registered)))) \<noteq> Inr q"
proof -
  have "\<not> Option.is_none (run_ops [OpCreate ''s1'' 7 [''linux''] 2 1 ''docker''] ex_init)"
    by code_simp
  then have "server_step\<^sup>*\<^sup>* ex_init ex_registered"
    by (auto simp: ex_registered_def Option.is_none_def simp del: run_ops.simps intro: run_ops_steps)
  moreover have "snd (ClaimConnect ''s1'' (svStore ex_registered)) = Inr 0" by code_simp
  ultimately show ?thesis
    using connect_claim_exclusive [OF ex_init_init, of ex_registered "''s1''"
        "fst (ClaimConnect ''s1'' (svStore ex_registered))" 0
        "ex_registered\<lparr>svStore := fst (ClaimConnect ''s1'' (svStore ex_registered))\<rparr>"]
    by (simp add: prod_eq_iff)
qed

theorem dispatch_assignment_atomic_witness:
  "\<exists>s'. DispatchAssignment 7 (MsgAssign ''j'') 40 1 (svStore ex_ready) = Some (s', None) \<and>
     LookupAssignment (sess_at s' 0) 40 = Some 1"
proof -
  let ?d = "DispatchAssignment 7 (MsgAssign ''j'') 40 1 (svStore ex_ready)"
  have ok: "case ?d of Some (s', res) \<Rightarrow> Option.is_none res | None \<Rightarrow> False" by code_simp
  have l: "latest_ref (svStore ex_ready) 7 = Some 0" by code_simp
  from ok obtain s' where d: "?d = Some (s', None)"
    by (auto split: option.splits prod.splits simp: Option.is_none_def)
  from dispatch_assignment_atomic [OF ex_init_init ex_reachable(1) d] l d show ?thesis
    by (auto simp: Let_def)
qed

theorem fence_spares_successor_witness:
  "\<exists>s' ps. run_pending (PendFence ''s1'' 1) (svStore ex_raced) = Some (s', ps) \<and>
     sess_at s' 1 = sess_at (svStore ex_raced) 1"
proof -
  have "\<not> Option.is_none (run_pending (PendFence ''s1'' 1) (svStore ex_raced))" by code_simp
  then obtain s' ps where r: "run_pending (PendFence ''s1'' 1) (svStore ex_raced) = Some (s', ps)"
    by (auto simp: Option.is_none_def)
  with fence_spares_successor [OF ex_init_init ex_reachable(2) _ r, of 1] ex_facts show ?thesis
    by simp
qed

theorem find_idle_sound_complete_witness:
  "\<exists>r. latest_ref (svStore ex_ready) 7 = Some r \<and> idle_session (svStore ex_ready) [''linux''] r"
proof -
  have "FindIdleWithTags (svStore ex_ready) [''linux''] = Some 7" by code_simp
  with find_idle_sound_complete [OF ex_init_init ex_reachable(1), of "[''linux'']"] show ?thesis
    by auto
qed

end
