(* ===== verification/DeployDecide.thy ===== *)
theory DeployDecide
  imports Prelude
begin

text \<open>
  The pure decision layer of the deploy watcher: \<open>server/internal/deploy/provider.go\<close> (the
  convergence snapshot), \<open>rollout.go\<close> (deriving the rollout state from a decoded Rollout
  manifest), \<open>convergence.go\<close> (\<open>Evaluate\<close>) and \<open>decide.go\<close> (\<open>Decide\<close>).
\<close>

section \<open>Snapshots\<close>

datatype SyncMode = SyncModeTrigger | SyncModeObserve | SyncModeOther string

record DeploymentTarget =
  tgProjectID :: uuid
  tgEnvironment :: string
  tgProvider :: string
  tgCluster :: string
  tgApplication :: string
  tgNamespace :: string
  tgSyncMode :: SyncMode
  tgRolloutAware :: bool
  tgRolloutCluster :: string
  tgRolloutNamespace :: string
  tgRolloutName :: string

datatype RolloutPhase =
  RolloutProgressing | RolloutPaused | RolloutDegraded | RolloutHealthy | RolloutPhaseOther string

datatype OpPhase =
  OpRunning | OpSucceeded | OpFailed | OpError | OpTerminating | OpOther string

datatype SyncStatus = SyncSynced | SyncOutOfSync | SyncUnknown | SyncOther string

datatype HealthStatus =
  HealthHealthy | HealthProgressing | HealthDegraded | HealthSuspended | HealthMissing
| HealthUnknown | HealthOther string

record RolloutState =
  roPhase :: RolloutPhase
  roPauseReason :: string
  roCurrentStepIndex :: int
  roCurrentStepKnown :: bool
  roStepCount :: int
  roAborted :: bool
  roMessage :: string
  roStableHash :: string
  roPodHash :: string
  roPausedIndefinitely :: bool
  roFullyPromoted :: bool
  roResolvedCluster :: string
  roResolvedNamespace :: string
  roResolvedName :: string
  roAnalysisActive :: bool
  roAnalysisKind :: string
  roAnalysisName :: string
  roAnalysisPhase :: string
  roAnalysisMessage :: string

record DeployState =
  dsSync :: SyncStatus
  dsHealth :: HealthStatus
  dsObservedRev :: string
  dsOperationPhase :: OpPhase
  dsOperationStartedAt :: gotime
  dsSyncResultRevision :: string
  dsRollout :: RolloutState
  dsRolloutObserved :: bool
  dsRolloutError :: string

definition PauseReasonCanaryStep :: string where
  "PauseReasonCanaryStep = ''CanaryPauseStep''"

datatype DeployOutcome = OutcomePending | OutcomeSucceeded | OutcomeFailed

text \<open>The zero values of the Go structs, as \<open>RolloutState{}\<close> and \<open>DeployState{}\<close> write them.\<close>

definition zero_rollout :: RolloutState where
  "zero_rollout =
     \<lparr>roPhase = RolloutPhaseOther [], roPauseReason = [], roCurrentStepIndex = 0,
      roCurrentStepKnown = False, roStepCount = 0, roAborted = False, roMessage = [],
      roStableHash = [], roPodHash = [], roPausedIndefinitely = False, roFullyPromoted = False,
      roResolvedCluster = [], roResolvedNamespace = [], roResolvedName = [],
      roAnalysisActive = False, roAnalysisKind = [], roAnalysisName = [], roAnalysisPhase = [],
      roAnalysisMessage = []\<rparr>"

definition zero_state :: DeployState where
  "zero_state =
     \<lparr>dsSync = SyncOther [], dsHealth = HealthOther [], dsObservedRev = [],
      dsOperationPhase = OpOther [], dsOperationStartedAt = 0, dsSyncResultRevision = [],
      dsRollout = zero_rollout, dsRolloutObserved = False, dsRolloutError = []\<rparr>"

section \<open>Reading a Rollout\<close>

text \<open>
  The result of \<open>json.Unmarshal\<close> into the structs of \<open>rollout.go\<close>; \<open>None\<close> is its error.
  A step carries the raw text of its pause duration, when it has a pause.
\<close>

record app_resource =
  arGroup :: string
  arKind :: string
  arNamespace :: string
  arName :: string

datatype rollout_error = RolloutDecode | ErrRolloutNotFound | ErrMultipleRollouts

fun discover_loop :: "app_resource list \<Rightarrow> nat \<Rightarrow> string \<times> string \<Rightarrow> nat \<times> string \<times> string" where
  "discover_loop [] found cur = (found, cur)"
| "discover_loop (r # rs) found cur =
     (if arGroup r = ''argoproj.io'' \<and> arKind r = ''Rollout'' \<and> arNamespace r \<noteq> [] \<and> arName r \<noteq> []
      then discover_loop rs (Suc found) (arNamespace r, arName r)
      else discover_loop rs found cur)"

definition discoverRollout :: "app_resource list option \<Rightarrow> rollout_error + string \<times> string" where
  "discoverRollout app =
     (case app of
        None \<Rightarrow> Inl RolloutDecode
      | Some resources \<Rightarrow>
          (case discover_loop resources 0 ([], []) of
             (found, ns, name) \<Rightarrow>
               (if found = 0 then Inl ErrRolloutNotFound
                else if found > 1 then Inl ErrMultipleRollouts
                else Inr (ns, name))))"

record rolloutStep =
  rsPause :: "string option"

record analysisRunStatus =
  anName :: string
  anStatus :: string
  anMessage :: string

record rolloutManifest =
  rmSteps :: "rolloutStep list"
  rmPhase :: string
  rmMessage :: string
  rmCurrentStepIndex :: "int option"
  rmAbort :: bool
  rmStableRS :: string
  rmCurrentPodHash :: string
  rmPauseReasons :: "string list"
  rmStepAnalysis :: "analysisRunStatus option"
  rmBackgroundAnalysis :: "analysisRunStatus option"

definition isIndefinitePause :: "rolloutStep \<Rightarrow> bool" where
  "isIndefinitePause s =
     (case rsPause s of
        None \<Rightarrow> False
      | Some d \<Rightarrow> trim_space d \<in> {[], ''null'', [CHR 0x22, CHR 0x22]})"

definition normalizeRolloutPhase :: "string \<Rightarrow> RolloutPhase" where
  "normalizeRolloutPhase s =
     (if s = ''Progressing'' then RolloutProgressing else if s = ''Paused'' then RolloutPaused
      else if s = ''Degraded'' then RolloutDegraded else if s = ''Healthy'' then RolloutHealthy
      else RolloutPhaseOther s)"

definition setAnalysis :: "string \<Rightarrow> analysisRunStatus \<Rightarrow> RolloutState \<Rightarrow> RolloutState" where
  "setAnalysis kind a rs = rs\<lparr>roAnalysisActive := True, roAnalysisKind := kind,
     roAnalysisName := anName a, roAnalysisPhase := anStatus a, roAnalysisMessage := anMessage a\<rparr>"

definition parseRolloutState :: "rolloutManifest option \<Rightarrow> RolloutState option" where
  "parseRolloutState raw =
     (case raw of
        None \<Rightarrow> None
      | Some m \<Rightarrow>
          (let steps = rmSteps m;
               pauseReason = (case rmPauseReasons m of [] \<Rightarrow> [] | r # _ \<Rightarrow> r);
               stepKnown = (rmCurrentStepIndex m \<noteq> None);
               stepIdx = (case rmCurrentStepIndex m of None \<Rightarrow> 0 | Some i \<Rightarrow> i);
               pausedIndef = (pauseReason = PauseReasonCanaryStep \<and> stepKnown \<and> 0 \<le> stepIdx
                 \<and> stepIdx < int (length steps) \<and> isIndefinitePause (steps ! nat stepIdx));
               advanced = (steps = [] \<or> stepKnown \<and> int (length steps) \<le> stepIdx);
               promoted = (advanced \<and> rmCurrentPodHash m \<noteq> [] \<and> rmCurrentPodHash m = rmStableRS m
                 \<and> normalizeRolloutPhase (rmPhase m) = RolloutHealthy);
               rs = zero_rollout\<lparr>roPhase := normalizeRolloutPhase (rmPhase m),
                 roPauseReason := pauseReason, roCurrentStepIndex := stepIdx,
                 roCurrentStepKnown := stepKnown, roStepCount := int (length steps),
                 roAborted := rmAbort m, roMessage := rmMessage m, roStableHash := rmStableRS m,
                 roPodHash := rmCurrentPodHash m, roPausedIndefinitely := pausedIndef,
                 roFullyPromoted := promoted\<rparr> in
           Some (case rmStepAnalysis m of
                   Some a \<Rightarrow> setAnalysis ''step'' a rs
                 | None \<Rightarrow>
                     (case rmBackgroundAnalysis m of
                        Some a \<Rightarrow> setAnalysis ''background'' a rs
                      | None \<Rightarrow> rs))))"

section \<open>Evaluate\<close>

definition Evaluate :: "DeployState \<Rightarrow> string \<Rightarrow> DeployOutcome" where
  "Evaluate s expectedRev =
     (if dsHealth s = HealthDegraded then OutcomeFailed
      else if dsSync s \<noteq> SyncSynced \<or> dsHealth s \<noteq> HealthHealthy then OutcomePending
      else if expectedRev \<noteq> [] \<and> dsObservedRev s \<noteq> expectedRev then OutcomePending
      else OutcomeSucceeded)"

section \<open>Decide\<close>

datatype VerdictEffect =
  Continue | SetDegraded | ClearDegraded | FinalizeSuccess | FinalizeFailed
| ArmGate | Promote | Abort | ClearGate

datatype GateDecision = GateUndecided | GateApproved | GateRejected | GateOther string

datatype reason =
  NoReason | ReasonDeadlineExceeded | ReasonDegradedTooLong | ReasonRolloutAborted
| ReasonRejected | ReasonCanceled | ReasonOperation OpPhase

record Verdict =
  vdEffect :: VerdictEffect
  vdReason :: reason

abbreviation verdict :: "VerdictEffect \<Rightarrow> reason \<Rightarrow> Verdict" where
  "verdict e r \<equiv> \<lparr>vdEffect = e, vdReason = r\<rparr>"

record WatchAnchors =
  waSyncMode :: SyncMode
  waExpectedRevision :: string
  waSyncRequestedAt :: "gotime option"
  waDeadlineAt :: gotime
  waDegradedSince :: "gotime option"
  waRolloutAware :: bool
  waGated :: bool
  waCancelRequested :: bool
  waGateArmedAt :: "gotime option"
  waGateDecision :: GateDecision
  waGateActionedAt :: "gotime option"
  waGatePausedStep :: "int option"
  waHasPinnedRolloutTarget :: bool
  waRolloutAbortActionedAt :: "gotime option"

definition operationTrusted :: "DeployState \<Rightarrow> WatchAnchors \<Rightarrow> bool" where
  "operationTrusted state w =
     (case waSyncRequestedAt w of
        None \<Rightarrow> False
      | Some t \<Rightarrow>
          (if waExpectedRevision w = [] then False
           else if dsOperationStartedAt state < t then False
           else dsSyncResultRevision state = waExpectedRevision w))"

definition rolloutObservedAborted :: "DeployState \<Rightarrow> bool" where
  "rolloutObservedAborted state = (dsRolloutObserved state \<and> roAborted (dsRollout state))"

definition pausedAtArmedStep :: "DeployState \<Rightarrow> WatchAnchors \<Rightarrow> bool" where
  "pausedAtArmedStep state w =
     (dsRolloutObserved state \<and> roPhase (dsRollout state) = RolloutPaused
      \<and> waGatePausedStep w \<noteq> None \<and> roCurrentStepKnown (dsRollout state)
      \<and> Some (roCurrentStepIndex (dsRollout state)) = waGatePausedStep w)"

definition hasKnownAbortTarget :: "DeployState \<Rightarrow> WatchAnchors \<Rightarrow> bool" where
  "hasKnownAbortTarget state w =
     (if waHasPinnedRolloutTarget w then True
      else dsRolloutObserved state \<and> roResolvedCluster (dsRollout state) \<noteq> []
        \<and> roResolvedNamespace (dsRollout state) \<noteq> [] \<and> roResolvedName (dsRollout state) \<noteq> [])"

definition gateActuatable :: "WatchAnchors \<Rightarrow> bool" where
  "gateActuatable w = (waGateArmedAt w \<noteq> None \<and> waHasPinnedRolloutTarget w)"

text \<open>Branch (9) of \<open>Decide\<close>, the classic convergence logic.\<close>

definition decide_convergence ::
  "DeployState \<Rightarrow> WatchAnchors \<Rightarrow> gotime \<Rightarrow> duration \<Rightarrow> Verdict" where
  "decide_convergence state w now degradedWindow =
     (if Evaluate state (waExpectedRevision w) = OutcomeSucceeded
         \<and> (\<not> waRolloutAware w \<or> \<not> dsRolloutObserved state \<or> roFullyPromoted (dsRollout state))
      then verdict FinalizeSuccess NoReason
      else if operationTrusted state w \<and> dsOperationPhase state \<in> {OpFailed, OpError}
      then verdict FinalizeFailed (ReasonOperation (dsOperationPhase state))
      else if dsHealth state = HealthDegraded then
        (case waDegradedSince w of
           None \<Rightarrow> verdict SetDegraded NoReason
         | Some since \<Rightarrow>
             (if now - since \<ge> degradedWindow then verdict FinalizeFailed ReasonDegradedTooLong
              else verdict Continue NoReason))
      else if waDegradedSince w \<noteq> None then verdict ClearDegraded NoReason
      else verdict Continue NoReason)"

definition Decide :: "DeployState \<Rightarrow> WatchAnchors \<Rightarrow> gotime \<Rightarrow> duration \<Rightarrow> Verdict" where
  "Decide state w now degradedWindow =
     (let pastDeadline = (now > waDeadlineAt w);
          awaitingHuman = (waGateArmedAt w \<noteq> None \<and> waGateDecision w = GateUndecided) in
      if waCancelRequested w \<and> waRolloutAware w then
        (if waRolloutAbortActionedAt w = None then
           (if hasKnownAbortTarget state w then verdict Abort ReasonCanceled
            else if pastDeadline then verdict FinalizeFailed ReasonDeadlineExceeded
            else verdict Continue NoReason)
         else if rolloutObservedAborted state \<or> pastDeadline
           then verdict FinalizeFailed ReasonCanceled
         else verdict Continue NoReason)
      else if waCancelRequested w \<and> \<not> waRolloutAware w then verdict FinalizeFailed ReasonCanceled
      else if waGated w \<and> waGateDecision w = GateRejected then
        (if gateActuatable w \<and> waGateActionedAt w = None \<and> \<not> rolloutObservedAborted state
         then verdict Abort ReasonRejected
         else if rolloutObservedAborted state \<or> pastDeadline
           then verdict FinalizeFailed ReasonRejected
         else verdict Continue NoReason)
      else if waRolloutAware w \<and> rolloutObservedAborted state
        then verdict FinalizeFailed ReasonRolloutAborted
      else if pastDeadline \<and> \<not> awaitingHuman
        then verdict FinalizeFailed ReasonDeadlineExceeded
      else if waGated w \<and> waRolloutAware w \<and> dsRolloutError state \<noteq> []
        then verdict Continue NoReason
      else if waGated w \<and> waGateDecision w = GateApproved then
        (if \<not> gateActuatable w then verdict Continue NoReason
         else if waGateActionedAt w = None then verdict Promote NoReason
         else if pausedAtArmedStep state w then verdict Continue NoReason
         else verdict ClearGate NoReason)
      else if waGated w \<and> waRolloutAware w \<and> dsRolloutObserved state
          \<and> roPausedIndefinitely (dsRollout state) \<and> waGateArmedAt w = None
        then verdict ArmGate NoReason
      else if awaitingHuman \<and> \<not> pausedAtArmedStep state w then verdict ClearGate NoReason
      else decide_convergence state w now degradedWindow)"

lemma Evaluate_succeeded_iff:
  "Evaluate s r = OutcomeSucceeded \<longleftrightarrow>
   dsSync s = SyncSynced \<and> dsHealth s = HealthHealthy \<and> (r = [] \<or> dsObservedRev s = r)"
  by (auto simp: Evaluate_def)

lemmas decide_defs = Decide_def Let_def decide_convergence_def Evaluate_succeeded_iff

lemma decide_convergence_effect:
  "vdEffect (decide_convergence s w now win) \<in>
     {FinalizeSuccess, FinalizeFailed, SetDegraded, ClearDegraded, Continue}"
  by (auto simp: decide_convergence_def split: option.splits)

lemma decide_convergence_success_iff:
  "vdEffect (decide_convergence s w now win) = FinalizeSuccess \<longleftrightarrow>
   Evaluate s (waExpectedRevision w) = OutcomeSucceeded
   \<and> (\<not> waRolloutAware w \<or> \<not> dsRolloutObserved s \<or> roFullyPromoted (dsRollout s))"
  by (auto simp: decide_convergence_def split: option.splits)

lemma decide_convergence_not [simp]:
  "vdEffect (decide_convergence s w now win) \<noteq> Promote"
  "vdEffect (decide_convergence s w now win) \<noteq> Abort"
  "vdEffect (decide_convergence s w now win) \<noteq> ArmGate"
  "vdEffect (decide_convergence s w now win) \<noteq> ClearGate"
  using decide_convergence_effect [of s w now win] by auto

definition awaiting_human :: "WatchAnchors \<Rightarrow> bool" where
  "awaiting_human w = (waGateArmedAt w \<noteq> None \<and> waGateDecision w = GateUndecided)"

section \<open>Properties\<close>

text \<open>
  \<open>Decide\<close> finalizes a deploy as successful exactly when: no cancel was requested; the
  gate was not decided; the rollout is not observed aborted; the deadline has not passed
  (unless a human is awaited at the armed step); a controlled rollout was read without
  error; no gate is due to be armed; and the application is synced and healthy on the
  expected revision with, for an observed rollout, the canary fully promoted.
\<close>

theorem decide_success_iff:
  "vdEffect (Decide s w now win) = FinalizeSuccess \<longleftrightarrow>
    \<not> waCancelRequested w \<and>
    \<not> (waGated w \<and> waGateDecision w \<in> {GateApproved, GateRejected}) \<and>
    \<not> (waRolloutAware w \<and> rolloutObservedAborted s) \<and>
    (now \<le> waDeadlineAt w \<or> awaiting_human w) \<and>
    \<not> (waGated w \<and> waRolloutAware w \<and> dsRolloutError s \<noteq> []) \<and>
    \<not> (waGated w \<and> waRolloutAware w \<and> dsRolloutObserved s \<and> roPausedIndefinitely (dsRollout s) \<and> waGateArmedAt w = None) \<and>
    (\<not> awaiting_human w \<or> pausedAtArmedStep s w) \<and>
    dsSync s = SyncSynced \<and> dsHealth s = HealthHealthy \<and>
    (waExpectedRevision w = [] \<or> dsObservedRev s = waExpectedRevision w) \<and>
    (\<not> waRolloutAware w \<or> \<not> dsRolloutObserved s \<or> roFullyPromoted (dsRollout s))"
  unfolding Decide_def Let_def awaiting_human_def
  by (cases "waCancelRequested w"; cases "waRolloutAware w"; cases "waGated w"; cases "waGateDecision w")
    (auto simp: decide_convergence_success_iff Evaluate_succeeded_iff)

text \<open>
  \<open>Decide\<close> actuates only on a known target and at most once per stamp. It promotes only
  an approved gate that is armed, pinned and not yet actioned, before the deadline, with no
  cancel, no observed abort and no observe error; it aborts only for a cancel with a
  resolvable target that was not aborted yet, or for a rejected gate that is armed, pinned,
  not yet actioned and not already observed aborted.
\<close>

theorem decide_actuation_guarded:
  "(vdEffect (Decide s w now win) = Promote \<longleftrightarrow>
      waGated w \<and> waGateDecision w = GateApproved \<and> gateActuatable w \<and> waGateActionedAt w = None
      \<and> \<not> waCancelRequested w \<and> now \<le> waDeadlineAt w
      \<and> \<not> (waRolloutAware w \<and> (rolloutObservedAborted s \<or> dsRolloutError s \<noteq> [])))
   \<and> (vdEffect (Decide s w now win) = Abort \<longleftrightarrow>
      (if waCancelRequested w
       then waRolloutAware w \<and> waRolloutAbortActionedAt w = None \<and> hasKnownAbortTarget s w
       else waGated w \<and> waGateDecision w = GateRejected \<and> gateActuatable w
         \<and> waGateActionedAt w = None \<and> \<not> rolloutObservedAborted s))"
  unfolding Decide_def Let_def
  by (cases "waCancelRequested w"; cases "waRolloutAware w"; cases "waGated w"; cases "waGateDecision w")
    auto

text \<open>
  The deadline cannot be outlived: past it, unless a human is being awaited at an armed
  gate of an uncancelled deploy, the verdict is a failure or an abort, and it is an abort only
  while the corresponding stamp (rollout abort, or gate action) is still missing; so once
  the abort has been stamped the next verdict is a failure.
\<close>

theorem decide_deadline:
  assumes "waDeadlineAt w < now" and "waCancelRequested w \<or> \<not> awaiting_human w"
  shows "vdEffect (Decide s w now win) = FinalizeFailed \<or>
    vdEffect (Decide s w now win) = Abort \<and> (waRolloutAbortActionedAt w = None \<or> waGateActionedAt w = None)"
  using assms unfolding Decide_def Let_def awaiting_human_def
  by (cases "waCancelRequested w"; cases "waRolloutAware w"; cases "waGated w"; cases "waGateDecision w")
    auto

text \<open>
  The snapshot of a rollout: the parsed manifest with the identity that was resolved.
\<close>

definition snapshot_of :: "rolloutManifest \<Rightarrow> DeployState \<Rightarrow> bool" where
  "snapshot_of m s =
     (case parseRolloutState (Some m) of
        None \<Rightarrow> False
      | Some r \<Rightarrow>
          dsRolloutObserved s \<and>
          dsRollout s = r\<lparr>roResolvedCluster := roResolvedCluster (dsRollout s),
            roResolvedNamespace := roResolvedNamespace (dsRollout s),
            roResolvedName := roResolvedName (dsRollout s)\<rparr>)"

lemma RolloutState_eq_iff:
  "(r :: RolloutState) = r'\<lparr>roResolvedCluster := a, roResolvedNamespace := b, roResolvedName := c\<rparr> \<Longrightarrow>
   roPhase r = roPhase r' \<and> roFullyPromoted r = roFullyPromoted r' \<and>
   roPausedIndefinitely r = roPausedIndefinitely r' \<and> roCurrentStepIndex r = roCurrentStepIndex r'"
  by simp

lemma parse_fields:
  assumes "parseRolloutState (Some m) = Some r"
  shows "roPhase r = normalizeRolloutPhase (rmPhase m)"
    and "roFullyPromoted r \<Longrightarrow> roPhase r = RolloutHealthy \<and> rmCurrentPodHash m \<noteq> [] \<and>
      rmCurrentPodHash m = rmStableRS m \<and>
      (rmSteps m = [] \<or> (\<exists>i. rmCurrentStepIndex m = Some i \<and> int (length (rmSteps m)) \<le> i))"
    and "roPausedIndefinitely r \<Longrightarrow> \<exists>i. rmCurrentStepIndex m = Some i \<and> roCurrentStepIndex r = i \<and>
      0 \<le> i \<and> i < int (length (rmSteps m)) \<and> isIndefinitePause (rmSteps m ! nat i)"
  using assms
  by (auto simp: parseRolloutState_def Let_def setAnalysis_def zero_rollout_def split: option.splits)

lemma snapshot_fields:
  assumes "snapshot_of m s"
  shows "roFullyPromoted (dsRollout s) \<Longrightarrow> roPhase (dsRollout s) = RolloutHealthy \<and>
      rmCurrentPodHash m \<noteq> [] \<and> rmCurrentPodHash m = rmStableRS m \<and>
      (rmSteps m = [] \<or> (\<exists>i. rmCurrentStepIndex m = Some i \<and> int (length (rmSteps m)) \<le> i))"
    and "roPausedIndefinitely (dsRollout s) \<Longrightarrow> \<exists>i. rmCurrentStepIndex m = Some i \<and>
      roCurrentStepIndex (dsRollout s) = i \<and> 0 \<le> i \<and> i < int (length (rmSteps m)) \<and>
      isIndefinitePause (rmSteps m ! nat i)"
    and "dsRolloutObserved s"
proof -
  obtain r where r: "parseRolloutState (Some m) = Some r"
    and eq: "dsRollout s = r\<lparr>roResolvedCluster := roResolvedCluster (dsRollout s),
            roResolvedNamespace := roResolvedNamespace (dsRollout s),
            roResolvedName := roResolvedName (dsRollout s)\<rparr>"
    and obs: "dsRolloutObserved s"
    using assms by (auto simp: snapshot_of_def split: option.splits)
  note f = RolloutState_eq_iff [OF eq]
  show "dsRolloutObserved s" by (rule obs)
  show "roPhase (dsRollout s) = RolloutHealthy \<and>
      rmCurrentPodHash m \<noteq> [] \<and> rmCurrentPodHash m = rmStableRS m \<and>
      (rmSteps m = [] \<or> (\<exists>i. rmCurrentStepIndex m = Some i \<and> int (length (rmSteps m)) \<le> i))"
    if "roFullyPromoted (dsRollout s)"
    using parse_fields(2) [OF r] f that by metis
  show "\<exists>i. rmCurrentStepIndex m = Some i \<and>
      roCurrentStepIndex (dsRollout s) = i \<and> 0 \<le> i \<and> i < int (length (rmSteps m)) \<and>
      isIndefinitePause (rmSteps m ! nat i)"
    if "roPausedIndefinitely (dsRollout s)"
    using parse_fields(3) [OF r] f that by metis
qed

text \<open>
  On a snapshot read from a Rollout manifest: an armed gate of a controlled rollout never
  lets the deploy finalize as successful, whatever its decision; a success of an observed
  rollout means that the manifest's canary passed all its steps with the new pods stable; and
  a gate is armed only at a reported step that is a pause without a duration.
\<close>

theorem decide_rollout_snapshot:
  assumes "snapshot_of m s" and "waRolloutAware w" and "waGated w"
    and "waGateDecision w \<in> {GateUndecided, GateApproved, GateRejected}"
  shows "(vdEffect (Decide s w now win) = FinalizeSuccess \<longrightarrow>
      waGateArmedAt w = None \<and> rmCurrentPodHash m = rmStableRS m \<and>
      (rmSteps m = [] \<or> (\<exists>i. rmCurrentStepIndex m = Some i \<and> int (length (rmSteps m)) \<le> i))) \<and>
    (vdEffect (Decide s w now win) = ArmGate \<longrightarrow>
      (\<exists>i. rmCurrentStepIndex m = Some i \<and> 0 \<le> i \<and> i < int (length (rmSteps m)) \<and>
        isIndefinitePause (rmSteps m ! nat i)))"
proof (intro conjI impI)
  note f = snapshot_fields [OF assms(1)]
  assume "vdEffect (Decide s w now win) = FinalizeSuccess"
  then have d: "waGateDecision w = GateUndecided" "roFullyPromoted (dsRollout s)"
    "awaiting_human w \<Longrightarrow> pausedAtArmedStep s w"
    using assms(2-4) f(3) by (auto simp: awaiting_human_def Decide_def Let_def
        decide_convergence_success_iff split: if_splits)
  have "\<not> pausedAtArmedStep s w"
    using f(1) [OF d(2)] by (simp add: pausedAtArmedStep_def)
  with d(1,3) show "waGateArmedAt w = None"
    by (cases "waGateArmedAt w") (auto simp: awaiting_human_def)
  from f(1) [OF d(2)] show "rmCurrentPodHash m = rmStableRS m"
    and "rmSteps m = [] \<or> (\<exists>i. rmCurrentStepIndex m = Some i \<and> int (length (rmSteps m)) \<le> i)"
    by simp_all
next
  assume "vdEffect (Decide s w now win) = ArmGate"
  then have "roPausedIndefinitely (dsRollout s)"
    by (auto simp: Decide_def Let_def split: if_splits)
  from snapshot_fields(2) [OF assms(1) this]
  show "\<exists>i. rmCurrentStepIndex m = Some i \<and> 0 \<le> i \<and> i < int (length (rmSteps m)) \<and>
        isIndefinitePause (rmSteps m ! nat i)" by auto
qed

section \<open>Witnesses\<close>

definition ex_anchors :: WatchAnchors where
  "ex_anchors =
     \<lparr>waSyncMode = SyncModeTrigger, waExpectedRevision = ''abc'', waSyncRequestedAt = Some 5,
      waDeadlineAt = 100, waDegradedSince = None, waRolloutAware = True, waGated = True,
      waCancelRequested = False, waGateArmedAt = None, waGateDecision = GateUndecided,
      waGateActionedAt = None, waGatePausedStep = None, waHasPinnedRolloutTarget = False,
      waRolloutAbortActionedAt = None\<rparr>"

definition ex_manifest :: rolloutManifest where
  "ex_manifest =
     \<lparr>rmSteps = [\<lparr>rsPause = None\<rparr>, \<lparr>rsPause = Some []\<rparr>], rmPhase = ''Paused'', rmMessage = [],
      rmCurrentStepIndex = Some 1, rmAbort = False, rmStableRS = ''a1'', rmCurrentPodHash = ''b2'',
      rmPauseReasons = [''CanaryPauseStep''], rmStepAnalysis = None, rmBackgroundAnalysis = None\<rparr>"

definition ex_observed :: DeployState where
  "ex_observed = zero_state\<lparr>dsSync := SyncSynced, dsHealth := HealthHealthy, dsObservedRev := ''abc'',
     dsRolloutObserved := True, dsRollout := the (parseRolloutState (Some ex_manifest))\<rparr>"

theorem decide_success_iff_witness:
  "vdEffect (Decide (zero_state\<lparr>dsSync := SyncSynced, dsHealth := HealthHealthy, dsObservedRev := ''abc''\<rparr>)
     (ex_anchors\<lparr>waGated := False\<rparr>) 10 60) = FinalizeSuccess"
  using decide_success_iff [of "zero_state\<lparr>dsSync := SyncSynced, dsHealth := HealthHealthy, dsObservedRev := ''abc''\<rparr>"
      "ex_anchors\<lparr>waGated := False\<rparr>" 10 60]
  by (simp add: ex_anchors_def zero_state_def awaiting_human_def rolloutObservedAborted_def)

theorem decide_deadline_witness:
  "vdEffect (Decide ex_observed ex_anchors 101 60) = FinalizeFailed \<or>
   vdEffect (Decide ex_observed ex_anchors 101 60) = Abort \<and>
     (waRolloutAbortActionedAt ex_anchors = None \<or> waGateActionedAt ex_anchors = None)"
  by (rule decide_deadline) (simp_all add: ex_anchors_def awaiting_human_def)

theorem decide_rollout_snapshot_witness:
  "vdEffect (Decide ex_observed ex_anchors 10 60) = ArmGate \<and>
   isIndefinitePause (rmSteps ex_manifest ! nat 1)"
proof -
  have arm: "vdEffect (Decide ex_observed ex_anchors 10 60) = ArmGate" by code_simp
  have "snapshot_of ex_manifest ex_observed" by code_simp
  moreover have "waRolloutAware ex_anchors" "waGated ex_anchors"
    "waGateDecision ex_anchors \<in> {GateUndecided, GateApproved, GateRejected}"
    by (simp_all add: ex_anchors_def)
  ultimately have "\<exists>i. rmCurrentStepIndex ex_manifest = Some i \<and> isIndefinitePause (rmSteps ex_manifest ! nat i)"
    using decide_rollout_snapshot [of ex_manifest ex_observed ex_anchors 10 60] arm by blast
  with arm show ?thesis by (auto simp: ex_manifest_def)
qed

definition ex_approved :: WatchAnchors where
  "ex_approved = ex_anchors\<lparr>waGateArmedAt := Some 20, waGateDecision := GateApproved,
     waGatePausedStep := Some 1, waHasPinnedRolloutTarget := True\<rparr>"

theorem decide_actuation_guarded_witness:
  "vdEffect (Decide ex_observed ex_approved 30 60) = Promote \<and>
   vdEffect (Decide ex_observed (ex_approved\<lparr>waGateActionedAt := Some 30\<rparr>) 30 60) \<noteq> Promote"
proof -
  have "\<not> rolloutObservedAborted ex_observed" "dsRolloutError ex_observed = []" by code_simp+
  then show ?thesis
    using decide_actuation_guarded [of ex_observed ex_approved 30 60]
      decide_actuation_guarded [of ex_observed "ex_approved\<lparr>waGateActionedAt := Some 30\<rparr>" 30 60]
    by (simp add: ex_approved_def ex_anchors_def gateActuatable_def)
qed

end
