(* ===== verification/RunStore.thy ===== *)
theory RunStore
  imports GateGraph "HOL-Library.Product_Lexorder"
begin

text \<open>
  The run, stage and job tables and the transactions that move them: dispatch
  (\<open>server/internal/store/dispatch.go\<close>), completion and its cascade
  (\<open>results.go\<close>), cancellation (\<open>runs_actions.go\<close>) and the latest-wins supersede
  (\<open>supersede.go\<close>), with the SQL they run (\<open>server/internal/db/queries\<close>). A table is
  a list of rows; each function is one committed transaction. Whether a victim row of a
  supersede is locked by another transaction is a parameter of that operation.
\<close>

section \<open>Tables\<close>

datatype CancelOrigin =
  OriginUserJob | OriginUserRun | OriginSupersede | OriginDependency | OriginMergeGroup
| OriginApprovalExpiry

record RunRow =
  rrID :: uuid
  rrPipelineID :: uuid
  rrRef :: string
  rrCounter :: int
  rrStatus :: RunStatus
  rrQueueReason :: "string option"
  rrSupersededBy :: "uuid option"
  rrSupersededCounter :: "int option"
  rrServiceGeneration :: int
  rrTerminalEffectsRequired :: bool
  rrDefinition :: Pipeline

record StageRow =
  srID :: uuid
  srRunID :: uuid
  srName :: string
  srOrdinal :: nat
  srStatus :: RunStatus

record JobRow =
  jrID :: uuid
  jrRunID :: uuid
  jrStageRunID :: uuid
  jrName :: string
  jrMatrixKey :: string
  jrNeeds :: "string list"
  jrStatus :: RunStatus
  jrAgentID :: "uuid option"
  jrAttempt :: int
  jrExitCode :: "int option"
  jrError :: "string option"
  jrOutputs :: smap
  jrCancelRequested :: bool
  jrCancelOrigin :: "CancelOrigin option"
  jrApprovalGate :: bool
  jrRetryUnsafe :: bool

datatype db_event =
  EvRunTerminalEffects uuid
| EvRunSuperseded uuid
| EvRunQueued uuid

record DB =
  dbRuns :: "RunRow list"
  dbStages :: "StageRow list"
  dbJobs :: "JobRow list"
  dbEvents :: "db_event list"

definition active :: "RunStatus \<Rightarrow> bool" where
  "active s = (s = StatusQueued \<or> s = StatusRunning)"

definition job_unfinished :: "RunStatus \<Rightarrow> bool" where
  "job_unfinished s = (s = StatusQueued \<or> s = StatusRunning \<or> s = StatusAwaitingApproval)"

definition find_run :: "DB \<Rightarrow> uuid \<Rightarrow> RunRow option" where
  "find_run d i = find (\<lambda>r. rrID r = i) (dbRuns d)"

definition find_stage :: "DB \<Rightarrow> uuid \<Rightarrow> StageRow option" where
  "find_stage d i = find (\<lambda>s. srID s = i) (dbStages d)"

definition find_job :: "DB \<Rightarrow> uuid \<Rightarrow> JobRow option" where
  "find_job d i = find (\<lambda>j. jrID j = i) (dbJobs d)"

text \<open>The join \<open>job_runs j JOIN stage_runs s ... WHERE s.name != '_notifications'\<close>.\<close>

definition user_job :: "DB \<Rightarrow> JobRow \<Rightarrow> bool" where
  "user_job d j = list_ex (\<lambda>s. srID s = jrStageRunID j \<and> srName s \<noteq> NotificationStageName) (dbStages d)"

section \<open>Queries\<close>

definition upd_jobs :: "(JobRow \<Rightarrow> bool) \<Rightarrow> (JobRow \<Rightarrow> JobRow) \<Rightarrow> DB \<Rightarrow> DB" where
  "upd_jobs p f d = d\<lparr>dbJobs := upd_where p f (dbJobs d)\<rparr>"

definition upd_stages :: "(StageRow \<Rightarrow> bool) \<Rightarrow> (StageRow \<Rightarrow> StageRow) \<Rightarrow> DB \<Rightarrow> DB" where
  "upd_stages p f d = d\<lparr>dbStages := upd_where p f (dbStages d)\<rparr>"

definition upd_runs :: "(RunRow \<Rightarrow> bool) \<Rightarrow> (RunRow \<Rightarrow> RunRow) \<Rightarrow> DB \<Rightarrow> DB" where
  "upd_runs p f d = d\<lparr>dbRuns := upd_where p f (dbRuns d)\<rparr>"

definition snapshot_matches :: "uuid \<Rightarrow> uuid option \<Rightarrow> int \<Rightarrow> JobRow \<Rightarrow> bool" where
  "snapshot_matches job agent attempt j =
     (jrID j = job \<and> active (jrStatus j) \<and> jrAgentID j = agent \<and> jrAttempt j = attempt)"

definition PrecheckJobCompletion :: "uuid \<Rightarrow> uuid option \<Rightarrow> int \<Rightarrow> DB \<Rightarrow> bool" where
  "PrecheckJobCompletion job agent attempt d = list_ex (snapshot_matches job agent attempt) (dbJobs d)"

definition completed_row ::
  "RunStatus \<Rightarrow> int \<Rightarrow> string option \<Rightarrow> smap \<Rightarrow> JobRow \<Rightarrow> JobRow" where
  "completed_row status exit err outputs j =
     j\<lparr>jrStatus := (if jrCancelRequested j then StatusCanceled else status),
       jrExitCode := Some exit, jrError := err,
       jrOutputs := (if \<not> jrCancelRequested j \<and> status = StatusSuccess then outputs else [])\<rparr>"

definition CompleteJobRun ::
  "uuid \<Rightarrow> RunStatus \<Rightarrow> int \<Rightarrow> string option \<Rightarrow> smap \<Rightarrow> uuid option \<Rightarrow> int \<Rightarrow> DB \<Rightarrow> DB \<times> JobRow option" where
  "CompleteJobRun job status exit err outputs agent attempt d =
     (upd_jobs (snapshot_matches job agent attempt) (completed_row status exit err outputs) d,
      map_option (completed_row status exit err outputs)
        (find (snapshot_matches job agent attempt) (dbJobs d)))"

record stage_progress =
  spUnfinished :: nat
  spFailed :: nat
  spCanceled :: nat

definition GetStageProgress :: "uuid \<Rightarrow> DB \<Rightarrow> stage_progress" where
  "GetStageProgress stage d =
     \<lparr>spUnfinished = count_where (\<lambda>j. jrStageRunID j = stage \<and> job_unfinished (jrStatus j)) (dbJobs d),
      spFailed = count_where (\<lambda>j. jrStageRunID j = stage \<and> jrStatus j = StatusFailed) (dbJobs d),
      spCanceled = count_where (\<lambda>j. jrStageRunID j = stage \<and> jrStatus j = StatusCanceled) (dbJobs d)\<rparr>"

definition CompleteStageRun :: "uuid \<Rightarrow> RunStatus \<Rightarrow> DB \<Rightarrow> DB \<times> nat" where
  "CompleteStageRun stage status d =
     (upd_stages (\<lambda>s. srID s = stage \<and> active (srStatus s)) (\<lambda>s. s\<lparr>srStatus := status\<rparr>) d,
      count_where (\<lambda>s. srID s = stage \<and> active (srStatus s)) (dbStages d))"

definition GetRunProgress :: "uuid \<Rightarrow> DB \<Rightarrow> nat \<times> nat" where
  "GetRunProgress run d =
     (count_where (\<lambda>s. srRunID s = run \<and> active (srStatus s)) (dbStages d),
      count_where (\<lambda>s. srRunID s = run \<and> srStatus s = StatusFailed) (dbStages d))"

definition CompleteRun :: "uuid \<Rightarrow> RunStatus \<Rightarrow> DB \<Rightarrow> DB \<times> nat" where
  "CompleteRun run status d =
     (upd_runs (\<lambda>r. rrID r = run \<and> active (rrStatus r))
        (\<lambda>r. r\<lparr>rrStatus := status, rrTerminalEffectsRequired := True\<rparr>) d,
      count_where (\<lambda>r. rrID r = run \<and> active (rrStatus r)) (dbRuns d))"

record UserStageOutcome =
  uoFailed :: nat
  uoCanceled :: nat

definition GetRunUserStageOutcome :: "uuid \<Rightarrow> DB \<Rightarrow> UserStageOutcome" where
  "GetRunUserStageOutcome run d =
     \<lparr>uoFailed = count_where (\<lambda>j. jrRunID j = run \<and> user_job d j \<and> jrStatus j = StatusFailed) (dbJobs d),
      uoCanceled = count_where (\<lambda>j. jrRunID j = run \<and> user_job d j \<and> jrStatus j = StatusCanceled) (dbJobs d)\<rparr>"

definition first_origin :: "CancelOrigin \<Rightarrow> JobRow \<Rightarrow> CancelOrigin option" where
  "first_origin o' j = (case jrCancelOrigin j of Some old \<Rightarrow> Some old | None \<Rightarrow> Some o')"

definition CancelQueuedStagesInRun :: "uuid \<Rightarrow> DB \<Rightarrow> DB" where
  "CancelQueuedStagesInRun run =
     upd_stages (\<lambda>s. srRunID s = run \<and> srStatus s = StatusQueued \<and> srName s \<noteq> NotificationStageName)
       (\<lambda>s. s\<lparr>srStatus := StatusCanceled\<rparr>)"

definition CancelQueuedJobsInRun :: "uuid \<Rightarrow> CancelOrigin \<Rightarrow> DB \<Rightarrow> DB" where
  "CancelQueuedJobsInRun run origin d =
     upd_jobs (\<lambda>j. jrRunID j = run \<and> user_job d j
         \<and> (jrStatus j = StatusQueued \<or> jrStatus j = StatusAwaitingApproval))
       (\<lambda>j. j\<lparr>jrStatus := StatusCanceled, jrCancelOrigin := first_origin origin j\<rparr>) d"

definition notify :: "db_event \<Rightarrow> DB \<Rightarrow> DB" where
  "notify e d = d\<lparr>dbEvents := dbEvents d @ [e]\<rparr>"

section \<open>The completion cascade\<close>

record JobCompletion =
  jcJobRunID :: uuid
  jcRunID :: uuid
  jcStageRunID :: uuid
  jcAgentID :: "uuid option"
  jcJobName :: string
  jcJobStatus :: RunStatus
  jcStageCompleted :: bool
  jcStageStatus :: RunStatus
  jcRunCompleted :: bool
  jcRunStatus :: RunStatus
  jcServiceGeneration :: int

definition completion_of :: "JobRow \<Rightarrow> JobCompletion" where
  "completion_of j =
     \<lparr>jcJobRunID = jrID j, jcRunID = jrRunID j, jcStageRunID = jrStageRunID j,
      jcAgentID = jrAgentID j, jcJobName = jrName j, jcJobStatus = jrStatus j,
      jcStageCompleted = False, jcStageStatus = StatusQueued, jcRunCompleted = False,
      jcRunStatus = StatusQueued, jcServiceGeneration = 0\<rparr>"

definition rollup_status :: "nat \<Rightarrow> nat \<Rightarrow> RunStatus" where
  "rollup_status failed canceled =
     (if failed > 0 then StatusFailed else if canceled > 0 then StatusCanceled else StatusSuccess)"

text \<open>The tail of the cascade, once the stage has been closed.\<close>

definition finish_run :: "uuid \<Rightarrow> JobCompletion \<Rightarrow> DB \<Rightarrow> JobCompletion \<times> DB" where
  "finish_run run cp d =
     (if fst (GetRunProgress run d) > 0 then (cp, d)
      else
        (let o' = GetRunUserStageOutcome run d;
             status = rollup_status (uoFailed o') (uoCanceled o');
             (d1, n) = CompleteRun run status d in
         if n = 0 then (cp, d1)
         else
           (cp\<lparr>jcRunCompleted := True, jcRunStatus := status,
              jcServiceGeneration :=
                (case find_run d1 run of Some r \<Rightarrow> rrServiceGeneration r | None \<Rightarrow> 0)\<rparr>,
            notify (EvRunTerminalEffects run) d1)))"

definition fail_fast :: "uuid \<Rightarrow> DB \<Rightarrow> DB" where
  "fail_fast run d = CancelQueuedJobsInRun run OriginDependency (CancelQueuedStagesInRun run d)"

text \<open>
  \<open>None\<close> is the error of a missing stage row; the caller's transaction rolls back. The cascade
  is one step here. The code locks the row of its own stage only, so the cascades of two stages
  of one run can overlap, each reading the other stage as it was before: what that does is in
  \<open>Overlap\<close>.
\<close>

definition cascadeAfterJobCompletion ::
  "uuid \<Rightarrow> uuid \<Rightarrow> JobCompletion \<Rightarrow> DB \<Rightarrow> (JobCompletion \<times> DB) option" where
  "cascadeAfterJobCompletion stage run cp d =
     (case find_stage d stage of
        None \<Rightarrow> None
      | Some st \<Rightarrow>
          Some (if \<not> active (srStatus st) then (cp, d)
           else
             (let p = GetStageProgress stage d in
              if spUnfinished p > 0 then (cp, d)
              else
                (let status = rollup_status (spFailed p) (spCanceled p);
                     (d1, n) = CompleteStageRun stage status d in
                 if n = 0 then (cp, d1)
                 else
                   (let cp1 = cp\<lparr>jcStageCompleted := True, jcStageStatus := status\<rparr>;
                        d2 = (if status = StatusFailed then fail_fast run d1 else d1) in
                    finish_run run cp1 d2)))))"

section \<open>Supersede\<close>

record supersedeInput =
  siPipelineID :: uuid
  siRef :: string
  siLaneMode :: Supersede
  siNewerRunID :: uuid
  siNewerCounter :: int
  siReadyEnvs :: "string list"
  siDef :: Pipeline

record SupersededRun =
  suRunID :: uuid
  suCounter :: int
  suRunningJobs :: "(uuid \<times> uuid) list"

definition envSetsIntersect :: "string list \<Rightarrow> string list \<Rightarrow> bool" where
  "envSetsIntersect a b = (a = [] \<or> b = [] \<or> list_ex (\<lambda>e. e \<in> set a) b)"

definition awaiting_gate :: "uuid \<Rightarrow> JobRow \<Rightarrow> bool" where
  "awaiting_gate run j = (jrRunID j = run \<and> jrApprovalGate j \<and> jrStatus j = StatusAwaitingApproval)"

definition ListAwaitingGateNamesForRun :: "uuid \<Rightarrow> DB \<Rightarrow> string list" where
  "ListAwaitingGateNamesForRun run d = map jrName (filter (awaiting_gate run) (dbJobs d))"

text \<open>Both candidate queries; the lane of mode \<open>pipeline\<close> ignores the ref.\<close>

definition supersede_candidates :: "supersedeInput \<Rightarrow> DB \<Rightarrow> (uuid \<times> int) list" where
  "supersede_candidates i d =
     sort_key fst (map (\<lambda>r. (rrID r, rrCounter r))
       (filter (\<lambda>r. rrPipelineID r = siPipelineID i
          \<and> (siLaneMode i = SupersedePipeline \<or> rrRef r = siRef i)
          \<and> rrCounter r < siNewerCounter i \<and> active (rrStatus r)
          \<and> list_ex (awaiting_gate (rrID r)) (dbJobs d)) (dbRuns d)))"

definition SupersedeRun :: "uuid \<Rightarrow> uuid \<Rightarrow> int \<Rightarrow> DB \<Rightarrow> DB" where
  "SupersedeRun run by counter =
     upd_runs (\<lambda>r. rrID r = run \<and> active (rrStatus r))
       (\<lambda>r. r\<lparr>rrStatus := StatusCanceled, rrQueueReason := None, rrSupersededBy := Some by,
          rrSupersededCounter := Some counter\<rparr>)"

definition StampCancelRequestedAtForRun :: "uuid \<Rightarrow> CancelOrigin \<Rightarrow> DB \<Rightarrow> DB" where
  "StampCancelRequestedAtForRun run origin =
     upd_jobs (\<lambda>j. jrRunID j = run \<and> jrStatus j = StatusRunning)
       (\<lambda>j. j\<lparr>jrCancelRequested := True, jrCancelOrigin := first_origin origin j\<rparr>)"

definition agent_jobs_running :: "uuid \<Rightarrow> DB \<Rightarrow> (uuid \<times> uuid) list" where
  "agent_jobs_running run d =
     map (\<lambda>j. (jrID j, the (jrAgentID j)))
       (filter (\<lambda>j. jrRunID j = run \<and> jrStatus j = StatusRunning \<and> jrAgentID j \<noteq> None) (dbJobs d))"

definition victim_envs :: "supersedeInput \<Rightarrow> string list \<Rightarrow> string list" where
  "victim_envs i gates = dedup [] (concat (map (GovernedEnvs (siDef i)) gates))"

definition supersedeOne :: "supersedeInput \<Rightarrow> uuid \<Rightarrow> int \<Rightarrow> DB \<Rightarrow> SupersededRun option \<times> DB" where
  "supersedeOne i run counter d =
     (case find_run d run of
        None \<Rightarrow> (None, d)
      | Some r \<Rightarrow>
          (if \<not> active (rrStatus r) then (None, d)
           else
             (let gates = ListAwaitingGateNamesForRun run d in
              if gates = [] then (None, d)
              else if \<not> envSetsIntersect (siReadyEnvs i) (victim_envs i gates) then (None, d)
              else
                (let d1 = SupersedeRun run (siNewerRunID i) (siNewerCounter i) d;
                     d2 = CancelQueuedStagesInRun run d1;
                     d3 = CancelQueuedJobsInRun run OriginSupersede d2;
                     d4 = StampCancelRequestedAtForRun run OriginSupersede d3 in
                 (Some \<lparr>suRunID = run, suCounter = counter, suRunningJobs = agent_jobs_running run d4\<rparr>,
                  notify (EvRunSuperseded run) d4)))))"

text \<open>
  The loop over the candidates; \<open>contended v\<close> says that locking victim \<open>v\<close> times out, which
  rolls the victim's savepoint back.
\<close>

fun supersede_loop ::
  "supersedeInput \<Rightarrow> (uuid \<Rightarrow> bool) \<Rightarrow> (uuid \<times> int) list \<Rightarrow> DB \<Rightarrow> SupersededRun list \<times> DB" where
  "supersede_loop i contended [] d = ([], d)"
| "supersede_loop i contended ((run, counter) # cs) d =
     (if contended run then supersede_loop i contended cs d
      else
        (case supersedeOne i run counter d of
           (None, d1) \<Rightarrow> supersede_loop i contended cs d1
         | (Some v, d1) \<Rightarrow>
             (case supersede_loop i contended cs d1 of (vs, d2) \<Rightarrow> (v # vs, d2))))"

definition supersedeLaneSiblings ::
  "supersedeInput \<Rightarrow> (uuid \<Rightarrow> bool) \<Rightarrow> DB \<Rightarrow> SupersededRun list \<times> DB" where
  "supersedeLaneSiblings i contended d =
     (case supersede_loop i contended (supersede_candidates i d) d of
        (vs, d1) \<Rightarrow> (rev (sort_key suCounter vs), d1))"

definition supersedeAfterCascade ::
  "(uuid \<Rightarrow> bool) \<Rightarrow> uuid \<Rightarrow> uuid \<Rightarrow> JobCompletion \<Rightarrow> DB \<Rightarrow> (SupersededRun list \<times> DB) option" where
  "supersedeAfterCascade contended run stage cp d =
     (if \<not> jcStageCompleted cp \<or> jcStageStatus cp \<noteq> StatusSuccess then Some ([], d)
      else
        (case (find_run d run, find_stage d stage) of
           (Some r, Some st) \<Rightarrow>
             (let def = rrDefinition r in
              if plSupersede def \<noteq> SupersedeBranch \<and> plSupersede def \<noteq> SupersedePipeline
              then Some ([], d)
              else
                (case ReadyGateEnvsAfterStage def (int (srOrdinal st)) of
                   (envs, ready) \<Rightarrow>
                     (if \<not> ready then Some ([], d)
                      else
                        Some (supersedeLaneSiblings
                          \<lparr>siPipelineID = rrPipelineID r,
                           siRef = (if plSupersede def = SupersedeBranch then rrRef r else []),
                           siLaneMode = plSupersede def, siNewerRunID = run,
                           siNewerCounter = rrCounter r, siReadyEnvs = envs, siDef = def\<rparr>
                          contended d))))
         | _ \<Rightarrow> None))"

section \<open>Transactions\<close>

text \<open>
  The outcome of a transaction: an error (rolled back), a compare-and-swap that matched
  nothing, or the completion.
\<close>

datatype tx_result = TxError | TxMiss | TxOk JobCompletion

record CompleteJobInput =
  ciJobRunID :: uuid
  ciStatus :: RunStatus
  ciExitCode :: int
  ciErrorMsg :: string
  ciExpectedAgentID :: "uuid option"
  ciExpectedAttempt :: int
  ciOutputs :: smap

definition nullable_string :: "string \<Rightarrow> string option" where
  "nullable_string s = (if s = [] then None else Some s)"

definition CompleteJob :: "(uuid \<Rightarrow> bool) \<Rightarrow> CompleteJobInput \<Rightarrow> DB \<Rightarrow> tx_result \<times> DB" where
  "CompleteJob contended i d =
     (if ciStatus i \<noteq> StatusSuccess \<and> ciStatus i \<noteq> StatusFailed then (TxError, d)
      else if \<not> PrecheckJobCompletion (ciJobRunID i) (ciExpectedAgentID i) (ciExpectedAttempt i) d
        then (TxMiss, d)
      else
        (case CompleteJobRun (ciJobRunID i) (ciStatus i) (ciExitCode i) (nullable_string (ciErrorMsg i))
                (ciOutputs i) (ciExpectedAgentID i) (ciExpectedAttempt i) d of
           (_, None) \<Rightarrow> (TxMiss, d)
         | (d1, Some row) \<Rightarrow>
             (case cascadeAfterJobCompletion (jrStageRunID row) (jrRunID row) (completion_of row) d1 of
                None \<Rightarrow> (TxError, d)
              | Some (cp, d2) \<Rightarrow>
                  (case supersedeAfterCascade contended (jrRunID row) (jrStageRunID row) cp d2 of
                     None \<Rightarrow> (TxError, d)
                   | Some (vs, d3) \<Rightarrow> (TxOk cp, d3)))))"

text \<open>
  \<open>SkipJob\<close> and \<open>FailJobWithReason\<close> share their shape: move one queued row, then cascade.
\<close>

definition is_queued :: "uuid \<Rightarrow> JobRow \<Rightarrow> bool" where
  "is_queued job j = (jrID j = job \<and> jrStatus j = StatusQueued)"

definition finish_queued :: "uuid \<Rightarrow> (JobRow \<Rightarrow> JobRow) \<Rightarrow> DB \<Rightarrow> tx_result \<times> DB" where
  "finish_queued job f d =
     (case find (is_queued job) (dbJobs d) of
        None \<Rightarrow> (TxMiss, d)
      | Some row \<Rightarrow>
          (case cascadeAfterJobCompletion (jrStageRunID row) (jrRunID row)
                  (completion_of (f row)) (upd_jobs (is_queued job) f d) of
             None \<Rightarrow> (TxError, d)
           | Some (cp, d1) \<Rightarrow> (TxOk cp, d1)))"

definition SkipJob :: "uuid \<Rightarrow> DB \<Rightarrow> tx_result \<times> DB" where
  "SkipJob job = finish_queued job (\<lambda>j. j\<lparr>jrStatus := StatusSkipped\<rparr>)"

definition FailJobWithReason :: "uuid \<Rightarrow> string \<Rightarrow> DB \<Rightarrow> tx_result \<times> DB" where
  "FailJobWithReason job reason =
     finish_queued job (\<lambda>j. j\<lparr>jrStatus := StatusFailed, jrError := nullable_string reason\<rparr>)"

definition assignable :: "uuid \<Rightarrow> JobRow \<Rightarrow> bool" where
  "assignable job j = (jrID j = job \<and> jrStatus j = StatusQueued \<and> jrAgentID j = None)"

definition AssignJob :: "uuid \<Rightarrow> uuid \<Rightarrow> DB \<Rightarrow> JobRow option \<times> DB" where
  "AssignJob job agent d =
     (let f = (\<lambda>j. j\<lparr>jrStatus := StatusRunning, jrAgentID := Some agent\<rparr>) in
      (map_option f (find (assignable job) (dbJobs d)), upd_jobs (assignable job) f d))"

text \<open>The native-deploy takeover: running without an agent.\<close>

definition StartServerManagedJob :: "uuid \<Rightarrow> DB \<Rightarrow> JobRow option \<times> DB" where
  "StartServerManagedJob job d =
     (let f = (\<lambda>j. j\<lparr>jrStatus := StatusRunning\<rparr>) in
      (map_option f (find (assignable job) (dbJobs d)), upd_jobs (assignable job) f d))"

definition assigned_to :: "uuid \<Rightarrow> uuid \<Rightarrow> int \<Rightarrow> JobRow \<Rightarrow> bool" where
  "assigned_to job agent attempt j =
     (jrID j = job \<and> jrStatus j = StatusRunning \<and> jrAgentID j = Some agent \<and> jrAttempt j = attempt)"

definition unassigned_row :: "JobRow \<Rightarrow> JobRow" where
  "unassigned_row j =
     (if jrCancelRequested j then j\<lparr>jrStatus := StatusCanceled\<rparr>
      else j\<lparr>jrStatus := StatusQueued, jrAgentID := None, jrCancelOrigin := None\<rparr>)"

definition UnassignJob :: "uuid \<Rightarrow> uuid \<Rightarrow> int \<Rightarrow> DB \<Rightarrow> (uuid \<times> RunStatus) option \<times> DB" where
  "UnassignJob job agent attempt d =
     (case find (assigned_to job agent attempt) (dbJobs d) of
        None \<Rightarrow> (None, d)
      | Some row0 \<Rightarrow>
          (let row = unassigned_row row0;
               d1 = upd_jobs (assigned_to job agent attempt) unassigned_row d in
           if jrStatus row = StatusCanceled then
             (case cascadeAfterJobCompletion (jrStageRunID row) (jrRunID row) (completion_of row) d1 of
                None \<Rightarrow> (None, d)
              | Some (cp, d2) \<Rightarrow> (Some (jrRunID row, jrStatus row), d2))
           else (Some (jrRunID row, jrStatus row), d1)))"

definition MarkRunRunning :: "uuid \<Rightarrow> DB \<Rightarrow> DB" where
  "MarkRunRunning run =
     upd_runs (\<lambda>r. rrID r = run \<and> rrStatus r = StatusQueued) (\<lambda>r. r\<lparr>rrStatus := StatusRunning\<rparr>)"

definition MarkStageRunning :: "uuid \<Rightarrow> DB \<Rightarrow> DB" where
  "MarkStageRunning stage =
     upd_stages (\<lambda>s. srID s = stage \<and> srStatus s = StatusQueued) (\<lambda>s. s\<lparr>srStatus := StatusRunning\<rparr>)"

text \<open>\<open>MIN(s.ordinal)\<close> over the active stages; NULL when there is none.\<close>

definition active_ordinal :: "uuid \<Rightarrow> DB \<Rightarrow> nat option" where
  "active_ordinal run d =
     (case map srOrdinal (filter (\<lambda>s. srRunID s = run \<and> active (srStatus s)) (dbStages d)) of
        [] \<Rightarrow> None
      | x # xs \<Rightarrow> Some (fold min xs x))"

definition ListDispatchableJobs :: "uuid \<Rightarrow> DB \<Rightarrow> JobRow list" where
  "ListDispatchableJobs run d =
     sort_key (\<lambda>j. (jrName j, jrMatrixKey j))
       (filter (\<lambda>j. jrRunID j = run \<and> jrStatus j = StatusQueued \<and> jrAgentID j = None
          \<and> \<not> jrApprovalGate j
          \<and> list_ex (\<lambda>s. srID s = jrStageRunID j \<and> Some (srOrdinal s) = active_ordinal run d) (dbStages d))
         (dbJobs d))"

definition OtherRunningRunForPipeline :: "uuid \<Rightarrow> uuid \<Rightarrow> DB \<Rightarrow> uuid option" where
  "OtherRunningRunForPipeline pipeline run d =
     map_option rrID (find (\<lambda>r. rrPipelineID r = pipeline \<and> rrStatus r = StatusRunning \<and> rrID r \<noteq> run)
       (dbRuns d))"

definition SetRunQueueReason :: "uuid \<Rightarrow> string \<Rightarrow> DB \<Rightarrow> DB" where
  "SetRunQueueReason run reason =
     upd_runs (\<lambda>r. rrID r = run \<and> rrStatus r = StatusQueued) (\<lambda>r. r\<lparr>rrQueueReason := Some reason\<rparr>)"

definition SetActiveRunQueueReason :: "uuid \<Rightarrow> string \<Rightarrow> DB \<Rightarrow> DB \<times> bool" where
  "SetActiveRunQueueReason run reason d =
     (let p = (\<lambda>r. rrID r = run \<and> active (rrStatus r) \<and> rrQueueReason r \<noteq> Some reason) in
      (upd_runs p (\<lambda>r. r\<lparr>rrQueueReason := Some reason\<rparr>) d, count_where p (dbRuns d) > 0))"

definition ClearRunQueueReason :: "uuid \<Rightarrow> DB \<Rightarrow> DB" where
  "ClearRunQueueReason run =
     upd_runs (\<lambda>r. rrID r = run \<and> rrQueueReason r \<noteq> None) (\<lambda>r. r\<lparr>rrQueueReason := None\<rparr>)"

definition NotificationTriggerMatches :: "NotificationTrigger \<Rightarrow> UserStageOutcome \<Rightarrow> bool" where
  "NotificationTriggerMatches on o' =
     (case on of
        NotifyOnAlways \<Rightarrow> True
      | NotifyOnFailure \<Rightarrow> uoFailed o' > 0
      | NotifyOnCanceled \<Rightarrow> uoCanceled o' > 0
      | NotifyOnSuccess \<Rightarrow> uoFailed o' = 0 \<and> uoCanceled o' = 0
      | NotifyOther _ \<Rightarrow> False)"

section \<open>Settling an approval gate\<close>

text \<open>
  The terminal transition of \<open>decideGate\<close> (\<open>approvals.go\<close>) on these tables: the pending gate
  row takes the decided status, then the cascade and the supersede run as for any job. Who may
  decide, quorums and freezes are in \<open>Approvals\<close>.
\<close>

definition zero_completion :: JobCompletion where
  "zero_completion =
     \<lparr>jcJobRunID = 0, jcRunID = 0, jcStageRunID = 0, jcAgentID = None, jcJobName = [],
      jcJobStatus = StatusQueued, jcStageCompleted = False, jcStageStatus = StatusQueued,
      jcRunCompleted = False, jcRunStatus = StatusQueued, jcServiceGeneration = 0\<rparr>"

definition pending_gate :: "uuid \<Rightarrow> JobRow \<Rightarrow> bool" where
  "pending_gate job j = (jrID j = job \<and> jrApprovalGate j \<and> jrStatus j = StatusAwaitingApproval)"

definition gate_status :: "bool \<Rightarrow> RunStatus" where
  "gate_status approve = (if approve then StatusSuccess else StatusFailed)"

definition flipGate :: "uuid \<Rightarrow> bool \<Rightarrow> DB \<Rightarrow> DB" where
  "flipGate job approve = upd_jobs (pending_gate job) (\<lambda>j. j\<lparr>jrStatus := gate_status approve\<rparr>)"

definition settleGate :: "(uuid \<Rightarrow> bool) \<Rightarrow> uuid \<Rightarrow> bool \<Rightarrow> DB \<Rightarrow> tx_result \<times> DB" where
  "settleGate contended job approve d =
     (case find (pending_gate job) (dbJobs d) of
        None \<Rightarrow> (TxMiss, d)
      | Some row \<Rightarrow>
          (case cascadeAfterJobCompletion (jrStageRunID row) (jrRunID row) zero_completion
                  (flipGate job approve d) of
             None \<Rightarrow> (TxError, d)
           | Some (cp, d2) \<Rightarrow>
               (case supersedeAfterCascade contended (jrRunID row) (jrStageRunID row) cp d2 of
                  None \<Rightarrow> (TxError, d)
                | Some (vs, d3) \<Rightarrow> (TxOk cp, d3))))"

section \<open>Cancellation\<close>

datatype cancel_run_result =
  ErrRunNotFound | ErrRunAlreadyTerminal | CancelRunOk "(uuid \<times> uuid) list" int

definition CancelRunJobs :: "uuid \<Rightarrow> DB \<Rightarrow> DB" where
  "CancelRunJobs run d =
     upd_jobs (\<lambda>j. jrRunID j = run \<and> user_job d j \<and> job_unfinished (jrStatus j))
       (\<lambda>j. j\<lparr>jrStatus := (if jrStatus j = StatusRunning then jrStatus j else StatusCanceled),
          jrCancelRequested := (jrCancelRequested j \<or> jrStatus j = StatusRunning),
          jrCancelOrigin := first_origin OriginUserRun j\<rparr>) d"

definition cancel_fanout :: "uuid \<Rightarrow> DB \<Rightarrow> (uuid \<times> uuid) list" where
  "cancel_fanout run d =
     map (\<lambda>j. (jrID j, the (jrAgentID j)))
       (filter (\<lambda>j. jrRunID j = run \<and> user_job d j \<and> jrStatus j = StatusRunning \<and> jrAgentID j \<noteq> None)
         (dbJobs d))"

definition CancelActiveRun :: "uuid \<Rightarrow> DB \<Rightarrow> DB \<times> nat" where
  "CancelActiveRun run d =
     (upd_runs (\<lambda>r. rrID r = run \<and> active (rrStatus r))
        (\<lambda>r. r\<lparr>rrStatus := StatusCanceled, rrQueueReason := None, rrTerminalEffectsRequired := True\<rparr>) d,
      count_where (\<lambda>r. rrID r = run \<and> active (rrStatus r)) (dbRuns d))"

definition CancelRun :: "uuid \<Rightarrow> DB \<Rightarrow> cancel_run_result \<times> DB" where
  "CancelRun run d =
     (case find_run d run of
        None \<Rightarrow> (ErrRunNotFound, d)
      | Some r \<Rightarrow>
          (if \<not> active (rrStatus r) then (ErrRunAlreadyTerminal, d)
           else
             (let d1 = CancelRunJobs run d;
                  d2 = CancelQueuedStagesInRun run d1;
                  (d3, n) = CancelActiveRun run d2 in
              if n = 0 then (ErrRunAlreadyTerminal, d)
              else (CancelRunOk (cancel_fanout run d1) (rrServiceGeneration r),
                    notify (EvRunTerminalEffects run) d3))))"

datatype cancel_job_result =
  ErrJobRunNotFound | ErrJobRunTerminal | CancelJobError
| CancelJobOk bool "(uuid \<times> uuid) option"

definition StampCancelRequestedAt :: "uuid \<Rightarrow> DB \<Rightarrow> DB" where
  "StampCancelRequestedAt job =
     upd_jobs (\<lambda>j. jrID j = job \<and> jrStatus j = StatusRunning)
       (\<lambda>j. j\<lparr>jrCancelRequested := True, jrCancelOrigin := first_origin OriginUserJob j\<rparr>)"

definition CancelJobRun :: "uuid \<Rightarrow> DB \<Rightarrow> cancel_job_result \<times> DB" where
  "CancelJobRun job d =
     (case find_job d job of
        None \<Rightarrow> (ErrJobRunNotFound, d)
      | Some row \<Rightarrow>
          (if jrStatus row = StatusRunning then
             (CancelJobOk True (map_option (\<lambda>ag. (job, ag)) (jrAgentID row)),
              if jrCancelRequested row then d else StampCancelRequestedAt job d)
           else if jrStatus row = StatusQueued then
             (case finish_queued job
                 (\<lambda>j. j\<lparr>jrStatus := StatusCanceled, jrCancelOrigin := first_origin OriginUserJob j\<rparr>) d of
                (TxOk cp, d1) \<Rightarrow> (CancelJobOk False None, d1)
              | (_, d1) \<Rightarrow> (CancelJobError, d))
           else (ErrJobRunTerminal, d)))"

section \<open>Reclaiming jobs of dead agents\<close>

text \<open>
  The sweeper's transactions (\<open>sweeper.go\<close>, \<open>sweeper.sql\<close>). Which agents are dead and which
  jobs a deploy watch still owns is decided by the queries of \<open>Reaper\<close>; here each transaction
  checks again that the row is the one the caller saw.
\<close>

datatype ReclaimAction = ReclaimActionRequeued | ReclaimActionFailed | ReclaimActionSkipped

definition reclaimable :: "uuid \<Rightarrow> int \<Rightarrow> uuid option \<Rightarrow> JobRow \<Rightarrow> bool" where
  "reclaimable job attempt agent j =
     (jrID j = job \<and> jrStatus j = StatusRunning \<and> \<not> jrCancelRequested j
      \<and> jrAttempt j = attempt \<and> jrAgentID j = agent)"

definition requeued_row :: "JobRow \<Rightarrow> JobRow" where
  "requeued_row j =
     j\<lparr>jrStatus := StatusQueued, jrAgentID := None, jrExitCode := None, jrError := None,
       jrCancelRequested := False, jrCancelOrigin := None, jrAttempt := jrAttempt j + 1\<rparr>"

definition ReclaimJobForRetry ::
  "uuid \<Rightarrow> int \<Rightarrow> int \<Rightarrow> uuid option \<Rightarrow> DB \<Rightarrow> JobRow option \<times> DB" where
  "ReclaimJobForRetry job maxAttempts attempt agent d =
     (let p = (\<lambda>j. reclaimable job attempt agent j \<and> jrAttempt j < maxAttempts) in
      (map_option requeued_row (find p (dbJobs d)), upd_jobs p requeued_row d))"

text \<open>The logs, test results, artifacts and coverage of the row are other tables.\<close>

definition requeueStaleJob ::
  "uuid \<Rightarrow> int \<Rightarrow> int \<Rightarrow> uuid option \<Rightarrow> DB \<Rightarrow> (ReclaimAction \<times> int option) \<times> DB" where
  "requeueStaleJob job maxAttempts attempt agent d =
     (case ReclaimJobForRetry job maxAttempts attempt agent d of
        (None, _) \<Rightarrow> ((ReclaimActionSkipped, None), d)
      | (Some row, d1) \<Rightarrow> ((ReclaimActionRequeued, Some (jrAttempt row)), d1))"

definition FailStaleJobAtMax ::
  "uuid \<Rightarrow> int \<Rightarrow> uuid option \<Rightarrow> string \<Rightarrow> DB \<Rightarrow> JobRow option \<times> DB" where
  "FailStaleJobAtMax job attempt agent reason d =
     (let f = (\<lambda>j. j\<lparr>jrStatus := StatusFailed, jrExitCode := Some (- 1), jrError := Some reason\<rparr>) in
      (map_option f (find (reclaimable job attempt agent) (dbJobs d)),
       upd_jobs (reclaimable job attempt agent) f d))"

definition failJobIfStale ::
  "uuid \<Rightarrow> int \<Rightarrow> uuid option \<Rightarrow> string \<Rightarrow> DB \<Rightarrow> tx_result \<times> DB" where
  "failJobIfStale job attempt agent reason d =
     (case FailStaleJobAtMax job attempt agent reason d of
        (None, _) \<Rightarrow> (TxMiss, d)
      | (Some row, d1) \<Rightarrow>
          (case cascadeAfterJobCompletion (jrStageRunID row) (jrRunID row) (completion_of row) d1 of
             None \<Rightarrow> (TxError, d)
           | Some (cp, d2) \<Rightarrow> (TxOk cp, d2)))"

definition cancel_pending :: "JobRow \<Rightarrow> bool" where
  "cancel_pending j = (jrStatus j = StatusRunning \<and> jrCancelRequested j)"

fun cascade_rows :: "JobRow list \<Rightarrow> DB \<Rightarrow> DB option" where
  "cascade_rows [] d = Some d"
| "cascade_rows (r # rs) d =
     (case cascadeAfterJobCompletion (jrStageRunID r) (jrRunID r)
             (zero_completion\<lparr>jcJobRunID := jrID r, jcRunID := jrRunID r, jcStageRunID := jrStageRunID r,
                jcJobName := jrName r\<rparr>) d of
        None \<Rightarrow> None
      | Some (cp, d1) \<Rightarrow> cascade_rows rs d1)"

text \<open>
  One transaction that cancels every selected row and then cascades from each. SQL leaves the
  order of the returned rows open; they are taken in the order in which they were locked.
\<close>

definition reclaim_cancels :: "(JobRow \<Rightarrow> bool) \<Rightarrow> DB \<Rightarrow> JobRow list option \<times> DB" where
  "reclaim_cancels owned d =
     (let p = (\<lambda>j. cancel_pending j \<and> owned j); f = (\<lambda>j. j\<lparr>jrStatus := StatusCanceled\<rparr>);
          rows = sort_key jrID (map f (filter p (dbJobs d))) in
      (case cascade_rows rows (upd_jobs p f d) of
         None \<Rightarrow> (None, d)
       | Some d1 \<Rightarrow> (Some rows, d1)))"

definition ReclaimPendingCancelsForOfflineAgent ::
  "(uuid \<Rightarrow> bool) \<Rightarrow> DB \<Rightarrow> JobRow list option \<times> DB" where
  "ReclaimPendingCancelsForOfflineAgent unreachable =
     reclaim_cancels (\<lambda>j. case jrAgentID j of Some a \<Rightarrow> unreachable a | None \<Rightarrow> False)"

definition ReclaimAbandonedNativeCancels ::
  "(uuid \<Rightarrow> bool) \<Rightarrow> DB \<Rightarrow> JobRow list option \<times> DB" where
  "ReclaimAbandonedNativeCancels abandoned =
     reclaim_cancels (\<lambda>j. jrAgentID j = None \<and> abandoned (jrID j))"

section \<open>The store as a transition system\<close>

text \<open>
  The tables, and the job ids a scheduler tick has read from \<open>ListDispatchableJobs\<close> and may
  still act on: listing and acting are separate statements, so other transactions run in
  between. Run creation is not part of this system, nor is \<open>RerunJob\<close>, which opens finished rows
  again: \<open>Rerun\<close> adds it.
\<close>

record run_server =
  rvDB :: DB
  rvListed :: "uuid list"

datatype run_op =
  RList uuid
| RAssign uuid uuid
| RStartServerManaged uuid
| RUnassign uuid uuid int
| RMarkRun uuid
| RMarkStage uuid
| RComplete "uuid list" CompleteJobInput
| RSkip uuid
| RFail uuid string
| RCancelRun uuid
| RCancelJob uuid
| RDecideGate "uuid list" uuid bool
| RQueueReason uuid string
| RActiveQueueReason uuid string
| RClearQueueReason uuid
| RRequeue uuid int int "uuid option"
| RFailStale uuid int "uuid option" string
| RReclaimCancels "uuid list"
| RReclaimNative "uuid list"

definition queued_listed :: "run_server \<Rightarrow> uuid \<Rightarrow> bool" where
  "queued_listed v job = (job \<in> set (rvListed v))"

text \<open>
  A scheduler acts on listed jobs only. A result with an expected agent comes from a stream;
  one without is the scheduler's dispatch-time failure or the watcher's finalization. Both
  callers of a requeue have read that the job may be retried, a column that never changes.
\<close>

fun run_enabled :: "run_op \<Rightarrow> run_server \<Rightarrow> bool" where
  "run_enabled (RAssign job agent) v = queued_listed v job"
| "run_enabled (RStartServerManaged job) v = queued_listed v job"
| "run_enabled (RSkip job) v = queued_listed v job"
| "run_enabled (RFail job reason) v = queued_listed v job"
| "run_enabled (RComplete contended i) v =
     (ciExpectedAgentID i \<noteq> None \<or> queued_listed v (ciJobRunID i))"
| "run_enabled (RRequeue job maxAttempts attempt agent) v =
     list_all (\<lambda>j. jrID j = job \<longrightarrow> \<not> jrRetryUnsafe j) (dbJobs (rvDB v))"
| "run_enabled _ v = True"

fun run_exec :: "run_op \<Rightarrow> DB \<Rightarrow> DB" where
  "run_exec (RList run) d = d"
| "run_exec (RAssign job agent) d = snd (AssignJob job agent d)"
| "run_exec (RStartServerManaged job) d = snd (StartServerManagedJob job d)"
| "run_exec (RUnassign job agent attempt) d = snd (UnassignJob job agent attempt d)"
| "run_exec (RMarkRun run) d = MarkRunRunning run d"
| "run_exec (RMarkStage stage) d = MarkStageRunning stage d"
| "run_exec (RComplete contended i) d = snd (CompleteJob (\<lambda>v. v \<in> set contended) i d)"
| "run_exec (RSkip job) d = snd (SkipJob job d)"
| "run_exec (RFail job reason) d = snd (FailJobWithReason job reason d)"
| "run_exec (RCancelRun run) d = snd (CancelRun run d)"
| "run_exec (RCancelJob job) d = snd (CancelJobRun job d)"
| "run_exec (RDecideGate contended job approve) d = snd (settleGate (\<lambda>v. v \<in> set contended) job approve d)"
| "run_exec (RQueueReason run reason) d = SetRunQueueReason run reason d"
| "run_exec (RActiveQueueReason run reason) d = fst (SetActiveRunQueueReason run reason d)"
| "run_exec (RClearQueueReason run) d = ClearRunQueueReason run d"
| "run_exec (RRequeue job maxAttempts attempt agent) d = snd (requeueStaleJob job maxAttempts attempt agent d)"
| "run_exec (RFailStale job attempt agent reason) d = snd (failJobIfStale job attempt agent reason d)"
| "run_exec (RReclaimCancels agents) d = snd (ReclaimPendingCancelsForOfflineAgent (\<lambda>a. a \<in> set agents) d)"
| "run_exec (RReclaimNative jobs) d = snd (ReclaimAbandonedNativeCancels (\<lambda>i. i \<in> set jobs) d)"

fun listed_after :: "run_op \<Rightarrow> run_server \<Rightarrow> uuid list" where
  "listed_after (RList run) v = map jrID (ListDispatchableJobs run (rvDB v)) @ rvListed v"
| "listed_after _ v = rvListed v"

definition run_step :: "run_server \<Rightarrow> run_server \<Rightarrow> bool" where
  "run_step v w =
     (\<exists>c. run_enabled c v \<and> w = \<lparr>rvDB = run_exec c (rvDB v), rvListed = listed_after c v\<rparr>)"

end
