(* ===== verification/RunLifecycle.thy ===== *)
theory RunLifecycle
  imports RunStore
begin

text \<open>
  What the transactions of \<open>RunStore\<close> guarantee over whole histories: terminal statuses
  are absorbing, and a run that ends green has no failed, canceled or unfinished user job.
\<close>

section \<open>How rows evolve\<close>

definition evo_run :: "RunRow \<Rightarrow> RunRow \<Rightarrow> bool" where
  "evo_run r r' =
     (rrID r' = rrID r \<and> rrPipelineID r' = rrPipelineID r \<and> rrRef r' = rrRef r
      \<and> rrCounter r' = rrCounter r \<and> rrDefinition r' = rrDefinition r
      \<and> (\<not> active (rrStatus r) \<longrightarrow> rrStatus r' = rrStatus r))"

definition evo_stage :: "StageRow \<Rightarrow> StageRow \<Rightarrow> bool" where
  "evo_stage s s' =
     (srID s' = srID s \<and> srRunID s' = srRunID s \<and> srName s' = srName s \<and> srOrdinal s' = srOrdinal s
      \<and> (\<not> active (srStatus s) \<longrightarrow> srStatus s' = srStatus s))"

definition evo_job :: "JobRow \<Rightarrow> JobRow \<Rightarrow> bool" where
  "evo_job j j' =
     (jrID j' = jrID j \<and> jrRunID j' = jrRunID j \<and> jrStageRunID j' = jrStageRunID j
      \<and> jrName j' = jrName j \<and> jrApprovalGate j' = jrApprovalGate j
      \<and> (\<not> job_unfinished (jrStatus j) \<longrightarrow> jrStatus j' = jrStatus j \<and> jrOutputs j' = jrOutputs j))"

definition db_evo :: "DB \<Rightarrow> DB \<Rightarrow> bool" where
  "db_evo d d' =
     (list_all2 evo_run (dbRuns d) (dbRuns d') \<and> list_all2 evo_stage (dbStages d) (dbStages d')
      \<and> list_all2 evo_job (dbJobs d) (dbJobs d'))"

lemma evo_refl [simp]: "evo_run r r" "evo_stage s s" "evo_job j j"
  by (simp_all add: evo_run_def evo_stage_def evo_job_def)

lemma evo_transp: "transp evo_run" "transp evo_stage" "transp evo_job"
  by (auto simp: transp_def evo_run_def evo_stage_def evo_job_def)

lemma db_evo_refl [simp]: "db_evo d d"
  by (simp add: db_evo_def list.rel_refl)

lemma db_evo_trans: "db_evo a b \<Longrightarrow> db_evo b c \<Longrightarrow> db_evo a c"
  unfolding db_evo_def
  by (meson evo_transp list.rel_transp transpD)

lemma list_all2_upd_where:
  assumes "\<And>x. R x x" and "\<And>x. x \<in> set t \<Longrightarrow> p x \<Longrightarrow> R x (f x)"
  shows "list_all2 R t (upd_where p f t)"
  using assms by (induction t) (auto simp: upd_where_def)

lemma upd_tables [simp]:
  "dbRuns (upd_jobs p f d) = dbRuns d" "dbStages (upd_jobs p f d) = dbStages d"
  "dbJobs (upd_jobs p f d) = upd_where p f (dbJobs d)"
  "dbRuns (upd_stages q g d) = dbRuns d" "dbJobs (upd_stages q g d) = dbJobs d"
  "dbStages (upd_stages q g d) = upd_where q g (dbStages d)"
  "dbStages (upd_runs u h d) = dbStages d" "dbJobs (upd_runs u h d) = dbJobs d"
  "dbRuns (upd_runs u h d) = upd_where u h (dbRuns d)"
  "dbRuns (notify e d) = dbRuns d" "dbStages (notify e d) = dbStages d" "dbJobs (notify e d) = dbJobs d"
  by (simp_all add: upd_jobs_def upd_stages_def upd_runs_def notify_def)

section \<open>The invariant\<close>

definition user_stage :: "StageRow \<Rightarrow> bool" where
  "user_stage s = (srName s \<noteq> NotificationStageName)"

definition run_active :: "DB \<Rightarrow> uuid \<Rightarrow> bool" where
  "run_active d i = (\<exists>r\<in>set (dbRuns d). rrID r = i \<and> active (rrStatus r))"

definition user_failed :: "DB \<Rightarrow> uuid \<Rightarrow> bool" where
  "user_failed d i = (\<exists>j\<in>set (dbJobs d). jrRunID j = i \<and> user_job d j \<and> jrStatus j = StatusFailed)"

definition wf_db :: "DB \<Rightarrow> bool" where
  "wf_db d =
     (distinct (map rrID (dbRuns d)) \<and> distinct (map srID (dbStages d)) \<and> distinct (map jrID (dbJobs d))
      \<and> (\<forall>j\<in>set (dbJobs d). \<exists>s\<in>set (dbStages d). srID s = jrStageRunID j \<and> srRunID s = jrRunID j)
      \<and> (\<forall>s\<in>set (dbStages d). \<forall>t\<in>set (dbStages d).
           srRunID t = srRunID s \<and> \<not> user_stage s \<and> user_stage t \<longrightarrow> srOrdinal t < srOrdinal s)
      \<and> (\<forall>j\<in>set (dbJobs d). jrApprovalGate j \<longrightarrow> user_job d j))"

text \<open>A closed stage of a live run has no unfinished job, or the run already has a failure.\<close>

definition closed_ok :: "DB \<Rightarrow> bool" where
  "closed_ok d =
     (\<forall>s\<in>set (dbStages d). \<not> active (srStatus s) \<longrightarrow> run_active d (srRunID s) \<longrightarrow>
        user_failed d (srRunID s) \<or>
        (\<forall>j\<in>set (dbJobs d). jrStageRunID j = srID s \<longrightarrow> \<not> job_unfinished (jrStatus j)))"

definition started :: "uuid list \<Rightarrow> JobRow \<Rightarrow> bool" where
  "started l j =
     (jrStatus j \<in> {StatusRunning, StatusSuccess, StatusFailed} \<or> jrStatus j = StatusQueued \<and> jrID j \<in> set l)"

text \<open>A notification job is touched only after every user stage of its run has closed.\<close>

definition notif_ok :: "uuid list \<Rightarrow> DB \<Rightarrow> bool" where
  "notif_ok l d =
     (\<forall>j\<in>set (dbJobs d). \<not> user_job d j \<longrightarrow> started l j \<longrightarrow>
        (\<forall>t\<in>set (dbStages d). srRunID t = jrRunID j \<longrightarrow> user_stage t \<longrightarrow> \<not> active (srStatus t)))"

definition green_ok :: "DB \<Rightarrow> bool" where
  "green_ok d =
     (\<forall>r\<in>set (dbRuns d). rrStatus r = StatusSuccess \<longrightarrow>
        (\<forall>j\<in>set (dbJobs d). jrRunID j = rrID r \<longrightarrow> user_job d j \<longrightarrow>
           jrStatus j \<in> {StatusSuccess, StatusSkipped}))"

text \<open>The store never writes \<open>waiting\<close>, and a queued row has no agent.\<close>

definition row_ok :: "JobRow \<Rightarrow> bool" where
  "row_ok j = (jrStatus j \<noteq> StatusWaiting \<and> (jrStatus j = StatusQueued \<longrightarrow> jrAgentID j = None))"

definition rows_ok :: "DB \<Rightarrow> bool" where
  "rows_ok d = (\<forall>j\<in>set (dbJobs d). row_ok j)"

definition db_inv :: "uuid list \<Rightarrow> DB \<Rightarrow> bool" where
  "db_inv l d = (wf_db d \<and> closed_ok d \<and> notif_ok l d \<and> green_ok d \<and> rows_ok d)"

text \<open>A transition that evolves the rows and keeps the invariant.\<close>

definition safe :: "uuid list \<Rightarrow> DB \<Rightarrow> DB \<Rightarrow> bool" where
  "safe l d d' = (db_evo d d' \<and> (db_inv l d \<longrightarrow> db_inv l d'))"

lemma safe_refl [simp]: "safe l d d"
  by (simp add: safe_def)

lemma safe_trans: "safe l a b \<Longrightarrow> safe l b c \<Longrightarrow> safe l a c"
  unfolding safe_def using db_evo_trans by blast

lemma safe_evo: "safe l d d' \<Longrightarrow> db_evo d d'"
  by (simp add: safe_def)

lemma list_all2_map_eq: "list_all2 R xs ys \<Longrightarrow> (\<And>x y. R x y \<Longrightarrow> k y = k x) \<Longrightarrow> map k ys = map k xs"
  by (induction rule: list_all2_induct) auto

lemma db_evo_keys:
  assumes "db_evo d d'"
  shows "map rrID (dbRuns d') = map rrID (dbRuns d)"
    and "map (\<lambda>s. (srID s, srRunID s, srName s, srOrdinal s)) (dbStages d') =
         map (\<lambda>s. (srID s, srRunID s, srName s, srOrdinal s)) (dbStages d)"
    and "map (\<lambda>j. (jrID j, jrRunID j, jrStageRunID j)) (dbJobs d') =
         map (\<lambda>j. (jrID j, jrRunID j, jrStageRunID j)) (dbJobs d)"
  using assms unfolding db_evo_def
  by (auto elim!: list_all2_map_eq simp: evo_run_def evo_stage_def evo_job_def)

lemma list_all2_back: "list_all2 R xs ys \<Longrightarrow> y \<in> set ys \<Longrightarrow> \<exists>x\<in>set xs. R x y"
  by (induction rule: list_all2_induct) auto

lemma list_all2_forth: "list_all2 R xs ys \<Longrightarrow> x \<in> set xs \<Longrightarrow> \<exists>y\<in>set ys. R x y"
  by (induction rule: list_all2_induct) auto

lemma user_job_iff:
  "user_job d j \<longleftrightarrow> (\<exists>s\<in>set (dbStages d). srID s = jrStageRunID j \<and> user_stage s)"
  by (auto simp: user_job_def list_ex_iff user_stage_def)

lemma evo_rows:
  assumes "db_evo d d'"
  shows "r' \<in> set (dbRuns d') \<Longrightarrow> \<exists>r\<in>set (dbRuns d). evo_run r r'"
    and "r \<in> set (dbRuns d) \<Longrightarrow> \<exists>r'\<in>set (dbRuns d'). evo_run r r'"
    and "s' \<in> set (dbStages d') \<Longrightarrow> \<exists>s\<in>set (dbStages d). evo_stage s s'"
    and "s \<in> set (dbStages d) \<Longrightarrow> \<exists>s'\<in>set (dbStages d'). evo_stage s s'"
    and "j' \<in> set (dbJobs d') \<Longrightarrow> \<exists>j\<in>set (dbJobs d). evo_job j j'"
    and "j \<in> set (dbJobs d) \<Longrightarrow> \<exists>j'\<in>set (dbJobs d'). evo_job j j'"
  using assms unfolding db_evo_def by (blast dest: list_all2_back list_all2_forth)+

lemma user_job_evo:
  assumes "db_evo d d'" and "jrStageRunID j' = jrStageRunID j"
  shows "user_job d' j' = user_job d j"
proof
  assume "user_job d' j'"
  then obtain s' where s': "s' \<in> set (dbStages d')" "srID s' = jrStageRunID j'" "user_stage s'"
    by (auto simp: user_job_iff)
  with evo_rows(3) [OF assms(1) s'(1)] assms(2) show "user_job d j"
    by (auto simp: user_job_iff evo_stage_def user_stage_def)
next
  assume "user_job d j"
  then obtain s where s: "s \<in> set (dbStages d)" "srID s = jrStageRunID j" "user_stage s"
    by (auto simp: user_job_iff)
  with evo_rows(4) [OF assms(1) s(1)] assms(2) show "user_job d' j'"
    by (auto simp: user_job_iff evo_stage_def user_stage_def)
qed

lemma wf_evo:
  assumes evo: "db_evo d d'" and wf: "wf_db d"
  shows "wf_db d'"
proof -
  note keys = db_evo_keys [OF evo]
  have "map srID (dbStages d') = map srID (dbStages d)" "map jrID (dbJobs d') = map jrID (dbJobs d)"
    using keys(2,3) [THEN arg_cong, of "map fst"] by (simp_all add: o_def)
  moreover have "\<exists>s\<in>set (dbStages d'). srID s = jrStageRunID j' \<and> srRunID s = jrRunID j'"
    if j': "j' \<in> set (dbJobs d')" for j'
  proof -
    obtain j where j: "j \<in> set (dbJobs d)" "evo_job j j'" using evo_rows(5) [OF evo j'] by blast
    then obtain s where s: "s \<in> set (dbStages d)" "srID s = jrStageRunID j" "srRunID s = jrRunID j"
      using wf by (auto simp: wf_db_def)
    with evo_rows(4) [OF evo s(1)] j(2) show ?thesis by (auto simp: evo_stage_def evo_job_def)
  qed
  moreover have "srOrdinal t' < srOrdinal s'"
    if st: "s' \<in> set (dbStages d')" "t' \<in> set (dbStages d')" "srRunID t' = srRunID s'"
      "\<not> user_stage s'" "user_stage t'" for s' t'
  proof -
    obtain s t where "s \<in> set (dbStages d)" "evo_stage s s'" "t \<in> set (dbStages d)" "evo_stage t t'"
      using evo_rows(3) [OF evo st(1)] evo_rows(3) [OF evo st(2)] by blast
    with st wf show ?thesis
      by (auto simp: wf_db_def evo_stage_def user_stage_def)
  qed
  moreover have "user_job d' j'" if j': "j' \<in> set (dbJobs d')" "jrApprovalGate j'" for j'
  proof -
    obtain j where "j \<in> set (dbJobs d)" "evo_job j j'" using evo_rows(5) [OF evo j'(1)] by blast
    with j'(2) wf user_job_evo [OF evo, of j' j] show ?thesis by (auto simp: wf_db_def evo_job_def)
  qed
  ultimately show ?thesis
    using wf keys(1) unfolding wf_db_def by (metis (no_types, lifting))
qed

lemma user_failed_evo:
  assumes "db_evo d d'" and "user_failed d i"
  shows "user_failed d' i"
proof -
  obtain j where j: "j \<in> set (dbJobs d)" "jrRunID j = i" "user_job d j" "jrStatus j = StatusFailed"
    using assms(2) by (auto simp: user_failed_def)
  obtain j' where j': "j' \<in> set (dbJobs d')" "evo_job j j'"
    using evo_rows(6) [OF assms(1) j(1)] by blast
  then have "jrRunID j' = i" "jrStatus j' = StatusFailed" "user_job d' j'"
    using j user_job_evo [OF assms(1), of j' j] by (auto simp: evo_job_def job_unfinished_def)
  with j'(1) show ?thesis by (auto simp: user_failed_def)
qed

lemma run_active_evo: "db_evo d d' \<Longrightarrow> run_active d' i \<Longrightarrow> run_active d i"
proof -
  assume evo: "db_evo d d'" and "run_active d' i"
  then obtain r' where r': "r' \<in> set (dbRuns d')" "rrID r' = i" "active (rrStatus r')"
    by (auto simp: run_active_def)
  obtain r where "r \<in> set (dbRuns d)" "evo_run r r'" using evo_rows(1) [OF evo r'(1)] by blast
  with r' show ?thesis by (auto simp: run_active_def evo_run_def)
qed

section \<open>Elementary transitions are safe\<close>

text \<open>A change of job rows only: no job starts that was neither started nor listed.\<close>

lemma safe_jobs:
  assumes runs: "dbRuns d' = dbRuns d" and stages: "dbStages d' = dbStages d"
    and jobs: "list_all2 (\<lambda>j j'. evo_job j j' \<and> (started l j' \<longrightarrow> started l j \<or> user_job d j) \<and>
      (row_ok j \<longrightarrow> row_ok j')) (dbJobs d) (dbJobs d')"
  shows "safe l d d'"
proof -
  have "list_all2 evo_job (dbJobs d) (dbJobs d')"
    using jobs by (rule list_all2_mono) blast
  then have evo: "db_evo d d'"
    by (simp add: db_evo_def runs stages list.rel_refl)
  have bk: "\<exists>j\<in>set (dbJobs d). evo_job j j' \<and> (started l j' \<longrightarrow> started l j \<or> user_job d j) \<and>
      (row_ok j \<longrightarrow> row_ok j')" if "j' \<in> set (dbJobs d')" for j'
    using list_all2_back [OF jobs that] .
  have uj: "user_job d' j = user_job d j" for j by (simp add: user_job_def stages)
  have ra: "run_active d' i = run_active d i" for i by (simp add: run_active_def runs)
  have "closed_ok d'" if "closed_ok d"
    unfolding closed_ok_def ra stages
  proof (intro ballI impI, goal_cases)
    case (1 s)
    show ?case
    proof (cases "user_failed d (srRunID s)")
      case True
      then show ?thesis using user_failed_evo [OF evo] by blast
    next
      case False
      with that 1 have "\<forall>j\<in>set (dbJobs d). jrStageRunID j = srID s \<longrightarrow> \<not> job_unfinished (jrStatus j)"
        by (auto simp: closed_ok_def)
      then have "\<forall>j\<in>set (dbJobs d'). jrStageRunID j = srID s \<longrightarrow> \<not> job_unfinished (jrStatus j)"
        using bk by (fastforce simp: evo_job_def)
      then show ?thesis ..
    qed
  qed
  moreover have "notif_ok l d'" if "notif_ok l d"
    unfolding notif_ok_def uj stages
  proof (intro ballI impI, goal_cases)
    case (1 j' t)
    obtain j where j: "j \<in> set (dbJobs d)" "evo_job j j'" "started l j \<or> user_job d j"
      using bk [OF 1(1)] 1(3) by blast
    then have "\<not> user_job d j" using 1(2) by (auto simp: user_job_iff evo_job_def)
    with that j 1 show ?case by (auto simp: notif_ok_def evo_job_def)
  qed
  moreover have "green_ok d'" if "green_ok d"
    unfolding green_ok_def uj runs
  proof (intro ballI impI, goal_cases)
    case (1 r j')
    obtain j where j: "j \<in> set (dbJobs d)" "evo_job j j'" using bk [OF 1(3)] by blast
    then have "user_job d j" using 1(5) by (auto simp: user_job_iff evo_job_def)
    then have "jrStatus j \<in> {StatusSuccess, StatusSkipped}"
      using that j 1 by (auto simp: green_ok_def evo_job_def)
    with j(2) show ?case by (auto simp: evo_job_def job_unfinished_def)
  qed
  moreover have "rows_ok d'" if "rows_ok d"
    using that bk by (fastforce simp: rows_ok_def)
  ultimately show ?thesis
    using evo wf_evo [OF evo] by (simp add: safe_def db_inv_def)
qed

text \<open>A change of run rows only, in which a run turns green only if its user jobs all did well.\<close>

definition jobs_green :: "DB \<Rightarrow> uuid \<Rightarrow> bool" where
  "jobs_green d i =
     (\<forall>j\<in>set (dbJobs d). jrRunID j = i \<longrightarrow> user_job d j \<longrightarrow> jrStatus j \<in> {StatusSuccess, StatusSkipped})"

lemma safe_runs:
  assumes stages: "dbStages d' = dbStages d" and jobs: "dbJobs d' = dbJobs d"
    and runs: "list_all2 (\<lambda>r r'. evo_run r r' \<and>
      (rrStatus r' = StatusSuccess \<longrightarrow> rrStatus r = StatusSuccess \<or> jobs_green d (rrID r)))
      (dbRuns d) (dbRuns d')"
  shows "safe l d d'"
proof -
  have "list_all2 evo_run (dbRuns d) (dbRuns d')"
    using runs by (rule list_all2_mono) blast
  then have evo: "db_evo d d'"
    by (simp add: db_evo_def jobs stages list.rel_refl)
  have uj: "user_job d' j = user_job d j" for j by (simp add: user_job_def stages)
  have uf: "user_failed d' i = user_failed d i" for i by (simp add: user_failed_def jobs uj)
  have "closed_ok d'" if "closed_ok d"
    using that run_active_evo [OF evo] by (simp add: closed_ok_def stages jobs uf)
  moreover have "green_ok d'" if "green_ok d"
    unfolding green_ok_def uj jobs
  proof (intro ballI impI, goal_cases)
    case (1 r' j)
    obtain r where "r \<in> set (dbRuns d)" "evo_run r r'" "rrStatus r = StatusSuccess \<or> jobs_green d (rrID r)"
      using list_all2_back [OF runs 1(1)] 1(2) by blast
    with that 1 show ?case by (auto simp: green_ok_def evo_run_def jobs_green_def)
  qed
  ultimately show ?thesis
    using evo wf_evo [OF evo]
    by (simp add: safe_def db_inv_def notif_ok_def rows_ok_def jobs stages uj)
qed

text \<open>
  Closing stages: a newly closed stage has no unfinished job, or its run has a failure, or
  the run is over.
\<close>

lemma safe_stages:
  assumes runs: "dbRuns d' = dbRuns d" and jobs: "dbJobs d' = dbJobs d"
    and stages: "list_all2 (\<lambda>s s'. evo_stage s s' \<and>
      (active (srStatus s) \<longrightarrow> active (srStatus s') \<or> \<not> run_active d (srRunID s) \<or> user_failed d (srRunID s) \<or>
        (\<forall>j\<in>set (dbJobs d). jrStageRunID j = srID s \<longrightarrow> \<not> job_unfinished (jrStatus j))))
      (dbStages d) (dbStages d')"
  shows "safe l d d'"
proof -
  have "list_all2 evo_stage (dbStages d) (dbStages d')"
    using stages by (rule list_all2_mono) blast
  then have evo: "db_evo d d'"
    by (simp add: db_evo_def jobs runs list.rel_refl)
  have uj: "user_job d' j = user_job d j" for j by (rule user_job_evo [OF evo refl])
  have uf: "user_failed d' i = user_failed d i" for i by (simp add: user_failed_def jobs uj)
  have ra: "run_active d' i = run_active d i" for i by (simp add: run_active_def runs)
  have "closed_ok d'" if "closed_ok d"
    unfolding closed_ok_def ra uf jobs
  proof (intro ballI impI, goal_cases)
    case (1 s')
    obtain s where s: "s \<in> set (dbStages d)" "evo_stage s s'"
      "active (srStatus s) \<longrightarrow> active (srStatus s') \<or> \<not> run_active d (srRunID s) \<or> user_failed d (srRunID s) \<or>
        (\<forall>j\<in>set (dbJobs d). jrStageRunID j = srID s \<longrightarrow> \<not> job_unfinished (jrStatus j))"
      using list_all2_back [OF stages 1(1)] by blast
    then show ?case
      using that 1 by (cases "active (srStatus s)") (auto simp: closed_ok_def evo_stage_def)
  qed
  moreover have "notif_ok l d'" if "notif_ok l d"
    unfolding notif_ok_def uj jobs
  proof (intro ballI impI, goal_cases)
    case (1 j t')
    obtain t where "t \<in> set (dbStages d)" "evo_stage t t'" using evo_rows(3) [OF evo 1(4)] by blast
    with that 1 show ?case by (auto simp: notif_ok_def evo_stage_def user_stage_def)
  qed
  ultimately show ?thesis
    using evo wf_evo [OF evo]
    by (simp add: safe_def db_inv_def green_ok_def rows_ok_def jobs runs uj)
qed

text \<open>The same for single statements.\<close>

lemma safe_upd_jobs:
  assumes "\<And>j. j \<in> set (dbJobs d) \<Longrightarrow> p j \<Longrightarrow> evo_job j (f j) \<and> (started l (f j) \<longrightarrow> started l j \<or> user_job d j) \<and>
    (row_ok j \<longrightarrow> row_ok (f j))"
  shows "safe l d (upd_jobs p f d)"
  by (rule safe_jobs) (auto intro!: list_all2_upd_where dest: assms)

lemma safe_upd_runs:
  assumes "\<And>r. r \<in> set (dbRuns d) \<Longrightarrow> p r \<Longrightarrow> evo_run r (f r) \<and>
    (rrStatus (f r) = StatusSuccess \<longrightarrow> rrStatus r = StatusSuccess \<or> jobs_green d (rrID r))"
  shows "safe l d (upd_runs p f d)"
  by (rule safe_runs) (auto intro!: list_all2_upd_where dest: assms)

lemma safe_upd_stages:
  assumes "\<And>s. s \<in> set (dbStages d) \<Longrightarrow> p s \<Longrightarrow> evo_stage s (f s) \<and>
    (active (srStatus s) \<longrightarrow> active (srStatus (f s)) \<or> \<not> run_active d (srRunID s) \<or> user_failed d (srRunID s) \<or>
      (\<forall>j\<in>set (dbJobs d). jrStageRunID j = srID s \<longrightarrow> \<not> job_unfinished (jrStatus j)))"
  shows "safe l d (upd_stages p f d)"
proof (rule safe_stages, goal_cases)
  case 3
  show ?case
    unfolding upd_tables by (rule list_all2_upd_where) (simp, rule assms)
qed simp_all

lemma safe_notify [simp]: "safe l d (notify e d)"
  by (rule safe_jobs) (simp_all add: list_all2_refl)

lemma evo_upd:
  "(\<And>j. j \<in> set (dbJobs d) \<Longrightarrow> p j \<Longrightarrow> evo_job j (f j)) \<Longrightarrow> db_evo d (upd_jobs p f d)"
  "(\<And>s. s \<in> set (dbStages d) \<Longrightarrow> q s \<Longrightarrow> evo_stage s (g s)) \<Longrightarrow> db_evo d (upd_stages q g d)"
  "(\<And>r. r \<in> set (dbRuns d) \<Longrightarrow> u r \<Longrightarrow> evo_run r (h r)) \<Longrightarrow> db_evo d (upd_runs u h d)"
  by (simp_all add: db_evo_def list_all2_upd_where list.rel_refl)

lemma safe_invI: "db_evo d d' \<Longrightarrow> (db_inv l d \<Longrightarrow> safe l d d') \<Longrightarrow> safe l d d'"
  by (auto simp: safe_def)

lemmas evo_defs = evo_run_def evo_stage_def evo_job_def active_def job_unfinished_def

section \<open>The cascade\<close>

lemma safe_CancelQueuedJobsInRun: "safe l d (CancelQueuedJobsInRun run origin d)"
  unfolding CancelQueuedJobsInRun_def
  by (rule safe_upd_jobs) (auto simp: evo_defs started_def row_ok_def)

lemma safe_CancelQueuedStagesInRun:
  assumes "db_inv l d \<Longrightarrow> \<not> run_active d run \<or> user_failed d run \<or>
    (\<forall>t\<in>set (dbStages d). srRunID t = run \<longrightarrow> user_stage t \<longrightarrow> \<not> active (srStatus t))"
  shows "safe l d (CancelQueuedStagesInRun run d)"
  unfolding CancelQueuedStagesInRun_def
proof (rule safe_invI)
  assume "db_inv l d"
  from assms [OF this] show "safe l d (upd_stages
      (\<lambda>s. srRunID s = run \<and> srStatus s = StatusQueued \<and> srName s \<noteq> NotificationStageName)
      (\<lambda>s. s\<lparr>srStatus := StatusCanceled\<rparr>) d)"
    by (intro safe_upd_stages) (auto simp: evo_defs user_stage_def)
qed (auto intro!: evo_upd simp: evo_defs)

lemma stage_run_unique:
  assumes "wf_db d" and "j \<in> set (dbJobs d)" and "s \<in> set (dbStages d)" and "srID s = jrStageRunID j"
  shows "srRunID s = jrRunID j"
proof -
  obtain t where t: "t \<in> set (dbStages d)" "srID t = jrStageRunID j" "srRunID t = jrRunID j"
    using assms(1,2) by (auto simp: wf_db_def)
  moreover have "inj_on srID (set (dbStages d))"
    using assms(1) by (simp add: wf_db_def distinct_map)
  ultimately show ?thesis using assms(3,4) by (metis inj_onD)
qed

lemma job_id_unique:
  "wf_db d \<Longrightarrow> j \<in> set (dbJobs d) \<Longrightarrow> k \<in> set (dbJobs d) \<Longrightarrow> jrID j = jrID k \<Longrightarrow> j = k"
  unfolding wf_db_def distinct_map by (meson inj_onD)

lemma job_run_unique:
  assumes "wf_db d" and "j \<in> set (dbJobs d)" and "k \<in> set (dbJobs d)" and "jrStageRunID k = jrStageRunID j"
  shows "jrRunID k = jrRunID j"
proof -
  obtain t where "t \<in> set (dbStages d)" "srID t = jrStageRunID j" "srRunID t = jrRunID j"
    using assms(1,2) by (auto simp: wf_db_def)
  then show ?thesis using stage_run_unique [OF assms(1,3)] assms(4) by metis
qed

text \<open>Once a stage failed, its run has a failed user job or no user stage left open.\<close>

lemma failed_stage_cause:
  assumes inv: "db_inv l d" and j: "j \<in> set (dbJobs d)"
    and k: "k \<in> set (dbJobs d)" "jrStageRunID k = jrStageRunID j" "jrStatus k = StatusFailed"
  shows "user_failed d (jrRunID j) \<or>
    (\<forall>t\<in>set (dbStages d). srRunID t = jrRunID j \<longrightarrow> user_stage t \<longrightarrow> \<not> active (srStatus t))"
proof -
  have run: "jrRunID k = jrRunID j"
    using job_run_unique [of d j k] inv j k by (simp add: db_inv_def)
  show ?thesis
  proof (cases "user_job d k")
    case True
    with k run show ?thesis by (auto simp: user_failed_def)
  next
    case False
    with inv k run show ?thesis
      by (simp add: db_inv_def notif_ok_def started_def)
  qed
qed

lemma safe_fail_fast:
  assumes j: "j \<in> set (dbJobs d)" and k: "k \<in> set (dbJobs d)" "jrStageRunID k = jrStageRunID j"
    "jrStatus k = StatusFailed"
  shows "safe l d (fail_fast (jrRunID j) d)"
  unfolding fail_fast_def
  by (rule safe_trans [OF safe_CancelQueuedStagesInRun safe_CancelQueuedJobsInRun])
    (use failed_stage_cause [OF _ j k] in blast)

lemma safe_CompleteStageRun:
  assumes "spUnfinished (GetStageProgress stage d) = 0"
  shows "safe l d (fst (CompleteStageRun stage status d))"
  unfolding CompleteStageRun_def fst_conv
proof (rule safe_upd_stages, goal_cases)
  case (1 s)
  then have "\<forall>j\<in>set (dbJobs d). jrStageRunID j = srID s \<longrightarrow> \<not> job_unfinished (jrStatus j)"
    using assms by (simp add: GetStageProgress_def count_where_0_iff)
  with 1 show ?case by (simp add: evo_stage_def)
qed

lemma green_when_stages_closed:
  assumes inv: "db_inv l d" and open0: "fst (GetRunProgress run d) = 0" and act: "run_active d run"
    and none: "uoFailed (GetRunUserStageOutcome run d) = 0" "uoCanceled (GetRunUserStageOutcome run d) = 0"
  shows "jobs_green d run"
  unfolding jobs_green_def
proof (intro ballI impI)
  fix j assume j: "j \<in> set (dbJobs d)" "jrRunID j = run" "user_job d j"
  obtain s where s: "s \<in> set (dbStages d)" "srID s = jrStageRunID j" "srRunID s = run"
    using inv j by (auto simp: db_inv_def wf_db_def)
  have nofail: "\<not> user_failed d run"
    using none(1) by (auto simp: user_failed_def GetRunUserStageOutcome_def count_where_0_iff)
  have "\<not> active (srStatus s)"
    using open0 s by (auto simp: GetRunProgress_def count_where_0_iff)
  then have "\<not> job_unfinished (jrStatus j)"
    using inv s j act nofail unfolding db_inv_def closed_ok_def by metis
  moreover have "jrStatus j \<noteq> StatusFailed" "jrStatus j \<noteq> StatusCanceled"
    using none j by (auto simp: GetRunUserStageOutcome_def count_where_0_iff)
  moreover have "jrStatus j \<noteq> StatusWaiting"
    using inv j by (simp add: db_inv_def rows_ok_def row_ok_def)
  ultimately show "jrStatus j \<in> {StatusSuccess, StatusSkipped}"
    by (cases "jrStatus j") (simp_all add: job_unfinished_def)
qed

lemma rollup_Success [simp]: "rollup_status f c = StatusSuccess \<longleftrightarrow> f = 0 \<and> c = 0"
  and rollup_Failed [simp]: "rollup_status f c = StatusFailed \<longleftrightarrow> f > 0"
  and rollup_Canceled [simp]: "rollup_status f c = StatusCanceled \<longleftrightarrow> f = 0 \<and> c > 0"
  by (simp_all add: rollup_status_def)

lemma safe_CompleteRun:
  assumes "fst (GetRunProgress run d) = 0"
  shows "safe l d (fst (CompleteRun run
    (rollup_status (uoFailed (GetRunUserStageOutcome run d)) (uoCanceled (GetRunUserStageOutcome run d))) d))"
    (is "safe l d (fst (CompleteRun run ?st d))")
proof (rule safe_invI)
  show "db_evo d (fst (CompleteRun run ?st d))"
    unfolding CompleteRun_def fst_conv by (rule evo_upd) (simp add: evo_run_def)
next
  assume inv: "db_inv l d"
  show "safe l d (fst (CompleteRun run ?st d))"
    unfolding CompleteRun_def fst_conv
  proof (rule safe_upd_runs, goal_cases)
    case (1 r)
    then have "run_active d run" by (auto simp: run_active_def)
    then have "jobs_green d run" if "?st = StatusSuccess"
      using green_when_stages_closed [OF inv assms] that by simp
    with 1 show ?case by (simp add: evo_run_def)
  qed
qed

lemma safe_finish_run: "safe l d (snd (finish_run run cp d))"
proof (cases "fst (GetRunProgress run d) > 0")
  case False
  then show ?thesis
    using safe_CompleteRun [of run d l] safe_trans [OF safe_CompleteRun [of run d l] safe_notify]
    by (simp add: finish_run_def Let_def CompleteRun_def)
qed (simp add: finish_run_def)

text \<open>A cascade leaves the tables alone, or closes the stage and settles the run.\<close>

lemma cascade_result:
  assumes c: "cascadeAfterJobCompletion stage run cp d = Some (cp', d')"
  shows "d' = d \<or> spUnfinished (GetStageProgress stage d) = 0 \<and>
    (let p = GetStageProgress stage d; st = rollup_status (spFailed p) (spCanceled p);
         d1 = fst (CompleteStageRun stage st d) in
     \<exists>cp1. d' = snd (finish_run run cp1 (if st = StatusFailed then fail_fast run d1 else d1)))"
proof -
  obtain s where s: "find_stage d stage = Some s"
    using c by (auto simp: cascadeAfterJobCompletion_def split: option.splits)
  show ?thesis
  proof (cases "active (srStatus s) \<and> spUnfinished (GetStageProgress stage d) = 0")
    case False
    with c s show ?thesis by (auto simp: cascadeAfterJobCompletion_def Let_def split: if_splits)
  next
    case True
    have "s \<in> set (dbStages d)" "srID s = stage"
      using s by (auto simp: find_stage_def find_Some_iff)
    with True have pos: "snd (CompleteStageRun stage st d) \<noteq> 0" for st
      by (auto simp: CompleteStageRun_def count_where_0_iff)
    obtain cp1 where "(cp', d') = finish_run run cp1
       (let p = GetStageProgress stage d; st = rollup_status (spFailed p) (spCanceled p);
         d1 = fst (CompleteStageRun stage st d) in if st = StatusFailed then fail_fast run d1 else d1)"
      using c s True pos unfolding cascadeAfterJobCompletion_def Let_def case_prod_beta
      by (simp del: rollup_Failed) metis
    then show ?thesis using True unfolding Let_def by (metis snd_conv)
  qed
qed

lemma safe_cascade:
  assumes j: "j \<in> set (dbJobs d)" and c: "cascadeAfterJobCompletion (jrStageRunID j) (jrRunID j) cp d = Some (cp', d')"
  shows "safe l d d'"
proof -
  let ?p = "GetStageProgress (jrStageRunID j) d"
  let ?st = "rollup_status (spFailed ?p) (spCanceled ?p)"
  let ?d1 = "fst (CompleteStageRun (jrStageRunID j) ?st d)"
  let ?d2 = "if ?st = StatusFailed then fail_fast (jrRunID j) ?d1 else ?d1"
  show ?thesis
  proof (cases "spUnfinished ?p = 0")
    case False
    with cascade_result [OF c] show ?thesis by auto
  next
    case True
    note s1 = safe_CompleteStageRun [OF True, of l ?st]
    have jobs1: "dbJobs ?d1 = dbJobs d" by (simp add: CompleteStageRun_def)
    have "safe l ?d1 ?d2"
    proof (cases "?st = StatusFailed")
      case failed: True
      then obtain k where "k \<in> set (dbJobs d)" "jrStageRunID k = jrStageRunID j" "jrStatus k = StatusFailed"
        by (auto simp: GetStageProgress_def count_where_pos_iff)
      then have "safe l ?d1 (fail_fast (jrRunID j) ?d1)"
        using safe_fail_fast [of j ?d1 k l] j unfolding jobs1 by blast
      then show ?thesis unfolding if_P [OF failed] .
    qed simp
    then have s2: "safe l d ?d2" by (rule safe_trans [OF s1])
    have "d' = d \<or> (\<exists>cp1. d' = snd (finish_run (jrRunID j) cp1 ?d2))"
      using cascade_result [OF c] unfolding Let_def by blast
    then show ?thesis
      using s1 safe_trans [OF s2 safe_finish_run] by auto
  qed
qed

section \<open>Every transaction is safe\<close>

lemma upd_where_mem: "x \<in> set t \<Longrightarrow> p x \<Longrightarrow> f x \<in> set (upd_where p f t)"
  by (auto simp: set_upd_where)

text \<open>
  A transaction that moves one row and then cascades from it.
\<close>

lemma safe_row_then_cascade:
  assumes row: "row \<in> set (dbJobs d)" "p row"
    and f: "\<And>j. p j \<Longrightarrow> evo_job j (f j)"
    and ok: "\<And>j. db_inv l d \<Longrightarrow> j \<in> set (dbJobs d) \<Longrightarrow> p j \<Longrightarrow> (started l (f j) \<longrightarrow> started l j \<or> user_job d j) \<and> row_ok (f j)"
    and c: "cascadeAfterJobCompletion (jrStageRunID row) (jrRunID row) cp (upd_jobs p f d) = Some (cp', d')"
  shows "safe l d d'"
proof -
  have upd: "safe l d (upd_jobs p f d)"
    by (rule safe_invI) (auto intro!: evo_upd safe_upd_jobs dest: ok f)
  have "f row \<in> set (dbJobs (upd_jobs p f d))" "jrStageRunID (f row) = jrStageRunID row"
    "jrRunID (f row) = jrRunID row"
    using row f [of row] by (auto simp: upd_where_mem evo_job_def)
  then show ?thesis
    using safe_cascade [of "f row" "upd_jobs p f d" cp cp' d' l] c safe_trans [OF upd] by simp
qed

lemma safe_finish_queued:
  assumes "\<And>j. is_queued job j \<Longrightarrow> evo_job j (f j) \<and> (started l (f j) \<longrightarrow> started l j \<or> user_job d j) \<and> row_ok (f j)"
  shows "safe l d (snd (finish_queued job f d))"
proof (cases "find (is_queued job) (dbJobs d)")
  case (Some row)
  then show ?thesis
    using safe_row_then_cascade [of row d "is_queued job" f l] assms
    by (auto simp: finish_queued_def dest: find_SomeD split: option.splits)
qed (simp add: finish_queued_def)

lemma safe_SkipJob: "safe l d (snd (SkipJob job d))"
  unfolding SkipJob_def
  by (rule safe_finish_queued) (auto simp: is_queued_def evo_defs started_def row_ok_def)

lemma safe_FailJobWithReason: "job \<in> set l \<Longrightarrow> safe l d (snd (FailJobWithReason job reason d))"
  unfolding FailJobWithReason_def
  by (rule safe_finish_queued) (auto simp: is_queued_def evo_defs started_def row_ok_def)

lemma safe_AssignJob: "job \<in> set l \<Longrightarrow> safe l d (snd (AssignJob job agent d))"
  unfolding AssignJob_def Let_def snd_conv
  by (rule safe_upd_jobs) (auto simp: assignable_def evo_defs started_def row_ok_def)

lemma safe_StartServerManagedJob: "job \<in> set l \<Longrightarrow> safe l d (snd (StartServerManagedJob job d))"
  unfolding StartServerManagedJob_def Let_def snd_conv
  by (rule safe_upd_jobs) (auto simp: assignable_def evo_defs started_def row_ok_def)

lemma unassigned_row_ok:
  assumes "assigned_to job agent attempt j"
  shows "evo_job j (unassigned_row j)" and "started l (unassigned_row j) \<longrightarrow> started l j"
    and "row_ok (unassigned_row j)"
  using assms by (auto simp: assigned_to_def unassigned_row_def evo_defs started_def row_ok_def)

lemma safe_UnassignJob: "safe l d (snd (UnassignJob job agent attempt d))"
proof (cases "find (assigned_to job agent attempt) (dbJobs d)")
  case (Some row)
  note row = find_SomeD [OF Some]
  have same: "jrStageRunID (unassigned_row row) = jrStageRunID row" "jrRunID (unassigned_row row) = jrRunID row"
    by (simp_all add: unassigned_row_def)
  have upd: "safe l d (upd_jobs (assigned_to job agent attempt) unassigned_row d)"
    by (rule safe_upd_jobs) (use unassigned_row_ok in blast)
  moreover have "safe l d d2"
    if "cascadeAfterJobCompletion (jrStageRunID row) (jrRunID row) (completion_of (unassigned_row row))
        (upd_jobs (assigned_to job agent attempt) unassigned_row d) = Some (cp, d2)" for cp d2
    using row safe_row_then_cascade [OF _ _ _ _ that, of l] unassigned_row_ok by blast
  ultimately show ?thesis
    using Some by (auto simp: UnassignJob_def Let_def same split: option.splits)
qed (simp add: UnassignJob_def)

lemma safe_marks:
  "safe l d (MarkRunRunning run d)" "safe l d (MarkStageRunning stage d)"
  "safe l d (SetRunQueueReason run reason d)" "safe l d (fst (SetActiveRunQueueReason run reason d))"
  "safe l d (ClearRunQueueReason run d)"
  unfolding MarkRunRunning_def MarkStageRunning_def SetRunQueueReason_def SetActiveRunQueueReason_def
    ClearRunQueueReason_def Let_def fst_conv
  by (intro safe_upd_runs safe_upd_stages; auto simp: evo_defs)+

lemma safe_stamps:
  "safe l d (StampCancelRequestedAtForRun run origin d)" "safe l d (StampCancelRequestedAt job d)"
  "safe l d (CancelRunJobs run d)"
  unfolding StampCancelRequestedAtForRun_def StampCancelRequestedAt_def CancelRunJobs_def
  by (intro safe_upd_jobs; auto simp: evo_defs started_def row_ok_def)+

lemma safe_SupersedeRun: "safe l d (SupersedeRun run newer counter d)"
  unfolding SupersedeRun_def by (rule safe_upd_runs) (auto simp: evo_defs)

lemma closing_inactive:
  assumes "\<And>r. rrID (f r) = rrID r \<and> \<not> active (rrStatus (f r))"
  shows "\<not> run_active (upd_runs (\<lambda>r. rrID r = run \<and> active (rrStatus r)) f d) run"
proof
  assume "run_active (upd_runs (\<lambda>r. rrID r = run \<and> active (rrStatus r)) f d) run"
  then obtain r where "r \<in> set (dbRuns d)"
    "rrID (if rrID r = run \<and> active (rrStatus r) then f r else r) = run"
    "active (rrStatus (if rrID r = run \<and> active (rrStatus r) then f r else r))"
    unfolding run_active_def upd_tables set_upd_where by blast
  then show False using assms [of r] by (cases "rrID r = run \<and> active (rrStatus r)") simp_all
qed

lemma SupersedeRun_inactive: "\<not> run_active (SupersedeRun run newer counter d) run"
  unfolding SupersedeRun_def by (rule closing_inactive) (simp add: active_def)

lemma safe_supersedeOne: "safe l d (snd (supersedeOne i run counter d))"
proof -
  let ?d1 = "SupersedeRun run (siNewerRunID i) (siNewerCounter i) d"
  have "safe l d (CancelQueuedStagesInRun run ?d1)"
    by (rule safe_trans [OF safe_SupersedeRun safe_CancelQueuedStagesInRun])
      (simp add: SupersedeRun_inactive)
  then have "safe l d (notify (EvRunSuperseded run) (StampCancelRequestedAtForRun run OriginSupersede
      (CancelQueuedJobsInRun run OriginSupersede (CancelQueuedStagesInRun run ?d1))))"
    by (meson safe_trans safe_notify safe_stamps(1) safe_CancelQueuedJobsInRun)
  then show ?thesis
    by (simp add: supersedeOne_def Let_def split: option.split)
qed

lemma safe_supersede_loop: "safe l d (snd (supersede_loop i contended cs d))"
proof (induction i contended cs d rule: supersede_loop.induct)
  case (2 i contended run counter cs d)
  show ?case
  proof (cases "contended run")
    case True
    then show ?thesis using 2(1) by simp
  next
    case False
    obtain v d1 where one: "supersedeOne i run counter d = (v, d1)" by fastforce
    have "safe l d d1" using safe_supersedeOne [of l d i run counter] one by simp
    moreover have "safe l d1 (snd (supersede_loop i contended cs d1))"
      using 2(2,3) [OF False] one by (cases v) auto
    ultimately show ?thesis
      using False one by (auto simp: case_prod_beta split: option.split intro: safe_trans)
  qed
qed simp

lemma safe_supersedeLaneSiblings: "safe l d (snd (supersedeLaneSiblings i contended d))"
  using safe_supersede_loop [of l d i contended "supersede_candidates i d"]
  by (simp add: supersedeLaneSiblings_def case_prod_beta)

lemma safe_supersedeAfterCascade:
  "supersedeAfterCascade contended run stage cp d = Some (vs, d') \<Longrightarrow> safe l d d'"
  by (auto simp: supersedeAfterCascade_def Let_def case_prod_beta split: option.splits if_splits)
    (metis snd_conv safe_supersedeLaneSiblings)+

lemma completed_row_ok:
  assumes "snapshot_matches job agent attempt j" and "status = StatusSuccess \<or> status = StatusFailed"
  shows "evo_job j (completed_row status exit err outputs j)" and "row_ok (completed_row status exit err outputs j)"
  using assms by (auto simp: snapshot_matches_def completed_row_def evo_defs row_ok_def)

lemma CompleteJob_cases:
  fixes d :: DB and i :: CompleteJobInput
  defines "p \<equiv> snapshot_matches (ciJobRunID i) (ciExpectedAgentID i) (ciExpectedAttempt i)"
    and "f \<equiv> completed_row (ciStatus i) (ciExitCode i) (nullable_string (ciErrorMsg i)) (ciOutputs i)"
  obtains "snd (CompleteJob contended i d) = d"
    | row cp d2 vs where "find p (dbJobs d) = Some row" "ciStatus i = StatusSuccess \<or> ciStatus i = StatusFailed"
      "cascadeAfterJobCompletion (jrStageRunID (f row)) (jrRunID (f row)) (completion_of (f row)) (upd_jobs p f d)
        = Some (cp, d2)"
      "supersedeAfterCascade contended (jrRunID (f row)) (jrStageRunID (f row)) cp d2
        = Some (vs, snd (CompleteJob contended i d))"
  unfolding p_def f_def
  by (fastforce simp: CompleteJob_def CompleteJobRun_def split: option.splits if_splits)

lemma safe_CompleteJob:
  assumes en: "ciExpectedAgentID i \<noteq> None \<or> ciJobRunID i \<in> set l"
  shows "safe l d (snd (CompleteJob contended i d))"
proof -
  let ?p = "snapshot_matches (ciJobRunID i) (ciExpectedAgentID i) (ciExpectedAttempt i)"
  let ?f = "completed_row (ciStatus i) (ciExitCode i) (nullable_string (ciErrorMsg i)) (ciOutputs i)"
  consider "snd (CompleteJob contended i d) = d"
    | row cp d2 vs where "find ?p (dbJobs d) = Some row" "ciStatus i = StatusSuccess \<or> ciStatus i = StatusFailed"
      "cascadeAfterJobCompletion (jrStageRunID (?f row)) (jrRunID (?f row)) (completion_of (?f row)) (upd_jobs ?p ?f d)
        = Some (cp, d2)"
      "supersedeAfterCascade contended (jrRunID (?f row)) (jrStageRunID (?f row)) cp d2
        = Some (vs, snd (CompleteJob contended i d))"
    by (rule CompleteJob_cases)
  then show ?thesis
  proof cases
    case (2 row cp d2 vs)
    have same: "jrStageRunID (?f row) = jrStageRunID row" "jrRunID (?f row) = jrRunID row"
      by (simp_all add: completed_row_def)
    have st: "started l j" if "db_inv l d" "j \<in> set (dbJobs d)" "?p j" for j
      using that en by (auto simp: db_inv_def rows_ok_def row_ok_def snapshot_matches_def active_def started_def)
    have "safe l d d2"
      by (rule safe_row_then_cascade [of row d ?p ?f l "completion_of (?f row)" cp])
        (use find_SomeD [OF 2(1)] completed_row_ok [OF _ 2(2)] st 2(3) same in auto)
    then show ?thesis
      using safe_supersedeAfterCascade [OF 2(4)] safe_trans by blast
  qed simp
qed

lemma settleGate_cases:
  obtains "snd (settleGate contended job approve d) = d"
    | row cp d2 vs where "find (pending_gate job) (dbJobs d) = Some row"
      "cascadeAfterJobCompletion (jrStageRunID row) (jrRunID row) zero_completion (flipGate job approve d) = Some (cp, d2)"
      "supersedeAfterCascade contended (jrRunID row) (jrStageRunID row) cp d2 = Some (vs, snd (settleGate contended job approve d))"
  by (fastforce simp: settleGate_def split: option.splits)

lemma settled_row_ok: "pending_gate job j \<Longrightarrow> evo_job j (j\<lparr>jrStatus := gate_status approve\<rparr>)"
  "row_ok (j\<lparr>jrStatus := gate_status approve\<rparr>)"
  by (auto simp: pending_gate_def gate_status_def evo_defs row_ok_def)

lemma safe_settleGate: "safe l d (snd (settleGate contended job approve d))"
proof (cases rule: settleGate_cases [of contended job approve d])
  case (2 row cp d2 vs)
  have "safe l d d2"
    by (rule safe_row_then_cascade [of row d "pending_gate job" "\<lambda>j. j\<lparr>jrStatus := gate_status approve\<rparr>" l
          zero_completion cp])
      (use find_SomeD [OF 2(1)] settled_row_ok 2(2) in
        \<open>auto simp: flipGate_def pending_gate_def db_inv_def wf_db_def\<close>)
  then show ?thesis
    using safe_supersedeAfterCascade [OF 2(3)] safe_trans by blast
qed simp

lemma safe_CancelRun: "safe l d (snd (CancelRun run d))"
proof -
  let ?d1 = "CancelRunJobs run d"
  let ?r = "\<lambda>d. fst (CancelActiveRun run d)"
  have swap: "?r (CancelQueuedStagesInRun run ?d1) = CancelQueuedStagesInRun run (?r ?d1)"
    by (simp add: CancelActiveRun_def CancelQueuedStagesInRun_def upd_runs_def upd_stages_def)
  have "safe l ?d1 (?r ?d1)"
    unfolding CancelActiveRun_def fst_conv by (rule safe_upd_runs) (auto simp: evo_defs)
  moreover have "\<not> run_active (?r ?d1) run"
    unfolding CancelActiveRun_def fst_conv by (rule closing_inactive) (simp add: active_def)
  then have "safe l (?r ?d1) (CancelQueuedStagesInRun run (?r ?d1))"
    by (intro safe_CancelQueuedStagesInRun) simp
  ultimately have "safe l d (?r (CancelQueuedStagesInRun run ?d1))"
    unfolding swap by (meson safe_trans safe_stamps(3))
  then have "safe l d (notify e (?r (CancelQueuedStagesInRun run ?d1)))" for e
    using safe_trans safe_notify by blast
  then show ?thesis
    by (auto simp: CancelRun_def Let_def case_prod_beta split: option.split)
qed

lemma safe_CancelJobRun: "safe l d (snd (CancelJobRun job d))"
proof -
  let ?f = "\<lambda>j. j\<lparr>jrStatus := StatusCanceled, jrCancelOrigin := first_origin OriginUserJob j\<rparr>"
  have "safe l d (snd (finish_queued job ?f d))"
    by (rule safe_finish_queued) (auto simp: is_queued_def evo_defs started_def row_ok_def)
  then show ?thesis
    using safe_stamps(2) by (auto simp: CancelJobRun_def split: option.split prod.split tx_result.split)
qed

lemma reclaimable_row_ok:
  assumes "reclaimable job attempt agent j"
  shows "evo_job j (requeued_row j)" and "row_ok (requeued_row j)" and "started l j"
    and "evo_job j (j\<lparr>jrStatus := StatusFailed, jrExitCode := e, jrError := r\<rparr>)"
  using assms by (auto simp: reclaimable_def requeued_row_def evo_defs row_ok_def started_def)

lemma safe_requeueStaleJob: "safe l d (snd (requeueStaleJob job maxAttempts attempt agent d))"
proof -
  have "safe l d (snd (ReclaimJobForRetry job maxAttempts attempt agent d))"
    unfolding ReclaimJobForRetry_def Let_def snd_conv
    by (rule safe_upd_jobs) (use reclaimable_row_ok in blast)
  then show ?thesis by (auto simp: requeueStaleJob_def split: prod.split option.split)
qed

lemma failJobIfStale_cases:
  fixes reason :: string
  defines "f \<equiv> (\<lambda>j. j\<lparr>jrStatus := StatusFailed, jrExitCode := Some (- 1), jrError := Some reason\<rparr>)"
  obtains "snd (failJobIfStale job attempt agent reason d) = d"
    | row cp where "find (reclaimable job attempt agent) (dbJobs d) = Some row"
      "cascadeAfterJobCompletion (jrStageRunID row) (jrRunID row) (completion_of (f row))
        (upd_jobs (reclaimable job attempt agent) f d) = Some (cp, snd (failJobIfStale job attempt agent reason d))"
proof (cases "find (reclaimable job attempt agent) (dbJobs d)")
  case None
  then show ?thesis using that(1) by (simp add: failJobIfStale_def FailStaleJobAtMax_def)
next
  case (Some row)
  let ?c = "cascadeAfterJobCompletion (jrStageRunID row) (jrRunID row) (completion_of (f row))
      (upd_jobs (reclaimable job attempt agent) f d)"
  have "failJobIfStale job attempt agent reason d =
      (case ?c of None \<Rightarrow> (TxError, d) | Some (cp, d2) \<Rightarrow> (TxOk cp, d2))"
    by (simp add: failJobIfStale_def FailStaleJobAtMax_def Some f_def)
  then show ?thesis
    using that Some by (cases ?c) auto
qed

lemma safe_failJobIfStale: "safe l d (snd (failJobIfStale job attempt agent reason d))"
proof (cases rule: failJobIfStale_cases [of job attempt agent reason d])
  case (2 row cp)
  show ?thesis
    by (rule safe_row_then_cascade [OF _ _ _ _ 2(2)])
      (use find_SomeD [OF 2(1)] reclaimable_row_ok in \<open>auto simp: row_ok_def\<close>)
qed simp

text \<open>The cascades of a batch: each starts from a row of the tables.\<close>

definition same_home :: "JobRow \<Rightarrow> JobRow \<Rightarrow> bool" where
  "same_home r j = (jrStageRunID j = jrStageRunID r \<and> jrRunID j = jrRunID r)"

lemma cascade_rows_induct:
  assumes step: "\<And>d d' j cp cp'. j \<in> set (dbJobs d) \<Longrightarrow>
      cascadeAfterJobCompletion (jrStageRunID j) (jrRunID j) cp d = Some (cp', d') \<Longrightarrow> P d d'"
    and refl: "\<And>d. P d d" and trans: "\<And>a b c. P a b \<Longrightarrow> P b c \<Longrightarrow> P a c"
    and evo: "\<And>d d'. P d d' \<Longrightarrow> db_evo d d'"
    and rows: "\<And>r. r \<in> set rs \<Longrightarrow> \<exists>j\<in>set (dbJobs d). same_home r j"
    and c: "cascade_rows rs d = Some d'"
  shows "P d d'"
  using rows c
proof (induction rs arbitrary: d)
  case (Cons r rs)
  obtain cp d1 where d1: "cascadeAfterJobCompletion (jrStageRunID r) (jrRunID r)
      (zero_completion\<lparr>jcJobRunID := jrID r, jcRunID := jrRunID r, jcStageRunID := jrStageRunID r,
        jcJobName := jrName r\<rparr>) d = Some (cp, d1)"
    and rest: "cascade_rows rs d1 = Some d'"
    using Cons.prems(2) by (auto split: option.splits)
  obtain j where "j \<in> set (dbJobs d)" "same_home r j" using Cons.prems(1) [of r] by auto
  with d1 have one: "P d d1" using step by (auto simp: same_home_def)
  have "\<exists>j\<in>set (dbJobs d1). same_home q j" if "q \<in> set rs" for q
  proof -
    obtain j where j: "j \<in> set (dbJobs d)" "same_home q j" using Cons.prems(1) [of q] \<open>q \<in> set rs\<close> by auto
    from evo_rows(6) [OF evo [OF one] j(1)] j(2) show ?thesis by (auto simp: same_home_def evo_job_def)
  qed
  then have "P d1 d'" using Cons.IH rest by blast
  with one show ?case by (rule trans)
qed (simp add: refl)

lemma reclaim_cancels_cases:
  fixes owned :: "JobRow \<Rightarrow> bool"
  defines "p \<equiv> (\<lambda>j. cancel_pending j \<and> owned j)"
  obtains "snd (reclaim_cancels owned d) = d"
    | rs where "cascade_rows rs (upd_jobs p (\<lambda>j. j\<lparr>jrStatus := StatusCanceled\<rparr>) d) = Some (snd (reclaim_cancels owned d))"
      "\<And>r. r \<in> set rs \<Longrightarrow> \<exists>j\<in>set (dbJobs (upd_jobs p (\<lambda>j. j\<lparr>jrStatus := StatusCanceled\<rparr>) d)). same_home r j"
proof (cases "snd (reclaim_cancels owned d) = d")
  case False
  let ?f = "\<lambda>j. j\<lparr>jrStatus := StatusCanceled\<rparr>"
  let ?rs = "sort_key jrID (map ?f (filter p (dbJobs d)))"
  have "cascade_rows ?rs (upd_jobs p ?f d) = Some (snd (reclaim_cancels owned d))"
    using False by (auto simp: reclaim_cancels_def Let_def p_def split: option.splits)
  moreover have "\<exists>j\<in>set (dbJobs (upd_jobs p ?f d)). same_home r j" if "r \<in> set ?rs" for r
    using that by (auto simp: same_home_def set_upd_where)
  ultimately show ?thesis using that(2) by blast
qed (use that in blast)

lemma cancel_pending_ok:
  assumes "cancel_pending j"
  shows "evo_job j (j\<lparr>jrStatus := StatusCanceled\<rparr>)" and "started l j" and "row_ok (j\<lparr>jrStatus := StatusCanceled\<rparr>)"
  using assms by (auto simp: cancel_pending_def evo_defs row_ok_def started_def)

lemma safe_reclaim_cancels: "safe l d (snd (reclaim_cancels owned d))"
proof (cases rule: reclaim_cancels_cases [of owned d])
  case (2 rs)
  let ?d1 = "upd_jobs (\<lambda>j. cancel_pending j \<and> owned j) (\<lambda>j. j\<lparr>jrStatus := StatusCanceled\<rparr>) d"
  have "safe l d ?d1"
    by (rule safe_upd_jobs) (use cancel_pending_ok in blast)
  moreover have "safe l ?d1 (snd (reclaim_cancels owned d))"
    by (rule cascade_rows_induct [OF safe_cascade safe_refl safe_trans safe_evo 2(2,1)])
  ultimately show ?thesis by (rule safe_trans)
qed simp

lemma safe_reclaims:
  "safe l d (snd (ReclaimPendingCancelsForOfflineAgent unreachable d))"
  "safe l d (snd (ReclaimAbandonedNativeCancels abandoned d))"
  by (simp_all add: ReclaimPendingCancelsForOfflineAgent_def ReclaimAbandonedNativeCancels_def safe_reclaim_cancels)

text \<open>Listing the dispatchable jobs keeps the invariant: the list grows by jobs of the open stage.\<close>

lemma fold_min_le: "y \<in> set (x # xs) \<Longrightarrow> fold min xs x \<le> (y :: nat)"
proof (induction xs arbitrary: x y)
  case (Cons a xs)
  have le: "fold min xs (min a x) \<le> min a x" by (rule Cons.IH) simp
  show ?case
  proof (cases "y \<in> set xs")
    case True
    then show ?thesis using Cons.IH [of y "min a x"] by simp
  qed (use Cons.prems le in auto)
qed simp

lemma active_ordinal_least:
  assumes "active_ordinal run d = Some n" and "s \<in> set (dbStages d)" and "srRunID s = run" "active (srStatus s)"
  shows "n \<le> srOrdinal s"
proof -
  let ?os = "map srOrdinal (filter (\<lambda>s. srRunID s = run \<and> active (srStatus s)) (dbStages d))"
  have mem: "srOrdinal s \<in> set ?os"
    using assms(2-) by simp
  obtain x xs where os: "?os = x # xs" using mem by (cases ?os) auto
  then have "n = fold min xs x" using assms(1) by (simp add: active_ordinal_def)
  moreover have "srOrdinal s \<in> set (x # xs)" using mem unfolding os .
  ultimately show ?thesis using fold_min_le by blast
qed

lemma inv_listed:
  assumes inv: "db_inv l d"
  shows "db_inv (map jrID (ListDispatchableJobs run d) @ l) d"
proof -
  let ?l = "map jrID (ListDispatchableJobs run d) @ l"
  have wf: "wf_db d" using inv by (simp add: db_inv_def)
  have "notif_ok ?l d"
    unfolding notif_ok_def
  proof (intro ballI impI)
    fix j t assume j: "j \<in> set (dbJobs d)" "\<not> user_job d j" "started ?l j"
      and t: "t \<in> set (dbStages d)" "srRunID t = jrRunID j" "user_stage t"
    show "\<not> active (srStatus t)"
    proof (cases "started l j")
      case True
      with inv j t show ?thesis by (simp add: db_inv_def notif_ok_def)
    next
      case False
      with j(3) obtain k where k: "k \<in> set (ListDispatchableJobs run d)" "jrID k = jrID j"
        by (auto simp: started_def)
      then have "k \<in> set (dbJobs d)" by (simp add: ListDispatchableJobs_def)
      with k j(1) have "k = j" using job_id_unique [OF wf] by blast
      with k(1) obtain s where s: "jrRunID j = run" "s \<in> set (dbStages d)" "srID s = jrStageRunID j"
        "active_ordinal run d = Some (srOrdinal s)"
        by (auto simp: ListDispatchableJobs_def list_ex_iff)
      have "\<not> user_stage s" using j(2) s by (auto simp: user_job_iff)
      moreover have "srRunID s = run" using stage_run_unique [OF wf j(1) s(2,3)] s(1) by simp
      ultimately have "srOrdinal t < srOrdinal s" using wf s(2) t s(1) by (simp add: wf_db_def)
      then show ?thesis using active_ordinal_least [OF s(4) t(1)] t(2) s(1) by auto
    qed
  qed
  with inv show ?thesis by (simp add: db_inv_def)
qed

theorem safe_run_exec: "run_enabled c v \<Longrightarrow> safe (rvListed v) (rvDB v) (run_exec c (rvDB v))"
  by (cases c)
    (simp_all add: queued_listed_def safe_SkipJob safe_FailJobWithReason safe_AssignJob safe_StartServerManagedJob
      safe_UnassignJob safe_marks safe_CompleteJob safe_CancelRun safe_CancelJobRun safe_settleGate
      safe_requeueStaleJob safe_failJobIfStale safe_reclaims)

section \<open>The reachable states\<close>

text \<open>
  The tables right after run creation: everything queued, except gates that already wait for
  an approval; no agent has been assigned.
\<close>

definition fresh_server :: "run_server \<Rightarrow> bool" where
  "fresh_server v =
     (rvListed v = [] \<and> wf_db (rvDB v)
      \<and> (\<forall>r\<in>set (dbRuns (rvDB v)). rrStatus r = StatusQueued)
      \<and> (\<forall>s\<in>set (dbStages (rvDB v)). srStatus s = StatusQueued)
      \<and> (\<forall>j\<in>set (dbJobs (rvDB v)). jrAgentID j = None
          \<and> (jrStatus j = StatusQueued \<or> jrStatus j = StatusAwaitingApproval)))"

definition server_inv :: "run_server \<Rightarrow> bool" where
  "server_inv v = db_inv (rvListed v) (rvDB v)"

lemma fresh_inv: "fresh_server v \<Longrightarrow> server_inv v"
  unfolding fresh_server_def server_inv_def db_inv_def closed_ok_def notif_ok_def green_ok_def rows_ok_def
    row_ok_def started_def active_def
  by (intro conjI; force)

lemma run_step_safe:
  assumes "run_step v w"
  shows "db_evo (rvDB v) (rvDB w)" and "server_inv v \<Longrightarrow> server_inv w"
proof -
  obtain c where c: "run_enabled c v" and w: "rvDB w = run_exec c (rvDB v)" "rvListed w = listed_after c v"
    using assms by (auto simp: run_step_def)
  note s = safe_run_exec [OF c]
  then show "db_evo (rvDB v) (rvDB w)" by (simp add: safe_def w)
  assume "server_inv v"
  with s w have inv: "db_inv (rvListed v) (rvDB w)" by (simp add: safe_def server_inv_def)
  show "server_inv w"
  proof (cases c)
    case (RList run)
    with inv w inv_listed [OF inv, of run] show ?thesis by (simp add: server_inv_def)
  qed (use inv w in \<open>simp_all add: server_inv_def\<close>)
qed

lemma run_steps_evo: "run_step\<^sup>*\<^sup>* v w \<Longrightarrow> db_evo (rvDB v) (rvDB w)"
  by (induction rule: rtranclp_induct) (auto intro: db_evo_trans run_step_safe(1))

interpretation run_system: invariant_system fresh_server run_step server_inv
  by unfold_locales (auto intro: fresh_inv run_step_safe(2))

lemma find_list_all2:
  assumes "list_all2 R xs ys" and "\<And>x y. R x y \<Longrightarrow> k y = k x" and "find (\<lambda>x. k x = i) xs = Some x"
  shows "\<exists>y. find (\<lambda>y. k y = i) ys = Some y \<and> R x y"
  using assms by (induction rule: list_all2_induct) (auto split: if_splits)

lemma find_job_evo: "db_evo d d' \<Longrightarrow> find_job d i = Some j \<Longrightarrow> \<exists>j'. find_job d' i = Some j' \<and> evo_job j j'"
  unfolding db_evo_def find_job_def by (rule find_list_all2 [where R = evo_job]) (blast, simp add: evo_job_def, assumption)

lemma find_run_evo: "db_evo d d' \<Longrightarrow> find_run d i = Some r \<Longrightarrow> \<exists>r'. find_run d' i = Some r' \<and> evo_run r r'"
  unfolding db_evo_def find_run_def by (rule find_list_all2 [where R = evo_run]) (blast, simp add: evo_run_def, assumption)

definition job_outcome :: "run_server \<Rightarrow> uuid \<Rightarrow> (RunStatus \<times> smap) option" where
  "job_outcome v i = map_option (\<lambda>j. (jrStatus j, jrOutputs j)) (find_job (rvDB v) i)"

definition run_outcome :: "run_server \<Rightarrow> uuid \<Rightarrow> RunStatus option" where
  "run_outcome v i = map_option rrStatus (find_run (rvDB v) i)"

interpretation job_outcomes: absorbing_system run_step job_outcome "\<lambda>(st, _). \<not> job_unfinished st"
proof
  fix v w i o'
  assume "run_step v w" "job_outcome v i = Some o'" "case o' of (st, _) \<Rightarrow> \<not> job_unfinished st"
  then show "job_outcome w i = Some o'"
    using find_job_evo [OF run_step_safe(1)] by (fastforce simp: job_outcome_def evo_job_def)
qed

interpretation run_outcomes: absorbing_system run_step run_outcome "\<lambda>st. \<not> active st"
proof
  fix v w i o'
  assume "run_step v w" "run_outcome v i = Some o'" "\<not> active o'"
  then show "run_outcome w i = Some o'"
    using find_run_evo [OF run_step_safe(1)] by (fastforce simp: run_outcome_def evo_run_def)
qed

section \<open>Properties\<close>

text \<open>
  C1: the pipeline-level verdict is honest. In every state the store can reach from freshly
  created runs, under any interleaving of scheduler ticks, agent results (late and repeated
  ones included), cancellations and supersedes, a run that is green has no user job that is
  failed, canceled, queued, running or waiting for approval: each one succeeded or was
  skipped.
\<close>

theorem green_run_honest:
  assumes "fresh_server v" and "run_step\<^sup>*\<^sup>* v w"
    and "r \<in> set (dbRuns (rvDB w))" and "rrStatus r = StatusSuccess"
    and "j \<in> set (dbJobs (rvDB w))" and "jrRunID j = rrID r" and "user_job (rvDB w) j"
  shows "jrStatus j \<in> {StatusSuccess, StatusSkipped}"
  using run_system.inv_reachable [OF assms(1,2)] assms(3-)
  by (simp add: server_inv_def db_inv_def green_ok_def)

text \<open>
  A job's outcome is final until the job is run again: once a job row holds a terminal status,
  no transaction of this system changes that status or its recorded outputs (\<open>Rerun\<close> adds the
  transaction that does).
\<close>

theorem job_outcome_final:
  assumes "run_step\<^sup>*\<^sup>* v w" and "job_outcome v i = Some (st, outputs)" and "\<not> job_unfinished st"
  shows "job_outcome w i = Some (st, outputs)"
  using job_outcomes.absorb_steps [OF assms(1,2)] assms(3) by simp

text \<open>
  A run's verdict is final until one of its jobs is run again: once a run has left queued and
  running, no transaction of this system changes its status.
\<close>

theorem run_outcome_final:
  assumes "run_step\<^sup>*\<^sup>* v w" and "run_outcome v i = Some st" and "\<not> active st"
  shows "run_outcome w i = Some st"
  using run_outcomes.absorb_steps [OF assms] .

text \<open>
  A result whose snapshot is out of date (the job was given to another agent, has another
  attempt, or is already terminal) changes nothing.
\<close>

lemma stale_result_ignored:
  assumes "wf_db d" and "find_job d (ciJobRunID i) = Some j"
    and "jrAgentID j \<noteq> ciExpectedAgentID i \<or> jrAttempt j \<noteq> ciExpectedAttempt i \<or> \<not> active (jrStatus j)"
  shows "CompleteJob contended i d \<in> {(TxMiss, d), (TxError, d)}"
proof -
  have j: "j \<in> set (dbJobs d)" "jrID j = ciJobRunID i"
    using find_SomeD [of "\<lambda>j. jrID j = ciJobRunID i"] assms(2) by (auto simp: find_job_def)
  have "k = j" if "k \<in> set (dbJobs d)" "jrID k = ciJobRunID i" for k
    using job_id_unique [OF assms(1)] that j by simp
  then have "\<not> PrecheckJobCompletion (ciJobRunID i) (ciExpectedAgentID i) (ciExpectedAttempt i) d"
    using assms(3) by (auto simp: PrecheckJobCompletion_def list_ex_iff snapshot_matches_def)
  then show ?thesis by (simp add: CompleteJob_def)
qed

lemma cascade_evo: 
  "j \<in> set (dbJobs d) \<Longrightarrow> cascadeAfterJobCompletion (jrStageRunID j) (jrRunID j) cp d = Some (cp', d') \<Longrightarrow> db_evo d d'"
  using safe_cascade [of j d cp cp' d'] by (simp add: safe_def)

lemma cascade_jobstatus:
  "cascadeAfterJobCompletion stage run cp d = Some (cp', d') \<Longrightarrow> jcJobStatus cp' = jcJobStatus cp"
  by (auto simp: cascadeAfterJobCompletion_def finish_run_def Let_def case_prod_beta split: option.splits if_splits)

text \<open>
  What a successful \<open>CompleteJob\<close> did: the row the snapshot names was completed, then the
  tables only evolved.
\<close>

lemma CompleteJob_OkD:
  assumes "CompleteJob contended i d = (TxOk cp, d')"
  shows "\<exists>row\<in>set (dbJobs d). snapshot_matches (ciJobRunID i) (ciExpectedAgentID i) (ciExpectedAttempt i) row \<and>
    (let f = completed_row (ciStatus i) (ciExitCode i) (nullable_string (ciErrorMsg i)) (ciOutputs i) in
     jcJobStatus cp = jrStatus (f row) \<and>
     db_evo (upd_jobs (snapshot_matches (ciJobRunID i) (ciExpectedAgentID i) (ciExpectedAttempt i)) f d) d')"
proof -
  let ?p = "snapshot_matches (ciJobRunID i) (ciExpectedAgentID i) (ciExpectedAttempt i)"
  let ?f = "completed_row (ciStatus i) (ciExitCode i) (nullable_string (ciErrorMsg i)) (ciOutputs i)"
  obtain row d2 vs where row: "find ?p (dbJobs d) = Some row"
    and c: "cascadeAfterJobCompletion (jrStageRunID (?f row)) (jrRunID (?f row)) (completion_of (?f row)) (upd_jobs ?p ?f d)
      = Some (cp, d2)"
    and sup: "supersedeAfterCascade contended (jrRunID (?f row)) (jrStageRunID (?f row)) cp d2 = Some (vs, d')"
    using assms by (fastforce simp: CompleteJob_def CompleteJobRun_def split: option.splits if_splits)
  note mem = find_SomeD [OF row]
  have "?f row \<in> set (dbJobs (upd_jobs ?p ?f d))" using mem by (simp add: upd_where_mem)
  from cascade_evo [OF this c] have "db_evo (upd_jobs ?p ?f d) d'"
    using safe_supersedeAfterCascade [OF sup] db_evo_trans by (auto simp: safe_def)
  with mem cascade_jobstatus [OF c] show ?thesis by (auto simp: completion_of_def)
qed

lemma find_job_upd:
  assumes "wf_db d" and "j \<in> set (dbJobs d)" and "p j" and "\<And>j. jrID (f j) = jrID j"
  shows "find_job (upd_jobs p f d) (jrID j) = Some (f j)"
proof -
  have "find (\<lambda>k. jrID k = jrID j) (map (\<lambda>r. if p r then f r else r) xs) = Some (f j)"
    if "j \<in> set xs" "\<And>k. k \<in> set xs \<Longrightarrow> jrID k = jrID j \<Longrightarrow> k = j" for xs
    using that
  proof (induction xs)
    case (Cons x xs)
    then show ?case using assms(3,4) by (cases "x = j") force+
  qed simp
  from this [of "dbJobs d"] assms(1,2) show ?thesis
    using job_id_unique [OF assms(1)] by (simp add: find_job_def upd_where_def)
qed

lemma CompleteJob_row:
  assumes "wf_db d" and "find_job d (ciJobRunID i) = Some j" and "CompleteJob contended i d = (TxOk cp, d')"
  defines "f \<equiv> completed_row (ciStatus i) (ciExitCode i) (nullable_string (ciErrorMsg i)) (ciOutputs i)"
  shows "snapshot_matches (ciJobRunID i) (ciExpectedAgentID i) (ciExpectedAttempt i) j"
    and "jcJobStatus cp = jrStatus (f j)"
    and "\<exists>j'. find_job d' (ciJobRunID i) = Some j' \<and> jrStatus j' = jrStatus (f j) \<and> jrOutputs j' = jrOutputs (f j)"
proof -
  let ?p = "snapshot_matches (ciJobRunID i) (ciExpectedAgentID i) (ciExpectedAttempt i)"
  obtain row where row: "row \<in> set (dbJobs d)" "?p row" and cp: "jcJobStatus cp = jrStatus (f row)"
    and evo: "db_evo (upd_jobs ?p f d) d'"
    using CompleteJob_OkD [OF assms(3)] unfolding Let_def f_def by blast
  have "j \<in> set (dbJobs d)" "jrID j = ciJobRunID i"
    using find_SomeD [of "\<lambda>j. jrID j = ciJobRunID i"] assms(2) by (auto simp: find_job_def)
  then have j: "row = j" "jrID j = ciJobRunID i"
    using job_id_unique [OF assms(1)] row by (auto simp: snapshot_matches_def)
  from j row(2) cp show "?p j" "jcJobStatus cp = jrStatus (f j)" by simp_all
  have "find_job (upd_jobs ?p f d) (jrID j) = Some (f j)"
    using find_job_upd [OF assms(1), of j ?p f] row j(1) by (simp add: completed_row_def f_def)
  then obtain j' where j': "find_job d' (jrID j) = Some j'" "evo_job (f j) j'"
    using find_job_evo [OF evo] by blast
  have "ciStatus i = StatusSuccess \<or> ciStatus i = StatusFailed"
    using assms(3) by (auto simp: CompleteJob_def split: if_splits)
  then have "\<not> job_unfinished (jrStatus (f j))"
    by (auto simp: completed_row_def job_unfinished_def f_def)
  with j' j(2) show "\<exists>j'. find_job d' (ciJobRunID i) = Some j' \<and> jrStatus j' = jrStatus (f j) \<and> jrOutputs j' = jrOutputs (f j)"
    by (auto simp: evo_job_def)
qed

text \<open>
  a requested cancel wins over the agent's report. When a running job carries a cancel
  request and its result is accepted, the completion and the row say canceled and the
  reported outputs are dropped, whatever status the agent sent; otherwise the row holds the
  reported status, with the outputs only on success.
\<close>

theorem cancel_request_wins:
  assumes "wf_db d" and "find_job d (ciJobRunID i) = Some j" and "CompleteJob contended i d = (TxOk cp, d')"
  shows "\<exists>j'. find_job d' (ciJobRunID i) = Some j' \<and> jcJobStatus cp = jrStatus j' \<and>
    jrStatus j' = (if jrCancelRequested j then StatusCanceled else ciStatus i) \<and>
    jrOutputs j' = (if \<not> jrCancelRequested j \<and> ciStatus i = StatusSuccess then ciOutputs i else [])"
  using CompleteJob_row [OF assms] by (auto simp: completed_row_def)

section \<open>No run is stranded\<close>

definition opens :: "DB \<Rightarrow> uuid \<Rightarrow> bool" where
  "opens d i = (\<exists>s\<in>set (dbStages d). srRunID s = i \<and> active (srStatus s))"

definition open_ok :: "DB \<Rightarrow> bool" where
  "open_ok d = (\<forall>i. run_active d i \<longrightarrow> opens d i)"

definition strandless :: "DB \<Rightarrow> DB \<Rightarrow> bool" where
  "strandless d d' = (db_evo d d' \<and> (wf_db d \<longrightarrow> open_ok d \<longrightarrow> open_ok d'))"

lemma strandless_evo: "strandless d d' \<Longrightarrow> db_evo d d'"
  by (simp add: strandless_def)

lemma strandless_refl [simp]: "strandless d d"
  by (simp add: strandless_def)

lemma strandless_trans: "strandless a b \<Longrightarrow> strandless b c \<Longrightarrow> strandless a c"
  unfolding strandless_def using db_evo_trans wf_evo by blast

text \<open>The stages of other runs stay open.\<close>

definition other_stages :: "uuid \<Rightarrow> DB \<Rightarrow> DB \<Rightarrow> bool" where
  "other_stages run d d' =
     list_all2 (\<lambda>s s'. srRunID s' = srRunID s \<and> (srRunID s \<noteq> run \<longrightarrow> active (srStatus s) \<longrightarrow> active (srStatus s')))
       (dbStages d) (dbStages d')"

lemma other_stages_same: "dbStages d' = dbStages d \<Longrightarrow> other_stages run d d'"
  by (simp add: other_stages_def list_all2_refl)

lemma other_stages_trans: "other_stages run a b \<Longrightarrow> other_stages run b c \<Longrightarrow> other_stages run a c"
  unfolding other_stages_def by (erule list_all2_trans [rotated], assumption) simp

lemma other_stages_upd:
  assumes "\<And>s. s \<in> set (dbStages d) \<Longrightarrow> p s \<Longrightarrow>
    srRunID (f s) = srRunID s \<and> (srRunID s = run \<or> active (srStatus (f s)))"
  shows "other_stages run d (upd_stages p f d)"
  unfolding other_stages_def upd_tables by (rule list_all2_upd_where) (auto dest: assms)

lemma other_opens:
  assumes "other_stages run d d'" and "i \<noteq> run" and "opens d i"
  shows "opens d' i"
proof -
  obtain s where s: "s \<in> set (dbStages d)" "srRunID s = i" "active (srStatus s)"
    using assms(3) by (auto simp: opens_def)
  from list_all2_forth [OF assms(1) [unfolded other_stages_def] s(1)] s assms(2)
  show ?thesis by (auto simp: opens_def)
qed

lemma strandlessI:
  assumes evo: "db_evo d d'" and "wf_db d \<Longrightarrow> other_stages run d d'"
    and "wf_db d \<Longrightarrow> open_ok d \<Longrightarrow> run_active d' run \<Longrightarrow> opens d' run"
  shows "strandless d d'"
  unfolding strandless_def
proof (intro conjI impI)
  assume wf: "wf_db d" and ok: "open_ok d"
  show "open_ok d'"
    unfolding open_ok_def
  proof (intro allI impI)
    fix i assume act: "run_active d' i"
    show "opens d' i"
    proof (cases "i = run")
      case False
      have "opens d i" using ok run_active_evo [OF evo act] by (simp add: open_ok_def)
      then show ?thesis by (rule other_opens [OF assms(2) [OF wf] False])
    qed (use assms(3) [OF wf ok] act in blast)
  qed
qed (rule evo)

lemma strandless_same_stages: "safe [] d d' \<Longrightarrow> dbStages d' = dbStages d \<Longrightarrow> strandless d d'"
  using run_active_evo [of d d'] by (auto simp: strandless_def safe_def open_ok_def opens_def)

lemma strandless_over:
  "db_evo d d' \<Longrightarrow> other_stages run d d' \<Longrightarrow> \<not> run_active d' run \<Longrightarrow> strandless d d'"
  by (rule strandlessI) auto

lemma other_stages_cancel: "other_stages run d (CancelQueuedStagesInRun run d)"
  unfolding CancelQueuedStagesInRun_def by (rule other_stages_upd) auto

lemma other_stages_fail_fast: "other_stages run d (fail_fast run d)"
  unfolding fail_fast_def
  by (rule other_stages_trans [OF other_stages_cancel other_stages_same])
    (simp add: CancelQueuedJobsInRun_def)

lemma finish_run_settles:
  "run_active (snd (finish_run run cp d)) run \<Longrightarrow> opens (snd (finish_run run cp d)) run"
proof -
  have closed: "\<not> run_active (fst (CompleteRun run (rollup_status f c) d)) run" for f c
    unfolding CompleteRun_def fst_conv
    by (rule closing_inactive) (simp add: rollup_status_def active_def)
  have notify: "run_active (notify e d1) run = run_active d1 run" for e d1
    by (simp add: run_active_def)
  assume act: "run_active (snd (finish_run run cp d)) run"
  show ?thesis
  proof (cases "fst (GetRunProgress run d) > 0")
    case True
    then show ?thesis
      by (auto simp: finish_run_def GetRunProgress_def count_where_pos_iff opens_def)
  next
    case False
    with act closed show ?thesis
      by (auto simp: finish_run_def Let_def case_prod_beta notify split: if_splits)
  qed
qed

lemma finish_run_stages: "dbStages (snd (finish_run run cp d)) = dbStages d"
  by (simp add: finish_run_def Let_def CompleteRun_def)

lemma strandless_cascade:
  assumes j: "j \<in> set (dbJobs d)" and c: "cascadeAfterJobCompletion (jrStageRunID j) (jrRunID j) cp d = Some (cp', d')"
  shows "strandless d d'"
proof -
  let ?run = "jrRunID j"
  let ?p = "GetStageProgress (jrStageRunID j) d"
  let ?st = "rollup_status (spFailed ?p) (spCanceled ?p)"
  let ?d1 = "fst (CompleteStageRun (jrStageRunID j) ?st d)"
  let ?d2 = "if ?st = StatusFailed then fail_fast ?run ?d1 else ?d1"
  have "d' = d \<or> (\<exists>cp1. d' = snd (finish_run ?run cp1 ?d2))"
    using cascade_result [OF c] unfolding Let_def by blast
  then show ?thesis
  proof
    assume "\<exists>cp1. d' = snd (finish_run ?run cp1 ?d2)"
    then obtain cp1 where d': "d' = snd (finish_run ?run cp1 ?d2)" by blast
    show ?thesis
    proof (rule strandlessI)
      show "db_evo d d'" by (rule cascade_evo [OF j c])
      show "run_active d' ?run \<Longrightarrow> opens d' ?run" unfolding d' by (rule finish_run_settles)
      assume wf: "wf_db d"
      have "other_stages ?run d ?d1"
        unfolding CompleteStageRun_def fst_conv
        by (rule other_stages_upd) (use stage_run_unique [OF wf j] in auto)
      moreover have "other_stages ?run ?d1 ?d2"
        using other_stages_fail_fast other_stages_same by (cases "?st = StatusFailed") simp_all
      ultimately show "other_stages ?run d d'"
        unfolding d' by (meson other_stages_trans other_stages_same finish_run_stages)
    qed
  qed simp
qed

lemma strandless_evo_same: "db_evo d d' \<Longrightarrow> dbStages d' = dbStages d \<Longrightarrow> strandless d d'"
  using run_active_evo [of d d'] by (auto simp: strandless_def open_ok_def opens_def)

lemma strandless_row_then_cascade:
  assumes row: "row \<in> set (dbJobs d)" "p row" and f: "\<And>j. p j \<Longrightarrow> evo_job j (f j)"
    and c: "cascadeAfterJobCompletion (jrStageRunID row) (jrRunID row) cp (upd_jobs p f d) = Some (cp', d')"
  shows "strandless d d'"
proof -
  have "strandless d (upd_jobs p f d)"
    by (rule strandless_evo_same) (auto intro!: evo_upd dest: f)
  moreover have "f row \<in> set (dbJobs (upd_jobs p f d))" "jrStageRunID (f row) = jrStageRunID row"
    "jrRunID (f row) = jrRunID row"
    using row f [of row] by (auto simp: upd_where_mem evo_job_def)
  then have "strandless (upd_jobs p f d) d'"
    using strandless_cascade [of "f row" "upd_jobs p f d" cp cp' d'] c by simp
  ultimately show ?thesis by (rule strandless_trans)
qed

lemma strandless_finish_queued:
  assumes "\<And>j. is_queued job j \<Longrightarrow> evo_job j (f j)"
  shows "strandless d (snd (finish_queued job f d))"
proof (cases "find (is_queued job) (dbJobs d)")
  case (Some row)
  then show ?thesis
    using strandless_row_then_cascade [of row d "is_queued job" f] assms
    by (auto simp: finish_queued_def dest: find_SomeD split: option.splits)
qed (simp add: finish_queued_def)

lemma strandless_queued_ops:
  "strandless d (snd (SkipJob job d))" "strandless d (snd (FailJobWithReason job reason d))"
  unfolding SkipJob_def FailJobWithReason_def
  by (rule strandless_finish_queued, simp add: is_queued_def evo_defs)+

lemma strandless_UnassignJob: "strandless d (snd (UnassignJob job agent attempt d))"
proof (cases "find (assigned_to job agent attempt) (dbJobs d)")
  case (Some row)
  note row = find_SomeD [OF Some]
  have same: "jrStageRunID (unassigned_row row) = jrStageRunID row" "jrRunID (unassigned_row row) = jrRunID row"
    by (simp_all add: unassigned_row_def)
  have "strandless d (upd_jobs (assigned_to job agent attempt) unassigned_row d)"
    by (rule strandless_evo_same) (auto intro!: evo_upd unassigned_row_ok(1))
  moreover have "strandless d d2"
    if "cascadeAfterJobCompletion (jrStageRunID row) (jrRunID row) (completion_of (unassigned_row row))
        (upd_jobs (assigned_to job agent attempt) unassigned_row d) = Some (cp, d2)" for cp d2
    using row strandless_row_then_cascade [OF _ _ _ that] unassigned_row_ok(1) by blast
  ultimately show ?thesis
    using Some by (auto simp: UnassignJob_def Let_def same split: option.splits)
qed (simp add: UnassignJob_def)

lemma run_active_runs: "dbRuns d' = dbRuns d \<Longrightarrow> run_active d' i = run_active d i"
  by (simp add: run_active_def)

lemma strandless_supersedeOne: "strandless d (snd (supersedeOne i run counter d))"
proof -
  let ?d1 = "SupersedeRun run (siNewerRunID i) (siNewerCounter i) d"
  let ?d2 = "CancelQueuedStagesInRun run ?d1"
  let ?d4 = "StampCancelRequestedAtForRun run OriginSupersede (CancelQueuedJobsInRun run OriginSupersede ?d2)"
  have rest: "dbStages ?d4 = dbStages ?d2" "dbRuns ?d4 = dbRuns ?d1"
    by (simp_all add: StampCancelRequestedAtForRun_def CancelQueuedJobsInRun_def CancelQueuedStagesInRun_def)
  have evo: "db_evo d (snd (supersedeOne i run counter d))"
    using safe_supersedeOne [of "[]" d i run counter] by (simp add: safe_def)
  have "\<not> run_active (notify (EvRunSuperseded run) ?d4) run"
    using SupersedeRun_inactive [of run "siNewerRunID i" "siNewerCounter i" d] run_active_runs [OF rest(2)]
    by (simp add: run_active_def)
  moreover have "other_stages run d (notify (EvRunSuperseded run) ?d4)"
  proof (rule other_stages_trans)
    show "other_stages run d ?d1" by (simp add: other_stages_same SupersedeRun_def)
    show "other_stages run ?d1 (notify (EvRunSuperseded run) ?d4)"
      by (rule other_stages_trans [OF other_stages_cancel other_stages_same]) (simp add: rest)
  qed
  ultimately have "snd (supersedeOne i run counter d) = notify (EvRunSuperseded run) ?d4 \<Longrightarrow> ?thesis"
    using strandless_over [OF evo, of run] by simp
  then show ?thesis
    by (simp add: supersedeOne_def Let_def split: option.split)
qed

lemma strandless_supersede_loop: "strandless d (snd (supersede_loop i contended cs d))"
proof (induction i contended cs d rule: supersede_loop.induct)
  case (2 i contended run counter cs d)
  show ?case
  proof (cases "contended run")
    case True
    then show ?thesis using 2(1) by simp
  next
    case False
    obtain v d1 where one: "supersedeOne i run counter d = (v, d1)" by fastforce
    have "strandless d d1" using strandless_supersedeOne [of d i run counter] one by simp
    moreover have "strandless d1 (snd (supersede_loop i contended cs d1))"
      using 2(2,3) [OF False] one by (cases v) auto
    ultimately show ?thesis
      using False one by (auto simp: case_prod_beta split: option.split intro: strandless_trans)
  qed
qed simp

lemma strandless_supersedeAfterCascade:
  assumes "supersedeAfterCascade contended run stage cp d = Some (vs, d')"
  shows "strandless d d'"
proof -
  have "strandless d (snd (supersedeLaneSiblings i contended d))" for i
    using strandless_supersede_loop [of d i contended "supersede_candidates i d"]
    by (simp add: supersedeLaneSiblings_def case_prod_beta)
  then show ?thesis
    using assms
    by (auto simp: supersedeAfterCascade_def Let_def case_prod_beta split: option.splits if_splits)
      (metis snd_conv)+
qed

lemma strandless_CompleteJob: "strandless d (snd (CompleteJob contended i d))"
proof -
  let ?p = "snapshot_matches (ciJobRunID i) (ciExpectedAgentID i) (ciExpectedAttempt i)"
  let ?f = "completed_row (ciStatus i) (ciExitCode i) (nullable_string (ciErrorMsg i)) (ciOutputs i)"
  consider "snd (CompleteJob contended i d) = d"
    | row cp d2 vs where "find ?p (dbJobs d) = Some row" "ciStatus i = StatusSuccess \<or> ciStatus i = StatusFailed"
      "cascadeAfterJobCompletion (jrStageRunID (?f row)) (jrRunID (?f row)) (completion_of (?f row)) (upd_jobs ?p ?f d)
        = Some (cp, d2)"
      "supersedeAfterCascade contended (jrRunID (?f row)) (jrStageRunID (?f row)) cp d2
        = Some (vs, snd (CompleteJob contended i d))"
    by (rule CompleteJob_cases)
  then show ?thesis
  proof cases
    case (2 row cp d2 vs)
    have same: "jrStageRunID (?f row) = jrStageRunID row" "jrRunID (?f row) = jrRunID row"
      by (simp_all add: completed_row_def)
    have "strandless d d2"
      by (rule strandless_row_then_cascade [of row d ?p ?f "completion_of (?f row)" cp])
        (use find_SomeD [OF 2(1)] completed_row_ok(1) [OF _ 2(2)] 2(3) same in auto)
    then show ?thesis
      using strandless_supersedeAfterCascade [OF 2(4)] strandless_trans by blast
  qed simp
qed

lemma strandless_settleGate: "strandless d (snd (settleGate contended job approve d))"
proof (cases rule: settleGate_cases [of contended job approve d])
  case (2 row cp d2 vs)
  have "strandless d d2"
    by (rule strandless_row_then_cascade [of row d "pending_gate job" "\<lambda>j. j\<lparr>jrStatus := gate_status approve\<rparr>"
          zero_completion cp])
      (use find_SomeD [OF 2(1)] settled_row_ok 2(2) in \<open>auto simp: flipGate_def\<close>)
  then show ?thesis
    using strandless_supersedeAfterCascade [OF 2(3)] strandless_trans by blast
qed simp

lemma strandless_CancelRun: "strandless d (snd (CancelRun run d))"
proof -
  let ?d2 = "CancelQueuedStagesInRun run (CancelRunJobs run d)"
  let ?d3 = "notify (EvRunTerminalEffects run) (fst (CancelActiveRun run ?d2))"
  have "\<not> run_active (fst (CancelActiveRun run ?d2)) run"
    unfolding CancelActiveRun_def fst_conv by (rule closing_inactive) (simp add: active_def)
  then have over: "\<not> run_active ?d3 run" by (simp add: run_active_def)
  have others: "other_stages run d ?d3"
  proof (rule other_stages_trans)
    show "other_stages run d (CancelRunJobs run d)" by (simp add: other_stages_same CancelRunJobs_def)
    show "other_stages run (CancelRunJobs run d) ?d3"
      by (rule other_stages_trans [OF other_stages_cancel other_stages_same]) (simp add: CancelActiveRun_def)
  qed
  have evo: "db_evo d (snd (CancelRun run d))"
    using safe_CancelRun [of "[]" d run] by (simp add: safe_def)
  have "snd (CancelRun run d) = d \<or> snd (CancelRun run d) = ?d3"
    by (simp add: CancelRun_def Let_def case_prod_beta split: option.split)
  then show ?thesis
    using strandless_over [OF evo, of run] over others by auto
qed

lemma strandless_CancelJobRun: "strandless d (snd (CancelJobRun job d))"
proof -
  let ?f = "\<lambda>j. j\<lparr>jrStatus := StatusCanceled, jrCancelOrigin := first_origin OriginUserJob j\<rparr>"
  have "strandless d (snd (finish_queued job ?f d))"
    by (rule strandless_finish_queued) (auto simp: is_queued_def evo_defs)
  moreover have "strandless d (StampCancelRequestedAt job d)"
    by (rule strandless_same_stages [OF safe_stamps(2)]) (simp add: StampCancelRequestedAt_def)
  ultimately show ?thesis
    by (auto simp: CancelJobRun_def split: option.split prod.split tx_result.split)
qed

lemma strandless_MarkStageRunning: "strandless d (MarkStageRunning stage d)"
proof -
  have "db_evo d (MarkStageRunning stage d)"
    using safe_marks(2) [of "[]" d stage] by (simp add: safe_def)
  moreover have "other_stages run d (MarkStageRunning stage d)" for run
    unfolding MarkStageRunning_def by (rule other_stages_upd) (simp add: active_def)
  then have "opens d i \<Longrightarrow> opens (MarkStageRunning stage d) i" for i
    using other_opens [of "Suc i" d "MarkStageRunning stage d" i] by simp
  ultimately show ?thesis
    using run_active_evo by (auto simp: strandless_def open_ok_def)
qed

lemma strandless_reclaim_cancels: "strandless d (snd (reclaim_cancels owned d))"
proof (cases rule: reclaim_cancels_cases [of owned d])
  case (2 rs)
  let ?d1 = "upd_jobs (\<lambda>j. cancel_pending j \<and> owned j) (\<lambda>j. j\<lparr>jrStatus := StatusCanceled\<rparr>) d"
  have "strandless d ?d1"
    by (rule strandless_evo_same) (auto intro!: evo_upd cancel_pending_ok(1))
  moreover have "strandless ?d1 (snd (reclaim_cancels owned d))"
    by (rule cascade_rows_induct [OF strandless_cascade strandless_refl strandless_trans strandless_evo 2(2,1)])
  ultimately show ?thesis by (rule strandless_trans)
qed simp

lemma strandless_failJobIfStale: "strandless d (snd (failJobIfStale job attempt agent reason d))"
proof (cases rule: failJobIfStale_cases [of job attempt agent reason d])
  case (2 row cp)
  show ?thesis
    by (rule strandless_row_then_cascade [OF _ _ _ 2(2)]) (use find_SomeD [OF 2(1)] reclaimable_row_ok in auto)
qed simp

lemma requeueStaleJob_stages: "dbStages (snd (requeueStaleJob job maxAttempts attempt agent d)) = dbStages d"
  by (auto simp: requeueStaleJob_def ReclaimJobForRetry_def Let_def split: option.split)

lemma strandless_run_exec:
  assumes "run_enabled c v"
  shows "strandless (rvDB v) (run_exec c (rvDB v))"
proof -
  have "db_evo (rvDB v) (run_exec c (rvDB v))"
    using safe_run_exec [OF assms] by (simp add: safe_def)
  note same = strandless_evo_same [OF this]
  show ?thesis
    by (cases c, insert same, simp_all add: strandless_queued_ops strandless_UnassignJob strandless_CompleteJob
        strandless_CancelRun strandless_CancelJobRun strandless_MarkStageRunning strandless_settleGate
        strandless_failJobIfStale strandless_reclaim_cancels ReclaimPendingCancelsForOfflineAgent_def
        ReclaimAbandonedNativeCancels_def)
      (simp_all add: AssignJob_def StartServerManagedJob_def MarkRunRunning_def SetRunQueueReason_def
        SetActiveRunQueueReason_def ClearRunQueueReason_def Let_def requeueStaleJob_stages)
qed

definition staged_server :: "run_server \<Rightarrow> bool" where
  "staged_server v = (fresh_server v \<and>
     (\<forall>r\<in>set (dbRuns (rvDB v)). \<exists>s\<in>set (dbStages (rvDB v)). srRunID s = rrID r))"

section \<open>Witnesses\<close>

text \<open>Histories as lists of operations, for concrete executions.\<close>

fun run_all :: "run_op list \<Rightarrow> run_server \<Rightarrow> run_server option" where
  "run_all [] v = Some v"
| "run_all (c # cs) v =
     (if run_enabled c v then run_all cs \<lparr>rvDB = run_exec c (rvDB v), rvListed = listed_after c v\<rparr> else None)"

lemma run_all_steps: "run_all cs v = Some w \<Longrightarrow> run_step\<^sup>*\<^sup>* v w"
proof (induction cs v rule: run_all.induct)
  case (2 c cs v)
  then have en: "run_enabled c v" by (auto split: if_splits)
  then have "run_step v \<lparr>rvDB = run_exec c (rvDB v), rvListed = listed_after c v\<rparr>"
    by (auto simp: run_step_def)
  with 2 en show ?case by (auto intro: converse_rtranclp_into_rtranclp)
qed simp

lemma run_all_the: "run_all cs v \<noteq> None \<Longrightarrow> run_step\<^sup>*\<^sup>* v (the (run_all cs v))"
  using run_all_steps by auto

definition ex_run :: "uuid \<Rightarrow> int \<Rightarrow> RunRow" where
  "ex_run i n =
     \<lparr>rrID = i, rrPipelineID = 5, rrRef = ''main'', rrCounter = n, rrStatus = StatusQueued, rrQueueReason = None,
      rrSupersededBy = None, rrSupersededCounter = None, rrServiceGeneration = 0,
      rrTerminalEffectsRequired = False, rrDefinition = ex_pipeline\<lparr>plSupersede := SupersedeBranch\<rparr>\<rparr>"

definition ex_stage :: "uuid \<Rightarrow> uuid \<Rightarrow> string \<Rightarrow> nat \<Rightarrow> StageRow" where
  "ex_stage i run n k = \<lparr>srID = i, srRunID = run, srName = n, srOrdinal = k, srStatus = StatusQueued\<rparr>"

definition ex_job :: "uuid \<Rightarrow> uuid \<Rightarrow> uuid \<Rightarrow> string \<Rightarrow> JobRow" where
  "ex_job i run stage n =
     \<lparr>jrID = i, jrRunID = run, jrStageRunID = stage, jrName = n, jrMatrixKey = [], jrNeeds = [],
      jrStatus = StatusQueued, jrAgentID = None, jrAttempt = 0, jrExitCode = None, jrError = None,
      jrOutputs = [], jrCancelRequested = False, jrCancelOrigin = None, jrApprovalGate = False,
      jrRetryUnsafe = False\<rparr>"

text \<open>One run with a build stage and its notification stage.\<close>

definition ex_server :: run_server where
  "ex_server =
     \<lparr>rvDB = \<lparr>dbRuns = [ex_run 1 1],
        dbStages = [ex_stage 10 1 ''build'' 0, ex_stage 11 1 NotificationStageName 1],
        dbJobs = [ex_job 100 1 10 ''compile'', ex_job 101 1 11 ''slack''], dbEvents = []\<rparr>,
      rvListed = []\<rparr>"

definition ex_result :: "uuid \<Rightarrow> RunStatus \<Rightarrow> CompleteJobInput" where
  "ex_result job st =
     \<lparr>ciJobRunID = job, ciStatus = st, ciExitCode = 0, ciErrorMsg = [], ciExpectedAgentID = Some 7,
      ciExpectedAttempt = 0, ciOutputs = [(''image'', ''v1'')]\<rparr>"

definition ex_started :: "run_op list" where
  "ex_started = [RList 1, RAssign 100 7, RMarkStage 10, RMarkRun 1]"

definition ex_ops :: "run_op list" where
  "ex_ops = ex_started @ [RComplete [] (ex_result 100 StatusSuccess), RList 1, RAssign 101 7,
     RComplete [] (ex_result 101 StatusFailed)]"

definition ex_mid :: run_server where "ex_mid = the (run_all ex_started ex_server)"
definition ex_end :: run_server where "ex_end = the (run_all ex_ops ex_server)"

lemma ex_server_fresh: "staged_server ex_server"
  by code_simp

lemma ex_mid_steps: "run_step\<^sup>*\<^sup>* ex_server ex_mid"
  unfolding ex_mid_def by (rule run_all_the) code_simp

lemma ex_end_steps: "run_step\<^sup>*\<^sup>* ex_server ex_end"
  unfolding ex_end_def by (rule run_all_the) code_simp

text \<open>The notification job fails, the run stays green.\<close>

theorem green_run_honest_witness:
  "rrStatus (hd (dbRuns (rvDB ex_end))) = StatusSuccess \<and>
   jrStatus (hd (dbJobs (rvDB ex_end))) \<in> {StatusSuccess, StatusSkipped}"
proof -
  have "hd (dbRuns (rvDB ex_end)) \<in> set (dbRuns (rvDB ex_end))" "hd (dbJobs (rvDB ex_end)) \<in> set (dbJobs (rvDB ex_end))"
    by code_simp+
  moreover have green: "rrStatus (hd (dbRuns (rvDB ex_end))) = StatusSuccess" by code_simp
  moreover have "jrRunID (hd (dbJobs (rvDB ex_end))) = rrID (hd (dbRuns (rvDB ex_end)))"
    "user_job (rvDB ex_end) (hd (dbJobs (rvDB ex_end)))"
    by code_simp+
  moreover have "fresh_server ex_server" using ex_server_fresh by (simp add: staged_server_def)
  ultimately show ?thesis
    using green_run_honest [OF _ ex_end_steps] by blast
qed

definition ex_canceled :: run_server where
  "ex_canceled = the (run_all [RCancelRun 1, RList 1] ex_server)"

lemma ex_canceled_steps: "run_step\<^sup>*\<^sup>* ex_canceled (the (run_all [RList 1, RFail 101 ''x''] ex_canceled))"
  by (rule run_all_the) code_simp

theorem job_outcome_final_witness:
  "job_outcome (the (run_all [RList 1, RFail 101 ''x''] ex_canceled)) 100 = Some (StatusCanceled, [])"
proof -
  have "job_outcome ex_canceled 100 = Some (StatusCanceled, [])" "\<not> job_unfinished StatusCanceled"
    by code_simp+
  with job_outcome_final [OF ex_canceled_steps] show ?thesis by blast
qed

theorem run_outcome_final_witness:
  "run_outcome (the (run_all [RList 1, RFail 101 ''x''] ex_canceled)) 1 = Some StatusCanceled"
proof -
  have "run_outcome ex_canceled 1 = Some StatusCanceled" "\<not> active StatusCanceled"
    by code_simp+
  with run_outcome_final [OF ex_canceled_steps] show ?thesis by blast
qed

definition ex_stamped :: DB where
  "ex_stamped = snd (CancelJobRun 100 (rvDB ex_mid))"

theorem cancel_request_wins_witness:
  "\<exists>j'. find_job (snd (CompleteJob (\<lambda>_. False) (ex_result 100 StatusSuccess) ex_stamped)) 100 = Some j' \<and>
     jrStatus j' = StatusCanceled \<and> jrOutputs j' = []"
proof -
  let ?i = "ex_result 100 StatusSuccess"
  let ?c = "CompleteJob (\<lambda>_. False) ?i ex_stamped"
  have wf: "wf_db ex_stamped" by code_simp
  have job: "find_job ex_stamped (ciJobRunID ?i) = Some (hd (dbJobs ex_stamped))"
    by code_simp
  have "(case fst ?c of TxOk _ \<Rightarrow> True | _ \<Rightarrow> False)" by code_simp
  then obtain cp where "?c = (TxOk cp, snd ?c)" by (cases ?c) (auto split: tx_result.splits)
  from cancel_request_wins [OF wf job this]
  obtain j' where "find_job (snd ?c) (ciJobRunID ?i) = Some j'"
    "jrStatus j' = (if jrCancelRequested (hd (dbJobs ex_stamped)) then StatusCanceled else ciStatus ?i)"
    "jrOutputs j' = (if \<not> jrCancelRequested (hd (dbJobs ex_stamped)) \<and> ciStatus ?i = StatusSuccess then ciOutputs ?i else [])"
    by blast
  moreover have "jrCancelRequested (hd (dbJobs ex_stamped))" by code_simp
  moreover have "ciJobRunID ?i = 100" by code_simp
  ultimately show ?thesis by simp
qed

end
