(* ===== verification/RunSupersede.thy ===== *)
theory RunSupersede
  imports RunLifecycle "HOL-Library.Multiset"
begin

text \<open>
  Which runs the latest-wins supersede of \<open>server/internal/store/supersede.go\<close> cancels, what
  it does to their rows, and that it touches nothing else; and what the dispatch query of
  \<open>dispatch.go\<close> hands out.
\<close>

section \<open>The rows of one run\<close>

definition run_rows :: "DB \<Rightarrow> uuid \<Rightarrow> RunRow list \<times> StageRow list \<times> JobRow list" where
  "run_rows d i =
     (filter (\<lambda>r. rrID r = i) (dbRuns d), filter (\<lambda>s. srRunID s = i) (dbStages d),
      filter (\<lambda>j. jrRunID j = i) (dbJobs d))"

lemma filter_upd_other:
  assumes "\<And>x. k (f x) = k x" and "\<And>x. p x \<Longrightarrow> k x \<noteq> i"
  shows "filter (\<lambda>x. k x = i) (upd_where p f xs) = filter (\<lambda>x. k x = i) xs"
  using assms by (induction xs) (auto simp: upd_where_def)

lemma run_rows_frame:
  assumes "run \<noteq> i"
  shows "run_rows (SupersedeRun run newer counter d) i = run_rows d i"
    and "run_rows (CancelQueuedStagesInRun run d) i = run_rows d i"
    and "run_rows (CancelQueuedJobsInRun run origin d) i = run_rows d i"
    and "run_rows (StampCancelRequestedAtForRun run origin d) i = run_rows d i"
    and "run_rows (notify e d) i = run_rows d i"
  using assms
  by (auto simp: run_rows_def SupersedeRun_def CancelQueuedStagesInRun_def CancelQueuedJobsInRun_def
      StampCancelRequestedAtForRun_def intro!: filter_upd_other)

lemma supersedeOne_frame: "run \<noteq> i \<Longrightarrow> run_rows (snd (supersedeOne inp run counter d)) i = run_rows d i"
  by (simp add: supersedeOne_def Let_def run_rows_frame split: option.split)

lemma find_upd_where:
  assumes "find k xs = Some x" and "p x" and "\<And>x. k (f x) = k x"
  shows "find k (upd_where p f xs) = Some (f x)"
  using assms by (induction xs) (auto simp: upd_where_def split: if_splits)

section \<open>The decision about one candidate\<close>

text \<open>
  The conditions under which a candidate is superseded, as one predicate: its run is still
  active, it has a gate waiting for approval, and the environments its waiting gates guard
  meet those of the newer run's ready gates.
\<close>

definition supersedable :: "supersedeInput \<Rightarrow> uuid \<Rightarrow> DB \<Rightarrow> bool" where
  "supersedable inp run d =
     ((case find_run d run of None \<Rightarrow> False | Some r \<Rightarrow> active (rrStatus r))
      \<and> ListAwaitingGateNamesForRun run d \<noteq> []
      \<and> envSetsIntersect (siReadyEnvs inp) (victim_envs inp (ListAwaitingGateNamesForRun run d)))"

lemma supersedeOne_victim:
  "(case fst (supersedeOne inp run counter d) of None \<Rightarrow> \<not> supersedable inp run d \<and> snd (supersedeOne inp run counter d) = d
    | Some v \<Rightarrow> supersedable inp run d \<and> suRunID v = run)"
  by (auto simp: supersedeOne_def supersedable_def Let_def split: option.splits)

lemma find_filter: "find p xs = (case filter p xs of [] \<Rightarrow> None | x # _ \<Rightarrow> Some x)"
  by (induction xs) auto

lemma find_run_rows: "run_rows d' run = run_rows d run \<Longrightarrow> find_run d' run = find_run d run"
  by (simp add: run_rows_def find_run_def find_filter)

lemma gates_rows:
  assumes "run_rows d' run = run_rows d run"
  shows "ListAwaitingGateNamesForRun run d' = ListAwaitingGateNamesForRun run d"
proof -
  have split: "filter (awaiting_gate run) js =
      filter (\<lambda>j. jrApprovalGate j \<and> jrStatus j = StatusAwaitingApproval) (filter (\<lambda>j. jrRunID j = run) js)" for js
    unfolding filter_filter by (rule filter_cong) (auto simp: awaiting_gate_def)
  show ?thesis
    using assms unfolding ListAwaitingGateNamesForRun_def split run_rows_def by simp
qed

lemma supersedable_rows:
  assumes "run_rows d' run = run_rows d run"
  shows "supersedable inp run d' = supersedable inp run d"
  unfolding supersedable_def find_run_rows [OF assms] gates_rows [OF assms] by (rule refl)

section \<open>The loop\<close>

definition victims :: "supersedeInput \<Rightarrow> (uuid \<Rightarrow> bool) \<Rightarrow> uuid list \<Rightarrow> DB \<Rightarrow> uuid list" where
  "victims inp contended cs d = filter (\<lambda>run. \<not> contended run \<and> supersedable inp run d) cs"

lemma victims_rows:
  assumes "\<And>run. run \<in> set cs \<Longrightarrow> run_rows d' run = run_rows d run"
  shows "victims inp contended cs d' = victims inp contended cs d"
proof -
  have "supersedable inp run d' = supersedable inp run d" if "run \<in> set cs" for run
    by (rule supersedable_rows) (rule assms [OF that])
  then show ?thesis unfolding victims_def by (intro filter_cong) blast+
qed

lemma supersede_loop_victims:
  "distinct (map fst cs) \<Longrightarrow>
     map suRunID (fst (supersede_loop inp contended cs d)) = victims inp contended (map fst cs) d \<and>
     (\<forall>i. i \<notin> set (victims inp contended (map fst cs) d) \<longrightarrow>
        run_rows (snd (supersede_loop inp contended cs d)) i = run_rows d i)"
proof (induction cs arbitrary: d)
  case (Cons c cs)
  obtain run counter where c: "c = (run, counter)" by fastforce
  have fresh: "run \<notin> set (map fst cs)" and dist: "distinct (map fst cs)" using Cons.prems c by auto
  show ?case
  proof (cases "contended run")
    case True
    with Cons.IH [OF dist, of d] c show ?thesis by (simp add: victims_def)
  next
    case False
    obtain v d1 where one: "supersedeOne inp run counter d = (v, d1)" by fastforce
    have frame: "run_rows d1 i = run_rows d i" if "run \<noteq> i" for i
      using supersedeOne_frame [OF that, of inp counter d] one by simp
    have same: "victims inp contended (map fst cs) d1 = victims inp contended (map fst cs) d"
      by (rule victims_rows) (metis frame fresh)
    note ih = Cons.IH [OF dist, of d1, unfolded same]
    show ?thesis
    proof (cases v)
      case None
      have "\<not> supersedable inp run d" "d1 = d"
        using supersedeOne_victim [of inp run d counter] one None by simp_all
      then have "victims inp contended (map fst (c # cs)) d = victims inp contended (map fst cs) d"
        by (simp add: victims_def c)
      with ih one None False c \<open>d1 = d\<close> show ?thesis by simp
    next
      case (Some u)
      have u: "supersedable inp run d" "suRunID u = run"
        using supersedeOne_victim [of inp run d counter] one Some by simp_all
      have vs: "victims inp contended (map fst (c # cs)) d = run # victims inp contended (map fst cs) d"
        using u False by (simp add: victims_def c)
      show ?thesis
        unfolding vs using ih one Some False c u(2) frame by (simp add: case_prod_beta)
    qed
  qed
qed (simp add: victims_def)

lemma find_run_Some: "wf_db d \<Longrightarrow> r \<in> set (dbRuns d) \<Longrightarrow> find_run d (rrID r) = Some r"
proof -
  assume "wf_db d" and r: "r \<in> set (dbRuns d)"
  then have "inj_on rrID (set (dbRuns d))" by (simp add: wf_db_def distinct_map)
  moreover obtain r' where r': "find_run d (rrID r) = Some r'" "r' \<in> set (dbRuns d)" "rrID r' = rrID r"
    using r find_SomeD unfolding find_run_def by (metis (mono_tags, lifting) find_None_iff option.exhaust)
  ultimately have "r' = r" using r by (meson inj_onD)
  with r' show ?thesis by simp
qed

lemma candidates_distinct:
  assumes "wf_db d"
  shows "distinct (map fst (supersede_candidates inp d))"
proof -
  have "mset (map fst (sort_key k (map (\<lambda>r. (rrID r, rrCounter r)) xs))) = mset (map rrID xs)"
    for k :: "uuid \<times> int \<Rightarrow> uuid" and xs
    unfolding mset_map mset_sort by (simp add: multiset.map_comp o_def)
  then have "distinct (map fst (supersede_candidates inp d)) =
      distinct (map rrID (filter (\<lambda>r. rrPipelineID r = siPipelineID inp
        \<and> (siLaneMode inp = SupersedePipeline \<or> rrRef r = siRef inp)
        \<and> rrCounter r < siNewerCounter inp \<and> active (rrStatus r)
        \<and> list_ex (awaiting_gate (rrID r)) (dbJobs d)) (dbRuns d)))"
    unfolding supersede_candidates_def by (rule mset_eq_imp_distinct_iff)
  then show ?thesis
    using assms by (simp add: wf_db_def distinct_map_filter)
qed

lemma cancel_then_stamp:
  assumes U: "\<And>j k. jrStageRunID j = jrStageRunID k \<Longrightarrow> U j = U k"
  shows "list_all (\<lambda>j. jrRunID j \<noteq> run \<or> \<not> U j \<or>
        (jrStatus j \<noteq> StatusQueued \<and> jrStatus j \<noteq> StatusAwaitingApproval \<and>
         (jrStatus j = StatusRunning \<longrightarrow> jrCancelRequested j)))
      (upd_where (\<lambda>j. jrRunID j = run \<and> jrStatus j = StatusRunning)
         (\<lambda>j. j\<lparr>jrCancelRequested := True, jrCancelOrigin := first_origin o1 j\<rparr>)
        (upd_where (\<lambda>j. jrRunID j = run \<and> U j \<and> (jrStatus j = StatusQueued \<or> jrStatus j = StatusAwaitingApproval))
           (\<lambda>j. j\<lparr>jrStatus := StatusCanceled, jrCancelOrigin := first_origin o2 j\<rparr>) js))"
proof (induction js)
  case (Cons j js)
  show ?case
  proof (cases "jrRunID j = run \<and> U j")
    case True
    with Cons show ?thesis by (cases "jrStatus j") (simp_all add: upd_where_def)
  next
    case False
    have "U (j\<lparr>jrCancelRequested := c, jrCancelOrigin := o3\<rparr>) = U j" for c o3 by (rule U) simp
    with False Cons show ?thesis by (simp add: upd_where_def)
  qed
qed (simp add: upd_where_def)

section \<open>Properties\<close>

text \<open>
  C7: exactly the right runs are superseded. Over well-formed tables, the runs that
  \<open>supersedeLaneSiblings\<close> reports are those of the lane (same pipeline, and the same ref
  unless the lane is the whole pipeline) that are older than the newer run, still active,
  not locked by another transaction, waiting at an approval gate, and whose waiting gates
  guard an environment of the newer run's ready gates.
\<close>

theorem superseded_runs_exact:
  assumes "wf_db d"
  shows "suRunID ` set (fst (supersedeLaneSiblings inp contended d)) =
    rrID ` {r \<in> set (dbRuns d). rrPipelineID r = siPipelineID inp
      \<and> (siLaneMode inp = SupersedePipeline \<or> rrRef r = siRef inp)
      \<and> rrCounter r < siNewerCounter inp \<and> active (rrStatus r) \<and> \<not> contended (rrID r)
      \<and> ListAwaitingGateNamesForRun (rrID r) d \<noteq> []
      \<and> envSetsIntersect (siReadyEnvs inp) (victim_envs inp (ListAwaitingGateNamesForRun (rrID r) d))}"
    (is "?L = rrID ` ?R")
proof -
  let ?cs = "map fst (supersede_candidates inp d)"
  have "?L = set (victims inp contended ?cs d)"
    using supersede_loop_victims [OF candidates_distinct [OF assms, of inp], of inp contended d]
    by (simp add: supersedeLaneSiblings_def case_prod_beta flip: set_map)
  also have "\<dots> = rrID ` ?R"
  proof -
    have gates: "ListAwaitingGateNamesForRun run d \<noteq> [] \<longleftrightarrow> list_ex (awaiting_gate run) (dbJobs d)" for run
      by (auto simp: ListAwaitingGateNamesForRun_def filter_empty_conv list_ex_iff)
    have cs: "set ?cs = rrID ` {r \<in> set (dbRuns d). rrPipelineID r = siPipelineID inp
        \<and> (siLaneMode inp = SupersedePipeline \<or> rrRef r = siRef inp)
        \<and> rrCounter r < siNewerCounter inp \<and> active (rrStatus r)
        \<and> list_ex (awaiting_gate (rrID r)) (dbJobs d)}"
      by (auto simp: supersede_candidates_def image_iff)
    have sup: "supersedable inp (rrID r) d \<longleftrightarrow> active (rrStatus r) \<and> list_ex (awaiting_gate (rrID r)) (dbJobs d)
        \<and> envSetsIntersect (siReadyEnvs inp) (victim_envs inp (ListAwaitingGateNamesForRun (rrID r) d))"
      if "r \<in> set (dbRuns d)" for r
      using find_run_Some [OF assms that] by (simp add: supersedable_def gates)
    show ?thesis
      unfolding victims_def set_filter cs gates using sup by blast
  qed
  finally show ?thesis .
qed

text \<open>
  supersede has no side effects on bystanders. Over well-formed tables, every run that is
  not reported as superseded keeps its run, stage and job rows exactly as they were.
\<close>

theorem supersede_leaves_others:
  assumes "wf_db d" and "i \<notin> suRunID ` set (fst (supersedeLaneSiblings inp contended d))"
  shows "run_rows (snd (supersedeLaneSiblings inp contended d)) i = run_rows d i"
  using supersede_loop_victims [OF candidates_distinct [OF assms(1), of inp], of inp contended d] assms(2)
  by (simp add: supersedeLaneSiblings_def case_prod_beta flip: set_map)

text \<open>
  a superseded run is really over. Its run row is canceled and names the newer run, none
  of its user jobs is left queued or waiting for approval, none of its user stages is left
  queued, and each of its jobs that is still running carries the cancel request.
\<close>

theorem superseded_run_over:
  assumes "supersedeOne inp run counter d = (Some v, d')"
  shows "(\<exists>r. find_run d' run = Some r \<and> rrStatus r = StatusCanceled \<and> rrSupersededBy r = Some (siNewerRunID inp)
      \<and> rrSupersededCounter r = Some (siNewerCounter inp))
    \<and> list_all (\<lambda>j. jrRunID j \<noteq> run \<or> \<not> user_job d' j \<or>
        (jrStatus j \<noteq> StatusQueued \<and> jrStatus j \<noteq> StatusAwaitingApproval \<and>
         (jrStatus j = StatusRunning \<longrightarrow> jrCancelRequested j))) (dbJobs d')
    \<and> list_all (\<lambda>s. srRunID s \<noteq> run \<or> srName s = NotificationStageName \<or> srStatus s \<noteq> StatusQueued) (dbStages d')"
proof -
  let ?d1 = "SupersedeRun run (siNewerRunID inp) (siNewerCounter inp) d"
  let ?d2 = "CancelQueuedStagesInRun run ?d1"
  let ?d3 = "CancelQueuedJobsInRun run OriginSupersede ?d2"
  let ?d4 = "StampCancelRequestedAtForRun run OriginSupersede ?d3"
  obtain r where r: "find_run d run = Some r" "active (rrStatus r)"
    and d': "d' = notify (EvRunSuperseded run) ?d4"
    using assms by (auto simp: supersedeOne_def Let_def split: option.splits if_splits)
  have runs: "dbRuns d' = dbRuns ?d1" and stages: "dbStages d' = dbStages ?d2"
    and jobs: "dbJobs d' = dbJobs ?d4"
    by (simp_all add: d' StampCancelRequestedAtForRun_def CancelQueuedJobsInRun_def CancelQueuedStagesInRun_def)
  have uj: "user_job d' j = user_job ?d2 j" for j by (simp add: user_job_def stages)
  have "find_run d' run = Some (r\<lparr>rrStatus := StatusCanceled, rrQueueReason := None,
      rrSupersededBy := Some (siNewerRunID inp), rrSupersededCounter := Some (siNewerCounter inp)\<rparr>)"
    unfolding find_run_def runs SupersedeRun_def upd_tables
    by (rule find_upd_where) (use r find_SomeD [of "\<lambda>r. rrID r = run"] in \<open>auto simp: find_run_def\<close>)
  moreover have "list_all (\<lambda>j. jrRunID j \<noteq> run \<or> \<not> user_job ?d2 j \<or>
        (jrStatus j \<noteq> StatusQueued \<and> jrStatus j \<noteq> StatusAwaitingApproval \<and>
         (jrStatus j = StatusRunning \<longrightarrow> jrCancelRequested j))) (dbJobs ?d4)"
    unfolding StampCancelRequestedAtForRun_def CancelQueuedJobsInRun_def upd_tables
    by (rule cancel_then_stamp) (simp add: user_job_def)
  moreover have "list_all (\<lambda>s. srRunID s \<noteq> run \<or> srName s = NotificationStageName \<or> srStatus s \<noteq> StatusQueued) (dbStages ?d2)"
    unfolding CancelQueuedStagesInRun_def upd_tables upd_where_def list.pred_map o_def
    by (simp add: list_all_iff) blast
  ultimately show ?thesis
    unfolding uj jobs stages by simp
qed

text \<open>
  dispatch follows the stage order and never hands out a gate. A job listed for dispatch
  is queued, unassigned, not an approval gate, and sits in an ordinal that is the lowest of
  the run's open stages: every stage of the run with a lower ordinal is closed.
\<close>

theorem dispatch_respects_stages:
  assumes "j \<in> set (ListDispatchableJobs run d)"
  shows "j \<in> set (dbJobs d) \<and> jrRunID j = run \<and> jrStatus j = StatusQueued \<and> jrAgentID j = None \<and> \<not> jrApprovalGate j \<and>
    (\<exists>s\<in>set (dbStages d). srID s = jrStageRunID j \<and>
       (\<forall>t\<in>set (dbStages d). srRunID t = run \<longrightarrow> srOrdinal t < srOrdinal s \<longrightarrow> \<not> active (srStatus t)))"
proof -
  obtain s where s: "s \<in> set (dbStages d)" "srID s = jrStageRunID j" "active_ordinal run d = Some (srOrdinal s)"
    using assms by (auto simp: ListDispatchableJobs_def list_ex_iff)
  have "\<not> active (srStatus t)" if "t \<in> set (dbStages d)" "srRunID t = run" "srOrdinal t < srOrdinal s" for t
    using active_ordinal_least [OF s(3) that(1,2)] that(3) by fastforce
  with s assms show ?thesis by (auto simp: ListDispatchableJobs_def)
qed

section \<open>Witnesses\<close>

text \<open>
  An older run waits at the staging gate; run 2 has just finished its build. Run 3 belongs to
  another branch.
\<close>

definition ex_lane :: DB where
  "ex_lane =
     \<lparr>dbRuns = [(ex_run 1 1)\<lparr>rrStatus := StatusRunning\<rparr>, (ex_run 2 2)\<lparr>rrStatus := StatusRunning\<rparr>,
        (ex_run 3 1)\<lparr>rrStatus := StatusRunning, rrRef := ''dev''\<rparr>],
      dbStages = [ex_stage 10 1 ''g1'' 1, ex_stage 20 2 ''g1'' 1, ex_stage 30 3 ''g1'' 1],
      dbJobs = map (\<lambda>(i, run, stage). (ex_job i run stage ''approve-staging'')
          \<lparr>jrStatus := StatusAwaitingApproval, jrApprovalGate := True\<rparr>) [(100, 1, 10), (200, 2, 20), (300, 3, 30)]
        @ [ex_job 400 2 20 ''lint''],
      dbEvents = []\<rparr>"

definition ex_input :: supersedeInput where
  "ex_input = \<lparr>siPipelineID = 5, siRef = ''main'', siLaneMode = SupersedeBranch, siNewerRunID = 2, siNewerCounter = 2,
     siReadyEnvs = [''staging''], siDef = ex_pipeline\<rparr>"

lemma ex_lane_wf: "wf_db ex_lane"
  by code_simp

theorem superseded_runs_exact_witness:
  "1 \<in> suRunID ` set (fst (supersedeLaneSiblings ex_input (\<lambda>_. False) ex_lane))"
proof -
  have "(ex_run 1 1)\<lparr>rrStatus := StatusRunning\<rparr> \<in> {r \<in> set (dbRuns ex_lane). rrPipelineID r = siPipelineID ex_input
      \<and> (siLaneMode ex_input = SupersedePipeline \<or> rrRef r = siRef ex_input)
      \<and> rrCounter r < siNewerCounter ex_input \<and> active (rrStatus r) \<and> \<not> (\<lambda>_. False) (rrID r)
      \<and> ListAwaitingGateNamesForRun (rrID r) ex_lane \<noteq> []
      \<and> envSetsIntersect (siReadyEnvs ex_input) (victim_envs ex_input (ListAwaitingGateNamesForRun (rrID r) ex_lane))}"
    unfolding mem_Collect_eq by code_simp
  then have "rrID ((ex_run 1 1)\<lparr>rrStatus := StatusRunning\<rparr>) \<in> suRunID ` set (fst (supersedeLaneSiblings ex_input (\<lambda>_. False) ex_lane))"
    unfolding superseded_runs_exact [OF ex_lane_wf] by (rule imageI)
  then show ?thesis by (simp add: ex_run_def)
qed

theorem supersede_leaves_others_witness:
  "run_rows (snd (supersedeLaneSiblings ex_input (\<lambda>_. False) ex_lane)) 3 = run_rows ex_lane 3"
proof -
  have "map suRunID (fst (supersedeLaneSiblings ex_input (\<lambda>_. False) ex_lane)) = [1]" by code_simp
  then have "3 \<notin> suRunID ` set (fst (supersedeLaneSiblings ex_input (\<lambda>_. False) ex_lane))"
    unfolding set_map [symmetric] by simp
  from supersede_leaves_others [OF ex_lane_wf this] show ?thesis .
qed

theorem superseded_run_over_witness:
  "\<exists>r. find_run (snd (supersedeOne ex_input 1 1 ex_lane)) 1 = Some r \<and> rrSupersededBy r = Some 2"
proof -
  have "fst (supersedeOne ex_input 1 1 ex_lane) \<noteq> None" by code_simp
  then obtain v where "supersedeOne ex_input 1 1 ex_lane = (Some v, snd (supersedeOne ex_input 1 1 ex_lane))"
    by (cases "supersedeOne ex_input 1 1 ex_lane") auto
  from superseded_run_over [OF this] show ?thesis by (auto simp: ex_input_def)
qed

theorem dispatch_respects_stages_witness:
  "jrStatus (hd (ListDispatchableJobs 2 ex_lane)) = StatusQueued"
proof -
  have "hd (ListDispatchableJobs 2 ex_lane) \<in> set (ListDispatchableJobs 2 ex_lane)" by code_simp
  from dispatch_respects_stages [OF this] show ?thesis by blast
qed

end
