(* ===== verification/GoStrings.thy ===== *)
theory GoStrings
  imports Prelude
begin

text \<open>
  Laws of the Go string functions of \<open>Prelude\<close>: searching and splitting at a byte, joining as
  the inverse of splitting, and trimming.
\<close>

lemma str_index_char:
  "str_index s [c] = Some i \<Longrightarrow> s = take i s @ c # drop (i + 1) s \<and> c \<notin> set (take i s) \<and> i < length s"
proof (induction s arbitrary: i)
  case (Cons x s)
  then show ?case by (cases "x = c") (auto split: if_splits)
qed simp

lemma str_index_first: "c \<notin> set a \<Longrightarrow> str_index (a @ c # b) [c] = Some (length a)"
  by (induction a) auto

lemma str_contains_char: "str_contains s [c] \<longleftrightarrow> c \<in> set s"
proof
  assume "str_contains s [c]"
  then show "c \<in> set s" by (auto simp: str_contains_iff)
next
  assume "c \<in> set s"
  then obtain a b where "s = a @ [c] @ b" by (auto dest: split_list)
  then show "str_contains s [c]" by (auto simp: str_contains_iff)
qed

lemma str_split_nonempty [simp]: "str_split c s \<noteq> []"
  by (induction s) (auto split: list.splits)

lemma str_split_set: "p \<in> set (str_split c s) \<Longrightarrow> set p \<subseteq> set s \<and> c \<notin> set p"
proof (induction s arbitrary: p)
  case (Cons x s)
  then obtain w ws where ws: "str_split c s = w # ws" by (cases "str_split c s") auto
  have "set w \<subseteq> set s \<and> c \<notin> set w" "\<And>q. q \<in> set ws \<Longrightarrow> set q \<subseteq> set s \<and> c \<notin> set q"
    using Cons.IH ws by simp_all
  then show ?case using Cons.prems ws by (auto split: if_splits)
qed simp

lemma str_split_plain: "c \<notin> set a \<Longrightarrow> str_split c a = [a]"
  by (induction a) auto

lemma str_split_append: "c \<notin> set a \<Longrightarrow> str_split c (a @ c # s) = a # str_split c s"
  by (induction a) auto

lemma str_split_join:
  assumes "ps \<noteq> []" and "\<And>p. p \<in> set ps \<Longrightarrow> c \<notin> set p"
  shows "str_split c (str_join [c] ps) = ps"
  using assms by (induction "[c]" ps rule: str_join.induct) (auto simp: str_split_plain str_split_append)

text \<open>\<open>strings.TrimSpace\<close> is idempotent.\<close>

definition untrimmable :: "string list \<Rightarrow> string \<Rightarrow> bool" where
  "untrimmable encs s = (\<forall>e\<in>set encs. \<not> has_prefix s e)"

lemma trim_left_untrimmable: "[] \<notin> set encs \<Longrightarrow> untrimmable encs (trim_space_left encs s)"
proof (induction encs s rule: trim_space_left.induct)
  case (1 encs s)
  show ?case
  proof (cases "leading_space encs s")
    case None
    then have "trim_space_left encs s = s" by (simp add: trim_space_left.simps [of encs s])
    with None show ?thesis by (simp add: untrimmable_def leading_space_def find_None_iff)
  next
    case (Some e)
    then have e: "e \<in> set encs" "has_prefix s e" by (auto simp: leading_space_def find_Some_iff)
    with 1(2) have "e \<noteq> []" "s \<noteq> []" by (auto simp: has_prefix_def)
    with 1 Some show ?thesis by (simp add: trim_space_left.simps [of encs s])
  qed
qed

lemma trim_left_id: "untrimmable encs s \<Longrightarrow> trim_space_left encs s = s"
  by (auto simp: trim_space_left.simps [of encs s] untrimmable_def leading_space_def find_Some_iff
      split: option.splits)

lemma trim_left_suffix: "\<exists>pre. s = pre @ trim_space_left encs s"
proof (induction encs s rule: trim_space_left.induct)
  case (1 encs s)
  show ?case
  proof (cases "leading_space encs s")
    case (Some e)
    show ?thesis
    proof (cases "e = [] \<or> s = []")
      case False
      with 1 Some obtain pre where "drop (length e) s = pre @ trim_space_left encs (drop (length e) s)" by blast
      then have "s = (take (length e) s @ pre) @ trim_space_left encs (drop (length e) s)"
        by (metis append.assoc append_take_drop_id)
      moreover have "trim_space_left encs s = trim_space_left encs (drop (length e) s)"
        using False Some by (simp add: trim_space_left.simps [of encs s])
      ultimately show ?thesis by metis
    qed (use Some in \<open>simp add: trim_space_left.simps [of encs s]\<close>)
  qed (simp add: trim_space_left.simps [of encs s])
qed

lemma untrimmable_prefix: "untrimmable encs (a @ b) \<Longrightarrow> untrimmable encs a"
  by (auto simp: untrimmable_def has_prefix_iff)

lemma trim_space_idem [simp]: "trim_space (trim_space s) = trim_space s"
proof -
  define E where "E = space_encodings"
  define R where "R = map rev E"
  define l where "l = trim_space_left E s"
  define r where "r = trim_space_left R (rev l)"
  have noE: "[] \<notin> set E" "[] \<notin> set R" by (simp_all add: E_def R_def space_encodings_def)
  obtain pre where "rev l = pre @ r" using trim_left_suffix unfolding r_def by blast
  then have l: "l = rev r @ rev pre" by (metis rev_append rev_rev_ident)
  have "untrimmable E l" unfolding l_def by (rule trim_left_untrimmable [OF noE(1)])
  then have "untrimmable E (rev r)" unfolding l by (rule untrimmable_prefix)
  then have "trim_space_left E (rev r) = rev r" by (rule trim_left_id)
  moreover have "trim_space_left R r = r"
    unfolding r_def by (rule trim_left_id [OF trim_left_untrimmable [OF noE(2)]])
  ultimately show ?thesis by (simp add: trim_space_def flip: E_def R_def l_def r_def)
qed

lemma trim_space_set: "set (trim_space s) \<subseteq> set s"
proof -
  have sub: "set (trim_space_left encs t) \<subseteq> set t" for encs t
    using trim_left_suffix [of t encs] by (metis set_append Un_upper2)
  show ?thesis unfolding trim_space_def using sub by (metis set_rev subset_trans)
qed

lemma sort_key_nonempty [simp]: "sort_key f xs = [] \<longleftrightarrow> xs = []"
  by (metis length_0_conv length_sort)

lemma sort_key_stable_id: "sort_key f (sort_key f xs) = sort_key f xs"
  by (rule sort_key_id_if_sorted) simp

lemma trim_space_empty [simp]: "trim_space [] = []"
  using trim_space_set [of "[]"] by simp

section \<open>Runes\<close>

text \<open>
  A rune as Go reads it from a string: the bytes of one well-formed UTF-8 sequence, or one
  byte that starts none, which is written back as U+FFFD.
\<close>

definition rune_error :: string where
  "rune_error = [CHR 0xEF, CHR 0xBF, CHR 0xBD]"

definition in_range :: "char \<Rightarrow> nat \<Rightarrow> nat \<Rightarrow> bool" where
  "in_range c lo hi = (lo \<le> of_char c \<and> (of_char c :: nat) \<le> hi)"

definition rune_length :: "string \<Rightarrow> nat option" where
  "rune_length s =
     (case s of
        [] \<Rightarrow> None
      | a # t \<Rightarrow>
          (let cont = (\<lambda>i. i < length t \<and> in_range (t ! i) 0x80 0xBF);
               second = (\<lambda>lo hi. t \<noteq> [] \<and> in_range (hd t) lo hi)
           in if in_range a 0 0x7F then Some 1
              else if in_range a 0xC2 0xDF \<and> cont 0 then Some 2
              else if cont 1 \<and> (in_range a 0xE0 0xE0 \<and> second 0xA0 0xBF
                   \<or> (in_range a 0xE1 0xEC \<or> in_range a 0xEE 0xEF) \<and> cont 0 \<or> in_range a 0xED 0xED \<and> second 0x80 0x9F) then Some 3
              else if cont 1 \<and> cont 2 \<and> (in_range a 0xF0 0xF0 \<and> second 0x90 0xBF
                   \<or> in_range a 0xF1 0xF3 \<and> cont 0 \<or> in_range a 0xF4 0xF4 \<and> second 0x80 0x8F) then Some 4
              else None))"

lemma rune_length_pos: "rune_length s = Some n \<Longrightarrow> 0 < n"
  by (auto simp: rune_length_def Let_def split: list.splits if_splits)

function runes :: "string \<Rightarrow> string list" where
  "runes [] = []"
| "runes (a # t) =
     (case rune_length (a # t) of
        None \<Rightarrow> rune_error # runes t
      | Some n \<Rightarrow> take n (a # t) # runes (drop n (a # t)))"
  by pat_completeness auto

termination
  by (relation "measure length") (auto dest: rune_length_pos)

end
