(* ===== verification/NeedsGate.thy ===== *)
theory NeedsGate
  imports RunSupersede GoStrings
begin

text \<open>
  The scheduler's needs gate (\<open>server/internal/scheduler/needs.go\<close>): the verdict on a
  queued job from the statuses of the jobs it needs, what the scheduler does with the verdict
  (\<open>scheduler_needs.go\<close>), and the grouping of upstream outputs by matrix key
  (\<open>scheduler_needs.go\<close>, \<open>refs.go\<close>).
\<close>

section \<open>Statuses of a run\<close>

definition status_string :: "RunStatus \<Rightarrow> string" where
  "status_string s =
     (case s of StatusQueued \<Rightarrow> ''queued'' | StatusRunning \<Rightarrow> ''running'' | StatusSuccess \<Rightarrow> ''success''
      | StatusFailed \<Rightarrow> ''failed'' | StatusCanceled \<Rightarrow> ''canceled'' | StatusSkipped \<Rightarrow> ''skipped''
      | StatusWaiting \<Rightarrow> ''waiting'' | StatusAwaitingApproval \<Rightarrow> ''awaiting_approval'')"

record JobStatusForRun =
  jsName :: string
  jsMatrixKey :: string
  jsStatus :: RunStatus

definition ListJobStatusForRun :: "uuid \<Rightarrow> DB \<Rightarrow> JobStatusForRun list" where
  "ListJobStatusForRun run d =
     map (\<lambda>j. \<lparr>jsName = jrName j, jsMatrixKey = jrMatrixKey j, jsStatus = jrStatus j\<rparr>)
       (sort_key (\<lambda>j. (jrName j, jrMatrixKey j)) (filter (\<lambda>j. jrRunID j = run) (dbJobs d)))"

record JobStatusRow =
  rowMatrixKey :: string
  rowStatus :: RunStatus

type_synonym JobStatusMap = "string \<rightharpoonup> JobStatusRow list"

fun buildJobStatusMap_from :: "JobStatusMap \<Rightarrow> JobStatusForRun list \<Rightarrow> JobStatusMap" where
  "buildJobStatusMap_from m [] = m"
| "buildJobStatusMap_from m (r # rs) =
     buildJobStatusMap_from
       (m(jsName r \<mapsto> (case m (jsName r) of None \<Rightarrow> [] | Some xs \<Rightarrow> xs)
            @ [\<lparr>rowMatrixKey = jsMatrixKey r, rowStatus = jsStatus r\<rparr>])) rs"

definition buildJobStatusMap :: "JobStatusForRun list \<Rightarrow> JobStatusMap" where
  "buildJobStatusMap rows = buildJobStatusMap_from Map.empty rows"

section \<open>The verdict\<close>

record NeedsCheck =
  ncOk :: bool
  ncUpstreamTerminal :: bool
  ncSkip :: bool
  ncDetail :: string

definition maxNeedsField :: nat where
  "maxNeedsField = 128"

definition clampNeedsField :: "string \<Rightarrow> string" where
  "clampNeedsField s = (if length s \<le> maxNeedsField then s else take maxNeedsField s)"

definition describeBlocker :: "string \<Rightarrow> JobStatusRow \<Rightarrow> string" where
  "describeBlocker name r =
     (let n = clampNeedsField name; s = clampNeedsField (status_string (rowStatus r)) in
      if rowMatrixKey r = [] then n @ '': '' @ s
      else n @ ''['' @ clampNeedsField (rowMatrixKey r) @ '']: '' @ s)"

definition fail_check :: "string \<Rightarrow> NeedsCheck" where
  "fail_check detail = \<lparr>ncOk = False, ncUpstreamTerminal = True, ncSkip = False, ncDetail = detail\<rparr>"

definition skip_check :: "string \<Rightarrow> NeedsCheck" where
  "skip_check detail = \<lparr>ncOk = False, ncUpstreamTerminal = True, ncSkip = True, ncDetail = detail\<rparr>"

definition wait_check :: "string \<Rightarrow> NeedsCheck" where
  "wait_check detail = \<lparr>ncOk = False, ncUpstreamTerminal = False, ncSkip = False, ncDetail = detail\<rparr>"

definition ok_check :: NeedsCheck where
  "ok_check = \<lparr>ncOk = True, ncUpstreamTerminal = False, ncSkip = False, ncDetail = []\<rparr>"

text \<open>
  The two loops of \<open>needsSatisfied\<close>. The accumulators are the first canceled or skipped
  blocker and the first blocker that is not terminal; \<open>Inl\<close> is the early return on a failed or
  absent upstream.
\<close>

type_synonym blockers = "NeedsCheck option \<times> NeedsCheck option"

fun scan_rows :: "string \<Rightarrow> JobStatusRow list \<Rightarrow> blockers \<Rightarrow> NeedsCheck + blockers" where
  "scan_rows name [] acc = Inr acc"
| "scan_rows name (r # rs) (cancelSkip, waiting) =
     (if rowStatus r = StatusSuccess then scan_rows name rs (cancelSkip, waiting)
      else if rowStatus r = StatusFailed then Inl (fail_check (describeBlocker name r))
      else if rowStatus r = StatusCanceled \<or> rowStatus r = StatusSkipped then
        scan_rows name rs
          (case cancelSkip of None \<Rightarrow> Some (skip_check (describeBlocker name r)) | Some c \<Rightarrow> Some c, waiting)
      else
        scan_rows name rs
          (cancelSkip, case waiting of None \<Rightarrow> Some (wait_check (describeBlocker name r)) | Some c \<Rightarrow> Some c))"

fun scan_needs :: "string list \<Rightarrow> JobStatusMap \<Rightarrow> blockers \<Rightarrow> NeedsCheck + blockers" where
  "scan_needs [] status acc = Inr acc"
| "scan_needs (name # ns) status acc =
     (case status name of
        None \<Rightarrow> Inl (fail_check (clampNeedsField name @ '': not in this run''))
      | Some rows \<Rightarrow>
          (if rows = [] then Inl (fail_check (clampNeedsField name @ '': no job_run rows''))
           else
             (case scan_rows name rows acc of
                Inl c \<Rightarrow> Inl c
              | Inr acc' \<Rightarrow> scan_needs ns status acc')))"

definition needsSatisfied :: "string list \<Rightarrow> JobStatusMap \<Rightarrow> NeedsCheck" where
  "needsSatisfied needs status =
     (case scan_needs needs status (None, None) of
        Inl c \<Rightarrow> c
      | Inr (cancelSkip, waiting) \<Rightarrow>
          (case waiting of
             Some c \<Rightarrow> c
           | None \<Rightarrow> (case cancelSkip of Some c \<Rightarrow> c | None \<Rightarrow> ok_check)))"

definition summary_part :: "JobStatusMap \<Rightarrow> string \<Rightarrow> string option" where
  "summary_part status name =
     (case status name of
        None \<Rightarrow> Some (clampNeedsField name @ '':missing'')
      | Some rows \<Rightarrow> map_option (describeBlocker name) (find (\<lambda>r. rowStatus r \<noteq> StatusSuccess) rows))"

text \<open>The ellipsis is the three UTF-8 bytes of U+2026.\<close>

definition summarizeNeeds :: "string list \<Rightarrow> JobStatusMap \<Rightarrow> string" where
  "summarizeNeeds needs status =
     (let out = str_join '', '' (List.map_filter (summary_part status) needs) in
      if length out > 240 then take 240 out @ map char_of [0xE2, 0x80, 0xA6 :: nat] else out)"

section \<open>Acting on the verdict\<close>

text \<open>What the dispatch loop does with a listed job before it looks for an agent.\<close>

definition failJobNeedsUnmet :: "uuid \<Rightarrow> string \<Rightarrow> DB \<Rightarrow> DB" where
  "failJobNeedsUnmet job detail d = snd (FailJobWithReason job (''needs unmet: '' @ detail) d)"

definition skipJobNeedsUnmet :: "uuid \<Rightarrow> DB \<Rightarrow> DB" where
  "skipJobNeedsUnmet job d = snd (SkipJob job d)"

definition needs_gate :: "uuid \<Rightarrow> string list \<Rightarrow> JobStatusMap \<Rightarrow> DB \<Rightarrow> bool \<times> DB" where
  "needs_gate job needs status d =
     (let check = needsSatisfied needs status in
      if ncOk check then (True, d)
      else if ncUpstreamTerminal check then
        (False, if ncSkip check then skipJobNeedsUnmet job d else failJobNeedsUnmet job (ncDetail check) d)
      else (False, d))"

section \<open>What the verdict means\<close>

definition blocked_fail :: "string list \<Rightarrow> JobStatusMap \<Rightarrow> bool" where
  "blocked_fail needs status =
     (\<exists>n\<in>set needs. status n = None \<or> status n = Some [] \<or>
        (\<exists>r\<in>set (the (status n)). rowStatus r = StatusFailed))"

definition blocked_wait :: "string list \<Rightarrow> JobStatusMap \<Rightarrow> bool" where
  "blocked_wait needs status =
     (\<exists>n\<in>set needs. \<exists>r\<in>set (the (status n)). rowStatus r \<notin> {StatusSuccess, StatusFailed, StatusCanceled, StatusSkipped})"

definition blocked_skip :: "string list \<Rightarrow> JobStatusMap \<Rightarrow> bool" where
  "blocked_skip needs status =
     (\<exists>n\<in>set needs. \<exists>r\<in>set (the (status n)). rowStatus r \<in> {StatusCanceled, StatusSkipped})"

lemma scan_rows_spec:
  "case scan_rows name rs acc of
     Inl c \<Rightarrow> (\<exists>r\<in>set rs. rowStatus r = StatusFailed) \<and> (\<exists>m. c = fail_check m)
   | Inr (cs, w) \<Rightarrow>
       \<not> (\<exists>r\<in>set rs. rowStatus r = StatusFailed)
       \<and> (cs = None \<longleftrightarrow> fst acc = None \<and> \<not> (\<exists>r\<in>set rs. rowStatus r \<in> {StatusCanceled, StatusSkipped}))
       \<and> (w = None \<longleftrightarrow> snd acc = None \<and>
           \<not> (\<exists>r\<in>set rs. rowStatus r \<notin> {StatusSuccess, StatusFailed, StatusCanceled, StatusSkipped}))
       \<and> (\<forall>c. cs = Some c \<longrightarrow> fst acc = Some c \<or> (\<exists>m. c = skip_check m))
       \<and> (\<forall>c. w = Some c \<longrightarrow> snd acc = Some c \<or> (\<exists>m. c = wait_check m))"
proof (induction name rs acc rule: scan_rows.induct)
  case (2 name r rs cs w)
  show ?case
  proof (cases "rowStatus r")
    case StatusSuccess
    with 2(1) show ?thesis by (simp split: sum.splits prod.splits)
  next
    case StatusFailed
    then show ?thesis by auto
  next
    case StatusCanceled
    with 2(2) show ?thesis by (cases cs) (auto split: sum.splits prod.splits)
  next
    case StatusSkipped
    with 2(2) show ?thesis by (cases cs) (auto split: sum.splits prod.splits)
  qed (use 2(3) in \<open>cases w; auto split: sum.splits prod.splits\<close>)+
qed (simp split: prod.split)

lemma scan_needs_spec:
  "case scan_needs ns status acc of
     Inl c \<Rightarrow> blocked_fail ns status \<and> (\<exists>m. c = fail_check m)
   | Inr (cs, w) \<Rightarrow>
       \<not> blocked_fail ns status
       \<and> (cs = None \<longleftrightarrow> fst acc = None \<and> \<not> blocked_skip ns status)
       \<and> (w = None \<longleftrightarrow> snd acc = None \<and> \<not> blocked_wait ns status)
       \<and> (\<forall>c. cs = Some c \<longrightarrow> fst acc = Some c \<or> (\<exists>m. c = skip_check m))
       \<and> (\<forall>c. w = Some c \<longrightarrow> snd acc = Some c \<or> (\<exists>m. c = wait_check m))"
proof (induction ns arbitrary: acc)
  case (Cons n ns)
  show ?case
  proof (cases "status n = None \<or> status n = Some []")
    case True
    then show ?thesis by (auto simp: blocked_fail_def)
  next
    case False
    then obtain rows where rows: "status n = Some rows" "rows \<noteq> []" by (cases "status n") auto
    show ?thesis
    proof (cases "scan_rows n rows acc")
      case (Inl c)
      with scan_rows_spec [where name = n and rs = rows and acc = acc] rows show ?thesis by (auto simp: blocked_fail_def)
    next
      case (Inr b)
      obtain cs w where b: "b = (cs, w)" by fastforce
      have fail: "blocked_fail (n # ns) status \<longleftrightarrow> blocked_fail ns status"
        using scan_rows_spec [where name = n and rs = rows and acc = acc] Inr b rows by (simp add: blocked_fail_def)
      have skip: "blocked_skip (n # ns) status \<longleftrightarrow>
          (\<exists>r\<in>set rows. rowStatus r \<in> {StatusCanceled, StatusSkipped}) \<or> blocked_skip ns status"
        using rows by (simp add: blocked_skip_def)
      have wait: "blocked_wait (n # ns) status \<longleftrightarrow>
          (\<exists>r\<in>set rows. rowStatus r \<notin> {StatusSuccess, StatusFailed, StatusCanceled, StatusSkipped}) \<or> blocked_wait ns status"
        using rows by (simp add: blocked_wait_def)
      have step: "scan_needs (n # ns) status acc = scan_needs ns status (cs, w)"
        using rows Inr b by simp
      note rows_spec = scan_rows_spec [where name = n and rs = rows and acc = acc, unfolded Inr b sum.case prod.case]
      show ?thesis
      proof (cases "scan_needs ns status (cs, w)")
        case (Inl c)
        with Cons.IH [of "(cs, w)"] show ?thesis unfolding step fail by simp
      next
        case (Inr b')
        obtain cs' w' where b': "b' = (cs', w')" by fastforce
        note ih = Cons.IH [of "(cs, w)", unfolded Inr b' sum.case prod.case fst_conv snd_conv]
        show ?thesis
          unfolding step fail skip wait Inr b' sum.case prod.case
          using rows_spec ih by (intro conjI; metis)
      qed
    qed
  qed
qed (simp add: blocked_fail_def blocked_skip_def blocked_wait_def split: prod.split)

datatype gate_action = GateRun | GateWait | GateSkip | GateFail

definition action_of :: "NeedsCheck \<Rightarrow> gate_action" where
  "action_of c =
     (if ncOk c then GateRun
      else if \<not> ncUpstreamTerminal c then GateWait
      else if ncSkip c then GateSkip else GateFail)"

lemma action_of_checks [simp]:
  "action_of ok_check = GateRun" "action_of (wait_check m) = GateWait"
  "action_of (skip_check m) = GateSkip" "action_of (fail_check m) = GateFail"
  by (simp_all add: action_of_def ok_check_def wait_check_def skip_check_def fail_check_def)

text \<open>The same conditions read from the job table.\<close>

definition upstream :: "DB \<Rightarrow> uuid \<Rightarrow> string \<Rightarrow> RunStatus set" where
  "upstream d run n = jrStatus ` {j \<in> set (dbJobs d). jrRunID j = run \<and> jrName j = n}"

definition run_verdict :: "DB \<Rightarrow> uuid \<Rightarrow> string list \<Rightarrow> NeedsCheck" where
  "run_verdict d run needs = needsSatisfied needs (buildJobStatusMap (ListJobStatusForRun run d))"

lemma buildJobStatusMap_from_apply:
  "buildJobStatusMap_from m rs n =
     (let xs = map (\<lambda>r. \<lparr>rowMatrixKey = jsMatrixKey r, rowStatus = jsStatus r\<rparr>) (filter (\<lambda>r. jsName r = n) rs) in
      if xs = [] then m n else Some ((case m n of None \<Rightarrow> [] | Some ys \<Rightarrow> ys) @ xs))"
proof (induction rs arbitrary: m)
  case (Cons r rs)
  show ?case
    by (cases "jsName r = n") (simp_all only: buildJobStatusMap_from.simps Cons.IH, auto simp: Let_def)
qed simp

lemma status_rows_upstream:
  "rowStatus ` set (map (\<lambda>r. \<lparr>rowMatrixKey = jsMatrixKey r, rowStatus = jsStatus r\<rparr>)
      (filter (\<lambda>r. jsName r = n) (ListJobStatusForRun run d))) = upstream d run n"
proof -
  have "map (\<lambda>r. \<lparr>rowMatrixKey = jsMatrixKey r, rowStatus = jsStatus r\<rparr>)
      (filter (\<lambda>r. jsName r = n) (ListJobStatusForRun run d)) =
    map (\<lambda>j. \<lparr>rowMatrixKey = jrMatrixKey j, rowStatus = jrStatus j\<rparr>)
      (filter (\<lambda>j. jrName j = n) (sort_key (\<lambda>j. (jrName j, jrMatrixKey j)) (filter (\<lambda>j. jrRunID j = run) (dbJobs d))))"
    unfolding ListJobStatusForRun_def filter_map map_map o_def by (simp only: JobStatusForRun.select_convs)
  then have "rowStatus ` set (map (\<lambda>r. \<lparr>rowMatrixKey = jsMatrixKey r, rowStatus = jsStatus r\<rparr>)
      (filter (\<lambda>r. jsName r = n) (ListJobStatusForRun run d))) =
    jrStatus ` {j \<in> {j \<in> set (dbJobs d). jrRunID j = run}. jrName j = n}"
    by (simp only: set_map set_filter set_sort image_image JobStatusRow.select_convs)
  then show ?thesis unfolding upstream_def by (simp only: mem_Collect_eq conj_assoc)
qed

lemma buildJobStatusMap_upstream:
  fixes run d n
  defines "m \<equiv> buildJobStatusMap (ListJobStatusForRun run d) n"
  shows "m = None \<longleftrightarrow> upstream d run n = {}" and "m \<noteq> Some []"
    and "upstream d run n \<noteq> {} \<Longrightarrow> rowStatus ` set (the m) = upstream d run n"
proof -
  let ?xs = "map (\<lambda>r. \<lparr>rowMatrixKey = jsMatrixKey r, rowStatus = jsStatus r\<rparr>)
      (filter (\<lambda>r. jsName r = n) (ListJobStatusForRun run d))"
  have m: "m = (if ?xs = [] then None else Some ?xs)"
    unfolding m_def buildJobStatusMap_def buildJobStatusMap_from_apply by (simp add: Let_def)
  have up: "rowStatus ` set ?xs = upstream d run n"
    by (rule status_rows_upstream)
  have empty: "?xs = [] \<longleftrightarrow> upstream d run n = {}" unfolding up [symmetric] image_is_empty set_empty ..
  show "m = None \<longleftrightarrow> upstream d run n = {}" "m \<noteq> Some []" using empty by (auto simp: m)
  show "upstream d run n \<noteq> {} \<Longrightarrow> rowStatus ` set (the m) = upstream d run n"
    using empty up by (simp add: m)
qed

definition verdict_spec :: "DB \<Rightarrow> uuid \<Rightarrow> string list \<Rightarrow> gate_action" where
  "verdict_spec d run needs =
     (if list_ex (\<lambda>n. upstream d run n = {} \<or> StatusFailed \<in> upstream d run n) needs then GateFail
      else if list_ex (\<lambda>n. \<not> upstream d run n \<subseteq> {StatusSuccess, StatusCanceled, StatusSkipped}) needs then GateWait
      else if list_ex (\<lambda>n. \<not> upstream d run n \<subseteq> {StatusSuccess}) needs then GateSkip
      else GateRun)"

lemma needsSatisfied_action:
  "action_of (needsSatisfied needs status) =
     (if blocked_fail needs status then GateFail
      else if blocked_wait needs status then GateWait
      else if blocked_skip needs status then GateSkip else GateRun)"
  using scan_needs_spec [of needs status "(None, None)"]
  by (cases "scan_needs needs status (None, None)")
    (auto simp: needsSatisfied_def split: prod.splits option.splits)

lemma run_verdict_action: "action_of (run_verdict d run needs) = verdict_spec d run needs"
proof -
  let ?st = "buildJobStatusMap (ListJobStatusForRun run d)"
  note up = buildJobStatusMap_upstream [where run = run and d = d]
  have fail: "blocked_fail needs ?st \<longleftrightarrow> list_ex (\<lambda>n. upstream d run n = {} \<or> StatusFailed \<in> upstream d run n) needs"
    unfolding blocked_fail_def list_ex_iff using up by (intro bex_cong refl) (metis (no_types, lifting) imageE imageI)
  have rows: "(\<exists>r\<in>set (the (?st n)). P (rowStatus r)) \<longleftrightarrow> (\<exists>x\<in>upstream d run n. P x)"
    if "upstream d run n \<noteq> {}" for n P
    using up(3) [OF that] by (metis (no_types, lifting) imageE imageI)
  show ?thesis
  proof (cases "blocked_fail needs ?st")
    case True
    with fail show ?thesis by (simp add: run_verdict_def needsSatisfied_action verdict_spec_def)
  next
    case False
    then have ne: "upstream d run n \<noteq> {}" "StatusFailed \<notin> upstream d run n" if "n \<in> set needs" for n
      using that fail by (auto simp: list_ex_iff)
    have wait: "(\<exists>r\<in>set (the (?st n)). rowStatus r \<notin> {StatusSuccess, StatusFailed, StatusCanceled, StatusSkipped}) \<longleftrightarrow>
        \<not> upstream d run n \<subseteq> {StatusSuccess, StatusCanceled, StatusSkipped}" if "n \<in> set needs" for n
      unfolding rows [OF ne(1) [OF that], of "\<lambda>x. x \<notin> {StatusSuccess, StatusFailed, StatusCanceled, StatusSkipped}"]
      using ne(2) [OF that] by auto
    have skip: "(\<exists>r\<in>set (the (?st n)). rowStatus r \<in> {StatusCanceled, StatusSkipped}) \<longleftrightarrow>
        \<not> upstream d run n \<subseteq> {StatusSuccess}"
      if "n \<in> set needs" "upstream d run n \<subseteq> {StatusSuccess, StatusCanceled, StatusSkipped}" for n
      unfolding rows [OF ne(1) [OF that(1)], of "\<lambda>x. x \<in> {StatusCanceled, StatusSkipped}"]
      using that(2) by auto
    have "blocked_wait needs ?st \<longleftrightarrow>
        list_ex (\<lambda>n. \<not> upstream d run n \<subseteq> {StatusSuccess, StatusCanceled, StatusSkipped}) needs"
      unfolding blocked_wait_def list_ex_iff using wait by blast
    moreover have "blocked_skip needs ?st \<longleftrightarrow> list_ex (\<lambda>n. \<not> upstream d run n \<subseteq> {StatusSuccess}) needs"
      if "\<not> list_ex (\<lambda>n. \<not> upstream d run n \<subseteq> {StatusSuccess, StatusCanceled, StatusSkipped}) needs"
      using that unfolding blocked_skip_def list_ex_iff using skip by blast
    ultimately show ?thesis
      using False fail by (simp add: run_verdict_def needsSatisfied_action verdict_spec_def)
  qed
qed

section \<open>Stability of verdicts\<close>

lemma upstreamI: "j \<in> set (dbJobs d) \<Longrightarrow> jrStatus j \<in> upstream d (jrRunID j) (jrName j)"
  by (auto simp: upstream_def)

lemma upstream_evo:
  assumes "db_evo d d'"
  shows "upstream d run n = {} \<longleftrightarrow> upstream d' run n = {}"
    and "x \<in> upstream d run n \<Longrightarrow> \<not> job_unfinished x \<Longrightarrow> x \<in> upstream d' run n"
    and "y \<in> upstream d' run n \<Longrightarrow> (\<And>x. x \<in> upstream d run n \<Longrightarrow> \<not> job_unfinished x) \<Longrightarrow> y \<in> upstream d run n"
proof -
  have fwd: "\<exists>j'\<in>set (dbJobs d'). jrRunID j' = run \<and> jrName j' = n \<and> evo_job j j'"
    if "j \<in> set (dbJobs d)" "jrRunID j = run" "jrName j = n" for j
    using evo_rows(6) [OF assms that(1)] that by (auto simp: evo_job_def)
  have bwd: "\<exists>j\<in>set (dbJobs d). jrRunID j = run \<and> jrName j = n \<and> evo_job j j'"
    if "j' \<in> set (dbJobs d')" "jrRunID j' = run" "jrName j' = n" for j'
    using evo_rows(5) [OF assms that(1)] that by (auto simp: evo_job_def)
  show "upstream d run n = {} \<longleftrightarrow> upstream d' run n = {}"
    using fwd bwd unfolding upstream_def by blast
  show "x \<in> upstream d run n \<Longrightarrow> \<not> job_unfinished x \<Longrightarrow> x \<in> upstream d' run n"
  proof -
    assume "x \<in> upstream d run n" and fin: "\<not> job_unfinished x"
    then obtain j where j: "j \<in> set (dbJobs d)" "jrRunID j = run" "jrName j = n" "x = jrStatus j"
      by (auto simp: upstream_def)
    obtain j' where "j' \<in> set (dbJobs d')" "jrRunID j' = run" "jrName j' = n" "evo_job j j'"
      using fwd [OF j(1-3)] by blast
    with upstreamI [of j' d'] fin j(4) show "x \<in> upstream d' run n" by (simp add: evo_job_def)
  qed
  show "y \<in> upstream d' run n \<Longrightarrow> (\<And>x. x \<in> upstream d run n \<Longrightarrow> \<not> job_unfinished x) \<Longrightarrow> y \<in> upstream d run n"
  proof -
    assume "y \<in> upstream d' run n" and fin: "\<And>x. x \<in> upstream d run n \<Longrightarrow> \<not> job_unfinished x"
    then obtain j' where j': "j' \<in> set (dbJobs d')" "jrRunID j' = run" "jrName j' = n" "y = jrStatus j'"
      by (auto simp: upstream_def)
    obtain j where j: "j \<in> set (dbJobs d)" "jrRunID j = run" "jrName j = n" "evo_job j j'"
      using bwd [OF j'(1-3)] by blast
    then have "jrStatus j \<in> upstream d run n" by (auto simp: upstream_def)
    with fin [OF this] j(4) j'(4) show "y \<in> upstream d run n" by (simp add: evo_job_def)
  qed
qed

lemma verdict_spec_evo:
  assumes evo: "db_evo d d'" and dec: "verdict_spec d run needs \<noteq> GateWait"
  shows "verdict_spec d' run needs = verdict_spec d run needs"
proof (cases "list_ex (\<lambda>n. upstream d run n = {} \<or> StatusFailed \<in> upstream d run n) needs")
  case True
  then obtain n where "n \<in> set needs" "upstream d run n = {} \<or> StatusFailed \<in> upstream d run n"
    by (auto simp: list_ex_iff)
  then have "list_ex (\<lambda>n. upstream d' run n = {} \<or> StatusFailed \<in> upstream d' run n) needs"
    using upstream_evo(1) [OF evo] upstream_evo(2) [OF evo, of StatusFailed]
    unfolding list_ex_iff job_unfinished_def by blast
  with True show ?thesis by (simp add: verdict_spec_def)
next
  case False
  have same: "upstream d' run n = upstream d run n" if "n \<in> set needs" for n
  proof -
    have "upstream d run n \<subseteq> {StatusSuccess, StatusCanceled, StatusSkipped}"
      using dec False that by (auto simp: verdict_spec_def list_ex_iff split: if_splits)
    then have "\<not> job_unfinished x" if "x \<in> upstream d run n" for x
      using that by (auto simp: job_unfinished_def)
    then show ?thesis using upstream_evo(2,3) [OF evo] by blast
  qed
  then show ?thesis by (simp add: verdict_spec_def list_ex_iff cong: bex_cong)
qed

section \<open>Matrix keys\<close>

datatype matrix_error =
  NotKV string | RepeatedDim string | EmptySelector | AmbiguousShortcut string | UnknownDim string

text \<open>One \<open>k=v\<close> part: \<open>strings.IndexByte\<close> splits at the first equals sign.\<close>

definition split_kv :: "string \<Rightarrow> matrix_error + string \<times> string" where
  "split_kv p0 =
     (let p = trim_space p0 in
      case str_index p ''='' of
        None \<Rightarrow> Inl (NotKV p)
      | Some eq \<Rightarrow>
          (if eq = 0 \<or> eq = length p - 1 then Inl (NotKV p) else Inr (take eq p, drop (eq + 1) p)))"

fun collect_kv ::
  "(string \<Rightarrow> bool) \<Rightarrow> (string \<times> string) list \<Rightarrow> string list \<Rightarrow> matrix_error + (string \<times> string) list" where
  "collect_kv known acc [] = Inr acc"
| "collect_kv known acc (p # ps) =
     (case split_kv p of
        Inl e \<Rightarrow> Inl e
      | Inr (k, v) \<Rightarrow>
          (if k \<in> set (map fst acc) then Inl (RepeatedDim k)
           else if \<not> known k then Inl (UnknownDim k)
           else collect_kv known (acc @ [(k, v)]) ps))"

definition canonical_form :: "(string \<times> string) list \<Rightarrow> string" where
  "canonical_form kvs = str_join '','' (map (\<lambda>(k, v). k @ ''='' @ v) (sort_key fst kvs))"

definition canonicalizeMatrixKey :: "string \<Rightarrow> matrix_error + string" where
  "canonicalizeMatrixKey stored =
     (if stored = [] then Inr []
      else map_sum id canonical_form (collect_kv (\<lambda>_. True) [] (str_split CHR '','' stored)))"

definition canonicalMatrixKey :: "string \<Rightarrow> string list \<Rightarrow> matrix_error + string" where
  "canonicalMatrixKey body0 dimNames =
     (let body = trim_space body0 in
      if body = [] then Inl EmptySelector
      else if \<not> str_contains body ''='' then
        (case dimNames of [dim] \<Rightarrow> Inr (dim @ ''='' @ body) | _ \<Rightarrow> Inl (AmbiguousShortcut body))
      else
        map_sum id canonical_form
          (collect_kv (\<lambda>k. k \<in> set dimNames \<or> dimNames = []) [] (str_split CHR '','' body)))"

text \<open>
  Grouping the outputs of the upstream rows. Go ranges over the map of groups in no fixed
  order, which matters only for the choice of the reported error; here the groups are visited
  in row order.
\<close>

record JobOutputs =
  joName :: string
  joMatrixKey :: string
  joStatus :: RunStatus
  joOutputs :: smap

datatype group_error = MalformedKey string string matrix_error | DuplicateKey string string

type_synonym NeedsOutputs = "string \<rightharpoonup> smap"
type_synonym MatrixNeedsOutputs = "string \<rightharpoonup> (string \<rightharpoonup> smap)"

fun group_matrix ::
  "string \<Rightarrow> (string \<rightharpoonup> smap) \<Rightarrow> JobOutputs list \<Rightarrow> group_error + (string \<rightharpoonup> smap)" where
  "group_matrix name rowMap [] = Inr rowMap"
| "group_matrix name rowMap (g # gs) =
     (case canonicalizeMatrixKey (joMatrixKey g) of
        Inl e \<Rightarrow> Inl (MalformedKey name (joMatrixKey g) e)
      | Inr canon \<Rightarrow>
          (if rowMap canon \<noteq> None then Inl (DuplicateKey name canon)
           else group_matrix name (rowMap(canon \<mapsto> joOutputs g)) gs))"

definition successful_rows :: "JobOutputs list \<Rightarrow> string \<Rightarrow> JobOutputs list" where
  "successful_rows rows name = filter (\<lambda>g. joName g = name \<and> joStatus g = StatusSuccess) rows"

fun group_names ::
  "JobOutputs list \<Rightarrow> string list \<Rightarrow> NeedsOutputs \<Rightarrow> MatrixNeedsOutputs \<Rightarrow>
   group_error + NeedsOutputs \<times> MatrixNeedsOutputs" where
  "group_names rows [] plain matrix = Inr (plain, matrix)"
| "group_names rows (name # names) plain matrix =
     (case successful_rows rows name of
        [] \<Rightarrow> group_names rows names plain matrix
      | g # gs \<Rightarrow>
          (if gs = [] \<and> joMatrixKey g = [] then
             group_names rows names (plain(name \<mapsto> joOutputs g)) matrix
           else
             (case group_matrix name Map.empty (g # gs) of
                Inl e \<Rightarrow> Inl e
              | Inr rowMap \<Rightarrow> group_names rows names plain (matrix(name \<mapsto> rowMap)))))"

definition groupNeedsOutputs :: "JobOutputs list \<Rightarrow> group_error + NeedsOutputs \<times> MatrixNeedsOutputs" where
  "groupNeedsOutputs rows = group_names rows (dedup [] (map joName rows)) Map.empty Map.empty"

lemma collect_kv_iff:
  "collect_kv known acc ps = Inr kvs \<longleftrightarrow>
     (\<exists>xs. map split_kv ps = map Inr xs \<and> kvs = acc @ xs \<and> (\<forall>k\<in>fst ` set xs. known k)
       \<and> distinct (map fst xs) \<and> fst ` set xs \<inter> fst ` set acc = {})"
proof (induction ps arbitrary: acc)
  case (Cons p ps)
  show ?case
  proof (cases "split_kv p")
    case (Inl e)
    then show ?thesis by auto
  next
    case (Inr kv)
    obtain k v where kv: "kv = (k, v)" by fastforce
    have shift: "(\<exists>xs. map split_kv (p # ps) = map Inr xs \<and> P xs) \<longleftrightarrow>
        (\<exists>xs. map split_kv ps = map Inr xs \<and> P ((k, v) # xs))" for P
      using Inr kv by (auto simp: map_eq_Cons_conv Cons_eq_map_conv)
    show ?thesis
      unfolding shift collect_kv.simps Inr kv sum.case prod.case
      by (auto simp: Cons.IH simp del: collect_kv.simps)
  qed
qed auto

lemma split_kv_InrD:
  assumes "split_kv p = Inr (k, v)"
  shows "trim_space p = k @ ''='' @ v" and "CHR ''='' \<notin> set k" and "k \<noteq> []" and "v \<noteq> []"
proof -
  let ?p = "trim_space p"
  obtain i where i: "str_index ?p ''='' = Some i" and ne: "i \<noteq> 0" "i \<noteq> length ?p - 1"
    and kv: "k = take i ?p" "v = drop (i + 1) ?p"
    using assms by (auto simp: split_kv_def Let_def split: option.splits if_splits)
  note ix = str_index_char [OF i]
  show "?p = k @ ''='' @ v" "CHR ''='' \<notin> set k" "k \<noteq> []" "v \<noteq> []"
    using ix ne kv by auto
qed

lemma split_kv_join:
  assumes "CHR ''='' \<notin> set k" and "k \<noteq> []" and "v \<noteq> []" and "trim_space (k @ ''='' @ v) = k @ ''='' @ v"
  shows "split_kv (k @ ''='' @ v) = Inr (k, v)"
  unfolding split_kv_def assms(4) Let_def
  using assms(1-3) str_index_first [of "CHR ''=''" k v] by simp

lemma canonicalizeMatrixKey_iff:
  assumes "stored \<noteq> []"
  shows "canonicalizeMatrixKey stored = Inr key \<longleftrightarrow>
    (\<exists>xs. map split_kv (str_split CHR '','' stored) = map Inr xs \<and> distinct (map fst xs) \<and> key = canonical_form xs)"
proof -
  let ?c = "collect_kv (\<lambda>_. True) [] (str_split CHR '','' stored)"
  have "canonicalizeMatrixKey stored = Inr key \<longleftrightarrow> (\<exists>kvs. ?c = Inr kvs \<and> key = canonical_form kvs)"
    using assms unfolding canonicalizeMatrixKey_def by (cases ?c) auto
  then show ?thesis unfolding collect_kv_iff by simp
qed

lemma sort_key_mset:
  assumes "mset xs = mset ys" and "distinct (map f xs)"
  shows "sort_key f xs = sort_key f ys"
proof (rule properties_for_sort_key)
  show "mset (sort_key f ys) = mset xs" using assms(1) by simp
  show "sorted (map f (sort_key f ys))" by simp
  have ys: "distinct (map f (sort_key f ys))"
    using assms by (metis mset_eq_imp_distinct_iff mset_map mset_sort)
  have single: "filter (\<lambda>x. f k = f x) zs = [k]" if "k \<in> set zs" "distinct (map f zs)" for k zs
    using that by (induction zs) (auto simp: image_iff filter_empty_conv)
  fix k assume "k \<in> set (sort_key f ys)"
  moreover from this have "k \<in> set xs" using assms(1) by (metis set_mset_mset set_sort)
  ultimately show "filter (\<lambda>x. f k = f x) (sort_key f ys) = filter (\<lambda>x. f k = f x) xs"
    using single ys assms(2) by metis
qed

lemma canonical_form_mset: "mset xs = mset ys \<Longrightarrow> distinct (map fst xs) \<Longrightarrow> canonical_form xs = canonical_form ys"
  unfolding canonical_form_def by (simp only: sort_key_mset)

text \<open>The parts of a canonical key split back into the pairs it was built from.\<close>

lemma canonical_form_split:
  assumes "map split_kv (str_split CHR '','' stored) = map Inr xs"
  shows "str_split CHR '','' (canonical_form xs) = map (\<lambda>(k, v). k @ ''='' @ v) (sort_key fst xs)"
    and "map split_kv (str_split CHR '','' (canonical_form xs)) = map Inr (sort_key fst xs)"
proof -
  let ?ps = "str_split CHR '','' stored"
  have part: "\<exists>p\<in>set ?ps. split_kv p = Inr (k, v)" if "(k, v) \<in> set xs" for k v
  proof -
    have "Inr (k, v) \<in> set (map split_kv ?ps)" unfolding assms using that by simp
    then show ?thesis by (metis (no_types, lifting) imageE list.set_map)
  qed
  have trimmed: "trim_space (k @ ''='' @ v) = k @ ''='' @ v" and pure: "CHR '','' \<notin> set (k @ ''='' @ v)"
    and again: "split_kv (k @ ''='' @ v) = Inr (k, v)" if kv: "(k, v) \<in> set xs" for k v
  proof -
    obtain p where p: "p \<in> set ?ps" "split_kv p = Inr (k, v)" using part [OF kv] by blast
    note d = split_kv_InrD [OF p(2)]
    show t: "trim_space (k @ ''='' @ v) = k @ ''='' @ v"
      unfolding d(1) [symmetric] by simp
    show "CHR '','' \<notin> set (k @ ''='' @ v)"
      using str_split_set [OF p(1)] trim_space_set [of p] unfolding d(1) by blast
    show "split_kv (k @ ''='' @ v) = Inr (k, v)" by (rule split_kv_join [OF d(2-4) t])
  qed
  have "xs \<noteq> []" using assms by (metis list.map_disc_iff str_split_nonempty)
  then show split: "str_split CHR '','' (canonical_form xs) = map (\<lambda>(k, v). k @ ''='' @ v) (sort_key fst xs)"
    unfolding canonical_form_def using pure by (intro str_split_join) (auto simp: sort_key_nonempty)
  show "map split_kv (str_split CHR '','' (canonical_form xs)) = map Inr (sort_key fst xs)"
    unfolding split map_map by (rule map_cong) (auto simp: again simp del: append.simps)
qed

lemma group_matrix_spec:
  "group_matrix name m gs = Inr m' \<Longrightarrow>
   m' k = (case m k of Some o' \<Rightarrow> Some o'
           | None \<Rightarrow> map_option joOutputs (find (\<lambda>g. canonicalizeMatrixKey (joMatrixKey g) = Inr k) gs))"
proof (induction gs arbitrary: m)
  case (Cons g gs)
  then obtain canon where c: "canonicalizeMatrixKey (joMatrixKey g) = Inr canon" "m canon = None"
    "group_matrix name (m(canon \<mapsto> joOutputs g)) gs = Inr m'"
    by (auto split: sum.splits if_splits)
  from Cons.IH [OF c(3)] c(1,2) show ?case by (auto split: option.splits if_splits)
qed (simp split: option.split)

text \<open>What the grouping says of one upstream name.\<close>

definition grouped :: "JobOutputs list \<Rightarrow> string \<Rightarrow> smap option \<Rightarrow> (string \<rightharpoonup> smap) option \<Rightarrow> bool" where
  "grouped rows n p m =
     (case successful_rows rows n of
        [] \<Rightarrow> p = None \<and> m = None
      | g # gs \<Rightarrow>
          (if gs = [] \<and> joMatrixKey g = [] then p = Some (joOutputs g) \<and> m = None
           else p = None \<and> m = Some (\<lambda>k. map_option joOutputs
             (find (\<lambda>g. canonicalizeMatrixKey (joMatrixKey g) = Inr k) (g # gs)))))"

lemma group_names_spec:
  "group_names rows names plain matrix = Inr (plain', matrix') \<Longrightarrow> distinct names \<Longrightarrow>
   (n \<in> set names \<longrightarrow> plain n = None \<longrightarrow> matrix n = None \<longrightarrow> grouped rows n (plain' n) (matrix' n)) \<and>
   (n \<notin> set names \<longrightarrow> plain' n = plain n \<and> matrix' n = matrix n)"
proof (induction names arbitrary: plain matrix)
  case (Cons name names)
  have dist: "name \<notin> set names" "distinct names" using Cons.prems by simp_all
  show ?case
  proof (cases "successful_rows rows name")
    case Nil
    then have "group_names rows names plain matrix = Inr (plain', matrix')" using Cons.prems by simp
    from Cons.IH [OF this dist(2)] Nil dist show ?thesis by (auto simp: grouped_def)
  next
    case succ: (Cons g gs)
    show ?thesis
    proof (cases "gs = [] \<and> joMatrixKey g = []")
      case True
      then have "group_names rows names (plain(name \<mapsto> joOutputs g)) matrix = Inr (plain', matrix')"
        using Cons.prems succ by simp
      from Cons.IH [OF this dist(2)] True succ dist show ?thesis
        by (cases "n = name") (auto simp: grouped_def)
    next
      case False
      then obtain rowMap where r: "group_matrix name Map.empty (g # gs) = Inr rowMap"
        and rest: "group_names rows names plain (matrix(name \<mapsto> rowMap)) = Inr (plain', matrix')"
        using Cons.prems(1) succ by (auto split: sum.splits simp del: group_matrix.simps)
      have "rowMap = (\<lambda>k. map_option joOutputs
          (find (\<lambda>g. canonicalizeMatrixKey (joMatrixKey g) = Inr k) (g # gs)))"
        using group_matrix_spec [OF r] by (auto simp del: find.simps)
      then have here: "grouped rows name None (Some rowMap)"
        unfolding grouped_def succ list.case if_not_P [OF False] by simp
      from Cons.IH [OF rest dist(2)] here dist show ?thesis by (cases "n = name") auto
    qed
  qed
qed simp

section \<open>Properties\<close>

text \<open>
  C36: the needs gate decides by the worst upstream. Read off the job table of the run, a job
  fails if a needed job is missing or failed; otherwise it waits while a needed job (any row
  of its matrix) has not finished; otherwise it is skipped if one was canceled or skipped; and
  it runs exactly when every row of every needed job succeeded.
\<close>

theorem needs_verdict_exact:
  "action_of (needsSatisfied needs (buildJobStatusMap (ListJobStatusForRun run d))) =
     (if list_ex (\<lambda>n. upstream d run n = {} \<or> StatusFailed \<in> upstream d run n) needs then GateFail
      else if list_ex (\<lambda>n. \<not> upstream d run n \<subseteq> {StatusSuccess, StatusCanceled, StatusSkipped}) needs then GateWait
      else if list_ex (\<lambda>n. \<not> upstream d run n \<subseteq> {StatusSuccess}) needs then GateSkip
      else GateRun)"
  using run_verdict_action [of d run needs] by (simp add: run_verdict_def verdict_spec_def)

text \<open>
  The scheduler may act on a stale snapshot. Once the gate has decided (run, skip or fail),
  every later state of the store gives the same decision, so statuses read at the start of a
  tick stay good for the whole tick whatever other transactions commit meanwhile.
\<close>

theorem needs_verdict_stable:
  assumes "run_step\<^sup>*\<^sup>* v w" and "action_of (run_verdict (rvDB v) run needs) \<noteq> GateWait"
  shows "action_of (run_verdict (rvDB w) run needs) = action_of (run_verdict (rvDB v) run needs)"
  using verdict_spec_evo [OF run_steps_evo [OF assms(1)]] assms(2) by (simp add: run_verdict_action)

text \<open>
  What a stored matrix key says: its comma-separated parts, trimmed, are \<open>name=value\<close> pairs,
  split at the first equals sign. It is well formed when every part is such a pair and no name
  comes twice.
\<close>

definition pair_of :: "string \<Rightarrow> string \<times> string \<Rightarrow> bool" where
  "pair_of p kv \<longleftrightarrow> trim_space p = fst kv @ ''='' @ snd kv \<and> fst kv \<noteq> [] \<and> snd kv \<noteq> [] \<and> CHR ''='' \<notin> set (fst kv)"

definition key_parts :: "string \<Rightarrow> string list" where
  "key_parts stored = str_split CHR '','' stored"

definition key_pairs :: "string \<Rightarrow> (string \<times> string) set" where
  "key_pairs stored = {kv. \<exists>p\<in>set (key_parts stored). pair_of p kv}"

definition key_wf :: "string \<Rightarrow> bool" where
  "key_wf stored \<longleftrightarrow> (\<forall>p\<in>set (key_parts stored). \<exists>kv. pair_of p kv) \<and>
     (\<forall>i j x y. i < j \<longrightarrow> j < length (key_parts stored) \<longrightarrow> pair_of (key_parts stored ! i) x \<longrightarrow>
        pair_of (key_parts stored ! j) y \<longrightarrow> fst x \<noteq> fst y)"

lemma split_kv_pair: "split_kv p = Inr kv \<longleftrightarrow> pair_of p kv"
proof
  show "split_kv p = Inr kv \<Longrightarrow> pair_of p kv"
    using split_kv_InrD [of p "fst kv" "snd kv"] by (simp add: pair_of_def)
  assume kv: "pair_of p kv"
  then have p: "trim_space p = fst kv @ ''='' @ snd kv" by (simp add: pair_of_def)
  have "trim_space (fst kv @ ''='' @ snd kv) = fst kv @ ''='' @ snd kv" unfolding p [symmetric] by simp
  with kv have "split_kv (fst kv @ ''='' @ snd kv) = Inr kv"
    using split_kv_join [of "fst kv" "snd kv"] by (simp add: pair_of_def)
  then show "split_kv p = Inr kv" unfolding p [symmetric] by (simp add: split_kv_def)
qed

lemma split_key_pairs: "map split_kv (key_parts stored) = map Inr xs \<Longrightarrow> key_pairs stored = set xs"
proof -
  assume xs: "map split_kv (key_parts stored) = map Inr xs"
  have "kv \<in> key_pairs stored \<longleftrightarrow> Inr kv \<in> set (map split_kv (key_parts stored))" for kv
    unfolding key_pairs_def by (auto simp: split_kv_pair [symmetric] image_iff eq_commute)
  then show ?thesis unfolding xs by auto
qed

lemma canonicalize_pairs:
  assumes "stored \<noteq> []"
  shows "canonicalizeMatrixKey stored = Inr key \<longleftrightarrow>
    (\<exists>xs. map split_kv (key_parts stored) = map Inr xs \<and> distinct (map fst xs) \<and> key = canonical_form xs)"
  unfolding key_parts_def by (rule canonicalizeMatrixKey_iff [OF assms])

lemma key_wf_iff: "key_wf stored \<longleftrightarrow> (\<exists>xs. map split_kv (key_parts stored) = map Inr xs \<and> distinct (map fst xs))"
proof
  assume wf: "key_wf stored"
  define xs where "xs = map (\<lambda>p. SOME kv. pair_of p kv) (key_parts stored)"
  have pair: "pair_of (key_parts stored ! i) (xs ! i)" if "i < length (key_parts stored)" for i
  proof -
    have "\<exists>kv. pair_of (key_parts stored ! i) kv" using wf that by (simp add: key_wf_def)
    from someI_ex [OF this] show ?thesis using that by (simp add: xs_def)
  qed
  have len: "length xs = length (key_parts stored)" by (simp add: xs_def)
  have "map split_kv (key_parts stored) = map Inr xs"
    by (rule nth_equalityI) (use len pair split_kv_pair in auto)
  moreover have "fst (xs ! i) \<noteq> fst (xs ! j)" if "i < j" "j < length xs" for i j
    using wf that len pair unfolding key_wf_def by (metis order.strict_trans)
  then have "distinct (map fst xs)"
    by (auto simp: distinct_conv_nth) (metis linorder_neqE_nat)
  ultimately show "\<exists>xs. map split_kv (key_parts stored) = map Inr xs \<and> distinct (map fst xs)" by blast
next
  assume "\<exists>xs. map split_kv (key_parts stored) = map Inr xs \<and> distinct (map fst xs)"
  then obtain xs where xs: "map split_kv (key_parts stored) = map Inr xs" "distinct (map fst xs)" by blast
  have len: "length xs = length (key_parts stored)" using xs(1) by (metis length_map)
  have at: "split_kv (key_parts stored ! i) = Inr (xs ! i)" if "i < length xs" for i
    using xs(1) that len by (metis nth_map)
  have "\<exists>kv. pair_of p kv" if "p \<in> set (key_parts stored)" for p
    using that at len by (metis in_set_conv_nth split_kv_pair)
  moreover have "fst x \<noteq> fst y"
    if ij: "i < j" "j < length (key_parts stored)" "pair_of (key_parts stored ! i) x" "pair_of (key_parts stored ! j) y" for i j x y
  proof -
    have "x = xs ! i" "y = xs ! j" using at [of i] at [of j] ij len by (simp_all add: split_kv_pair [symmetric])
    then show ?thesis using xs(2) ij(1,2) len by (simp add: distinct_conv_nth)
  qed
  ultimately show "key_wf stored" unfolding key_wf_def by blast
qed

lemma canonical_key_pairs:
  assumes "canonicalizeMatrixKey stored = Inr key" and "stored \<noteq> []"
  shows "key_pairs key = key_pairs stored" and "key_wf key"
    and "sorted (map (takeWhile (\<lambda>c. c \<noteq> CHR ''='')) (key_parts key))"
proof -
  obtain xs where xs: "map split_kv (key_parts stored) = map Inr xs" "distinct (map fst xs)" and key: "key = canonical_form xs"
    using assms canonicalize_pairs by blast
  note split = canonical_form_split [OF xs(1) [unfolded key_parts_def], folded key key_parts_def]
  show "key_pairs key = key_pairs stored"
    using split_key_pairs [OF split(2)] split_key_pairs [OF xs(1)] by simp
  show "key_wf key" unfolding key_wf_iff using split(2) xs(2) by (metis mset_eq_imp_distinct_iff mset_map mset_sort)
  have "CHR ''='' \<notin> set k" if kv: "(k, v) \<in> set xs" for k v
  proof -
    have "Inr (k, v) \<in> set (map split_kv (key_parts stored))" unfolding xs(1) using kv by simp
    then obtain p where "split_kv p = Inr (k, v)" by auto
    then show ?thesis by (rule split_kv_InrD(2))
  qed
  then have "takeWhile (\<lambda>c. c \<noteq> CHR ''='') (k @ ''='' @ v) = k" if "(k, v) \<in> set xs" for k v
    using that by (auto simp: takeWhile_tail intro!: takeWhile_eq_all_conv [THEN iffD2])
  then have "map (takeWhile (\<lambda>c. c \<noteq> CHR ''='')) (key_parts key) = map fst (sort_key fst xs)"
    unfolding split(1) map_map by (intro map_cong refl) (auto simp del: append.simps)
  then show "sorted (map (takeWhile (\<lambda>c. c \<noteq> CHR ''='')) (key_parts key))" by (simp add: sorted_sort_key)
qed

lemma matrix_keys_facts:
  shows "(\<exists>key. canonicalizeMatrixKey a = Inr key) \<longleftrightarrow> a = [] \<or> key_wf a"
    and "canonicalizeMatrixKey a = Inr key \<Longrightarrow> a \<noteq> [] \<Longrightarrow>
      key_pairs key = key_pairs a \<and> sorted (map (takeWhile (\<lambda>c. c \<noteq> CHR ''='')) (key_parts key))"
    and "canonicalizeMatrixKey a = Inr key \<Longrightarrow> canonicalizeMatrixKey b = Inr key' \<Longrightarrow> a \<noteq> [] \<Longrightarrow> b \<noteq> [] \<Longrightarrow>
      key = key' \<longleftrightarrow> key_pairs a = key_pairs b"
proof -
  show "(\<exists>key. canonicalizeMatrixKey a = Inr key) \<longleftrightarrow> a = [] \<or> key_wf a"
  proof (cases "a = []")
    case False
    then show ?thesis unfolding key_wf_iff canonicalize_pairs [OF False] by blast
  qed (simp add: canonicalizeMatrixKey_def)
  show "key_pairs key = key_pairs a \<and> sorted (map (takeWhile (\<lambda>c. c \<noteq> CHR ''='')) (key_parts key))"
    if "canonicalizeMatrixKey a = Inr key" "a \<noteq> []"
    using canonical_key_pairs [OF that] by simp
  assume a: "canonicalizeMatrixKey a = Inr key" "a \<noteq> []" and b: "canonicalizeMatrixKey b = Inr key'" "b \<noteq> []"
  obtain xs where xs: "map split_kv (key_parts a) = map Inr xs" "distinct (map fst xs)" "key = canonical_form xs"
    using a canonicalize_pairs by blast
  obtain ys where ys: "map split_kv (key_parts b) = map Inr ys" "distinct (map fst ys)" "key' = canonical_form ys"
    using b canonicalize_pairs by blast
  show "key = key' \<longleftrightarrow> key_pairs a = key_pairs b"
  proof
    show "key = key' \<Longrightarrow> key_pairs a = key_pairs b"
      using canonical_key_pairs(1) [OF a] canonical_key_pairs(1) [OF b] by simp
    assume "key_pairs a = key_pairs b"
    then have "set xs = set ys" using split_key_pairs [OF xs(1)] split_key_pairs [OF ys(1)] by simp
    moreover have "distinct xs" "distinct ys" using xs(2) ys(2) by (simp_all add: distinct_map)
    ultimately have "mset xs = mset ys" by (simp add: set_eq_iff_mset_eq_distinct)
    then show "key = key'" unfolding xs(3) ys(3) by (rule canonical_form_mset [OF _ xs(2)])
  qed
qed

text \<open>
  C37: matrix keys are compared by what they say. A stored key is accepted exactly when it is
  empty or well formed: every part is a \<open>name=value\<close> pair and no name repeats. The canonical key
  has the very pairs of the stored key, with its names in order. And two stored keys get the
  same canonical key exactly when they have the same set of pairs, whatever the order of their
  parts and the spaces around them; so rows of one job are found or told apart by their cell.
\<close>

theorem matrix_keys_exact:
  "((\<exists>key. canonicalizeMatrixKey a = Inr key) \<longleftrightarrow> a = [] \<or> key_wf a) \<and>
   (\<forall>key. canonicalizeMatrixKey a = Inr key \<and> a \<noteq> [] \<longrightarrow>
      key_pairs key = key_pairs a \<and> sorted (map (takeWhile (\<lambda>c. c \<noteq> CHR ''='')) (key_parts key)) \<and>
      (\<forall>b key'. canonicalizeMatrixKey b = Inr key' \<and> b \<noteq> [] \<longrightarrow> (key = key' \<longleftrightarrow> key_pairs a = key_pairs b)))"
  using matrix_keys_facts [of a] by blast

lemma split_parts_perm:
  assumes "mset ps = mset qs" and "map split_kv ps = map Inr xs"
  shows "\<exists>ys. map split_kv qs = map Inr ys \<and> mset ys = mset xs"
proof -
  have "\<exists>y. split_kv q = Inr y" if "q \<in> set qs" for q
  proof -
    have "q \<in> set ps" using that assms(1) by (metis set_mset_mset)
    then have "split_kv q \<in> set (map Inr xs)" using assms(2) by (metis image_eqI list.set_map)
    then show ?thesis by auto
  qed
  then have qs: "map split_kv qs = map Inr (map (\<lambda>q. projr (split_kv q)) qs)" (is "_ = map Inr ?ys")
    by (auto simp: o_def) (metis sum.sel(2))
  have xs: "xs = map (\<lambda>p. projr (split_kv p)) ps"
    using arg_cong [OF assms(2), of "map projr"] by (simp add: o_def)
  have "mset ?ys = mset xs" unfolding xs mset_map assms(1) ..
  with qs show ?thesis by blast
qed

text \<open>
  A matrix selector finds its row whatever the order of its dimensions. If the selector
  lists the same \<open>k=v\<close> parts as the stored key of the row, in any order, and names only
  declared dimensions, both sides compute the same canonical key.
\<close>

theorem matrix_selector_any_order:
  assumes "canonicalizeMatrixKey stored = Inr key" and "stored \<noteq> []"
    and "mset (str_split CHR '','' sel) = mset (str_split CHR '','' stored)" and "trim_space sel = sel"
    and "list_all (\<lambda>p. case split_kv p of Inr (k, v) \<Rightarrow> k \<in> set dims | Inl _ \<Rightarrow> False) (str_split CHR '','' stored)"
  shows "canonicalMatrixKey sel dims = Inr key"
proof -
  obtain xs where xs: "map split_kv (str_split CHR '','' stored) = map Inr xs" "distinct (map fst xs)"
    and key: "key = canonical_form xs"
    using assms(1,2) canonicalizeMatrixKey_iff by blast
  obtain ys where ys: "map split_kv (str_split CHR '','' sel) = map Inr ys" "mset ys = mset xs"
    using split_parts_perm [OF assms(3) [symmetric] xs(1)] by blast
  have dist: "distinct (map fst ys)" using xs(2) ys(2) by (metis mset_eq_imp_distinct_iff mset_map)
  have known: "fst kv \<in> set dims" if "kv \<in> set ys" for kv
  proof -
    have "kv \<in> set xs" using that ys(2) by (metis set_mset_mset)
    then have "Inr kv \<in> set (map split_kv (str_split CHR '','' stored))" unfolding xs(1) by simp
    then obtain p where "p \<in> set (str_split CHR '','' stored)" "split_kv p = Inr kv" by auto
    with assms(5) show ?thesis by (cases kv) (auto simp: list_all_iff)
  qed
  have "collect_kv (\<lambda>k. k \<in> set dims \<or> dims = []) [] (str_split CHR '','' sel) = Inr ys"
    unfolding collect_kv_iff using ys(1) dist known by (intro exI [of _ ys]) auto
  moreover have "str_contains sel ''=''" and "sel \<noteq> []"
  proof -
    obtain p where p: "p \<in> set (str_split CHR '','' sel)" using str_split_nonempty by (metis last_in_set)
    then obtain k v where "split_kv p = Inr (k, v)"
      using ys(1) by (metis (no_types, lifting) imageE image_eqI list.set_map surj_pair)
    then have "CHR ''='' \<in> set p" using split_kv_InrD(1) trim_space_set [of p] by fastforce
    with str_split_set [OF p] show "str_contains sel ''=''" "sel \<noteq> []" by (auto simp: str_contains_char)
  qed
  moreover have "canonical_form ys = key" unfolding key by (rule canonical_form_mset [OF ys(2) dist])
  ultimately show ?thesis using assms(4) by (simp add: canonicalMatrixKey_def)
qed

text \<open>
  Upstream outputs are routed by matrix key. When the grouping succeeds, a name with one
  successful row without a matrix key is reachable by the bare reference only, any other name
  with successful rows by the selector only, under the canonical key of each row and with that
  row's outputs; rows that did not succeed contribute nothing.
\<close>

theorem needs_outputs_grouped:
  assumes "groupNeedsOutputs rows = Inr (plain, matrix)"
  shows "grouped rows n (plain n) (matrix n)"
proof (cases "n \<in> set (map joName rows)")
  case True
  with group_names_spec [OF assms [unfolded groupNeedsOutputs_def], of n] show ?thesis by simp
next
  case False
  then have "successful_rows rows n = []" by (auto simp: successful_rows_def filter_empty_conv)
  with False group_names_spec [OF assms [unfolded groupNeedsOutputs_def], of n] show ?thesis
    by (simp add: grouped_def)
qed

section \<open>Witnesses\<close>

theorem needs_verdict_stable_witness:
  "action_of (run_verdict (rvDB (the (run_all [RList 1, RFail 101 ''x''] ex_canceled))) 1 [''compile'']) = GateSkip"
proof -
  have "action_of (run_verdict (rvDB ex_canceled) 1 [''compile'']) = GateSkip" by code_simp
  with needs_verdict_stable [OF ex_canceled_steps, of 1 "[''compile'']"] show ?thesis by simp
qed

theorem matrix_keys_exact_witness:
  "canonicalizeMatrixKey ''shard=apac, region=br'' = Inr ''region=br,shard=apac'' \<and>
   key_pairs ''region=br,shard=apac'' = key_pairs ''shard=apac, region=br''"
proof -
  have "canonicalizeMatrixKey ''shard=apac, region=br'' = Inr ''region=br,shard=apac''" by code_simp
  moreover have "canonicalizeMatrixKey ''region=br,shard=apac'' = Inr ''region=br,shard=apac''" by code_simp
  ultimately show ?thesis
    using matrix_keys_exact [of "''region=br,shard=apac''"] by (metis list.distinct(1))
qed

theorem matrix_selector_any_order_witness:
  "canonicalMatrixKey ''shard=apac,region=br'' [''region'', ''shard''] = Inr ''region=br,shard=apac''"
proof -
  have "canonicalizeMatrixKey ''region=br,shard=apac'' = Inr ''region=br,shard=apac''" by code_simp
  moreover have "str_split CHR '','' ''shard=apac,region=br'' = [''shard=apac'', ''region=br'']"
    "str_split CHR '','' ''region=br,shard=apac'' = [''region=br'', ''shard=apac'']" by code_simp+
  moreover have "trim_space ''shard=apac,region=br'' = ''shard=apac,region=br''" by code_simp
  moreover have "split_kv ''region=br'' = Inr (''region'', ''br'')" "split_kv ''shard=apac'' = Inr (''shard'', ''apac'')"
    by code_simp+
  ultimately show ?thesis
    using matrix_selector_any_order [of "''region=br,shard=apac''" "''region=br,shard=apac''" "''shard=apac,region=br''"
        "[''region'', ''shard'']"] by (simp add: add_mset_commute)
qed

definition ex_outputs :: "JobOutputs list" where
  "ex_outputs =
     [\<lparr>joName = ''bump'', joMatrixKey = ''shard=apac'', joStatus = StatusSuccess, joOutputs = [(''next'', ''2'')]\<rparr>,
      \<lparr>joName = ''lint'', joMatrixKey = [], joStatus = StatusFailed, joOutputs = []\<rparr>]"

theorem needs_outputs_grouped_witness:
  "\<exists>plain matrix. groupNeedsOutputs ex_outputs = Inr (plain, matrix) \<and> plain ''lint'' = None \<and> matrix ''lint'' = None"
proof -
  have "(case groupNeedsOutputs ex_outputs of Inr _ \<Rightarrow> True | Inl _ \<Rightarrow> False)" by code_simp
  then obtain plain matrix where g: "groupNeedsOutputs ex_outputs = Inr (plain, matrix)" by (auto split: sum.splits)
  have "successful_rows ex_outputs ''lint'' = []" by code_simp
  with needs_outputs_grouped [OF g, of "''lint''"] g show ?thesis by (auto simp: grouped_def)
qed

end
