(* ===== verification/JobMoves.thy ===== *)
theory JobMoves
  imports RunLifecycle
begin

text \<open>
  How the transactions of \<open>RunStore\<close> move single job rows. A relation on rows that allows the
  moves the store makes relates the job tables before and after every transaction; the locale
  proves this once. Its instances are the abstract life cycle of a job (\<open>Rerun\<close> states the
  refinement) and the fact that only a decision settles an approval gate.
\<close>

definition same_key :: "JobRow \<Rightarrow> JobRow \<Rightarrow> bool" where
  "same_key j j' =
     (jrID j' = jrID j \<and> jrRunID j' = jrRunID j \<and> jrStageRunID j' = jrStageRunID j \<and> jrName j' = jrName j
      \<and> jrApprovalGate j' = jrApprovalGate j \<and> jrRetryUnsafe j' = jrRetryUnsafe j
      \<and> jrAttempt j \<le> jrAttempt j' \<and> (jrRetryUnsafe j \<longrightarrow> jrAttempt j' = jrAttempt j))"

fun settles :: "run_op \<Rightarrow> bool" where
  "settles (RDecideGate contended job approve) = True"
| "settles _ = False"

locale job_relation =
  fixes J :: "JobRow \<Rightarrow> JobRow \<Rightarrow> bool"
  assumes J_refl: "J j j"
    and J_trans: "J i j \<Longrightarrow> J j k \<Longrightarrow> J i k"
    and J_active: "active (jrStatus j) \<Longrightarrow> same_key j j' \<Longrightarrow>
      jrStatus j' \<noteq> StatusWaiting \<Longrightarrow> jrStatus j' \<noteq> StatusAwaitingApproval \<Longrightarrow> J j j'"
    and J_cancel_gate: "jrStatus j = StatusAwaitingApproval \<Longrightarrow> same_key j j' \<Longrightarrow>
      jrAttempt j' = jrAttempt j \<Longrightarrow> jrStatus j' = StatusCanceled \<Longrightarrow> J j j'"
begin

definition rel :: "DB \<Rightarrow> DB \<Rightarrow> bool" where
  "rel d d' = list_all2 J (dbJobs d) (dbJobs d')"

lemma rel_same: "dbJobs d' = dbJobs d \<Longrightarrow> rel d d'"
  by (simp add: rel_def list_all2_refl J_refl)

lemma rel_trans: "rel a b \<Longrightarrow> rel b c \<Longrightarrow> rel a c"
  unfolding rel_def by (rule list_all2_trans [OF J_trans]) 

lemma rel_upd: "(\<And>j. j \<in> set (dbJobs d) \<Longrightarrow> p j \<Longrightarrow> J j (f j)) \<Longrightarrow> rel d (upd_jobs p f d)"
  unfolding rel_def upd_tables by (rule list_all2_upd_where) (auto intro: J_refl)

lemma rel_CancelQueuedJobsInRun: "rel d (CancelQueuedJobsInRun run origin d)"
  unfolding CancelQueuedJobsInRun_def
  by (rule rel_upd) (auto intro: J_active J_cancel_gate simp: active_def same_key_def)

lemma rel_stamps:
  "rel d (StampCancelRequestedAtForRun run origin d)" "rel d (StampCancelRequestedAt job d)"
  unfolding StampCancelRequestedAtForRun_def StampCancelRequestedAt_def
  by (rule rel_upd, rule J_active, auto simp: active_def same_key_def)+

lemma rel_CancelRunJobs: "rel d (CancelRunJobs run d)"
  unfolding CancelRunJobs_def
proof (rule rel_upd)
  fix j assume "jrRunID j = run \<and> user_job d j \<and> job_unfinished (jrStatus j)"
  then show "J j (j\<lparr>jrStatus := if jrStatus j = StatusRunning then jrStatus j else StatusCanceled,
      jrCancelRequested := jrCancelRequested j \<or> jrStatus j = StatusRunning,
      jrCancelOrigin := first_origin OriginUserRun j\<rparr>)"
    by (cases "jrStatus j = StatusAwaitingApproval")
      (auto intro: J_active J_cancel_gate simp: active_def job_unfinished_def same_key_def)
qed

lemma rel_finish_run: "rel d (snd (finish_run run cp d))"
  by (rule rel_same) (simp add: finish_run_def Let_def CompleteRun_def)

lemma rel_fail_fast: "rel d (fail_fast run d)"
  unfolding fail_fast_def
  by (rule rel_trans [OF rel_same rel_CancelQueuedJobsInRun]) (simp add: CancelQueuedStagesInRun_def)

lemma rel_cascade:
  assumes "cascadeAfterJobCompletion stage run cp d = Some (cp', d')"
  shows "rel d d'"
proof -
  have "rel d (fst (CompleteStageRun stage st d))" for st
    by (rule rel_same) (simp add: CompleteStageRun_def)
  then have "rel d (if st = StatusFailed then fail_fast run (fst (CompleteStageRun stage st d))
      else fst (CompleteStageRun stage st d))" for st
    using rel_trans [OF _ rel_fail_fast] by simp
  then have "rel d (snd (finish_run run cp1 (if st = StatusFailed then fail_fast run (fst (CompleteStageRun stage st d))
      else fst (CompleteStageRun stage st d))))" for st cp1
    by (rule rel_trans [OF _ rel_finish_run])
  then show ?thesis
    using cascade_result [OF assms] rel_same [OF refl, of d] unfolding Let_def by blast
qed

lemma rel_supersedeOne: "rel d (snd (supersedeOne i run counter d))"
proof -
  let ?d2 = "CancelQueuedStagesInRun run (SupersedeRun run (siNewerRunID i) (siNewerCounter i) d)"
  have "rel d ?d2" by (rule rel_same) (simp add: CancelQueuedStagesInRun_def SupersedeRun_def)
  then have "rel d (StampCancelRequestedAtForRun run OriginSupersede (CancelQueuedJobsInRun run OriginSupersede ?d2))"
    by (meson rel_trans rel_CancelQueuedJobsInRun rel_stamps(1))
  moreover have "rel x (notify e x)" for e x by (rule rel_same) simp
  ultimately have "rel d (notify e (StampCancelRequestedAtForRun run OriginSupersede
      (CancelQueuedJobsInRun run OriginSupersede ?d2)))" for e
    using rel_trans by blast
  then show ?thesis
    by (simp add: supersedeOne_def Let_def rel_same split: option.split)
qed

lemma rel_supersede_loop: "rel d (snd (supersede_loop i contended cs d))"
proof (induction cs arbitrary: d)
  case (Cons c cs)
  obtain run counter where c: "c = (run, counter)" by fastforce
  obtain v d1 where one: "supersedeOne i run counter d = (v, d1)" by fastforce
  have "rel d d1" using rel_supersedeOne [of d i run counter] one by simp
  then have "rel d (snd (supersede_loop i contended cs d1))" using rel_trans Cons.IH by blast
  then show ?case
    using one c Cons.IH [of d] by (cases v) (auto simp: case_prod_beta)
qed (simp add: rel_same)

lemma rel_supersedeAfterCascade:
  assumes "supersedeAfterCascade contended run stage cp d = Some (vs, d')"
  shows "rel d d'"
proof -
  have "rel d (snd (supersedeLaneSiblings i contended d))" for i
    using rel_supersede_loop [of d i contended "supersede_candidates i d"]
    by (simp add: supersedeLaneSiblings_def case_prod_beta)
  then show ?thesis
    using assms rel_same
    by (auto simp: supersedeAfterCascade_def Let_def case_prod_beta split: option.splits if_splits)
      (metis snd_conv)+
qed

lemma rel_finish_queued:
  assumes "\<And>j. is_queued job j \<Longrightarrow> J j (f j)"
  shows "rel d (snd (finish_queued job f d))"
proof -
  have "rel d (upd_jobs (is_queued job) f d)" by (rule rel_upd) (rule assms)
  then show ?thesis
    using rel_trans rel_cascade rel_same
    by (fastforce simp: finish_queued_def split: option.splits)
qed

lemma rel_UnassignJob: "rel d (snd (UnassignJob job agent attempt d))"
proof -
  have "rel d (upd_jobs (assigned_to job agent attempt) unassigned_row d)"
    by (rule rel_upd, rule J_active) (auto simp: assigned_to_def unassigned_row_def active_def same_key_def)
  then show ?thesis
    using rel_trans rel_cascade rel_same
    by (fastforce simp: UnassignJob_def Let_def split: option.splits)
qed

lemma rel_CompleteJob: "rel d (snd (CompleteJob contended i d))"
proof (cases rule: CompleteJob_cases [of contended i d])
  case (2 row cp d2 vs)
  let ?p = "snapshot_matches (ciJobRunID i) (ciExpectedAgentID i) (ciExpectedAttempt i)"
  let ?f = "completed_row (ciStatus i) (ciExitCode i) (nullable_string (ciErrorMsg i)) (ciOutputs i)"
  have "rel d (upd_jobs ?p ?f d)"
    by (rule rel_upd, rule J_active)
      (use 2(2) in \<open>auto simp: snapshot_matches_def completed_row_def same_key_def\<close>)
  then show ?thesis
    using rel_cascade [OF 2(3)] rel_supersedeAfterCascade [OF 2(4)] rel_trans by blast
qed (simp add: rel_same)

lemma rel_CancelRun: "rel d (snd (CancelRun run d))"
proof -
  have "rel (CancelRunJobs run d) (notify e (fst (CancelActiveRun run (CancelQueuedStagesInRun run (CancelRunJobs run d)))))" for e
    by (rule rel_same) (simp add: CancelActiveRun_def CancelQueuedStagesInRun_def)
  then have "rel d (notify e (fst (CancelActiveRun run (CancelQueuedStagesInRun run (CancelRunJobs run d)))))" for e
    using rel_trans rel_CancelRunJobs by blast
  then show ?thesis
    by (auto simp: CancelRun_def Let_def case_prod_beta rel_same split: option.split)
qed

lemma rel_CancelJobRun: "rel d (snd (CancelJobRun job d))"
proof -
  let ?f = "\<lambda>j. j\<lparr>jrStatus := StatusCanceled, jrCancelOrigin := first_origin OriginUserJob j\<rparr>"
  have "rel d (snd (finish_queued job ?f d))"
    by (rule rel_finish_queued, rule J_active) (auto simp: is_queued_def active_def same_key_def)
  then show ?thesis
    using rel_stamps(2) rel_same
    by (auto simp: CancelJobRun_def split: option.split prod.split tx_result.split)
qed

lemma rel_queued_ops:
  "rel d (snd (SkipJob job d))" "rel d (snd (FailJobWithReason job reason d))"
  "rel d (snd (AssignJob job agent d))" "rel d (snd (StartServerManagedJob job d))"
  unfolding SkipJob_def FailJobWithReason_def AssignJob_def StartServerManagedJob_def Let_def snd_conv
  by ((rule rel_finish_queued rel_upd), rule J_active,
      auto simp: is_queued_def assignable_def active_def same_key_def)+

lemma rel_requeueStaleJob:
  assumes "list_all (\<lambda>j. jrID j = job \<longrightarrow> \<not> jrRetryUnsafe j) (dbJobs d)"
  shows "rel d (snd (requeueStaleJob job maxAttempts attempt agent d))"
proof -
  have "rel d (snd (ReclaimJobForRetry job maxAttempts attempt agent d))"
    unfolding ReclaimJobForRetry_def Let_def snd_conv
    by (rule rel_upd, rule J_active)
      (use assms in \<open>auto simp: reclaimable_def requeued_row_def active_def same_key_def list_all_iff\<close>)
  then show ?thesis by (auto simp: requeueStaleJob_def rel_same split: prod.split option.split)
qed

lemma rel_failJobIfStale: "rel d (snd (failJobIfStale job attempt agent reason d))"
proof (cases rule: failJobIfStale_cases [of job attempt agent reason d])
  case (2 row cp)
  have "rel d (upd_jobs (reclaimable job attempt agent)
      (\<lambda>j. j\<lparr>jrStatus := StatusFailed, jrExitCode := Some (- 1), jrError := Some reason\<rparr>) d)"
    by (rule rel_upd, rule J_active) (auto simp: reclaimable_def active_def same_key_def)
  then show ?thesis using rel_cascade [OF 2(2)] rel_trans by blast
qed (simp add: rel_same)

lemma rel_reclaim_cancels: "rel d (snd (reclaim_cancels owned d))"
proof (cases rule: reclaim_cancels_cases [of owned d])
  case (2 rs)
  have "rel d (upd_jobs (\<lambda>j. cancel_pending j \<and> owned j) (\<lambda>j. j\<lparr>jrStatus := StatusCanceled\<rparr>) d)"
    by (rule rel_upd, rule J_active) (auto simp: cancel_pending_def active_def same_key_def)
  moreover have "rel d0 d'" if "cascade_rows rs d0 = Some d'" for rs d0 d'
    using that by (induction rs arbitrary: d0) (auto simp: rel_same split: option.splits dest!: rel_cascade intro: rel_trans)
  ultimately show ?thesis using 2(1) rel_trans by blast
qed (simp add: rel_same)

lemma rel_run_exec:
  assumes "run_enabled c v" and "\<not> settles c"
  shows "rel (rvDB v) (run_exec c (rvDB v))"
proof (cases c)
  case (RActiveQueueReason run reason)
  then show ?thesis by (simp add: rel_same SetActiveRunQueueReason_def Let_def)
qed (use assms in \<open>simp_all add: rel_queued_ops rel_UnassignJob rel_CompleteJob rel_CancelRun rel_CancelJobRun rel_same
    MarkRunRunning_def MarkStageRunning_def SetRunQueueReason_def ClearRunQueueReason_def rel_requeueStaleJob
    rel_failJobIfStale rel_reclaim_cancels ReclaimPendingCancelsForOfflineAgent_def ReclaimAbandonedNativeCancels_def\<close>)

end

text \<open>A relation that also allows decisions covers every transaction.\<close>

locale job_relation_gate = job_relation +
  assumes J_decide: "jrStatus j = StatusAwaitingApproval \<Longrightarrow> same_key j j' \<Longrightarrow>
    jrAttempt j' = jrAttempt j \<Longrightarrow> jrStatus j' = StatusSuccess \<or> jrStatus j' = StatusFailed \<Longrightarrow> J j j'"
begin

lemma rel_settleGate: "rel d (snd (settleGate contended job approve d))"
proof (cases rule: settleGate_cases [of contended job approve d])
  case (2 row cp d2 vs)
  have "rel d (flipGate job approve d)"
    unfolding flipGate_def
    by (rule rel_upd, rule J_decide) (auto simp: pending_gate_def same_key_def gate_status_def)
  then show ?thesis
    using rel_cascade [OF 2(2)] rel_supersedeAfterCascade [OF 2(3)] rel_trans by blast
qed (simp add: rel_same)

lemma rel_every_exec: "run_enabled c v \<Longrightarrow> rel (rvDB v) (run_exec c (rvDB v))"
  by (cases "settles c") (auto simp: rel_run_exec rel_settleGate elim: settles.elims)

lemma rel_run_step: "run_step v w \<Longrightarrow> rel (rvDB v) (rvDB w)"
  using rel_every_exec by (auto simp: run_step_def)

end

section \<open>The life cycle of a job\<close>

text \<open>
  The abstract machine over attempt and status: a queued job is claimed by an agent or the
  server, a claim can be given back or, by the reaper, tried again under the next attempt, a
  live job ends in one of four ways, and a gate is decided or canceled.
\<close>

inductive life_step :: "int \<times> RunStatus \<Rightarrow> int \<times> RunStatus \<Rightarrow> bool" where
  claim: "life_step (n, StatusQueued) (n, StatusRunning)"
| give_back: "life_step (n, StatusRunning) (n, StatusQueued)"
| retry: "life_step (n, StatusRunning) (n + 1, StatusQueued)"
| finish: "active s \<Longrightarrow> t \<in> {StatusSuccess, StatusFailed, StatusCanceled, StatusSkipped} \<Longrightarrow> life_step (n, s) (n, t)"
| decide: "t \<in> {StatusSuccess, StatusFailed} \<Longrightarrow> life_step (n, StatusAwaitingApproval) (n, t)"
| cancel_gate: "life_step (n, StatusAwaitingApproval) (n, StatusCanceled)"

inductive_cases life_step_elim [elim]: "life_step p q"

definition life_of :: "JobRow \<Rightarrow> int \<times> RunStatus" where
  "life_of j = (jrAttempt j, jrStatus j)"

definition moves :: "JobRow \<Rightarrow> JobRow \<Rightarrow> bool" where
  "moves j j' = (same_key j j' \<and> life_step\<^sup>*\<^sup>* (life_of j) (life_of j'))"

lemma life_retries: "life_step\<^sup>*\<^sup>* (n, StatusQueued) (n + int k, StatusQueued)"
proof (induction k)
  case (Suc k)
  have "life_step (n + int k, StatusQueued) (n + int k, StatusRunning)" by (rule life_step.claim)
  moreover have "life_step (n + int k, StatusRunning) (n + int (Suc k), StatusQueued)"
    using life_step.retry [of "n + int k"] by (simp add: algebra_simps)
  ultimately show ?case using Suc.IH by (meson rtranclp.rtrancl_into_rtrancl)
qed simp

lemma life_steps_active:
  assumes "active s" and "n \<le> m" and "t \<noteq> StatusWaiting" and "t \<noteq> StatusAwaitingApproval"
  shows "life_step\<^sup>*\<^sup>* (n, s) (m, t)"
proof -
  have "life_step\<^sup>*\<^sup>* (n, s) (n, StatusQueued)"
    using assms(1) by (auto simp: active_def intro: life_step.intros)
  also have "life_step\<^sup>*\<^sup>* (n, StatusQueued) (m, StatusQueued)"
    using life_retries [of n "nat (m - n)"] assms(2) by simp
  also have "life_step\<^sup>*\<^sup>* (m, StatusQueued) (m, t)"
    using assms(3,4) life_step.claim [of m] life_step.finish [of StatusQueued t m]
    by (cases t) (auto simp: active_def)
  finally show ?thesis .
qed

interpretation lifecycle: job_relation_gate moves
proof
  fix i j k :: JobRow
  show "moves j j" by (simp add: moves_def same_key_def)
  show "moves i j \<Longrightarrow> moves j k \<Longrightarrow> moves i k" by (auto simp: moves_def same_key_def intro: rtranclp_trans)
next
  fix j j' :: JobRow
  show "active (jrStatus j) \<Longrightarrow> same_key j j' \<Longrightarrow> jrStatus j' \<noteq> StatusWaiting \<Longrightarrow>
      jrStatus j' \<noteq> StatusAwaitingApproval \<Longrightarrow> moves j j'"
    by (simp add: moves_def life_of_def life_steps_active same_key_def)
  show "jrStatus j = StatusAwaitingApproval \<Longrightarrow> same_key j j' \<Longrightarrow> jrAttempt j' = jrAttempt j \<Longrightarrow>
      jrStatus j' = StatusCanceled \<Longrightarrow> moves j j'"
    by (auto simp: moves_def life_of_def intro: life_step.cancel_gate)
  show "jrStatus j = StatusAwaitingApproval \<Longrightarrow> same_key j j' \<Longrightarrow> jrAttempt j' = jrAttempt j \<Longrightarrow>
      jrStatus j' = StatusSuccess \<or> jrStatus j' = StatusFailed \<Longrightarrow> moves j j'"
    by (auto simp: moves_def life_of_def intro!: r_into_rtranclp life_step.decide)
qed

lemma find_rel_option:
  "list_all2 R xs ys \<Longrightarrow> (\<And>x y. R x y \<Longrightarrow> k y = k x) \<Longrightarrow>
   rel_option R (find (\<lambda>x. k x = i) xs) (find (\<lambda>y. k y = i) ys)"
  by (induction rule: list_all2_induct) auto

end
