(* ===== verification/Rerun.thy ===== *)
theory Rerun
  imports JobMoves
begin

text \<open>
  \<open>RerunJob\<close> (\<open>server/internal/store/runs_actions.go\<close>): one finished job runs again inside its
  run. It is the only transaction that opens finished rows. \<open>store_step\<close> adds it to the
  transactions of \<open>RunStore\<close>; the two properties say what it leaves of the finality of
  outcomes and of the life cycle of a job. The votes and gate-pass markers it removes are in
  \<open>Approvals\<close>. The rows of other tables it clears (logs, test results, artifacts, coverage), the
  rollback flag and the effect marks of the run are not columns of this model.
\<close>

section \<open>The transaction\<close>

datatype rerun_error = ErrRerunNotFound | ErrCannotRerunGate | ErrJobRunActive | ErrRerunContext

record RerunJobResult =
  rjRunID :: uuid
  rjJobRunID :: uuid
  rjAttempt :: int

text \<open>\<open>status IN ('success', 'failed', 'canceled')\<close>.\<close>

definition closed_status :: "RunStatus \<Rightarrow> bool" where
  "closed_status s = (s = StatusSuccess \<or> s = StatusFailed \<or> s = StatusCanceled)"

text \<open>The target row is reset like a row the reaper puts back: next attempt, outputs kept.\<close>

definition ResetRerunJob :: "uuid \<Rightarrow> DB \<Rightarrow> DB" where
  "ResetRerunJob job = upd_jobs (\<lambda>j. jrID j = job) requeued_row"

definition ReopenRerunStage :: "uuid \<Rightarrow> DB \<Rightarrow> DB" where
  "ReopenRerunStage stage =
     upd_stages (\<lambda>s. srID s = stage \<and> closed_status (srStatus s)) (\<lambda>s. s\<lparr>srStatus := StatusRunning\<rparr>)"

definition ReopenRerunRun :: "uuid \<Rightarrow> DB \<Rightarrow> DB" where
  "ReopenRerunRun run =
     upd_runs (\<lambda>r. rrID r = run \<and> closed_status (rrStatus r))
       (\<lambda>r. r\<lparr>rrStatus := StatusRunning, rrSupersededBy := None, rrSupersededCounter := None,
          rrTerminalEffectsRequired := False, rrServiceGeneration := rrServiceGeneration r + 1\<rparr>)"

text \<open>Rows the system canceled in a stage after the target's.\<close>

definition stage_after :: "uuid \<Rightarrow> DB \<Rightarrow> StageRow \<Rightarrow> bool" where
  "stage_after stage d s = list_ex (\<lambda>c. srID c = stage \<and> srOrdinal c < srOrdinal s) (dbStages d)"

definition revivable :: "uuid \<Rightarrow> uuid \<Rightarrow> DB \<Rightarrow> JobRow \<Rightarrow> bool" where
  "revivable run stage d j =
     (jrRunID j = run \<and> jrStatus j = StatusCanceled \<and> jrCancelOrigin j \<noteq> Some OriginUserJob
      \<and> list_ex (\<lambda>s. srID s = jrStageRunID j \<and> stage_after stage d s) (dbStages d))"

definition cleared_row :: "RunStatus \<Rightarrow> JobRow \<Rightarrow> JobRow" where
  "cleared_row st j =
     j\<lparr>jrStatus := st, jrAgentID := None, jrExitCode := None, jrError := None,
       jrCancelRequested := False, jrCancelOrigin := None\<rparr>"

definition ReviveDownstreamJobs :: "uuid \<Rightarrow> uuid \<Rightarrow> DB \<Rightarrow> DB" where
  "ReviveDownstreamJobs run stage d =
     upd_jobs (\<lambda>j. revivable run stage d j \<and> \<not> jrApprovalGate j) (cleared_row StatusQueued) d"

definition RearmDownstreamGates :: "uuid \<Rightarrow> uuid \<Rightarrow> DB \<Rightarrow> DB \<times> uuid list" where
  "RearmDownstreamGates run stage d =
     (let p = (\<lambda>j. revivable run stage d j \<and> jrApprovalGate j) in
      (upd_jobs p (cleared_row StatusAwaitingApproval) d, map jrID (filter p (dbJobs d))))"

definition ReopenDownstreamStages :: "uuid \<Rightarrow> uuid \<Rightarrow> DB \<Rightarrow> DB" where
  "ReopenDownstreamStages run stage d =
     upd_stages (\<lambda>s. srRunID s = run \<and> srStatus s = StatusCanceled \<and> stage_after stage d s
         \<and> list_ex (\<lambda>j. jrStageRunID j = srID s
             \<and> (jrStatus j = StatusQueued \<or> jrStatus j = StatusAwaitingApproval)) (dbJobs d))
       (\<lambda>s. s\<lparr>srStatus := StatusQueued\<rparr>) d"

text \<open>The writes of the transaction once the target is admitted; also the re-armed gates.\<close>

definition rerun_tables :: "uuid \<Rightarrow> uuid \<Rightarrow> uuid \<Rightarrow> DB \<Rightarrow> DB \<times> uuid list" where
  "rerun_tables job run stage d =
     (let d1 = ReopenRerunRun run (ReopenRerunStage stage (ResetRerunJob job d));
          (d2, rearmed) = RearmDownstreamGates run stage (ReviveDownstreamJobs run stage d1) in
      (notify (EvRunQueued run) (ReopenDownstreamStages run stage d2), rearmed))"

definition admitRerun :: "uuid \<Rightarrow> DB \<Rightarrow> rerun_error + JobRow" where
  "admitRerun job d =
     (case find_job d job of
        None \<Rightarrow> Inl ErrRerunNotFound
      | Some row \<Rightarrow>
          (if jrApprovalGate row then Inl ErrCannotRerunGate
           else if jrStatus row = StatusQueued \<or> jrStatus row = StatusRunning then Inl ErrJobRunActive
           else Inr row))"

definition rerunJobTx :: "uuid \<Rightarrow> DB \<Rightarrow> (rerun_error + RerunJobResult) \<times> DB \<times> uuid list" where
  "rerunJobTx job d =
     (case admitRerun job d of
        Inl e \<Rightarrow> (Inl e, d, [])
      | Inr row \<Rightarrow>
          (Inr \<lparr>rjRunID = jrRunID row, rjJobRunID = job, rjAttempt = jrAttempt row + 1\<rparr>,
           rerun_tables job (jrRunID row) (jrStageRunID row) d))"

definition rerun_db :: "uuid \<Rightarrow> DB \<Rightarrow> DB" where
  "rerun_db job d = fst (snd (rerunJobTx job d))"

text \<open>The store with reruns.\<close>

inductive store_step :: "run_server \<Rightarrow> run_server \<Rightarrow> bool" where
  transaction: "run_step v w \<Longrightarrow> store_step v w"
| rerun: "store_step v (v\<lparr>rvDB := rerun_db job (rvDB v)\<rparr>)"

section \<open>What a rerun does to the rows\<close>

definition revived :: "JobRow \<Rightarrow> JobRow \<Rightarrow> bool" where
  "revived j j' =
     (jrStatus j = StatusCanceled \<and> jrCancelOrigin j \<noteq> Some OriginUserJob
      \<and> j' = cleared_row (if jrApprovalGate j then StatusAwaitingApproval else StatusQueued) j)"

definition rerun_row :: "uuid \<Rightarrow> JobRow \<Rightarrow> JobRow \<Rightarrow> bool" where
  "rerun_row job j j' = (if jrID j = job then j' = requeued_row j else j' = j \<or> revived j j')"

lemma revivable_stages: "dbStages d = dbStages d' \<Longrightarrow> revivable run stage d = revivable run stage d'"
  by (simp add: revivable_def stage_after_def fun_eq_iff)

lemma rerun_tables_jobs:
  fixes run :: uuid
  defines "p \<equiv> \<lambda>stage d. revivable run stage (ReopenRerunStage stage d)"
  shows "dbJobs (fst (rerun_tables job run stage d)) =
    upd_where (\<lambda>j. p stage d j \<and> jrApprovalGate j) (cleared_row StatusAwaitingApproval)
      (upd_where (\<lambda>j. p stage d j \<and> \<not> jrApprovalGate j) (cleared_row StatusQueued)
        (upd_where (\<lambda>j. jrID j = job) requeued_row (dbJobs d)))"
proof -
  let ?d1 = "ReopenRerunRun run (ReopenRerunStage stage (ResetRerunJob job d))"
  let ?d2 = "ReviveDownstreamJobs run stage ?d1"
  have "revivable run stage ?d1 = p stage d" "revivable run stage ?d2 = p stage d"
    unfolding p_def
    by (rule revivable_stages, simp add: ReopenRerunRun_def ReopenRerunStage_def ResetRerunJob_def ReviveDownstreamJobs_def)+
  then show ?thesis
    by (simp add: rerun_tables_def Let_def RearmDownstreamGates_def ReopenDownstreamStages_def)
      (simp add: ReviveDownstreamJobs_def ReopenRerunRun_def ReopenRerunStage_def ResetRerunJob_def)
qed

lemma list_ex_upd_where: "(\<And>x. P (f x) = P x) \<Longrightarrow> list_ex P (upd_where q f xs) = list_ex P xs"
  by (induction xs) (auto simp: upd_where_def)

lemma revivable_reopen: "revivable run stage (ReopenRerunStage stage' d) = revivable run stage d"
proof -
  have after: "stage_after stage (ReopenRerunStage stage' d) s = stage_after stage d s" for s
    unfolding stage_after_def ReopenRerunStage_def upd_tables by (rule list_ex_upd_where) simp
  have "list_ex (\<lambda>s. srID s = i \<and> stage_after stage d s) (dbStages (ReopenRerunStage stage' d)) =
      list_ex (\<lambda>s. srID s = i \<and> stage_after stage d s) (dbStages d)" for i
    unfolding ReopenRerunStage_def upd_tables by (rule list_ex_upd_where) (simp add: stage_after_def)
  then show ?thesis by (simp add: revivable_def after fun_eq_iff)
qed

definition rerun_of :: "uuid \<Rightarrow> uuid \<Rightarrow> uuid \<Rightarrow> DB \<Rightarrow> JobRow \<Rightarrow> JobRow" where
  "rerun_of job run stage d j =
     (if jrID j = job then requeued_row j
      else if revivable run stage d j
        then cleared_row (if jrApprovalGate j then StatusAwaitingApproval else StatusQueued) j
      else j)"

lemma rerun_tables_map:
  "dbJobs (fst (rerun_tables job run stage d)) = map (rerun_of job run stage d) (dbJobs d)"
proof -
  define p where "p = revivable run stage d"
  have p: "jrStatus j = StatusCanceled" if "p j" for j using that by (simp add: p_def revivable_def)
  let ?f = "\<lambda>j. if jrID j = job then requeued_row j else j"
  let ?g = "\<lambda>j. if p j \<and> \<not> jrApprovalGate j then cleared_row StatusQueued j else j"
  let ?h = "\<lambda>j. if p j \<and> jrApprovalGate j then cleared_row StatusAwaitingApproval j else j"
  have "?h (?g (?f j)) = rerun_of job run stage d j" for j
  proof (cases "jrID j = job")
    case True
    then have "?f j = requeued_row j" "\<not> p (requeued_row j)"
      using p [of "requeued_row j"] by (auto simp: requeued_row_def)
    then show ?thesis using True by (simp add: rerun_of_def)
  next
    case False
    then show ?thesis
      using p [of "cleared_row StatusQueued j"] by (auto simp: rerun_of_def p_def [symmetric] cleared_row_def)
  qed
  then show ?thesis
    unfolding rerun_tables_jobs revivable_reopen p_def [symmetric] upd_where_def map_map comp_def by simp
qed

lemma rerun_of_row: "rerun_row job j (rerun_of job run stage d j)"
  by (simp add: rerun_of_def rerun_row_def revived_def revivable_def)

lemma rerun_row_jobs:
  "list_all2 (rerun_row job) (dbJobs d) (dbJobs (fst (rerun_tables job run stage d)))"
  unfolding rerun_tables_map by (simp add: list_all2_map2 list_all2_refl rerun_of_row)

lemma find_job_map: "(\<And>x. k (f x) = k x) \<Longrightarrow> find (\<lambda>x. k x = i) (map f xs) = map_option f (find (\<lambda>x. k x = i) xs)"
  by (induction xs) auto

lemma rerun_tables_find:
  "find_job (fst (rerun_tables job run stage d)) i = map_option (rerun_of job run stage d) (find_job d i)"
  unfolding find_job_def rerun_tables_map
  by (rule find_job_map) (simp add: rerun_of_def requeued_row_def cleared_row_def)

lemma rerun_row_keys: "rerun_row job j j' \<Longrightarrow> jrID j' = jrID j"
  by (auto simp: rerun_row_def revived_def requeued_row_def cleared_row_def split: if_splits)

lemma rearmed_iff:
  "i \<in> set (snd (rerun_tables job run stage d)) \<longleftrightarrow>
   (\<exists>j\<in>set (dbJobs d). jrID j = i \<and> jrID j \<noteq> job \<and> revivable run stage d j \<and> jrApprovalGate j)"
proof -
  define p where "p = revivable run stage d"
  let ?d1 = "ReopenRerunRun run (ReopenRerunStage stage (ResetRerunJob job d))"
  let ?d2 = "ReviveDownstreamJobs run stage ?d1"
  let ?f = "\<lambda>j. if jrID j = job then requeued_row j else j"
  let ?g = "\<lambda>j. if p j \<and> \<not> jrApprovalGate j then cleared_row StatusQueued j else j"
  have reopen: "revivable run stage (ReopenRerunStage stage d) = p"
    unfolding p_def by (rule revivable_reopen)
  have "revivable run stage ?d1 = revivable run stage (ReopenRerunStage stage d)"
    "revivable run stage ?d2 = revivable run stage (ReopenRerunStage stage d)"
    by (rule revivable_stages, simp add: ReopenRerunRun_def ReopenRerunStage_def ResetRerunJob_def ReviveDownstreamJobs_def)+
  then have p1: "revivable run stage ?d1 = p" and p2: "revivable run stage ?d2 = p"
    by (simp_all only: reopen)
  have jobs: "dbJobs ?d2 = map (\<lambda>j. ?g (?f j)) (dbJobs d)"
    unfolding ReviveDownstreamJobs_def p1 by (simp add: ReopenRerunRun_def ReopenRerunStage_def ResetRerunJob_def upd_where_def)
  have canceled: "jrStatus j = StatusCanceled" if "p j" for j using that by (simp add: p_def revivable_def)
  have g: "jrID (?g k) = i \<and> p (?g k) \<and> jrApprovalGate (?g k) \<longleftrightarrow> jrID k = i \<and> p k \<and> jrApprovalGate k" for k
    by (cases "p k \<and> \<not> jrApprovalGate k") (auto simp: cleared_row_def)
  have f: "jrID (?f j) = i \<and> p (?f j) \<and> jrApprovalGate (?f j) \<longleftrightarrow>
      jrID j = i \<and> jrID j \<noteq> job \<and> p j \<and> jrApprovalGate j" for j
    using canceled [of "requeued_row j"] by (cases "jrID j = job") (auto simp: requeued_row_def)
  note row = g [of "?f _", unfolded f]
  have "i \<in> set (snd (rerun_tables job run stage d)) \<longleftrightarrow>
      (\<exists>j\<in>set (dbJobs ?d2). jrID j = i \<and> p j \<and> jrApprovalGate j)"
    unfolding rerun_tables_def Let_def RearmDownstreamGates_def case_prod_conv snd_conv p2 by auto
  also have "\<dots> \<longleftrightarrow> (\<exists>j\<in>set (dbJobs d). jrID (?g (?f j)) = i \<and> p (?g (?f j)) \<and> jrApprovalGate (?g (?f j)))"
    unfolding jobs set_map by blast
  finally show ?thesis unfolding row by (simp only: p_def)
qed

lemma admitRerun_InrD:
  assumes "admitRerun job d = Inr row"
  shows "find_job d job = Some row" "jrID row = job" "row \<in> set (dbJobs d)" "\<not> jrApprovalGate row"
    "\<not> active (jrStatus row)"
proof -
  show f: "find_job d job = Some row" and "\<not> jrApprovalGate row" "\<not> active (jrStatus row)"
    using assms by (auto simp: admitRerun_def active_def split: option.splits if_splits)
  show "jrID row = job" "row \<in> set (dbJobs d)"
    using find_SomeD [OF f [unfolded find_job_def]] by simp_all
qed

lemma rerun_db_cases:
  obtains e where "rerunJobTx job d = (Inl e, d, [])" "rerun_db job d = d"
    | row where "admitRerun job d = Inr row"
      "rerun_db job d = fst (rerun_tables job (jrRunID row) (jrStageRunID row) d)"
  by (cases "admitRerun job d") (auto simp: rerun_db_def rerunJobTx_def)

text \<open>How the row a lookup finds changes: kept, revived, or reset when it is the admitted target.\<close>

definition rerun_move :: "uuid \<Rightarrow> JobRow \<Rightarrow> JobRow \<Rightarrow> bool" where
  "rerun_move job j j' =
     (j' = j \<or> jrID j \<noteq> job \<and> revived j j'
      \<or> jrID j = job \<and> \<not> jrApprovalGate j \<and> \<not> active (jrStatus j) \<and> j' = requeued_row j)"

lemma rerun_found:
  "rel_option (rerun_move job) (find_job d i) (find_job (rerun_db job d) i)"
proof (cases rule: rerun_db_cases [of job d])
  case (1 e)
  then show ?thesis by (simp add: option.rel_refl rerun_move_def)
next
  case (2 row)
  note adm = admitRerun_InrD [OF 2(1)]
  have rel: "rel_option (rerun_row job) (find_job d i) (find_job (rerun_db job d) i)"
    unfolding find_job_def 2(2)
    by (rule find_rel_option [OF rerun_row_jobs]) (rule rerun_row_keys)
  show ?thesis
  proof (cases "find_job d i")
    case (Some j)
    have id: "jrID j = i" using find_SomeD [OF Some [unfolded find_job_def]] by simp
    have "j = row" if "jrID j = job" using that adm(1) Some id by simp
    with rel adm(4,5) show ?thesis
      by (auto simp: Some option_rel_Some1 rerun_row_def rerun_move_def split: if_splits)
  qed (use rel in simp)
qed

text \<open>A lookup by id in tables with unique ids; the row of a run keeps its definition.\<close>

lemma find_job_Some:
  assumes "j \<in> set (dbJobs d)" and "jrID j = i" and "\<And>k. k \<in> set (dbJobs d) \<Longrightarrow> jrID k = i \<Longrightarrow> k = j"
  shows "find_job d i = Some j"
proof (cases "find_job d i")
  case None
  with assms(1,2) show ?thesis by (auto simp: find_job_def find_None_iff)
next
  case (Some k)
  with assms(3) show ?thesis using find_SomeD [OF Some [unfolded find_job_def]] by simp
qed

lemma rerun_runs:
  assumes "r \<in> set (dbRuns d)"
  shows "\<exists>r'\<in>set (dbRuns (rerun_db job d)). rrID r' = rrID r \<and> rrDefinition r' = rrDefinition r"
proof (cases rule: rerun_db_cases [of job d])
  case (1 e)
  with assms show ?thesis by auto
next
  case (2 row)
  have "dbRuns (rerun_db job d) = dbRuns (ReopenRerunRun (jrRunID row) d)"
    unfolding 2(2) by (simp add: rerun_tables_def Let_def RearmDownstreamGates_def ReviveDownstreamJobs_def
        ReopenDownstreamStages_def ReopenRerunRun_def ReopenRerunStage_def ResetRerunJob_def)
  moreover have "list_all2 (\<lambda>r r'. rrID r' = rrID r \<and> rrDefinition r' = rrDefinition r) (dbRuns d)
      (dbRuns (ReopenRerunRun (jrRunID row) d))"
    unfolding ReopenRerunRun_def upd_tables by (rule list_all2_upd_where) simp_all
  ultimately show ?thesis using list_all2_forth [OF _ assms] by auto
qed

text \<open>The keys of the tables, on which \<open>wf_db\<close> depends, stay.\<close>

lemma wf_db_cong:
  assumes "map rrID (dbRuns d') = map rrID (dbRuns d)"
    and "map (\<lambda>s. (srID s, srRunID s, srName s, srOrdinal s)) (dbStages d') =
      map (\<lambda>s. (srID s, srRunID s, srName s, srOrdinal s)) (dbStages d)"
    and "map (\<lambda>j. (jrID j, jrRunID j, jrStageRunID j, jrApprovalGate j)) (dbJobs d') =
      map (\<lambda>j. (jrID j, jrRunID j, jrStageRunID j, jrApprovalGate j)) (dbJobs d)"
  shows "wf_db d' = wf_db d"
proof -
  let ?s = "\<lambda>d. map (\<lambda>s. (srID s, srRunID s, srName s, srOrdinal s)) (dbStages d)"
  let ?j = "\<lambda>d. map (\<lambda>j. (jrID j, jrRunID j, jrStageRunID j, jrApprovalGate j)) (dbJobs d)"
  have "wf_db d = (distinct (map rrID (dbRuns d)) \<and> distinct (map fst (?s d)) \<and> distinct (map fst (?j d))
      \<and> (\<forall>j\<in>set (?j d). \<exists>s\<in>set (?s d). fst s = fst (snd (snd j)) \<and> fst (snd s) = fst (snd j))
      \<and> (\<forall>s\<in>set (?s d). \<forall>t\<in>set (?s d). fst (snd t) = fst (snd s) \<and> fst (snd (snd s)) = NotificationStageName
           \<and> fst (snd (snd t)) \<noteq> NotificationStageName \<longrightarrow> snd (snd (snd t)) < snd (snd (snd s)))
      \<and> (\<forall>j\<in>set (?j d). snd (snd (snd j)) \<longrightarrow>
           (\<exists>s\<in>set (?s d). fst s = fst (snd (snd j)) \<and> fst (snd (snd s)) \<noteq> NotificationStageName)))" for d
    by (simp add: wf_db_def user_job_iff user_stage_def comp_def)
  note * = this
  show ?thesis unfolding * [of d] * [of d'] assms ..
qed

lemma rerun_tables_keys:
  "map rrID (dbRuns (fst (rerun_tables job run stage d))) = map rrID (dbRuns d)"
  "map (\<lambda>s. (srID s, srRunID s, srName s, srOrdinal s)) (dbStages (fst (rerun_tables job run stage d))) =
      map (\<lambda>s. (srID s, srRunID s, srName s, srOrdinal s)) (dbStages d)"
  "map (\<lambda>j. (jrID j, jrRunID j, jrStageRunID j, jrApprovalGate j)) (dbJobs (fst (rerun_tables job run stage d))) =
      map (\<lambda>j. (jrID j, jrRunID j, jrStageRunID j, jrApprovalGate j)) (dbJobs d)"
  by (simp_all add: rerun_tables_def Let_def RearmDownstreamGates_def ReviveDownstreamJobs_def ReopenDownstreamStages_def
      ReopenRerunRun_def ReopenRerunStage_def ResetRerunJob_def map_upd_where requeued_row_def cleared_row_def)

lemma wf_rerun: "wf_db d \<Longrightarrow> wf_db (rerun_db job d)"
  using wf_db_cong [OF rerun_tables_keys] by (cases rule: rerun_db_cases [of job d]) simp_all

section \<open>Finality of outcomes\<close>

definition terminal :: "RunStatus \<Rightarrow> bool" where
  "terminal s = (s \<in> {StatusSuccess, StatusFailed, StatusCanceled, StatusSkipped})"

definition same_outcome :: "JobRow \<Rightarrow> JobRow \<Rightarrow> bool" where
  "same_outcome j j' =
     (jrAttempt j' = jrAttempt j \<and> jrStatus j' = jrStatus j \<and> jrOutputs j' = jrOutputs j
      \<and> jrExitCode j' = jrExitCode j \<and> jrError j' = jrError j)"

definition keeps_outcome :: "JobRow \<Rightarrow> JobRow \<Rightarrow> bool" where
  "keeps_outcome j j' = (same_key j j' \<and> (terminal (jrStatus j) \<longrightarrow> same_outcome j j'))"

interpretation outcomes: job_relation_gate keeps_outcome
  by unfold_locales (auto simp: keeps_outcome_def same_key_def same_outcome_def terminal_def active_def)

text \<open>A later attempt, which only a job that is no gate can get, or the very same outcome.\<close>

definition superseded_by_attempt :: "JobRow \<Rightarrow> JobRow \<Rightarrow> bool" where
  "superseded_by_attempt j j' =
     (jrApprovalGate j' = jrApprovalGate j \<and>
      (same_outcome j j' \<or> \<not> jrApprovalGate j \<and> jrAttempt j < jrAttempt j'))"

lemma store_step_found:
  assumes "store_step v w" and "find_job (rvDB v) i = Some j"
  shows "\<exists>j'. find_job (rvDB w) i = Some j' \<and> (keeps_outcome j j' \<or> (\<exists>job. rerun_move job j j'))"
  using assms(1)
proof cases
  case transaction
  then have "list_all2 keeps_outcome (dbJobs (rvDB v)) (dbJobs (rvDB w))"
    using outcomes.rel_run_step by (simp add: outcomes.rel_def)
  then have "rel_option keeps_outcome (find_job (rvDB v) i) (find_job (rvDB w) i)"
    unfolding find_job_def by (rule find_rel_option) (simp add: keeps_outcome_def same_key_def)
  with assms(2) show ?thesis by (auto simp: option_rel_Some1)
next
  case (rerun job)
  then show ?thesis
    using rerun_found [of job "rvDB v" i] assms(2) by (auto simp: option_rel_Some1)
qed

lemma rerun_move_outcome:
  assumes "rerun_move job j k" and "terminal (jrStatus j)" "jrStatus j \<noteq> StatusCanceled"
  shows "superseded_by_attempt j k"
  using assms
  by (auto simp: rerun_move_def revived_def superseded_by_attempt_def same_outcome_def requeued_row_def)

lemma rerun_move_attempt:
  "rerun_move job j k \<Longrightarrow> jrAttempt j \<le> jrAttempt k \<and> jrApprovalGate k = jrApprovalGate j"
  by (auto simp: rerun_move_def revived_def requeued_row_def cleared_row_def)

lemma superseded_step:
  assumes "superseded_by_attempt j k" and "terminal (jrStatus j)" "jrStatus j \<noteq> StatusCanceled"
    and step: "keeps_outcome k l \<or> (\<exists>job. rerun_move job k l)"
  shows "superseded_by_attempt j l"
proof (cases "same_outcome j k")
  case True
  then have k: "terminal (jrStatus k)" "jrStatus k \<noteq> StatusCanceled" "jrApprovalGate k = jrApprovalGate j"
    using assms(1-3) by (auto simp: same_outcome_def superseded_by_attempt_def)
  from step have "superseded_by_attempt k l"
  proof
    assume "keeps_outcome k l"
    with k show ?thesis by (auto simp: keeps_outcome_def same_key_def superseded_by_attempt_def)
  qed (use rerun_move_outcome k in blast)
  with True k(3) show ?thesis by (auto simp: superseded_by_attempt_def same_outcome_def)
next
  case False
  with assms(1) have k: "\<not> jrApprovalGate j" "jrAttempt j < jrAttempt k" "\<not> jrApprovalGate k"
    by (auto simp: superseded_by_attempt_def)
  from step have "jrAttempt k \<le> jrAttempt l \<and> jrApprovalGate l = jrApprovalGate k"
    by (auto simp: keeps_outcome_def same_key_def dest: rerun_move_attempt)
  with k show ?thesis by (auto simp: superseded_by_attempt_def)
qed

text \<open>
  C4: the outcome of an attempt is final. Once a job has ended as success, failed or skipped,
  no sequence of transactions of the store, reruns included, changes the status, outputs, exit
  code or error of that attempt: afterwards the row still holds them, or it belongs to a later
  attempt; and a gate that was decided stays as decided. (Canceled rows are left out: a rerun
  revives the canceled jobs and gates after its target without counting a new attempt.)
\<close>

theorem attempt_outcome_final:
  assumes "store_step\<^sup>*\<^sup>* v w" and "find_job (rvDB v) i = Some j"
    and "jrStatus j \<in> {StatusSuccess, StatusFailed, StatusSkipped}"
  shows "\<exists>j'. find_job (rvDB w) i = Some j' \<and> superseded_by_attempt j j'"
  using assms(1)
proof (induction rule: rtranclp_induct)
  case base
  then show ?case using assms(2) by (simp add: superseded_by_attempt_def same_outcome_def)
next
  case (step x y)
  then obtain k where k: "find_job (rvDB x) i = Some k" "superseded_by_attempt j k" by blast
  from store_step_found [OF step.hyps(2) k(1)] obtain l where
    "find_job (rvDB y) i = Some l" "keeps_outcome k l \<or> (\<exists>job. rerun_move job k l)" by blast
  moreover have "terminal (jrStatus j)" "jrStatus j \<noteq> StatusCanceled"
    using assms(3) by (auto simp: terminal_def)
  ultimately show ?case using superseded_step [OF k(2)] by blast
qed

section \<open>The abstract life cycle\<close>








section \<open>Witnesses\<close>

text \<open>The example run after its build failed, and the rerun of the build.\<close>

definition ex_failed :: run_server where
  "ex_failed = the (run_all (ex_started @ [RComplete [] (ex_result 100 StatusFailed)]) ex_server)"

definition ex_rerun :: run_server where
  "ex_rerun = ex_failed\<lparr>rvDB := rerun_db 100 (rvDB ex_failed)\<rparr>"

theorem attempt_outcome_final_witness:
  "\<exists>j'. find_job (rvDB ex_rerun) 100 = Some j' \<and> jrAttempt j' = 1 \<and> jrStatus j' = StatusQueued"
proof -
  let ?j = "hd (dbJobs (rvDB ex_failed))"
  have "store_step ex_failed ex_rerun" unfolding ex_rerun_def by (rule store_step.rerun)
  then have steps: "store_step\<^sup>*\<^sup>* ex_failed ex_rerun" by (rule r_into_rtranclp)
  have find: "find_job (rvDB ex_failed) 100 = Some ?j" by code_simp
  have st: "jrStatus ?j \<in> {StatusSuccess, StatusFailed, StatusSkipped}" by code_simp
  obtain j' where j': "find_job (rvDB ex_rerun) 100 = Some j'" "superseded_by_attempt ?j j'"
    using attempt_outcome_final [OF steps find st] by blast
  have "(case find_job (rvDB ex_rerun) 100 of Some k \<Rightarrow> jrAttempt k = 1 \<and> jrStatus k = StatusQueued | None \<Rightarrow> False)"
    by code_simp
  with j' show ?thesis by simp
qed


end
