(* ===== verification/Approvals.thy ===== *)
theory Approvals
  imports RunSupersede Rerun
begin

text \<open>
  Approval gates (\<open>server/internal/store\<close>): who may decide (\<open>approver_authz.go\<close>), votes and
  quorums (\<open>approvals.go\<close>, \<open>approval_resolve.go\<close>), the change-freeze check
  (\<open>approvals_freeze.go\<close>) and the gate-pass markers of the supersede backstop
  (\<open>gatepass.go\<close>), on top of the tables of \<open>RunStore\<close>; and what a rerun does to the gates, votes
  and markers of its run (\<open>runs_actions.go\<close>). A decision is one transaction; the
  unlocked and the locked read of the gate row therefore see the same row. The external group
  source is code outside the repository: a parameter that answers with group names or an error.
\<close>

section \<open>State\<close>

record GateConfig =
  gcApprovers :: "string list"
  gcApproverGroups :: "string list"
  gcRequired :: int

record JobRunApproval =
  voJobRunID :: uuid
  voUserID :: uuid
  voUserLabel :: string
  voApproved :: bool
  voComment :: string

record RunGatePass =
  gpRunID :: uuid
  gpPipelineID :: uuid
  gpRef :: string
  gpCounter :: int
  gpEnvironment :: string

text \<open>
  The approval columns of \<open>job_runs\<close> are kept by job id; \<open>abDecided\<close> is the pair of the columns
  \<open>decision\<close> and \<open>decided_by\<close>.
\<close>

record ApprovalDB =
  abDB :: DB
  abGate :: "uuid \<Rightarrow> GateConfig"
  abDecided :: "uuid \<rightharpoonup> bool \<times> string"
  abVotes :: "JobRunApproval list"
  abPasses :: "RunGatePass list"
  abFrozen :: "(uuid \<times> string) list"
  abProject :: "uuid \<Rightarrow> uuid"
  abUserGroups :: "uuid \<Rightarrow> string list"

datatype approval_error =
  ErrJobRunRequired | ErrApprovalGateNotFound | ErrApprovalNotPending | ErrApproverNotAllowed
| ErrApprovalSuperseded | ErrApproverNotHuman | ErrApproverGroupsUnavailable
| ErrEnvironmentFrozen "string list" | ErrCascade

section \<open>Who may decide\<close>

record ApproverIdentity =
  aiUserID :: uuid
  aiLabel :: string
  aiEmail :: string
  aiProvider :: string
  aiSubject :: string

type_synonym ApproverGroupSource = "(ApproverIdentity \<Rightarrow> string list option) option"

definition ProviderServiceAccount :: string where
  "ProviderServiceAccount = ''service_account''"

definition intersects :: "string list \<Rightarrow> string list \<Rightarrow> bool" where
  "intersects have' want = list_ex (\<lambda>h. h \<in> set want) have'"

definition approverListed :: "ApproverIdentity \<Rightarrow> string list \<Rightarrow> bool" where
  "approverListed who approvers =
     (let ref = ApproverSubjectRef (aiProvider who) (aiSubject who) in
      list_ex (\<lambda>a. if has_prefix a ApproverSubjectPrefix then ref \<noteq> [] \<and> a = ref
         else aiLabel who \<noteq> [] \<and> a = aiLabel who \<or> aiEmail who \<noteq> [] \<and> a = aiEmail who) approvers)"

definition authorizeApprover ::
  "(uuid \<Rightarrow> string list) \<Rightarrow> ApproverIdentity \<Rightarrow> string list \<Rightarrow> string list \<Rightarrow> string list \<Rightarrow> approval_error option" where
  "authorizeApprover userGroups who approvers groups external =
     (if aiProvider who = ProviderServiceAccount then Some ErrApproverNotHuman
      else if approvers = [] \<and> groups = [] then None
      else if approverListed who approvers then None
      else if groups = [] \<or> aiUserID who = uuid_Nil then Some ErrApproverNotAllowed
      else if intersects (userGroups (aiUserID who)) groups \<or> intersects external groups then None
      else Some ErrApproverNotAllowed)"

definition resolveExternalApproverGroups ::
  "ApproverGroupSource \<Rightarrow> (uuid \<Rightarrow> string list) \<Rightarrow> ApproverIdentity \<Rightarrow> string list \<Rightarrow> string list \<Rightarrow>
   approval_error + string list" where
  "resolveExternalApproverGroups source userGroups who approvers groups =
     (case source of
        None \<Rightarrow> Inr []
      | Some ask \<Rightarrow>
          (if groups = [] \<or> aiUserID who = uuid_Nil \<or> aiProvider who = ProviderServiceAccount
              \<or> approverListed who approvers then Inr []
           else if intersects (userGroups (aiUserID who)) groups then Inr []
           else (case ask who of None \<Rightarrow> Inl ErrApproverGroupsUnavailable | Some gs \<Rightarrow> Inr gs)))"

definition externalGroupsForJobGate ::
  "ApproverGroupSource \<Rightarrow> uuid \<Rightarrow> ApproverIdentity \<Rightarrow> ApprovalDB \<Rightarrow> approval_error + string list" where
  "externalGroupsForJobGate source job who a =
     (if source = None then Inr []
      else
        (case find (pending_gate job) (dbJobs (abDB a)) of
           None \<Rightarrow> Inr []
         | Some _ \<Rightarrow>
             resolveExternalApproverGroups source (abUserGroups a) who
               (gcApprovers (abGate a job)) (gcApproverGroups (abGate a job))))"

section \<open>Freezes and gate-pass markers\<close>

definition FrozenEnvironments :: "uuid \<Rightarrow> string list \<Rightarrow> ApprovalDB \<Rightarrow> string list" where
  "FrozenEnvironments project names a =
     sort (map snd (filter (\<lambda>(p, n). p = project \<and> n \<in> set names) (abFrozen a)))"

definition CountPassedGates :: "uuid \<Rightarrow> string list \<Rightarrow> DB \<Rightarrow> nat" where
  "CountPassedGates run names d =
     count_where (\<lambda>j. jrRunID j = run \<and> jrName j \<in> set names \<and> jrApprovalGate j \<and> jrStatus j = StatusSuccess)
       (dbJobs d)"

definition InsertRunGatePass :: "RunGatePass \<Rightarrow> RunGatePass list \<Rightarrow> RunGatePass list" where
  "InsertRunGatePass m ms =
     (if list_ex (\<lambda>x. gpRunID x = gpRunID m \<and> gpEnvironment x = gpEnvironment m) ms then ms else ms @ [m])"

fun write_markers :: "RunRow \<Rightarrow> DB \<Rightarrow> string list \<Rightarrow> RunGatePass list \<Rightarrow> RunGatePass list" where
  "write_markers r d [] ms = ms"
| "write_markers r d (env # envs) ms =
     (let governing = GoverningGates (rrDefinition r) env in
      if governing = [] \<or> CountPassedGates (rrID r) governing d < length governing
      then write_markers r d envs ms
      else
        write_markers r d envs
          (InsertRunGatePass \<lparr>gpRunID = rrID r, gpPipelineID = rrPipelineID r, gpRef = rrRef r,
             gpCounter = rrCounter r, gpEnvironment = env\<rparr> ms))"

definition writeGatePassMarkers :: "string \<Rightarrow> RunRow \<Rightarrow> DB \<Rightarrow> RunGatePass list \<Rightarrow> RunGatePass list" where
  "writeGatePassMarkers gateName r d ms =
     (if plSupersede (rrDefinition r) \<noteq> SupersedeBranch \<and> plSupersede (rrDefinition r) \<noteq> SupersedePipeline
      then ms
      else write_markers r d (GovernedEnvs (rrDefinition r) gateName) ms)"

text \<open>The advisory-lock key of a lane and environment: 64-bit FNV-1a over the fields.\<close>

definition fnv_step :: "64 word \<Rightarrow> nat \<Rightarrow> 64 word" where
  "fnv_step h b = (xor h (of_nat b)) * 1099511628211"

definition fnv1a :: "64 word \<Rightarrow> nat list \<Rightarrow> 64 word" where
  "fnv1a h bs = foldl fnv_step h bs"

definition str_bytes :: "string \<Rightarrow> nat list" where
  "str_bytes s = map of_char s"

definition lane_mode_string :: "Supersede \<Rightarrow> string" where
  "lane_mode_string m =
     (case m of SupersedeOff \<Rightarrow> ''off'' | SupersedeBranch \<Rightarrow> ''branch'' | SupersedePipeline \<Rightarrow> ''pipeline''
      | SupersedeOther s \<Rightarrow> s)"

definition LaneEnvLockKey :: "nat list \<Rightarrow> Supersede \<Rightarrow> string \<Rightarrow> string \<Rightarrow> 64 word" where
  "LaneEnvLockKey pipelineBytes laneMode laneRef env =
     (let ref = (if laneMode \<noteq> SupersedeBranch then [] else laneRef) in
      fnv1a 14695981039346656037
        (str_bytes (lane_mode_string laneMode) @ [0] @ pipelineBytes @ [0]
         @ str_bytes ref @ [0] @ str_bytes env @ [0]))"

section \<open>Decisions\<close>

record ApprovalDecision =
  adJobRunID :: uuid
  adUserID :: uuid
  adUser :: string
  adUserEmail :: string
  adProvider :: string
  adSubject :: string
  adComment :: string

record ApprovalResult =
  arRunID :: uuid
  arStageCompleted :: bool
  arStageStatus :: RunStatus
  arRunCompleted :: bool
  arRunStatus :: RunStatus
  arPendingQuorum :: bool
  arApprovalsNow :: int
  arApprovalsRequired :: int

definition identity_of :: "ApprovalDecision \<Rightarrow> ApproverIdentity" where
  "identity_of d =
     \<lparr>aiUserID = adUserID d, aiLabel = adUser d, aiEmail = adUserEmail d, aiProvider = adProvider d,
      aiSubject = adSubject d\<rparr>"

text \<open>\<open>INSERT ... ON CONFLICT (job_run_id, user_id) DO NOTHING\<close>.\<close>

definition record_vote :: "ApprovalDecision \<Rightarrow> bool \<Rightarrow> JobRunApproval list \<Rightarrow> JobRunApproval list" where
  "record_vote d approve vs =
     (if list_ex (\<lambda>v. voJobRunID v = adJobRunID d \<and> voUserID v = adUserID d) vs then vs
      else vs @ [\<lparr>voJobRunID = adJobRunID d, voUserID = adUserID d, voUserLabel = adUser d,
        voApproved = approve, voComment = adComment d\<rparr>])"

definition approved_count :: "uuid \<Rightarrow> JobRunApproval list \<Rightarrow> nat" where
  "approved_count job vs = count_where (\<lambda>v. voJobRunID v = job \<and> voApproved v) vs"

definition gate_required :: "uuid \<Rightarrow> ApprovalDB \<Rightarrow> int" where
  "gate_required job a = (if gcRequired (abGate a job) < 1 then 1 else gcRequired (abGate a job))"

text \<open>Everything a decision checks before it writes: the row and its run, or the error.\<close>

definition admitDecision ::
  "ApproverGroupSource \<Rightarrow> ApprovalDecision \<Rightarrow> bool \<Rightarrow> ApprovalDB \<Rightarrow> approval_error + JobRow \<times> RunRow" where
  "admitDecision source d approve a =
     (if adJobRunID d = uuid_Nil then Inl ErrJobRunRequired
      else
        (case externalGroupsForJobGate source (adJobRunID d) (identity_of d) a of
           Inl e \<Rightarrow> Inl e
         | Inr external \<Rightarrow>
             (case find_job (abDB a) (adJobRunID d) of
                None \<Rightarrow> Inl ErrApprovalGateNotFound
              | Some j \<Rightarrow>
                  (case find_run (abDB a) (jrRunID j) of
                     None \<Rightarrow> Inl ErrApprovalGateNotFound
                   | Some r \<Rightarrow>
                       (if \<not> jrApprovalGate j then Inl ErrApprovalGateNotFound
                        else if jrStatus j \<noteq> StatusAwaitingApproval then
                          Inl (if rrSupersededBy r \<noteq> None then ErrApprovalSuperseded else ErrApprovalNotPending)
                        else
                          (case authorizeApprover (abUserGroups a) (identity_of d)
                                  (gcApprovers (abGate a (adJobRunID d)))
                                  (gcApproverGroups (abGate a (adJobRunID d))) external of
                             Some e \<Rightarrow> Inl e
                           | None \<Rightarrow>
                               (let frozen = (if approve then
                                      FrozenEnvironments (abProject a (rrPipelineID r))
                                        (GovernedFreezeEnvs (rrDefinition r) (jrName j)) a else []) in
                                if frozen \<noteq> [] then Inl (ErrEnvironmentFrozen frozen)
                                else Inr (j, r))))))))"

definition decideGate ::
  "ApproverGroupSource \<Rightarrow> (uuid \<Rightarrow> bool) \<Rightarrow> ApprovalDecision \<Rightarrow> bool \<Rightarrow> ApprovalDB \<Rightarrow>
   (approval_error + ApprovalResult) \<times> ApprovalDB" where
  "decideGate source contended d approve a =
     (case admitDecision source d approve a of
        Inl e \<Rightarrow> (Inl e, a)
      | Inr (j, r) \<Rightarrow>
          (let job = adJobRunID d;
               required = gate_required job a;
               voting = (adUserID d \<noteq> uuid_Nil);
               votes = (if voting then record_vote d approve (abVotes a) else abVotes a);
               now = int (approved_count job votes) in
           if voting \<and> approve \<and> now < required then
             (Inr \<lparr>arRunID = jrRunID j, arStageCompleted = False, arStageStatus = StatusQueued,
                arRunCompleted = False, arRunStatus = StatusQueued, arPendingQuorum = True,
                arApprovalsNow = now, arApprovalsRequired = required\<rparr>,
              a\<lparr>abVotes := votes\<rparr>)
           else
             (case settleGate contended job approve (abDB a) of
                (TxOk cp, d1) \<Rightarrow>
                  (Inr \<lparr>arRunID = jrRunID j, arStageCompleted = jcStageCompleted cp,
                     arStageStatus = jcStageStatus cp, arRunCompleted = jcRunCompleted cp,
                     arRunStatus = jcRunStatus cp, arPendingQuorum = False,
                     arApprovalsNow = required, arApprovalsRequired = required\<rparr>,
                   a\<lparr>abDB := d1, abVotes := votes, abDecided := (abDecided a)(job \<mapsto> (approve, adUser d)),
                     abPasses := (if approve then writeGatePassMarkers (jrName j) r (flipGate job approve (abDB a)) (abPasses a)
                                  else abPasses a)\<rparr>)
              | (TxMiss, _) \<Rightarrow> (Inl ErrApprovalNotPending, a)
              | (TxError, _) \<Rightarrow> (Inl ErrCascade, a))))"

definition ApproveGate where
  "ApproveGate source contended d = decideGate source contended d True"

definition RejectGate where
  "RejectGate source contended d = decideGate source contended d False"

section \<open>Reruns\<close>

definition revived_envs :: "Pipeline \<Rightarrow> string list \<Rightarrow> string list" where
  "revived_envs def gates = dedup [] (concat (map (GovernedEnvs def) gates))"

text \<open>\<open>None\<close> is the error of a missing run row.\<close>

definition clearRevivedGatePassMarkers :: "uuid \<Rightarrow> DB \<Rightarrow> RunGatePass list \<Rightarrow> RunGatePass list option" where
  "clearRevivedGatePassMarkers run d ms =
     (let gates = ListAwaitingGateNamesForRun run d in
      if gates = [] then Some ms
      else
        (case find_run d run of
           None \<Rightarrow> None
         | Some r \<Rightarrow>
             (let def = rrDefinition r; envs = revived_envs def gates in
              if plSupersede def \<noteq> SupersedeBranch \<and> plSupersede def \<noteq> SupersedePipeline then Some ms
              else if envs = [] then Some ms
              else Some (filter (\<lambda>m. \<not> (gpRunID m = run \<and> gpEnvironment m \<in> set envs)) ms))))"

text \<open>
  \<open>RerunJob\<close>: the table part is \<open>rerunJobTx\<close> of \<open>Rerun\<close>. A re-armed gate loses its votes and its
  decision columns.
\<close>

definition RerunJob :: "uuid \<Rightarrow> ApprovalDB \<Rightarrow> (rerun_error + RerunJobResult) \<times> ApprovalDB" where
  "RerunJob job a =
     (case rerunJobTx job (abDB a) of
        (Inl e, _) \<Rightarrow> (Inl e, a)
      | (Inr res, d1, rearmed) \<Rightarrow>
          (case clearRevivedGatePassMarkers (rjRunID res) d1 (abPasses a) of
             None \<Rightarrow> (Inl ErrRerunContext, a)
           | Some ms \<Rightarrow>
               (Inr res,
                a\<lparr>abDB := d1, abVotes := filter (\<lambda>v. voJobRunID v \<notin> set rearmed) (abVotes a),
                  abDecided := (\<lambda>j. if j \<in> set rearmed then None else abDecided a j), abPasses := ms\<rparr>)))"

section \<open>The quorum of a gate\<close>

type_synonym smap_int = "(string \<times> int) list"

text \<open>
  \<open>labels\<close> is the decoded \<open>pr_labels\<close> of the cause detail; \<open>None\<close> when the cause is not a pull
  request or the detail does not decode.
\<close>

fun best_override :: "(string \<rightharpoonup> int) \<Rightarrow> int \<times> string \<Rightarrow> string list \<Rightarrow> int \<times> string" where
  "best_override overrides best [] = best"
| "best_override overrides (q, l) (x # xs) =
     (case overrides x of
        Some q' \<Rightarrow> (if q' > q then best_override overrides (q', x) xs else best_override overrides (q, l) xs)
      | None \<Rightarrow> best_override overrides (q, l) xs)"

definition resolveEffectiveQuorum :: "string list option \<Rightarrow> int \<Rightarrow> smap_int \<Rightarrow> int \<times> string" where
  "resolveEffectiveQuorum labels baseRequired overrides =
     (if overrides = [] then (baseRequired, [])
      else
        (case labels of
           None \<Rightarrow> (baseRequired, [])
         | Some ls \<Rightarrow>
             (if ls = [] then (baseRequired, [])
              else
                (case best_override (map_of overrides) (0, []) (sort ls) of
                   (q, l) \<Rightarrow> (if q = 0 then (baseRequired, []) else (q, l))))))"

section \<open>Only a decision settles a gate\<close>

definition calm :: "JobRow \<Rightarrow> JobRow \<Rightarrow> bool" where
  "calm j j' = (same_key j j' \<and> (\<not> active (jrStatus j) \<longrightarrow>
     jrStatus j' = jrStatus j \<or> jrStatus j = StatusAwaitingApproval \<and> jrStatus j' = StatusCanceled))"

interpretation gates: job_relation calm
  by unfold_locales (auto simp: calm_def same_key_def active_def)

text \<open>What an accepted decision did to the job table.\<close>

lemma settleGate_OkE:
  assumes "settleGate contended job approve d = (TxOk cp, d')"
  obtains row d2 vs where "find (pending_gate job) (dbJobs d) = Some row"
    "cascadeAfterJobCompletion (jrStageRunID row) (jrRunID row) zero_completion (flipGate job approve d) = Some (cp, d2)"
    "supersedeAfterCascade contended (jrRunID row) (jrStageRunID row) cp d2 = Some (vs, d')"
  using assms unfolding settleGate_def by (auto split: option.splits)

lemma settleGate_calm:
  assumes "settleGate contended job approve d = (TxOk cp, d')"
  shows "list_all2 calm (dbJobs (flipGate job approve d)) (dbJobs d')"
proof (rule settleGate_OkE [OF assms])
  fix row d2 vs
  assume c: "cascadeAfterJobCompletion (jrStageRunID row) (jrRunID row) zero_completion (flipGate job approve d) = Some (cp, d2)"
    and s: "supersedeAfterCascade contended (jrRunID row) (jrStageRunID row) cp d2 = Some (vs, d')"
  show ?thesis
    using gates.rel_trans [OF gates.rel_cascade [OF c] gates.rel_supersedeAfterCascade [OF s]]
    by (simp add: gates.rel_def)
qed

lemma calm_backward:
  assumes "list_all2 calm (dbJobs (flipGate job approve d)) (dbJobs d')" and "j' \<in> set (dbJobs d')"
  obtains j where "j \<in> set (dbJobs d)" "\<not> pending_gate job j" "calm j j'"
    | j where "j \<in> set (dbJobs d)" "pending_gate job j" "same_key j j'" "jrStatus j' = gate_status approve"
proof -
  obtain j0 where j0: "j0 \<in> set (dbJobs (flipGate job approve d))" "calm j0 j'"
    using list_all2_back [OF assms] by blast
  then obtain j where j: "j \<in> set (dbJobs d)"
    "j0 = (if pending_gate job j then j\<lparr>jrStatus := gate_status approve\<rparr> else j)"
    by (auto simp: flipGate_def upd_where_def)
  show thesis
  proof (cases "pending_gate job j")
    case False
    with j j0 that(1) show thesis by simp
  next
    case True
    then have "same_key j j'" "jrStatus j' = gate_status approve"
      using j(2) j0(2) by (auto simp: calm_def same_key_def gate_status_def active_def)
    with True j(1) that(2) show thesis by blast
  qed
qed

lemma calm_forward:
  assumes "list_all2 calm (dbJobs (flipGate job approve d)) (dbJobs d')"
    and "j \<in> set (dbJobs d)" and "jrStatus j = StatusSuccess"
  shows "\<exists>j'\<in>set (dbJobs d'). same_key j j' \<and> jrStatus j' = StatusSuccess"
proof -
  have "j \<in> set (dbJobs (flipGate job approve d))"
    using assms(2,3) by (force simp: flipGate_def upd_where_def pending_gate_def)
  from list_all2_forth [OF assms(1) this] assms(3) show ?thesis
    by (auto simp: calm_def active_def)
qed

section \<open>The system of decisions\<close>

text \<open>
  Authenticated decisions interleaved with every other transaction of the store, with reruns,
  with freezes and with changes of group membership.
\<close>

inductive ap_step :: "ApproverGroupSource \<Rightarrow> ApprovalDB \<Rightarrow> ApprovalDB \<Rightarrow> bool" for source where
  decision: "adUserID d \<noteq> uuid_Nil \<Longrightarrow> ap_step source a (snd (decideGate source contended d approve a))"
| store: "\<not> settles c \<Longrightarrow> run_enabled c \<lparr>rvDB = abDB a, rvListed = l\<rparr> \<Longrightarrow>
    ap_step source a (a\<lparr>abDB := run_exec c (abDB a)\<rparr>)"
| rerun: "ap_step source a (snd (RerunJob job a))"
| freeze: "ap_step source a (a\<lparr>abFrozen := fz\<rparr>)"
| regroup: "ap_step source a (a\<lparr>abUserGroups := ug\<rparr>)"

definition gates_unique :: "DB \<Rightarrow> bool" where
  "gates_unique d =
     (\<forall>j\<in>set (dbJobs d). \<forall>k\<in>set (dbJobs d).
        jrApprovalGate j \<and> jrApprovalGate k \<and> jrRunID j = jrRunID k \<and> jrName j = jrName k \<longrightarrow> j = k)"

definition votes_ok :: "ApprovalDB \<Rightarrow> bool" where
  "votes_ok a = (distinct (map (\<lambda>v. (voJobRunID v, voUserID v)) (abVotes a))
     \<and> (\<forall>job by'. abDecided a job = Some (True, by') \<longrightarrow>
          gate_required job a \<le> int (approved_count job (abVotes a))))"

definition gate_rows_ok :: "ApprovalDB \<Rightarrow> bool" where
  "gate_rows_ok a =
     (\<forall>j\<in>set (dbJobs (abDB a)). jrApprovalGate j \<longrightarrow> \<not> active (jrStatus j) \<and>
        (jrStatus j = StatusSuccess \<longrightarrow> (\<exists>by'. abDecided a (jrID j) = Some (True, by'))))"

definition gate_passed :: "DB \<Rightarrow> uuid \<Rightarrow> string \<Rightarrow> bool" where
  "gate_passed d run g =
     list_ex (\<lambda>j. jrRunID j = run \<and> jrName j = g \<and> jrApprovalGate j \<and> jrStatus j = StatusSuccess) (dbJobs d)"

definition markers_ok :: "ApprovalDB \<Rightarrow> bool" where
  "markers_ok a =
     (\<forall>m\<in>set (abPasses a). \<exists>r\<in>set (dbRuns (abDB a)). rrID r = gpRunID m \<and>
        (\<forall>g\<in>set (GoverningGates (rrDefinition r) (gpEnvironment m)). gate_passed (abDB a) (rrID r) g))"

definition ap_inv :: "ApprovalDB \<Rightarrow> bool" where
  "ap_inv a = (wf_db (abDB a) \<and> gates_unique (abDB a) \<and> votes_ok a \<and> gate_rows_ok a \<and> markers_ok a)"

lemma gate_required_upd [simp]:
  "gate_required job (a\<lparr>abDB := d\<rparr>) = gate_required job a"
  "gate_required job (a\<lparr>abVotes := vs\<rparr>) = gate_required job a"
  "gate_required job (a\<lparr>abFrozen := fz\<rparr>) = gate_required job a"
  "gate_required job (a\<lparr>abUserGroups := ug\<rparr>) = gate_required job a"
  by (simp_all add: gate_required_def)

lemma record_vote_distinct:
  "distinct (map (\<lambda>v. (voJobRunID v, voUserID v)) vs) \<Longrightarrow>
   distinct (map (\<lambda>v. (voJobRunID v, voUserID v)) (record_vote d approve vs))"
  by (auto simp: record_vote_def list_ex_iff)

lemma record_vote_count: "approved_count job vs \<le> approved_count job (record_vote d approve vs)"
  by (simp add: record_vote_def approved_count_def count_where_def)

lemma unique_gate_evo:
  assumes "db_evo d d'" and "gates_unique d" and wf: "wf_db d"
  shows "gates_unique d'"
  unfolding gates_unique_def
proof (intro ballI impI)
  fix j' k' assume jk: "j' \<in> set (dbJobs d')" "k' \<in> set (dbJobs d')"
    "jrApprovalGate j' \<and> jrApprovalGate k' \<and> jrRunID j' = jrRunID k' \<and> jrName j' = jrName k'"
  obtain j k where "j \<in> set (dbJobs d)" "evo_job j j'" "k \<in> set (dbJobs d)" "evo_job k k'"
    using evo_rows(5) [OF assms(1)] jk(1,2) by meson
  moreover from this jk(3) have "j = k" using assms(2) by (simp add: gates_unique_def evo_job_def)
  ultimately have "jrID j' = jrID k'" by (simp add: evo_job_def)
  then show "j' = k'" using job_id_unique [OF wf_evo [OF assms(1) wf]] jk by blast
qed

lemma gate_passed_evo: "db_evo d d' \<Longrightarrow> gate_passed d run g \<Longrightarrow> gate_passed d' run g"
proof -
  assume evo: "db_evo d d'" and "gate_passed d run g"
  then obtain j where j: "j \<in> set (dbJobs d)" "jrRunID j = run" "jrName j = g" "jrApprovalGate j"
    "jrStatus j = StatusSuccess"
    by (auto simp: gate_passed_def list_ex_iff)
  obtain j' where "j' \<in> set (dbJobs d')" "evo_job j j'" using evo_rows(6) [OF evo j(1)] by blast
  with j show ?thesis by (auto simp: gate_passed_def list_ex_iff evo_job_def job_unfinished_def)
qed

lemma markers_ok_evo:
  assumes evo: "db_evo (abDB a) d'" and "markers_ok a"
  shows "markers_ok (a\<lparr>abDB := d'\<rparr>)"
  unfolding markers_ok_def
proof (intro ballI)
  fix m assume "m \<in> set (abPasses (a\<lparr>abDB := d'\<rparr>))"
  then obtain r where r: "r \<in> set (dbRuns (abDB a))" "rrID r = gpRunID m"
    "\<forall>g\<in>set (GoverningGates (rrDefinition r) (gpEnvironment m)). gate_passed (abDB a) (rrID r) g"
    using assms(2) by (auto simp: markers_ok_def)
  obtain r' where r': "r' \<in> set (dbRuns d')" "evo_run r r'" using evo_rows(2) [OF evo r(1)] by blast
  have "rrID r' = rrID r" "rrDefinition r' = rrDefinition r" using r'(2) by (simp_all add: evo_run_def)
  with r' r gate_passed_evo [OF evo] show "\<exists>r\<in>set (dbRuns (abDB (a\<lparr>abDB := d'\<rparr>))). rrID r = gpRunID m \<and>
      (\<forall>g\<in>set (GoverningGates (rrDefinition r) (gpEnvironment m)). gate_passed (abDB (a\<lparr>abDB := d'\<rparr>)) (rrID r) g)"
    by (intro bexI [of _ r']) auto
qed

text \<open>Counting the passed gates of a list of distinct names tells whether all have passed.\<close>

lemma count_passed_all:
  assumes uniq: "gates_unique d" and wf: "wf_db d" and dist: "distinct names"
    and le: "length names \<le> CountPassedGates run names d" and g: "g \<in> set names"
  shows "gate_passed d run g"
proof (rule ccontr)
  let ?p = "\<lambda>j. jrRunID j = run \<and> jrName j \<in> set names \<and> jrApprovalGate j \<and> jrStatus j = StatusSuccess"
  let ?js = "filter ?p (dbJobs d)"
  assume "\<not> gate_passed d run g"
  then have "set (map jrName ?js) \<subseteq> set names - {g}" by (auto simp: gate_passed_def list_ex_iff)
  moreover have "distinct (map jrName ?js)"
    using uniq wf by (auto simp: distinct_map inj_on_def gates_unique_def wf_db_def)
  ultimately have "length ?js \<le> card (set names - {g})"
    by (metis (no_types, lifting) card_mono distinct_card finite_Diff finite_set length_map)
  also have "\<dots> < length names" using g dist by (metis card_Diff1_less distinct_card finite_set)
  finally show False using le by (simp add: CountPassedGates_def count_where_def)
qed

lemma GoverningGates_distinct: "distinct (GoverningGates p env)"
  by (simp add: GoverningGates_def)

lemma write_markers_spec:
  assumes "m \<in> set (write_markers r d envs ms)"
  shows "m \<in> set ms \<or> gpRunID m = rrID r \<and>
    length (GoverningGates (rrDefinition r) (gpEnvironment m)) \<le>
      CountPassedGates (rrID r) (GoverningGates (rrDefinition r) (gpEnvironment m)) d"
  using assms
  by (induction r d envs ms rule: write_markers.induct)
    (auto simp: Let_def InsertRunGatePass_def split: if_splits)

lemma admitDecision_InrD:
  assumes "admitDecision source d approve a = Inr (j, r)"
  shows "find_job (abDB a) (adJobRunID d) = Some j" and "find_run (abDB a) (jrRunID j) = Some r"
    and "jrApprovalGate j" and "jrStatus j = StatusAwaitingApproval"
    and "\<exists>external. externalGroupsForJobGate source (adJobRunID d) (identity_of d) a = Inr external \<and>
      authorizeApprover (abUserGroups a) (identity_of d) (gcApprovers (abGate a (adJobRunID d)))
        (gcApproverGroups (abGate a (adJobRunID d))) external = None"
    and "approve \<Longrightarrow> FrozenEnvironments (abProject a (rrPipelineID r))
      (GovernedFreezeEnvs (rrDefinition r) (jrName j)) a = []"
  using assms by (auto simp: admitDecision_def Let_def split: if_splits sum.splits option.splits)

text \<open>The three outcomes of a decision: refused, counted, settled.\<close>

lemma decideGate_cases:
  fixes d a approve
  defines "votes \<equiv> (if adUserID d \<noteq> uuid_Nil then record_vote d approve (abVotes a) else abVotes a)"
  obtains e where "decideGate source contended d approve a = (Inl e, a)"
    | j r res where "admitDecision source d approve a = Inr (j, r)" "adUserID d \<noteq> uuid_Nil" "approve"
      "decideGate source contended d approve a = (Inr res, a\<lparr>abVotes := votes\<rparr>)"
    | j r res cp d1 where "admitDecision source d approve a = Inr (j, r)"
      "adUserID d \<noteq> uuid_Nil \<longrightarrow> approve \<longrightarrow> gate_required (adJobRunID d) a \<le> int (approved_count (adJobRunID d) votes)"
      "settleGate contended (adJobRunID d) approve (abDB a) = (TxOk cp, d1)"
      "decideGate source contended d approve a = (Inr res,
        a\<lparr>abDB := d1, abVotes := votes, abDecided := (abDecided a)(adJobRunID d \<mapsto> (approve, adUser d)),
          abPasses := (if approve then writeGatePassMarkers (jrName j) r (flipGate (adJobRunID d) approve (abDB a)) (abPasses a)
            else abPasses a)\<rparr>)"
proof -
  show thesis
  proof (cases "admitDecision source d approve a")
    case (Inl e)
    then show thesis using that(1) [of e] by (simp add: decideGate_def)
  next
    case (Inr jr)
    obtain j r where jr: "jr = (j, r)" by fastforce
    show thesis
    proof (cases "adUserID d \<noteq> uuid_Nil \<and> approve \<and> int (approved_count (adJobRunID d) votes) < gate_required (adJobRunID d) a")
      case True
      with Inr jr show thesis
        by (intro that(2) [of j r]) (auto simp: decideGate_def Let_def votes_def)
    next
      case False
      obtain res d1 where s: "settleGate contended (adJobRunID d) approve (abDB a) = (res, d1)" by fastforce
      show thesis
      proof (cases res)
        case (TxOk cp)
        with Inr jr False s show thesis
          by (intro that(3) [of j r cp d1]) (auto simp: decideGate_def Let_def votes_def)
      qed (use Inr jr False s that(1) in \<open>auto simp: decideGate_def Let_def votes_def\<close>)
    qed
  qed
qed

lemma settle_evo: "settleGate contended job approve d = (res, d') \<Longrightarrow> db_evo d d'"
  using safe_settleGate [of "[]" d contended job approve] by (simp add: safe_def)

lemma settle_evo_flip:
  assumes "settleGate contended job approve d = (TxOk cp, d')"
  shows "db_evo (flipGate job approve d) d'"
proof -
  obtain row d2 vs where row: "find (pending_gate job) (dbJobs d) = Some row"
    and c: "cascadeAfterJobCompletion (jrStageRunID row) (jrRunID row) zero_completion (flipGate job approve d) = Some (cp, d2)"
    and s: "supersedeAfterCascade contended (jrRunID row) (jrStageRunID row) cp d2 = Some (vs, d')"
    by (rule settleGate_OkE [OF assms])
  let ?row = "row\<lparr>jrStatus := gate_status approve\<rparr>"
  have "?row \<in> set (dbJobs (flipGate job approve d))"
    using find_SomeD [OF row] by (simp add: flipGate_def upd_where_mem)
  from cascade_evo [OF this] c have "db_evo (flipGate job approve d) d2" by simp
  moreover have "db_evo d2 d'" using safe_supersedeAfterCascade [OF s, of "[]"] by (simp add: safe_def)
  ultimately show ?thesis by (rule db_evo_trans)
qed

lemma gate_rows_settled:
  assumes inv: "wf_db (abDB a)" "gate_rows_ok a" and job: "find_job (abDB a) job = Some j" "jrStatus j = StatusAwaitingApproval"
    and calm: "list_all2 calm (dbJobs (flipGate job approve (abDB a))) (dbJobs d1)"
    and b: "abDB b = d1" "abDecided b = (abDecided a)(job \<mapsto> (approve, by'))"
  shows "gate_rows_ok b"
  unfolding gate_rows_ok_def b(1)
proof (intro ballI impI)
  fix j' assume j': "j' \<in> set (dbJobs d1)" "jrApprovalGate j'"
  show "\<not> active (jrStatus j') \<and> (jrStatus j' = StatusSuccess \<longrightarrow> (\<exists>by'. abDecided b (jrID j') = Some (True, by')))"
  proof (cases rule: calm_backward [OF calm j'(1)])
    case (1 k)
    have old: "\<not> active (jrStatus k)" "jrStatus k = StatusSuccess \<longrightarrow> (\<exists>by'. abDecided a (jrID k) = Some (True, by'))"
      using inv(2) 1 j'(2) by (auto simp: gate_rows_ok_def calm_def same_key_def)
    have "jrID k \<noteq> job" if "jrStatus k = StatusSuccess"
      using that job find_SomeD [of "\<lambda>j. jrID j = job" "dbJobs (abDB a)" j] job_id_unique [OF inv(1), of k j] 1(1)
      by (auto simp: find_job_def)
    with old 1(3) show ?thesis by (auto simp: calm_def same_key_def b(2) active_def)
  next
    case (2 k)
    then show ?thesis
      by (auto simp: b(2) gate_status_def active_def same_key_def pending_gate_def)
  qed
qed

lemma markers_settled:
  assumes wf: "wf_db (abDB a)" "gates_unique (abDB a)" and ok: "markers_ok a"
    and run: "find_run (abDB a) run = Some r"
    and evo1: "db_evo (abDB a) (flipGate job approve (abDB a))" and evo2: "db_evo (flipGate job approve (abDB a)) d1"
    and evo: "db_evo (abDB a) d1"
    and b: "abDB b = d1" "abPasses b = writeGatePassMarkers g r (flipGate job approve (abDB a)) (abPasses a)"
  shows "markers_ok b"
  unfolding markers_ok_def
proof (intro ballI)
  fix m assume m: "m \<in> set (abPasses b)"
  let ?f = "flipGate job approve (abDB a)"
  show "\<exists>r\<in>set (dbRuns (abDB b)). rrID r = gpRunID m \<and>
      (\<forall>g\<in>set (GoverningGates (rrDefinition r) (gpEnvironment m)). gate_passed (abDB b) (rrID r) g)"
  proof (cases "m \<in> set (abPasses a)")
    case True
    then show ?thesis
      using markers_ok_evo [OF evo ok] by (auto simp: markers_ok_def b(1))
  next
    case False
    then have new: "gpRunID m = rrID r" "length (GoverningGates (rrDefinition r) (gpEnvironment m)) \<le>
        CountPassedGates (rrID r) (GoverningGates (rrDefinition r) (gpEnvironment m)) ?f"
      using m write_markers_spec [of m r ?f] by (auto simp: b(2) writeGatePassMarkers_def split: if_splits)
    have "gate_passed ?f (rrID r) g" if "g \<in> set (GoverningGates (rrDefinition r) (gpEnvironment m))" for g
      by (rule count_passed_all [OF unique_gate_evo [OF evo1 wf(2,1)] wf_evo [OF evo1 wf(1)]
            GoverningGates_distinct new(2) that])
    then have passed: "gate_passed d1 (rrID r) g" if "g \<in> set (GoverningGates (rrDefinition r) (gpEnvironment m))" for g
      using gate_passed_evo [OF evo2] that by blast
    have "r \<in> set (dbRuns (abDB a))" using find_SomeD [OF run [unfolded find_run_def]] by simp
    then obtain r' where "r' \<in> set (dbRuns d1)" "evo_run r r'" using evo_rows(2) [OF evo] by blast
    with passed new(1) show ?thesis by (intro bexI [of _ r']) (auto simp: b(1) evo_run_def)
  qed
qed

lemma ap_inv_decision:
  assumes inv: "ap_inv a" and user: "adUserID d \<noteq> uuid_Nil"
  shows "ap_inv (snd (decideGate source contended d approve a))"
proof -
  let ?job = "adJobRunID d"
  let ?votes = "record_vote d approve (abVotes a)"
  have votes: "distinct (map (\<lambda>v. (voJobRunID v, voUserID v)) ?votes)"
    using inv record_vote_distinct by (auto simp: ap_inv_def votes_ok_def)
  have keep: "gate_required job a \<le> int (approved_count job ?votes)" if "abDecided a job = Some (True, by')" for job by'
    using inv that record_vote_count [of job "abVotes a" d approve] by (fastforce simp: ap_inv_def votes_ok_def)
  show ?thesis
  proof (cases rule: decideGate_cases [of source contended d approve a])
    case (1 e)
    with inv show ?thesis by simp
  next
    case (2 j r res)
    let ?b = "a\<lparr>abVotes := ?votes\<rparr>"
    from votes keep have "votes_ok ?b" by (simp add: votes_ok_def)
    with inv 2(4) user show ?thesis
      by (simp add: ap_inv_def gate_rows_ok_def markers_ok_def)
  next
    case (3 j r res cp d1)
    note adm = admitDecision_InrD [OF 3(1)]
    let ?b = "snd (decideGate source contended d approve a)"
    have b: "abDB ?b = d1" "abVotes ?b = ?votes" "abDecided ?b = (abDecided a)(?job \<mapsto> (approve, adUser d))"
      "abGate ?b = abGate a"
      "abPasses ?b = (if approve then writeGatePassMarkers (jrName j) r (flipGate ?job approve (abDB a)) (abPasses a)
        else abPasses a)"
      using 3(4) user by simp_all
    have evo: "db_evo (abDB a) d1" by (rule settle_evo [OF 3(3)])
    have evo1: "db_evo (abDB a) (flipGate ?job approve (abDB a))"
      unfolding flipGate_def by (rule evo_upd) (rule settled_row_ok)
    have evo2: "db_evo (flipGate ?job approve (abDB a)) d1" by (rule settle_evo_flip [OF 3(3)])
    have wf: "wf_db (abDB a)" "gates_unique (abDB a)" "gate_rows_ok a" "markers_ok a"
      using inv by (simp_all add: ap_inv_def)
    have "gate_required job ?b = gate_required job a" for job by (simp add: gate_required_def b)
    with votes keep 3(2) user have "votes_ok ?b" by (auto simp: votes_ok_def b)
    moreover have "gate_rows_ok ?b"
      by (rule gate_rows_settled [OF wf(1,3) adm(1,4) settleGate_calm [OF 3(3)] b(1,3)])
    moreover have "markers_ok ?b"
    proof (cases approve)
      case True
      with b(5) have "abPasses ?b = writeGatePassMarkers (jrName j) r (flipGate ?job approve (abDB a)) (abPasses a)"
        by simp
      from markers_settled [OF wf(1,2,4) adm(2) evo1 evo2 evo b(1) this] show ?thesis .
    next
      case False
      with markers_ok_evo [OF evo wf(4)] b show ?thesis by (simp add: markers_ok_def)
    qed
    moreover have "wf_db d1" "gates_unique d1"
      using wf_evo [OF evo wf(1)] unique_gate_evo [OF evo wf(2,1)] by simp_all
    ultimately show ?thesis by (simp add: ap_inv_def b(1))
  qed
qed

lemma ap_inv_store:
  assumes inv: "ap_inv a" and c: "\<not> settles c" "run_enabled c \<lparr>rvDB = abDB a, rvListed = l\<rparr>"
  shows "ap_inv (a\<lparr>abDB := run_exec c (abDB a)\<rparr>)"
proof -
  let ?d = "run_exec c (abDB a)"
  have evo: "db_evo (abDB a) ?d" using safe_run_exec [OF c(2)] by (simp add: safe_def)
  have calm: "list_all2 calm (dbJobs (abDB a)) (dbJobs ?d)"
    using gates.rel_run_exec [OF c(2,1)] by (simp add: gates.rel_def)
  have "gate_rows_ok (a\<lparr>abDB := ?d\<rparr>)"
    unfolding gate_rows_ok_def
  proof (intro ballI impI)
    fix j' assume j': "j' \<in> set (dbJobs (abDB (a\<lparr>abDB := ?d\<rparr>)))" "jrApprovalGate j'"
    obtain j where j: "j \<in> set (dbJobs (abDB a))" "calm j j'" using list_all2_back [OF calm] j'(1) by auto
    with inv j'(2) show "\<not> active (jrStatus j') \<and> (jrStatus j' = StatusSuccess \<longrightarrow>
        (\<exists>by'. abDecided (a\<lparr>abDB := ?d\<rparr>) (jrID j') = Some (True, by')))"
      by (auto simp: ap_inv_def gate_rows_ok_def calm_def same_key_def active_def)
  qed
  moreover have "markers_ok (a\<lparr>abDB := ?d\<rparr>)"
    using markers_ok_evo [OF evo] inv by (simp add: ap_inv_def)
  ultimately show ?thesis
    using inv wf_evo [OF evo] unique_gate_evo [OF evo] by (simp add: ap_inv_def votes_ok_def)
qed

text \<open>An accepted rerun, in terms of the rows before it.\<close>

lemma RerunJob_cases:
  obtains e where "RerunJob job a = (Inl e, a)"
    | row res ms rearmed where "admitRerun job (abDB a) = Inr row"
      "rerun_tables job (jrRunID row) (jrStageRunID row) (abDB a) = (rerun_db job (abDB a), rearmed)"
      "clearRevivedGatePassMarkers (jrRunID row) (rerun_db job (abDB a)) (abPasses a) = Some ms"
      "res = \<lparr>rjRunID = jrRunID row, rjJobRunID = job, rjAttempt = jrAttempt row + 1\<rparr>"
      "RerunJob job a = (Inr res, a\<lparr>abDB := rerun_db job (abDB a),
         abVotes := filter (\<lambda>v. voJobRunID v \<notin> set rearmed) (abVotes a),
         abDecided := (\<lambda>j. if j \<in> set rearmed then None else abDecided a j), abPasses := ms\<rparr>)"
proof (cases "admitRerun job (abDB a)")
  case (Inl e)
  then show ?thesis using that(1) [of e] by (simp add: RerunJob_def rerunJobTx_def)
next
  case (Inr row)
  obtain d1 rearmed where t: "rerun_tables job (jrRunID row) (jrStageRunID row) (abDB a) = (d1, rearmed)" by fastforce
  with Inr have d1: "rerun_db job (abDB a) = d1" by (simp add: rerun_db_def rerunJobTx_def)
  show ?thesis
  proof (cases "clearRevivedGatePassMarkers (jrRunID row) d1 (abPasses a)")
    case None
    with Inr t show ?thesis using that(1) [of ErrRerunContext] by (simp add: RerunJob_def rerunJobTx_def)
  next
    case (Some ms)
    show ?thesis
      by (rule that(2) [OF Inr _ _ refl]) (use Inr t d1 Some in \<open>simp_all add: RerunJob_def rerunJobTx_def\<close>)
  qed
qed

text \<open>What a gate row becomes.\<close>

lemma rerun_gate_row:
  assumes wf: "wf_db d" and adm: "admitRerun job d = Inr row"
    and t: "rerun_tables job (jrRunID row) (jrStageRunID row) d = (rerun_db job d, rearmed)"
    and j: "j \<in> set (dbJobs d)" "jrApprovalGate j"
  shows "jrID j \<in> set rearmed \<longleftrightarrow> revivable (jrRunID row) (jrStageRunID row) d j"
    and "find_job (rerun_db job d) (jrID j) =
      Some (if jrID j \<in> set rearmed then cleared_row StatusAwaitingApproval j else j)"
proof -
  have id: "k = j" if "k \<in> set (dbJobs d)" "jrID k = jrID j" for k
    using job_id_unique [OF wf that(1) j(1)] that(2) by simp
  note row = admitRerun_InrD [OF adm]
  have "row = j" if "jrID j = job" by (rule id [OF row(3)]) (use row(2) that in simp)
  with row(4) j(2) have "jrID j \<noteq> job" by metis
  moreover have "rearmed = snd (rerun_tables job (jrRunID row) (jrStageRunID row) d)" using t by simp
  ultimately show iff: "jrID j \<in> set rearmed \<longleftrightarrow> revivable (jrRunID row) (jrStageRunID row) d j"
    using rearmed_iff [of "jrID j" job "jrRunID row" "jrStageRunID row" d] j id by metis
  have "find_job d (jrID j) = Some j"
    by (rule find_job_Some [OF j(1) refl id])
  then show "find_job (rerun_db job d) (jrID j) = Some (if jrID j \<in> set rearmed then cleared_row StatusAwaitingApproval j else j)"
    using rerun_tables_find [of job "jrRunID row" "jrStageRunID row" d "jrID j"] t \<open>jrID j \<noteq> job\<close> j(2)
    by (simp add: rerun_of_def iff)
qed

lemma rerun_jobs_back:
  assumes wf: "wf_db d" and adm: "admitRerun job d = Inr row"
    and t: "rerun_tables job (jrRunID row) (jrStageRunID row) d = (rerun_db job d, rearmed)"
    and j': "j' \<in> set (dbJobs (rerun_db job d))" "jrApprovalGate j'"
  obtains j where "j \<in> set (dbJobs d)" "jrApprovalGate j"
    "j' = (if jrID j \<in> set rearmed then cleared_row StatusAwaitingApproval j else j)"
proof -
  have "dbJobs (rerun_db job d) = map (rerun_of job (jrRunID row) (jrStageRunID row) d) (dbJobs d)"
    using rerun_tables_map [of job "jrRunID row" "jrStageRunID row" d] t by simp
  with j'(1) obtain j where j: "j \<in> set (dbJobs d)" "j' = rerun_of job (jrRunID row) (jrStageRunID row) d j" by auto
  then have gate: "jrApprovalGate j" and id: "jrID j' = jrID j"
    using j'(2) by (simp_all add: rerun_of_def requeued_row_def cleared_row_def split: if_splits)
  have "find_job (rerun_db job d) (jrID j) = Some j'"
    by (rule find_job_Some [OF j'(1) id]) (use job_id_unique [OF wf_rerun [OF wf] _ j'(1)] id in simp)
  with rerun_gate_row(2) [OF wf adm t j(1) gate] j(1) gate that show thesis by simp
qed

lemma ap_inv_rerun:
  assumes inv: "ap_inv a"
  shows "ap_inv (snd (RerunJob job a))"
proof (cases rule: RerunJob_cases [of job a])
  case (1 e)
  with inv show ?thesis by simp
next
  case (2 row res ms rearmed)
  let ?d = "abDB a" and ?d' = "rerun_db job (abDB a)"
  let ?b = "snd (RerunJob job a)"
  have b: "abDB ?b = ?d'" "abVotes ?b = filter (\<lambda>v. voJobRunID v \<notin> set rearmed) (abVotes a)"
    "abDecided ?b = (\<lambda>j. if j \<in> set rearmed then None else abDecided a j)" "abPasses ?b = ms" "abGate ?b = abGate a"
    using 2(5) by simp_all
  have wf: "wf_db ?d" and uniq: "gates_unique ?d" and votes: "votes_ok a" and rows: "gate_rows_ok a" and marks: "markers_ok a"
    using inv by (simp_all add: ap_inv_def)
  note backward = rerun_jobs_back [OF wf 2(1,2)]
  have wf': "wf_db ?d'" by (rule wf_rerun [OF wf])
  have "gates_unique ?d'"
    unfolding gates_unique_def
  proof (intro ballI impI)
    fix j' k' assume jk: "j' \<in> set (dbJobs ?d')" "k' \<in> set (dbJobs ?d')"
      "jrApprovalGate j' \<and> jrApprovalGate k' \<and> jrRunID j' = jrRunID k' \<and> jrName j' = jrName k'"
    obtain j k where "j \<in> set (dbJobs ?d)" "k \<in> set (dbJobs ?d)" "jrApprovalGate j" "jrApprovalGate k"
      "j' = (if jrID j \<in> set rearmed then cleared_row StatusAwaitingApproval j else j)"
      "k' = (if jrID k \<in> set rearmed then cleared_row StatusAwaitingApproval k else k)"
      using backward [OF jk(1)] backward [OF jk(2)] jk(3) by metis
    moreover from this jk(3) have "j = k"
      using uniq by (auto simp: gates_unique_def cleared_row_def split: if_splits)
    ultimately show "j' = k'" by simp
  qed
  moreover have "votes_ok ?b"
  proof -
    have "approved_count i (abVotes ?b) = approved_count i (abVotes a)" if "i \<notin> set rearmed" for i
      using that unfolding b(2) approved_count_def count_where_def filter_filter
      by (metis (mono_tags, lifting) filter_cong)
    then show ?thesis
      using votes unfolding votes_ok_def b(2,3) by (auto simp: distinct_map_filter gate_required_def b split: if_splits)
  qed
  moreover have "gate_rows_ok ?b"
    unfolding gate_rows_ok_def b(1)
  proof (intro ballI impI)
    fix j' assume j': "j' \<in> set (dbJobs ?d')" "jrApprovalGate j'"
    obtain j where "j \<in> set (dbJobs ?d)" "jrApprovalGate j"
      "j' = (if jrID j \<in> set rearmed then cleared_row StatusAwaitingApproval j else j)"
      by (rule backward [OF j'])
    with rows show "\<not> active (jrStatus j') \<and>
        (jrStatus j' = StatusSuccess \<longrightarrow> (\<exists>by'. abDecided ?b (jrID j') = Some (True, by')))"
      by (auto simp: gate_rows_ok_def b(3) cleared_row_def active_def)
  qed
  moreover have "markers_ok ?b"
    unfolding markers_ok_def b(1,4)
  proof (intro ballI)
    fix m assume "m \<in> set ms"
    then have "m \<in> set (abPasses a)"
      using 2(3) by (auto simp: clearRevivedGatePassMarkers_def Let_def split: if_splits option.splits)
    with marks obtain r where r: "r \<in> set (dbRuns ?d)" "rrID r = gpRunID m"
      "\<forall>g\<in>set (GoverningGates (rrDefinition r) (gpEnvironment m)). gate_passed ?d (rrID r) g"
      by (auto simp: markers_ok_def)
    have "gate_passed ?d' (rrID r) g" if g: "gate_passed ?d (rrID r) g" for g
    proof -
      obtain j where j: "j \<in> set (dbJobs ?d)" "jrRunID j = rrID r" "jrName j = g" "jrApprovalGate j" "jrStatus j = StatusSuccess"
        using g by (auto simp: gate_passed_def list_ex_iff)
      have "jrID j \<notin> set rearmed"
        using rerun_gate_row(1) [OF wf 2(1,2) j(1,4)] j(5) by (simp add: revivable_def)
      then have "find_job ?d' (jrID j) = Some j" using rerun_gate_row(2) [OF wf 2(1,2) j(1,4)] by simp
      then have "j \<in> set (dbJobs ?d')" using find_SomeD [of "\<lambda>k. jrID k = jrID j"] by (auto simp: find_job_def)
      with j show ?thesis by (auto simp: gate_passed_def list_ex_iff)
    qed
    moreover obtain r' where "r' \<in> set (dbRuns ?d')" "rrID r' = rrID r" "rrDefinition r' = rrDefinition r"
      using rerun_runs [OF r(1), of job] by blast
    ultimately show "\<exists>r\<in>set (dbRuns ?d'). rrID r = gpRunID m \<and>
        (\<forall>g\<in>set (GoverningGates (rrDefinition r) (gpEnvironment m)). gate_passed ?d' (rrID r) g)"
      using r(2,3) by (intro bexI [of _ r']) auto
  qed
  ultimately show ?thesis using wf' by (simp add: ap_inv_def b(1))
qed

definition fresh_approvals :: "ApprovalDB \<Rightarrow> bool" where
  "fresh_approvals a =
     (wf_db (abDB a) \<and> gates_unique (abDB a) \<and> abVotes a = [] \<and> abDecided a = Map.empty \<and> abPasses a = []
      \<and> (\<forall>j\<in>set (dbJobs (abDB a)). jrApprovalGate j \<longrightarrow> jrStatus j = StatusAwaitingApproval))"

interpretation approvals: invariant_system fresh_approvals "ap_step source" ap_inv for source
proof
  fix a assume "fresh_approvals a"
  then show "ap_inv a"
    by (auto simp: fresh_approvals_def ap_inv_def votes_ok_def gate_rows_ok_def markers_ok_def active_def)
next
  fix a b assume inv: "ap_inv a" and "ap_step source a b"
  from this(2) show "ap_inv b"
  proof cases
    case (decision d contended approve)
    then show ?thesis using ap_inv_decision [OF inv] by simp
  next
    case (store c l)
    then show ?thesis using ap_inv_store [OF inv] by simp
  next
    case (rerun job)
    then show ?thesis using ap_inv_rerun [OF inv] by simp
  qed (use inv in \<open>simp_all add: ap_inv_def votes_ok_def gate_rows_ok_def markers_ok_def\<close>)
qed

section \<open>Properties\<close>

text \<open>Votes are unique per gate and user, so counting rows counts people.\<close>

lemma approved_count_card:
  assumes "distinct (map (\<lambda>v. (voJobRunID v, voUserID v)) vs)"
  shows "approved_count job vs = card (voUserID ` {v \<in> set vs. voJobRunID v = job \<and> voApproved v})"
proof -
  let ?ws = "filter (\<lambda>v. voJobRunID v = job \<and> voApproved v) vs"
  have "inj_on voUserID (set ?ws)"
    using assms by (auto simp: distinct_map inj_on_def)
  moreover have "distinct ?ws" using assms by (simp add: distinct_map)
  ultimately have "card (voUserID ` set ?ws) = length ?ws" using card_image [of voUserID "set ?ws"] distinct_card [of ?ws] by (simp only:)
  then show ?thesis by (simp add: approved_count_def count_where_def)
qed

text \<open>
  C5: quorums hold. Start from any state in which no gate has been decided; after any sequence
  of authenticated decisions, other transactions of the store, freezes and group changes, a gate
  that succeeded has approvals of at least as many different users as it requires.
\<close>

theorem quorum_enforced:
  assumes "fresh_approvals a" and "(ap_step source)\<^sup>*\<^sup>* a b"
    and "j \<in> set (dbJobs (abDB b))" and "jrApprovalGate j" and "jrStatus j = StatusSuccess"
  shows "gate_required (jrID j) b \<le>
    int (card (voUserID ` {v \<in> set (abVotes b). voJobRunID v = jrID j \<and> voApproved v}))"
proof -
  have "ap_inv b" by (rule approvals.inv_reachable [OF assms(1,2)])
  then have "votes_ok b" "\<exists>by'. abDecided b (jrID j) = Some (True, by')"
    using assms(3-) by (auto simp: ap_inv_def gate_rows_ok_def)
  then show ?thesis by (auto simp: votes_ok_def approved_count_card [symmetric])
qed

text \<open>
  C8: gate-pass markers are sound. After any sequence of decisions and other transactions, a
  marker for a run and an environment means that every gate governing that environment in the
  run's own pipeline snapshot has been approved in that run.
\<close>

theorem markers_sound:
  assumes "fresh_approvals a" and "(ap_step source)\<^sup>*\<^sup>* a b" and "m \<in> set (abPasses b)"
  shows "\<exists>r\<in>set (dbRuns (abDB b)). rrID r = gpRunID m \<and>
    (\<forall>g\<in>set (GoverningGates (rrDefinition r) (gpEnvironment m)). \<exists>j\<in>set (dbJobs (abDB b)).
       jrRunID j = rrID r \<and> jrName j = g \<and> jrApprovalGate j \<and> jrStatus j = StatusSuccess)"
  using approvals.inv_reachable [OF assms(1,2)] assms(3)
  by (simp add: ap_inv_def markers_ok_def gate_passed_def list_ex_iff)

lemma intersects_iff: "intersects xs ys \<longleftrightarrow> (\<exists>x\<in>set xs. x \<in> set ys)"
  by (simp add: intersects_def list_ex_iff)

lemma FrozenEnvironments_empty:
  "FrozenEnvironments project names a = [] \<longleftrightarrow> (\<forall>n\<in>set names. (project, n) \<notin> set (abFrozen a))"
  unfolding FrozenEnvironments_def set_empty [symmetric] by force

text \<open>Who the identity checks let through, with the groups fetched from the external source.\<close>

definition entitled :: "ApproverGroupSource \<Rightarrow> ApprovalDB \<Rightarrow> GateConfig \<Rightarrow> ApproverIdentity \<Rightarrow> bool" where
  "entitled source a cfg who \<longleftrightarrow>
     aiProvider who \<noteq> ProviderServiceAccount \<and>
     (gcApprovers cfg = [] \<and> gcApproverGroups cfg = [] \<or> approverListed who (gcApprovers cfg) \<or>
      aiUserID who \<noteq> uuid_Nil \<and>
      (\<exists>g\<in>set (gcApproverGroups cfg). g \<in> set (abUserGroups a (aiUserID who)) \<or>
         (\<exists>ask gs. source = Some ask \<and> ask who = Some gs \<and> g \<in> set gs)))"

lemma authorize_entitled:
  assumes "externalGroupsForJobGate source job who a = Inr external"
    and "authorizeApprover (abUserGroups a) who (gcApprovers (abGate a job)) (gcApproverGroups (abGate a job)) external = None"
  shows "entitled source a (abGate a job) who"
proof -
  have "external = [] \<or> (\<exists>ask. source = Some ask \<and> ask who = Some external)"
    using assms(1)
    by (auto simp: externalGroupsForJobGate_def resolveExternalApproverGroups_def split: if_splits option.splits)
  with assms(2) show ?thesis
    by (auto simp: authorizeApprover_def entitled_def intersects_iff split: if_splits)
qed

text \<open>
  C10: a decision is accepted only from an entitled person on a pending gate, and a refused one
  changes nothing. Accepted means: the job is a gate waiting for approval; the caller is not a
  service account and is on the allow-list, or in an allowed group locally or by the answer of
  the external source, or the gate has no list at all; and on approval no environment the gate
  governs is frozen.
\<close>

theorem decision_admitted:
  "case decideGate source contended d approve a of
     (Inl e, b) \<Rightarrow> b = a
   | (Inr res, b) \<Rightarrow> (\<exists>j r. find_job (abDB a) (adJobRunID d) = Some j \<and> find_run (abDB a) (jrRunID j) = Some r \<and>
       jrApprovalGate j \<and> jrStatus j = StatusAwaitingApproval \<and>
       entitled source a (abGate a (adJobRunID d)) (identity_of d) \<and>
       (approve \<longrightarrow> (\<forall>env\<in>set (GovernedFreezeEnvs (rrDefinition r) (jrName j)).
          (abProject a (rrPipelineID r), env) \<notin> set (abFrozen a))))"
proof (cases rule: decideGate_cases [of source contended d approve a])
  case (1 e)
  then show ?thesis by simp
next
  case (2 j r res)
  with admitDecision_InrD [OF 2(1)] authorize_entitled show ?thesis
    by (auto simp: FrozenEnvironments_empty)
next
  case (3 j r res cp d1)
  with admitDecision_InrD [OF 3(1)] authorize_entitled show ?thesis
    by (auto simp: FrozenEnvironments_empty)
qed

text \<open>The gates a rerun of \<open>row\<close> arms again, and the markers its awaiting gates contradict.\<close>

definition rearms :: "JobRow \<Rightarrow> DB \<Rightarrow> JobRow \<Rightarrow> bool" where
  "rearms row d j \<longleftrightarrow>
     jrApprovalGate j \<and> jrRunID j = jrRunID row \<and> jrStatus j = StatusCanceled \<and> jrCancelOrigin j \<noteq> Some OriginUserJob \<and>
     (\<exists>s\<in>set (dbStages d). \<exists>c\<in>set (dbStages d).
        srID s = jrStageRunID j \<and> srID c = jrStageRunID row \<and> srOrdinal c < srOrdinal s)"

definition stale_marker :: "uuid \<Rightarrow> DB \<Rightarrow> RunGatePass \<Rightarrow> bool" where
  "stale_marker run d m \<longleftrightarrow>
     gpRunID m = run \<and> (\<exists>r. find_run d run = Some r \<and> plSupersede (rrDefinition r) \<in> {SupersedeBranch, SupersedePipeline} \<and>
       (\<exists>j\<in>set (dbJobs d). awaiting_gate run j \<and> gpEnvironment m \<in> set (GovernedEnvs (rrDefinition r) (jrName j))))"

lemma revivable_rearms: "jrApprovalGate j \<Longrightarrow> revivable (jrRunID row) (jrStageRunID row) d j = rearms row d j"
  by (auto simp: revivable_def rearms_def stage_after_def list_ex_iff)

lemma cleared_markers:
  assumes "clearRevivedGatePassMarkers run d ms = Some ms'"
  shows "set ms' = {m \<in> set ms. \<not> stale_marker run d m}"
proof (cases "ListAwaitingGateNamesForRun run d = []")
  case True
  then have "\<not> awaiting_gate run j" if "j \<in> set (dbJobs d)" for j
    using that by (auto simp: ListAwaitingGateNamesForRun_def filter_empty_conv)
  then have "\<not> stale_marker run d m" for m by (auto simp: stale_marker_def)
  with True assms show ?thesis by (simp add: clearRevivedGatePassMarkers_def)
next
  case False
  then obtain r where r: "find_run d run = Some r"
    using assms by (auto simp: clearRevivedGatePassMarkers_def Let_def split: option.splits)
  let ?envs = "revived_envs (rrDefinition r) (ListAwaitingGateNamesForRun run d)"
  have envs: "e \<in> set ?envs \<longleftrightarrow> (\<exists>j\<in>set (dbJobs d). awaiting_gate run j \<and> e \<in> set (GovernedEnvs (rrDefinition r) (jrName j)))" for e
    by (auto simp: revived_envs_def ListAwaitingGateNamesForRun_def set_dedup)
  have stale: "stale_marker run d m \<longleftrightarrow> gpRunID m = run \<and>
      (plSupersede (rrDefinition r) = SupersedeBranch \<or> plSupersede (rrDefinition r) = SupersedePipeline) \<and>
      gpEnvironment m \<in> set ?envs" for m
    by (simp add: stale_marker_def r envs)
  show ?thesis
    using assms False r unfolding stale
    by (auto simp: clearRevivedGatePassMarkers_def Let_def split: if_splits)
qed

text \<open>
  C9: a rerun cannot smuggle anything past a gate. A refused rerun changes nothing. An accepted
  one opens a single job, which is not a gate and is neither queued nor running, under its next
  attempt. Of the gates, exactly those of the run that the system canceled (not a user) in a
  later stage are armed again: they wait for an approval, without any earlier vote or decision;
  every other gate keeps its row, its decision and its votes. And exactly those gate-pass
  markers of the run go whose environment is governed by a gate that now waits.
\<close>

theorem rerun_rearms_gates:
  assumes "wf_db (abDB a)"
  shows "case RerunJob job a of
     (Inl e, b) \<Rightarrow> b = a
   | (Inr res, b) \<Rightarrow> (\<exists>row. find_job (abDB a) job = Some row \<and> \<not> jrApprovalGate row \<and> \<not> active (jrStatus row) \<and>
       find_job (abDB b) job = Some (requeued_row row) \<and> rjAttempt res = jrAttempt row + 1 \<and>
       (\<forall>j\<in>set (dbJobs (abDB a)). jrApprovalGate j \<longrightarrow>
          (if rearms row (abDB a) j
           then find_job (abDB b) (jrID j) = Some (cleared_row StatusAwaitingApproval j) \<and>
             abDecided b (jrID j) = None \<and> (\<forall>v\<in>set (abVotes b). voJobRunID v \<noteq> jrID j)
           else find_job (abDB b) (jrID j) = Some j \<and> abDecided b (jrID j) = abDecided a (jrID j) \<and>
             filter (\<lambda>v. voJobRunID v = jrID j) (abVotes b) = filter (\<lambda>v. voJobRunID v = jrID j) (abVotes a))) \<and>
       set (abPasses b) = {m \<in> set (abPasses a). \<not> stale_marker (jrRunID row) (abDB b) m})"
proof (cases rule: RerunJob_cases [of job a])
  case (1 e)
  then show ?thesis by simp
next
  case (2 row res ms rearmed)
  let ?d' = "rerun_db job (abDB a)"
  note row = admitRerun_InrD [OF 2(1)]
  have target: "find_job ?d' job = Some (requeued_row row)"
    using rerun_tables_find [of job "jrRunID row" "jrStageRunID row" "abDB a" job] 2(2) row(1,2)
    by (simp add: rerun_of_def)
  have gate: "jrID j \<in> set rearmed \<longleftrightarrow> rearms row (abDB a) j"
    "find_job ?d' (jrID j) = Some (if jrID j \<in> set rearmed then cleared_row StatusAwaitingApproval j else j)"
    if "j \<in> set (dbJobs (abDB a))" "jrApprovalGate j" for j
    using rerun_gate_row [OF assms 2(1,2) that] revivable_rearms [OF that(2)] by simp_all
  have votes: "filter (\<lambda>v. voJobRunID v = i) (filter (\<lambda>v. voJobRunID v \<notin> set rearmed) (abVotes a)) =
      filter (\<lambda>v. voJobRunID v = i) (abVotes a)" if "i \<notin> set rearmed" for i
    using that unfolding filter_filter by (metis (mono_tags, lifting) filter_cong)
  obtain b where b: "RerunJob job a = (Inr res, b)" "abDB b = ?d'" "abPasses b = ms"
      "abVotes b = filter (\<lambda>v. voJobRunID v \<notin> set rearmed) (abVotes a)"
      "abDecided b = (\<lambda>j. if j \<in> set rearmed then None else abDecided a j)"
    using 2(5) by simp
  have one: "if rearms row (abDB a) j
      then find_job (abDB b) (jrID j) = Some (cleared_row StatusAwaitingApproval j) \<and>
        abDecided b (jrID j) = None \<and> (\<forall>v\<in>set (abVotes b). voJobRunID v \<noteq> jrID j)
      else find_job (abDB b) (jrID j) = Some j \<and> abDecided b (jrID j) = abDecided a (jrID j) \<and>
        filter (\<lambda>v. voJobRunID v = jrID j) (abVotes b) = filter (\<lambda>v. voJobRunID v = jrID j) (abVotes a)"
    if j: "j \<in> set (dbJobs (abDB a))" "jrApprovalGate j" for j
  proof (cases "rearms row (abDB a) j")
    case True
    then have "jrID j \<in> set rearmed" using gate(1) [OF j] by blast
    with True gate(2) [OF j] show ?thesis by (simp add: b) metis
  next
    case False
    then have "jrID j \<notin> set rearmed" using gate(1) [OF j] by blast
    with False gate(2) [OF j] votes show ?thesis unfolding b by simp
  qed
  show ?thesis
    unfolding b(1) prod.case sum.case
    by (intro exI [of _ row] conjI ballI impI one)
      (use row target 2(4) cleared_markers [OF 2(3)] b in simp_all)
qed

text \<open>The label loop keeps the first maximum; on sorted labels that is the smallest one.\<close>

lemma best_override_spec:
  assumes "best_override ov (q0, l0) xs = (q, l)"
  shows "q0 \<le> q \<and> (\<forall>x\<in>set xs. \<forall>v. ov x = Some v \<longrightarrow> v \<le> q) \<and>
    (if q = q0 then l = l0
     else l \<in> set xs \<and> ov l = Some q \<and> (sorted xs \<longrightarrow> (\<forall>x\<in>set xs. ov x = Some q \<longrightarrow> l \<le> x)))"
  using assms
proof (induction xs arbitrary: q0 l0)
  case (Cons x xs)
  show ?case
  proof (cases "\<exists>v. ov x = Some v \<and> v > q0")
    case True
    then obtain v where v: "ov x = Some v" "v > q0" by blast
    with Cons.prems have "best_override ov (v, x) xs = (q, l)" by simp
    from Cons.IH [OF this] v show ?thesis by (auto split: if_splits)
  next
    case False
    with Cons.prems have "best_override ov (q0, l0) xs = (q, l)" by (auto split: option.splits if_splits)
    from Cons.IH [OF this] False show ?thesis by (fastforce split: if_splits)
  qed
qed simp

text \<open>
  The quorum of a gate. On a pull request the quorum is the largest positive override among
  its labels, credited to the smallest label that has it; when no label has an override, the
  quorum is the declared one and no label is credited.
\<close>

theorem effective_quorum:
  fixes labels base overrides
  defines "vals \<equiv> {v. \<exists>l\<in>set labels. map_of overrides l = Some v \<and> 0 < v}"
    and "res \<equiv> resolveEffectiveQuorum (Some labels) base overrides"
  shows "if vals = {} then res = (base, [])
    else fst res = Max vals \<and> snd res \<in> set labels \<and> map_of overrides (snd res) = Some (Max vals) \<and>
      (\<forall>l\<in>set labels. map_of overrides l = Some (Max vals) \<longrightarrow> snd res \<le> l)"
proof -
  obtain q l where best: "best_override (map_of overrides) (0, []) (sort labels) = (q, l)" by fastforce
  note spec = best_override_spec [OF best, simplified]
  have fin: "finite vals"
  proof (rule finite_subset)
    show "vals \<subseteq> (\<lambda>l. the (map_of overrides l)) ` set labels" by (force simp: vals_def)
  qed simp
  show ?thesis
  proof (cases "vals = {}")
    case True
    then have "q = 0" using spec by (auto simp: vals_def split: if_splits)
    with True best show ?thesis by (simp add: res_def resolveEffectiveQuorum_def)
  next
    case False
    then have q: "0 < q" using spec by (fastforce simp: vals_def)
    have "Max vals = q"
      using fin q spec by (intro Max_eqI) (auto simp: vals_def)
    moreover have "labels \<noteq> []" "overrides \<noteq> []" using False by (auto simp: vals_def)
    ultimately show ?thesis
      using False q spec best by (auto simp: res_def resolveEffectiveQuorum_def)
  qed
qed

section \<open>Witnesses\<close>

text \<open>Two people of the group \<open>ops\<close>, one known locally and one through the external source, approve gate 100.\<close>

definition ex_source :: ApproverGroupSource where
  "ex_source = Some (\<lambda>who. if aiSubject who = ''bob'' then Some [''ops''] else None)"

definition ex_approvals :: ApprovalDB where
  "ex_approvals =
     \<lparr>abDB = ex_lane,
      abGate = (\<lambda>_. \<lparr>gcApprovers = [], gcApproverGroups = [''ops''], gcRequired = 2\<rparr>),
      abDecided = Map.empty, abVotes = [], abPasses = [], abFrozen = [(9, ''prod'')], abProject = (\<lambda>_. 9),
      abUserGroups = (\<lambda>u. if u = 1 then [''ops''] else [])\<rparr>"

definition ex_decision :: "uuid \<Rightarrow> string \<Rightarrow> ApprovalDecision" where
  "ex_decision u n =
     \<lparr>adJobRunID = 100, adUserID = u, adUser = n, adUserEmail = [], adProvider = ''oidc'', adSubject = n, adComment = []\<rparr>"

definition ex_decide :: "uuid \<Rightarrow> string \<Rightarrow> ApprovalDB \<Rightarrow> (approval_error + ApprovalResult) \<times> ApprovalDB" where
  "ex_decide u n = decideGate ex_source (\<lambda>_. False) (ex_decision u n) True"

definition ex_approved :: ApprovalDB where
  "ex_approved = snd (ex_decide 2 ''bob'' (snd (ex_decide 1 ''alice'' ex_approvals)))"

lemma ex_approvals_fresh: "fresh_approvals ex_approvals"
proof -
  have "gates_unique (abDB ex_approvals)" by code_simp
  moreover have "\<forall>j\<in>set (dbJobs ex_lane). jrApprovalGate j \<longrightarrow> jrStatus j = StatusAwaitingApproval"
    by code_simp
  ultimately show ?thesis
    using ex_lane_wf by (simp add: fresh_approvals_def ex_approvals_def)
qed

lemma ex_approved_reached: "(ap_step ex_source)\<^sup>*\<^sup>* ex_approvals ex_approved"
proof -
  have step: "ap_step ex_source a (snd (ex_decide u n a))" if "u \<noteq> 0" for u n a
    unfolding ex_decide_def by (rule ap_step.decision) (simp add: ex_decision_def uuid_Nil_def that)
  show ?thesis
    unfolding ex_approved_def
    by (rule rtranclp.rtrancl_into_rtrancl [OF r_into_rtranclp]; rule step; simp)
qed

theorem quorum_enforced_witness:
  "2 \<le> int (card (voUserID ` {v \<in> set (abVotes ex_approved). voJobRunID v = 100 \<and> voApproved v}))"
proof -
  let ?j = "hd (dbJobs (abDB ex_approved))"
  have "?j \<in> set (dbJobs (abDB ex_approved))" "jrApprovalGate ?j" "jrStatus ?j = StatusSuccess"
    by code_simp+
  from quorum_enforced [OF ex_approvals_fresh ex_approved_reached this]
  have "gate_required (jrID ?j) ex_approved
    \<le> int (card (voUserID ` {v \<in> set (abVotes ex_approved). voJobRunID v = jrID ?j \<and> voApproved v}))" .
  moreover have "jrID ?j = 100" "gate_required 100 ex_approved = 2" by code_simp+
  ultimately show ?thesis by simp
qed

theorem markers_sound_witness:
  "\<exists>r\<in>set (dbRuns (abDB ex_approved)). rrID r = 1 \<and>
    (\<forall>g\<in>set (GoverningGates (rrDefinition r) ''staging''). \<exists>j\<in>set (dbJobs (abDB ex_approved)).
       jrRunID j = rrID r \<and> jrName j = g \<and> jrApprovalGate j \<and> jrStatus j = StatusSuccess)"
proof -
  let ?m = "hd (abPasses ex_approved)"
  have "?m \<in> set (abPasses ex_approved)" "gpRunID ?m = 1" "gpEnvironment ?m = ''staging''" by code_simp+
  with markers_sound [OF ex_approvals_fresh ex_approved_reached this(1)] show ?thesis by simp
qed

theorem decision_admitted_witness:
  "entitled ex_source ex_approvals (abGate ex_approvals 100) (identity_of (ex_decision 1 ''alice''))"
proof -
  have "\<not> isl (fst (ex_decide 1 ''alice'' ex_approvals))" by code_simp
  then obtain res b where "decideGate ex_source (\<lambda>_. False) (ex_decision 1 ''alice'') True ex_approvals = (Inr res, b)"
    unfolding ex_decide_def by (metis prod.collapse sum.collapse(2))
  with decision_admitted [where source = ex_source and contended = "\<lambda>_. False" and d = "ex_decision 1 ''alice''"
      and approve = True and a = ex_approvals] show ?thesis
    by (auto simp: ex_decision_def)
qed

text \<open>A failed build and the gate that its failure canceled, which already had a vote.\<close>

definition ex_stopped :: ApprovalDB where
  "ex_stopped = ex_approvals
     \<lparr>abDB := \<lparr>dbRuns = [(ex_run 1 1)\<lparr>rrStatus := StatusFailed\<rparr>],
        dbStages = [(ex_stage 10 1 ''build'' 0)\<lparr>srStatus := StatusFailed\<rparr>, (ex_stage 11 1 ''g1'' 1)\<lparr>srStatus := StatusCanceled\<rparr>],
        dbJobs = [(ex_job 100 1 10 ''compile'')\<lparr>jrStatus := StatusFailed\<rparr>,
          (ex_job 101 1 11 ''approve-staging'')\<lparr>jrStatus := StatusCanceled, jrApprovalGate := True,
             jrCancelOrigin := Some OriginDependency\<rparr>],
        dbEvents = []\<rparr>,
      abVotes := [\<lparr>voJobRunID = 101, voUserID = 1, voUserLabel = ''alice'', voApproved = True, voComment = []\<rparr>]\<rparr>"

theorem rerun_rearms_gates_witness:
  "find_job (abDB (snd (RerunJob 100 ex_stopped))) 101 =
     Some (cleared_row StatusAwaitingApproval (hd (tl (dbJobs (abDB ex_stopped))))) \<and>
   list_all (\<lambda>v. voJobRunID v \<noteq> 101) (abVotes (snd (RerunJob 100 ex_stopped)))"
proof -
  let ?j = "hd (tl (dbJobs (abDB ex_stopped)))"
  have wf: "wf_db (abDB ex_stopped)" by code_simp
  have "\<not> isl (fst (RerunJob 100 ex_stopped))" by code_simp
  then obtain res b where b: "RerunJob 100 ex_stopped = (Inr res, b)"
    by (metis prod.collapse sum.collapse(2))
  have j: "?j \<in> set (dbJobs (abDB ex_stopped))" "jrApprovalGate ?j" "jrID ?j = 101"
    "rearms (hd (dbJobs (abDB ex_stopped))) (abDB ex_stopped) ?j"
    "find_job (abDB ex_stopped) 100 = Some (hd (dbJobs (abDB ex_stopped)))"
    by code_simp+
  from rerun_rearms_gates [OF wf, of 100] j b show ?thesis
    by (auto simp: list_all_iff)
qed

theorem effective_quorum_witness:
  "resolveEffectiveQuorum (Some [''security'', ''db'', ''docs'']) 1 [(''db'', 3), (''security'', 3)] = (3, ''db'')"
proof -
  have "{v. \<exists>l\<in>set [''security'', ''db'', ''docs'']. map_of [(''db'', 3), (''security'', 3::int)] l = Some v \<and> 0 < v} = {3}"
    by auto
  with effective_quorum [where labels = "[''security'', ''db'', ''docs'']" and base = 1
      and overrides = "[(''db'', 3), (''security'', 3)]"]
  show ?thesis
    by (auto simp: prod_eq_iff split: if_splits)
qed

end
