(* ===== verification/LogBatcher.thy ===== *)
theory LogBatcher
  imports RunStore GoChan "HOL-Library.Multiset"
begin

text \<open>
  The per-stream log batcher (\<open>server/internal/grpcsrv/log_batcher.go\<close>) and the store call it
  flushes through (\<open>server/internal/store/results.go\<close>). The receive loop (Push, AfterFlush,
  Stop) and the flusher goroutine (run) interleave at their channel operations, atomic
  accesses and store transactions; the run store changes under them.
\<close>

section \<open>Configuration\<close>

record logBatcherConfig =
  cfBatchSize :: int
  cfFlushEvery :: duration
  cfMaxLines :: int
  cfMaxInflightBytes :: int

definition logMaxLinesCeiling :: int where
  "logMaxLinesCeiling = 65536"

definition logMinInflightBytes :: int where
  "logMinInflightBytes = 1048576"

definition logMaxInflightBytesCeiling :: int where
  "logMaxInflightBytesCeiling = 536870912"

definition defaultLogBatcherConfig :: logBatcherConfig where
  "defaultLogBatcherConfig =
     \<lparr>cfBatchSize = 100, cfFlushEvery = 200000000, cfMaxLines = 4096, cfMaxInflightBytes = 16777216\<rparr>"

definition clamped :: "logBatcherConfig \<Rightarrow> logBatcherConfig" where
  "clamped c =
     (let c = (if cfBatchSize c \<le> 0 then c\<lparr>cfBatchSize := 100\<rparr> else c);
          c = (if cfFlushEvery c \<le> 0 then c\<lparr>cfFlushEvery := 200000000\<rparr> else c);
          c = (if cfMaxLines c < cfBatchSize c then c\<lparr>cfMaxLines := cfBatchSize c\<rparr> else c);
          c = (if cfMaxLines c > logMaxLinesCeiling then c\<lparr>cfMaxLines := logMaxLinesCeiling\<rparr> else c);
          c = (if cfMaxInflightBytes c < logMinInflightBytes
               then c\<lparr>cfMaxInflightBytes := logMinInflightBytes\<rparr> else c);
          c = (if cfMaxInflightBytes c > logMaxInflightBytesCeiling
               then c\<lparr>cfMaxInflightBytes := logMaxInflightBytesCeiling\<rparr> else c)
      in c)"

definition WithLogBatcherLimits :: "int \<Rightarrow> int \<Rightarrow> logBatcherConfig \<Rightarrow> logBatcherConfig" where
  "WithLogBatcherLimits maxLines maxInflightBytes c =
     (let c = (if maxLines > 0 then c\<lparr>cfMaxLines := maxLines\<rparr> else c)
      in if maxInflightBytes > 0 then c\<lparr>cfMaxInflightBytes := maxInflightBytes\<rparr> else c)"

section \<open>The store call\<close>

record LogLine =
  llJobRunID :: uuid
  llSeq :: int
  llStream :: string
  llAt :: "gotime option"
  llText :: string

record LogRow =
  lrJobRunID :: uuid
  lrSeq :: int
  lrStream :: string
  lrAt :: gotime
  lrText :: string

definition log_row :: "gotime \<Rightarrow> LogLine \<Rightarrow> LogRow" where
  "log_row now l =
     \<lparr>lrJobRunID = llJobRunID l, lrSeq = llSeq l, lrStream = llStream l,
      lrAt = (case llAt l of None \<Rightarrow> now | Some t \<Rightarrow> t), lrText = llText l\<rparr>"

definition same_log_key :: "LogRow \<Rightarrow> LogRow \<Rightarrow> bool" where
  "same_log_key x y = (lrJobRunID x = lrJobRunID y \<and> lrSeq x = lrSeq y \<and> lrAt x = lrAt y)"

fun bulkInsertLogLinesQ :: "gotime \<Rightarrow> LogLine list \<Rightarrow> LogRow list \<Rightarrow> LogRow list" where
  "bulkInsertLogLinesQ now [] rows = rows"
| "bulkInsertLogLinesQ now (l # ls) rows =
     bulkInsertLogLinesQ now ls
       (if list_ex (same_log_key (log_row now l)) rows then rows else rows @ [log_row now l])"

datatype sink_result = SinkOk | SinkStale | SinkFailed

text \<open>
  \<open>fails\<close> is a database error or the expiry of the flush's own deadline; the transaction then
  leaves no row behind.
\<close>

definition BulkInsertLogLinesForJob ::
  "bool \<Rightarrow> gotime \<Rightarrow> uuid \<Rightarrow> uuid \<Rightarrow> int \<Rightarrow> LogLine list \<Rightarrow> DB \<Rightarrow> LogRow list \<Rightarrow> sink_result \<times> LogRow list" where
  "BulkInsertLogLinesForJob fails now job expectedAgent expectedAttempt ls d rows =
     (if ls = [] then (SinkOk, rows)
      else if fails then (SinkFailed, rows)
      else
        (case find_job d job of
           None \<Rightarrow> (SinkStale, rows)
         | Some j \<Rightarrow>
             (if (case jrAgentID j of None \<Rightarrow> uuid_Nil | Some a \<Rightarrow> a) \<noteq> expectedAgent
                 \<or> jrAttempt j \<noteq> expectedAttempt then (SinkStale, rows)
              else (SinkOk, bulkInsertLogLinesQ now ls rows))))"

section \<open>The batcher\<close>

text \<open>
  \<open>plAfterFlush\<close> is the callback of a barrier, named by the job it archives; a log line has
  none.
\<close>

record pendingLine =
  plLine :: LogLine
  plAttempt :: int
  plAfterFlush :: "uuid option"

definition zero_line :: LogLine where
  "zero_line = \<lparr>llJobRunID = uuid_Nil, llSeq = 0, llStream = [], llAt = None, llText = []\<rparr>"

record logBatcher =
  lbIn :: "pendingLine chan"
  lbBatchSize :: nat
  lbAgentID :: uuid
  lbMaxInflightBytes :: int
  lbDiscard :: bool
  lbInflightBytes :: int
  lbDropBackpressure :: nat
  lbDropBytesFull :: nat
  lbDropSnapshotStale :: nat
  lbDropFlushFailed :: nat
  lbSessionDiscarded :: nat

definition newLogBatcherWithConfig :: "uuid \<Rightarrow> logBatcherConfig \<Rightarrow> logBatcher" where
  "newLogBatcherWithConfig agent cfg =
     (let c = clamped cfg in
      \<lparr>lbIn = make_chan (nat (cfMaxLines c)), lbBatchSize = nat (cfBatchSize c), lbAgentID = agent,
       lbMaxInflightBytes = cfMaxInflightBytes c, lbDiscard = False, lbInflightBytes = 0,
       lbDropBackpressure = 0, lbDropBytesFull = 0, lbDropSnapshotStale = 0, lbDropFlushFailed = 0,
       lbSessionDiscarded = 0\<rparr>)"

definition lineBytes :: "LogLine \<Rightarrow> int" where
  "lineBytes l = int (length (llText l))"

type_synonym flushKey = "uuid \<times> int"

definition flush_key :: "pendingLine \<Rightarrow> flushKey" where
  "flush_key e = (llJobRunID (plLine e), plAttempt e)"

abbreviation is_line :: "pendingLine \<Rightarrow> bool" where
  "is_line e \<equiv> plAfterFlush e = None"

definition entry_bytes :: "pendingLine list \<Rightarrow> int" where
  "entry_bytes es = (\<Sum>e\<leftarrow>es. lineBytes (plLine e))"

text \<open>Grouping by key; Go visits the map in any order, so the order of the keys is a parameter.\<close>

definition flush_groups :: "flushKey list \<Rightarrow> pendingLine list \<Rightarrow> (flushKey \<times> pendingLine list) list" where
  "flush_groups ks batch = map (\<lambda>k. (k, filter (\<lambda>e. flush_key e = k) batch)) ks"

section \<open>One stream\<close>

text \<open>
  Where the receive loop is: between messages, at the first \<open>select\<close> with an entry in hand, in
  the 50 ms wait, after the send and before \<open>inflightBytes.Add\<close>, or past \<open>close(b.in)\<close>.
\<close>

datatype producer = Idle | Offering pendingLine | Wedged pendingLine | Counting int | Stopped

text \<open>
  Where the flusher is: in its \<open>select\<close>; writing the groups still to do of a flush whose batch
  holds so many bytes; about to release these bytes; done flushing; gone. The continuation of a
  flush is the next round, a barrier's callback, or the return of \<open>run\<close>.
\<close>

datatype continuation = Looping | Barrier uuid | Returning

datatype flusher =
  Selecting
| Writing "(flushKey \<times> pendingLine list) list" int continuation
| Releasing int continuation
| Flushed continuation
| Gone

datatype outcome = Persisted | Stale | FlushFailed | Discarded

text \<open>
  The last five fields record the history: the number of lines pushed, the entries that went
  into the channel and those taken off it, the lines that left the buffer with what became of
  them, and the callbacks run.
\<close>

record log_stream =
  lsB :: logBatcher
  lsBatch :: "pendingLine list"
  lsProducer :: producer
  lsFlusher :: flusher
  lsCanceled :: bool
  lsDB :: DB
  lsRows :: "LogRow list"
  lsPushed :: nat
  lsAccepted :: "pendingLine list"
  lsReceived :: "pendingLine list"
  lsSettled :: "(pendingLine \<times> outcome) list"
  lsRan :: "uuid list"

definition start_stream :: "uuid \<Rightarrow> logBatcherConfig \<Rightarrow> DB \<Rightarrow> LogRow list \<Rightarrow> log_stream" where
  "start_stream agent cfg d rows =
     \<lparr>lsB = newLogBatcherWithConfig agent cfg, lsBatch = [], lsProducer = Idle, lsFlusher = Selecting,
      lsCanceled = False, lsDB = d, lsRows = rows, lsPushed = 0, lsAccepted = [], lsReceived = [], lsSettled = [], lsRan = []\<rparr>"

definition Push :: "LogLine \<Rightarrow> int \<Rightarrow> log_stream \<Rightarrow> log_stream" where
  "Push l attempt s =
     (let b = lsB s; s = s\<lparr>lsPushed := Suc (lsPushed s)\<rparr> in
      if lbDiscard b then s\<lparr>lsB := b\<lparr>lbSessionDiscarded := Suc (lbSessionDiscarded b)\<rparr>\<rparr>
      else if lbInflightBytes b + lineBytes l > lbMaxInflightBytes b then
        s\<lparr>lsB := b\<lparr>lbDropBytesFull := Suc (lbDropBytesFull b)\<rparr>\<rparr>
      else s\<lparr>lsProducer := Offering \<lparr>plLine = l, plAttempt = attempt, plAfterFlush = None\<rparr>\<rparr>)"

definition AfterFlush :: "uuid \<Rightarrow> log_stream \<Rightarrow> log_stream" where
  "AfterFlush job s =
     (if lbDiscard (lsB s) then s
      else s\<lparr>lsProducer := Offering \<lparr>plLine = zero_line, plAttempt = 0, plAfterFlush = Some job\<rparr>\<rparr>)"

text \<open>A send that finds room, and the two ways to go on without one.\<close>

definition sent :: "pendingLine \<Rightarrow> pendingLine chan \<Rightarrow> log_stream \<Rightarrow> log_stream" where
  "sent e c s =
     s\<lparr>lsB := (lsB s)\<lparr>lbIn := c\<rparr>, lsAccepted := lsAccepted s @ [e],
       lsProducer := (if is_line e then Counting (lineBytes (plLine e)) else Idle)\<rparr>"

definition give_up :: "pendingLine \<Rightarrow> log_stream \<Rightarrow> log_stream" where
  "give_up e s =
     (if is_line e then s\<lparr>lsB := (lsB s)\<lparr>lbDropBackpressure := Suc (lbDropBackpressure (lsB s))\<rparr>, lsProducer := Idle\<rparr>
      else s\<lparr>lsProducer := Idle\<rparr>)"

definition add_inflight :: "int \<Rightarrow> log_stream \<Rightarrow> log_stream" where
  "add_inflight n s = s\<lparr>lsB := (lsB s)\<lparr>lbInflightBytes := lbInflightBytes (lsB s) + n\<rparr>\<rparr>"

definition Discard :: "log_stream \<Rightarrow> log_stream" where
  "Discard s = s\<lparr>lsB := (lsB s)\<lparr>lbDiscard := True\<rparr>\<rparr>"

definition Stop :: "log_stream \<Rightarrow> log_stream" where
  "Stop s = s\<lparr>lsB := (lsB s)\<lparr>lbIn := (lbIn (lsB s))\<lparr>ch_closed := True\<rparr>\<rparr>, lsProducer := Stopped\<rparr>"

text \<open>The start of \<open>flush\<close>, up to its first store call.\<close>

definition begin_flush :: "flushKey list \<Rightarrow> continuation \<Rightarrow> log_stream \<Rightarrow> log_stream" where
  "begin_flush ks k s =
     (let batch = lsBatch s; b = lsB s in
      if batch = [] then s\<lparr>lsFlusher := Flushed k\<rparr>
      else if lbDiscard b then
        s\<lparr>lsB := b\<lparr>lbSessionDiscarded := lbSessionDiscarded b + length batch\<rparr>, lsBatch := [],
          lsSettled := lsSettled s @ map (\<lambda>e. (e, Discarded)) batch,
          lsFlusher := Releasing (entry_bytes batch) k\<rparr>
      else s\<lparr>lsFlusher := Writing (flush_groups ks batch) (entry_bytes batch) k\<rparr>)"

definition outcome_of :: "sink_result \<Rightarrow> outcome" where
  "outcome_of r = (case r of SinkOk \<Rightarrow> Persisted | SinkStale \<Rightarrow> Stale | SinkFailed \<Rightarrow> FlushFailed)"

definition count_drop :: "sink_result \<Rightarrow> nat \<Rightarrow> logBatcher \<Rightarrow> logBatcher" where
  "count_drop r n b =
     (case r of
        SinkOk \<Rightarrow> b
      | SinkStale \<Rightarrow> b\<lparr>lbDropSnapshotStale := lbDropSnapshotStale b + n\<rparr>
      | SinkFailed \<Rightarrow> b\<lparr>lbDropFlushFailed := lbDropFlushFailed b + n\<rparr>)"

definition write_group :: "bool \<Rightarrow> gotime \<Rightarrow> flushKey \<Rightarrow> pendingLine list \<Rightarrow> log_stream \<Rightarrow> log_stream" where
  "write_group fails now key es s =
     (case BulkInsertLogLinesForJob fails now (fst key) (lbAgentID (lsB s)) (snd key) (map plLine es)
             (lsDB s) (lsRows s) of
        (r, rows) \<Rightarrow>
          s\<lparr>lsB := count_drop r (length es) (lsB s), lsRows := rows,
            lsSettled := lsSettled s @ map (\<lambda>e. (e, outcome_of r)) es\<rparr>)"

text \<open>A receive from the channel: a line joins the batch, a barrier flushes first.\<close>

definition receive :: "flushKey list \<Rightarrow> pendingLine \<Rightarrow> pendingLine chan \<Rightarrow> log_stream \<Rightarrow> log_stream" where
  "receive ks e c s =
     (let s = s\<lparr>lsB := (lsB s)\<lparr>lbIn := c\<rparr>, lsReceived := lsReceived s @ [e]\<rparr> in
      case plAfterFlush e of
        Some job \<Rightarrow> begin_flush ks (Barrier job) s
      | None \<Rightarrow>
          (let s = s\<lparr>lsBatch := lsBatch s @ [e]\<rparr> in
           if lbBatchSize (lsB s) \<le> length (lsBatch s) then begin_flush ks Looping s else s))"

definition flushed :: "continuation \<Rightarrow> log_stream \<Rightarrow> log_stream" where
  "flushed k s =
     (case k of
        Looping \<Rightarrow> s\<lparr>lsFlusher := Selecting\<rparr>
      | Barrier job \<Rightarrow>
          s\<lparr>lsFlusher := Selecting, lsRan := (if lbDiscard (lsB s) then lsRan s else lsRan s @ [job])\<rparr>
      | Returning \<Rightarrow> s\<lparr>lsFlusher := Gone\<rparr>)"

text \<open>
  A tick with an empty batch goes round the loop without effect; that stuttering step is left
  out. The order in which \<open>flush\<close> visits the keys is open, as the order of a Go map is.
\<close>

definition key_order :: "flushKey list \<Rightarrow> pendingLine list \<Rightarrow> bool" where
  "key_order ks batch = (distinct ks \<and> set ks = flush_key ` set batch)"

inductive loop_step :: "log_stream \<Rightarrow> log_stream \<Rightarrow> bool" where
  push: "lsProducer s = Idle \<Longrightarrow> loop_step s (Push l attempt s)"
| barrier: "lsProducer s = Idle \<Longrightarrow> loop_step s (AfterFlush job s)"
| offer_sent: "lsProducer s = Offering e \<Longrightarrow> try_send (lbIn (lsB s)) e = Sent c \<Longrightarrow> loop_step s (sent e c s)"
| offer_full: "lsProducer s = Offering e \<Longrightarrow> try_send (lbIn (lsB s)) e = SendFull \<Longrightarrow>
    loop_step s (s\<lparr>lsProducer := Wedged e\<rparr>)"
| wedged_sent: "lsProducer s = Wedged e \<Longrightarrow> try_send (lbIn (lsB s)) e = Sent c \<Longrightarrow> loop_step s (sent e c s)"
| wedged_expired: "lsProducer s = Wedged e \<Longrightarrow> loop_step s (give_up e s)"
| counted: "lsProducer s = Counting n \<Longrightarrow> loop_step s (add_inflight n s\<lparr>lsProducer := Idle\<rparr>)"
| discard: "lsProducer s = Idle \<Longrightarrow> loop_step s (Discard s)"
| stop: "lsProducer s = Idle \<Longrightarrow> loop_step s (Stop s)"

inductive flusher_step :: "log_stream \<Rightarrow> log_stream \<Rightarrow> bool" where
  entry: "lsFlusher s = Selecting \<Longrightarrow> try_recv (lbIn (lsB s)) = Some (e, c) \<Longrightarrow>
    key_order ks (lsBatch s @ (if is_line e then [e] else [])) \<Longrightarrow> flusher_step s (receive ks e c s)"
| closed: "lsFlusher s = Selecting \<Longrightarrow> ch_closed (lbIn (lsB s)) \<Longrightarrow> ch_buf (lbIn (lsB s)) = [] \<Longrightarrow>
    key_order ks (lsBatch s) \<Longrightarrow> flusher_step s (begin_flush ks Returning s)"
| canceled: "lsFlusher s = Selecting \<Longrightarrow> lsCanceled s \<Longrightarrow> key_order ks (lsBatch s) \<Longrightarrow>
    flusher_step s (begin_flush ks Returning s)"
| tick: "lsFlusher s = Selecting \<Longrightarrow> lsBatch s \<noteq> [] \<Longrightarrow> key_order ks (lsBatch s) \<Longrightarrow>
    flusher_step s (begin_flush ks Looping s)"
| sink: "lsFlusher s = Writing ((key, es) # todo) n k \<Longrightarrow>
    flusher_step s (write_group fails now key es s\<lparr>lsFlusher := Writing todo n k\<rparr>)"
| written: "lsFlusher s = Writing [] n k \<Longrightarrow> flusher_step s (s\<lparr>lsBatch := [], lsFlusher := Releasing n k\<rparr>)"
| released: "lsFlusher s = Releasing n k \<Longrightarrow> flusher_step s (add_inflight (- n) s\<lparr>lsFlusher := Flushed k\<rparr>)"
| continue: "lsFlusher s = Flushed k \<Longrightarrow> flusher_step s (flushed k s)"

text \<open>The rest of the server: any transaction of the store on its tables, a cleared log, a canceled stream.\<close>

inductive outside_step :: "log_stream \<Rightarrow> log_stream \<Rightarrow> bool" where
  store: "outside_step s (s\<lparr>lsDB := d, lsRows := rows\<rparr>)"
| cancel: "outside_step s (s\<lparr>lsCanceled := True\<rparr>)"

definition stream_step :: "log_stream \<Rightarrow> log_stream \<Rightarrow> bool" where
  "stream_step s t = (loop_step s t \<or> flusher_step s t \<or> outside_step s t)"

section \<open>Memory\<close>

definition in_hand :: "producer \<Rightarrow> pendingLine list" where
  "in_hand p = (case p of Offering e \<Rightarrow> [e] | Wedged e \<Rightarrow> [e] | _ \<Rightarrow> [])"

definition uncounted :: "producer \<Rightarrow> int" where
  "uncounted p = (case p of Counting n \<Rightarrow> n | _ \<Rightarrow> 0)"

definition releasing :: "flusher \<Rightarrow> int" where
  "releasing f = (case f of Releasing n k \<Rightarrow> n | _ \<Rightarrow> 0)"

definition entry_ok :: "pendingLine \<Rightarrow> bool" where
  "entry_ok e = (is_line e \<or> lineBytes (plLine e) = 0)"

text \<open>The bytes the stream holds: on the channel, in the batch, or flushed and not yet released.\<close>

definition retained :: "log_stream \<Rightarrow> int" where
  "retained s = entry_bytes (ch_buf (lbIn (lsB s))) + entry_bytes (lsBatch s) + releasing (lsFlusher s)"

fun batch_at :: "flusher \<Rightarrow> nat \<Rightarrow> pendingLine list \<Rightarrow> bool" where
  "batch_at Selecting sz batch = (length batch < sz)"
| "batch_at (Writing todo n k) sz batch = (length batch \<le> sz \<and> n = entry_bytes batch)"
| "batch_at (Releasing n k) sz batch = (batch = [])"
| "batch_at (Flushed k) sz batch = (batch = [])"
| "batch_at Gone sz batch = (batch = [])"

definition batch_ok :: "log_stream \<Rightarrow> bool" where
  "batch_ok s =
     (0 < lbBatchSize (lsB s) \<and> list_all is_line (lsBatch s) \<and>
      batch_at (lsFlusher s) (lbBatchSize (lsB s)) (lsBatch s))"

definition bytes_ok :: "log_stream \<Rightarrow> bool" where
  "bytes_ok s =
     (lbInflightBytes (lsB s) + uncounted (lsProducer s) = retained s \<and>
      retained s + entry_bytes (in_hand (lsProducer s)) \<le> lbMaxInflightBytes (lsB s) \<and>
      0 \<le> releasing (lsFlusher s) \<and>
      0 \<le> uncounted (lsProducer s) \<and> uncounted (lsProducer s) \<le> lbMaxInflightBytes (lsB s))"

definition chan_inv :: "logBatcherConfig \<Rightarrow> log_stream \<Rightarrow> bool" where
  "chan_inv cfg s =
     (list_all entry_ok (ch_buf (lbIn (lsB s)) @ in_hand (lsProducer s)) \<and>
      chan_ok (lbIn (lsB s)) \<and> ch_cap (lbIn (lsB s)) = nat (cfMaxLines (clamped cfg)) \<and>
      lbMaxInflightBytes (lsB s) = cfMaxInflightBytes (clamped cfg) \<and>
      lbBatchSize (lsB s) = nat (cfBatchSize (clamped cfg)))"

named_theorems lb_ops \<open>the operations of the batcher\<close>

lemmas [lb_ops] = Push_def AfterFlush_def sent_def give_up_def add_inflight_def Discard_def Stop_def
  begin_flush_def write_group_def receive_def flushed_def count_drop_def Let_def

lemma entry_bytes_simps [simp]:
  "entry_bytes [] = 0" "entry_bytes (e # es) = lineBytes (plLine e) + entry_bytes es"
  "entry_bytes (es @ fs) = entry_bytes es + entry_bytes fs"
  by (simp_all add: entry_bytes_def)

lemma lineBytes_nonneg: "0 \<le> lineBytes l"
  by (simp add: lineBytes_def)

lemma entry_bytes_nonneg: "0 \<le> entry_bytes es"
  by (induction es) (simp_all add: lineBytes_nonneg)

lemma zero_line_bytes [simp]: "lineBytes zero_line = 0" "llText zero_line = []"
  by (simp_all add: lineBytes_def zero_line_def)

lemma place_simps [simp]:
  "in_hand Idle = []" "in_hand (Offering e) = [e]" "in_hand (Wedged e) = [e]" "in_hand (Counting n) = []"
  "in_hand Stopped = []" "uncounted Idle = 0" "uncounted (Offering e) = 0" "uncounted (Wedged e) = 0"
  "uncounted (Counting n) = n" "uncounted Stopped = 0"
  "releasing Selecting = 0" "releasing (Writing todo n k) = 0" "releasing (Releasing n k) = n"
  "releasing (Flushed k) = 0" "releasing Gone = 0"
  by (simp_all add: in_hand_def uncounted_def releasing_def)

lemma send_facts:
  "try_send c m = Sent c' \<Longrightarrow> \<not> ch_closed c \<and> length (ch_buf c) < ch_cap c \<and>
     ch_buf c' = ch_buf c @ [m] \<and> ch_cap c' = ch_cap c \<and> \<not> ch_closed c'"
  by (auto simp: try_send_Sent_iff)

lemma recv_facts:
  "try_recv c = Some (m, c') \<Longrightarrow> ch_buf c = m # ch_buf c' \<and> ch_cap c' = ch_cap c \<and> ch_closed c' = ch_closed c"
  by (auto simp: try_recv_def split: list.splits)

lemmas lb_cases = disjE loop_step.cases flusher_step.cases outside_step.cases
lemmas lb_splits = if_splits option.splits prod.splits sink_result.splits continuation.splits

lemma chan_inv_step: "chan_inv cfg s \<Longrightarrow> stream_step s t \<Longrightarrow> chan_inv cfg t"
  unfolding stream_step_def chan_inv_def
  by (elim lb_cases; hypsubst?;
      auto simp: lb_ops chan_ok_def entry_ok_def split: lb_splits dest!: send_facts recv_facts)

lemma batch_ok_step: "batch_ok s \<Longrightarrow> stream_step s t \<Longrightarrow> batch_ok t"
  unfolding stream_step_def batch_ok_def
  by (elim lb_cases; hypsubst?; simp add: lb_ops split: lb_splits)

lemma bytes_ok_step:
  "chan_inv cfg s \<Longrightarrow> batch_ok s \<Longrightarrow> bytes_ok s \<Longrightarrow> stream_step s t \<Longrightarrow> bytes_ok t"
  unfolding stream_step_def bytes_ok_def chan_inv_def
  by (insert entry_bytes_nonneg [of "ch_buf (lbIn (lsB s))"] entry_bytes_nonneg [of "lsBatch s"];
      insert entry_bytes_nonneg [of "in_hand (lsProducer s)"]; elim lb_cases; hypsubst?;
      auto simp: lb_ops lineBytes_def retained_def entry_ok_def batch_ok_def split: lb_splits dest!: send_facts recv_facts)

section \<open>History\<close>

fun unsettled :: "flusher \<Rightarrow> pendingLine list \<Rightarrow> pendingLine list" where
  "unsettled (Writing todo n k) batch = concat (map snd todo)"
| "unsettled _ batch = batch"

fun continuation_of :: "flusher \<Rightarrow> continuation option" where
  "continuation_of (Writing todo n k) = Some k"
| "continuation_of (Releasing n k) = Some k"
| "continuation_of (Flushed k) = Some k"
| "continuation_of Gone = Some Returning"
| "continuation_of Selecting = None"

abbreviation settled_as :: "outcome \<Rightarrow> log_stream \<Rightarrow> nat" where
  "settled_as out s \<equiv> count_where (\<lambda>x. snd x = out) (lsSettled s)"

text \<open>Every line taken off the channel is settled once or still in the batch.\<close>

definition settled_ok :: "log_stream \<Rightarrow> bool" where
  "settled_ok s =
     (lsAccepted s = lsReceived s @ ch_buf (lbIn (lsB s)) \<and>
      mset (filter is_line (lsReceived s)) =
        mset (map fst (lsSettled s)) + mset (unsettled (lsFlusher s) (lsBatch s)))"

text \<open>Every pushed line is on exactly one counter, written, or still on its way.\<close>

definition counters_ok :: "log_stream \<Rightarrow> bool" where
  "counters_ok s =
     (lsPushed s = lbDropBackpressure (lsB s) + lbDropBytesFull (lsB s) + lbSessionDiscarded (lsB s)
        + lbDropSnapshotStale (lsB s) + lbDropFlushFailed (lsB s) + settled_as Persisted s
        + length (unsettled (lsFlusher s) (lsBatch s)) + length (filter is_line (ch_buf (lbIn (lsB s))))
        + length (filter is_line (in_hand (lsProducer s))) \<and>
      lbDropSnapshotStale (lsB s) = settled_as Stale s \<and> lbDropFlushFailed (lsB s) = settled_as FlushFailed s)"

definition barrier_ok :: "log_stream \<Rightarrow> bool" where
  "barrier_ok s =
     (\<forall>job. continuation_of (lsFlusher s) = Some (Barrier job) \<longrightarrow>
        (\<exists>pre e. lsReceived s = pre @ [e] \<and> plAfterFlush e = Some job))"

definition exit_ok :: "log_stream \<Rightarrow> bool" where
  "exit_ok s =
     ((ch_closed (lbIn (lsB s)) \<longleftrightarrow> lsProducer s = Stopped) \<and>
      (continuation_of (lsFlusher s) = Some Returning \<longrightarrow> \<not> lsCanceled s \<longrightarrow>
         ch_closed (lbIn (lsB s)) \<and> ch_buf (lbIn (lsB s)) = []))"

lemma flush_groups_mset:
  assumes "distinct ks" and "flush_key ` set batch \<subseteq> set ks"
  shows "mset (concat (map snd (flush_groups ks batch))) = mset batch"
proof (rule multiset_eqI)
  fix e
  have "count (mset (concat (map snd (flush_groups ks batch)))) e =
      (\<Sum>k\<leftarrow>ks. if k = flush_key e then count (mset batch) e else 0)"
    by (induction ks) (auto simp: flush_groups_def)
  also have "\<dots> = (if flush_key e \<in> set ks then count (mset batch) e else 0)"
    using assms(1) by (induction ks) auto
  also have "\<dots> = count (mset batch) e"
    using assms(2) by (auto simp: count_eq_zero_iff not_in_iff)
  finally show "count (mset (concat (map snd (flush_groups ks batch)))) e = count (mset batch) e" .
qed

lemma flush_groups_mset':
  "key_order ks batch \<Longrightarrow> mset (concat (map snd (flush_groups ks batch))) = mset batch"
  by (rule flush_groups_mset) (auto simp: key_order_def)

lemma flush_groups_length:
  "key_order ks batch \<Longrightarrow> length (concat (map snd (flush_groups ks batch))) = length batch"
  by (metis flush_groups_mset' size_mset)

lemma unsettled_empty [simp]: "unsettled f [] = (case f of Writing todo n k \<Rightarrow> concat (map snd todo) | _ \<Rightarrow> [])"
  by (cases f) simp_all

lemma count_where_simps [simp]:
  "count_where p [] = 0" "count_where p (x # xs) = (if p x then 1 else 0) + count_where p xs"
  "count_where p (xs @ ys) = count_where p xs + count_where p ys"
  by (simp_all add: count_where_def)

lemma count_where_map [simp]: "count_where p (map f xs) = count_where (\<lambda>x. p (f x)) xs"
  by (simp add: count_where_def filter_map o_def)

lemma count_where_const [simp]: "count_where (\<lambda>x. b) xs = (if b then length xs else 0)"
  by (simp add: count_where_def)

lemma batch_lines: "batch_ok s \<Longrightarrow> filter is_line (lsBatch s) = lsBatch s"
  by (simp add: batch_ok_def list_all_iff filter_id_conv)

lemma settled_ok_step:
  "batch_ok s \<Longrightarrow> settled_ok s \<Longrightarrow> stream_step s t \<Longrightarrow> settled_ok t"
  unfolding stream_step_def settled_ok_def
  by (elim lb_cases; hypsubst?;
      auto simp: lb_ops batch_ok_def o_def flush_groups_mset' simp del: mset_map mset_filter split: lb_splits dest!: send_facts recv_facts)

lemma counters_ok_step:
  "batch_ok s \<Longrightarrow> counters_ok s \<Longrightarrow> stream_step s t \<Longrightarrow> counters_ok t"
  unfolding stream_step_def counters_ok_def
  by (elim lb_cases; hypsubst?;
      auto simp: lb_ops batch_ok_def o_def flush_groups_length outcome_of_def
        split: lb_splits dest!: send_facts recv_facts)

lemma barrier_ok_step: "barrier_ok s \<Longrightarrow> stream_step s t \<Longrightarrow> barrier_ok t"
  unfolding stream_step_def barrier_ok_def
  by (elim lb_cases; hypsubst?; auto simp: lb_ops split: lb_splits)

lemma exit_ok_step: "exit_ok s \<Longrightarrow> stream_step s t \<Longrightarrow> exit_ok t"
  unfolding stream_step_def exit_ok_def
  by (elim lb_cases; hypsubst?;
      auto simp: lb_ops split: lb_splits dest!: send_facts recv_facts)

definition lb_inv :: "logBatcherConfig \<Rightarrow> log_stream \<Rightarrow> bool" where
  "lb_inv cfg s =
     (chan_inv cfg s \<and> batch_ok s \<and> bytes_ok s \<and> settled_ok s \<and> counters_ok s \<and> barrier_ok s \<and> exit_ok s)"

lemma clamped_bounds:
  "cfMaxLines (clamped c) \<le> logMaxLinesCeiling" "0 < cfMaxLines (clamped c)" "0 < cfBatchSize (clamped c)"
  "logMinInflightBytes \<le> cfMaxInflightBytes (clamped c)" "cfMaxInflightBytes (clamped c) \<le> logMaxInflightBytesCeiling"
  by (simp_all add: clamped_def Let_def logMaxLinesCeiling_def logMinInflightBytes_def logMaxInflightBytesCeiling_def)

definition is_start :: "logBatcherConfig \<Rightarrow> log_stream \<Rightarrow> bool" where
  "is_start cfg s = (\<exists>agent d rows. s = start_stream agent cfg d rows)"

lemma start_inv: "lb_inv cfg (start_stream agent cfg d rows)"
  using clamped_bounds [of cfg]
  by (simp add: lb_inv_def start_stream_def newLogBatcherWithConfig_def Let_def chan_inv_def batch_ok_def bytes_ok_def
      retained_def settled_ok_def counters_ok_def barrier_ok_def exit_ok_def logMinInflightBytes_def)

interpretation log_streams: invariant_system "is_start cfg" stream_step "lb_inv cfg" for cfg
proof
  show "lb_inv cfg s" if "is_start cfg s" for s
    using that start_inv by (auto simp: is_start_def)
  show "lb_inv cfg t" if "lb_inv cfg s" "stream_step s t" for s t
    using that chan_inv_step batch_ok_step bytes_ok_step settled_ok_step counters_ok_step barrier_ok_step exit_ok_step
    unfolding lb_inv_def by blast
qed

section \<open>After Stop\<close>

text \<open>How many steps the flusher has left once the channel is closed.\<close>

fun steps_left :: "flusher \<Rightarrow> nat \<Rightarrow> nat \<Rightarrow> nat" where
  "steps_left Selecting queued batched = 6 * queued + 5 * batched + 2"
| "steps_left (Writing todo n k) queued batched = 6 * queued + length todo + (if k = Returning then 3 else 5)"
| "steps_left (Releasing n k) queued batched = 6 * queued + (if k = Returning then 2 else 4)"
| "steps_left (Flushed k) queued batched = 6 * queued + (if k = Returning then 1 else 3)"
| "steps_left Gone queued batched = 0"

definition stop_bound :: "log_stream \<Rightarrow> nat" where
  "stop_bound s = steps_left (lsFlusher s) (length (ch_buf (lbIn (lsB s)))) (length (lsBatch s))"

lemma key_order_length: "key_order ks batch \<Longrightarrow> length ks \<le> length batch"
  by (metis card_image_le card_length distinct_card finite_set key_order_def le_trans)

lemma flush_groups_count: "key_order ks batch \<Longrightarrow> length (flush_groups ks batch) \<le> length batch"
  by (simp add: flush_groups_def key_order_length)

lemma flusher_step_decreases:
  assumes batch: "batch_ok s" and "flusher_step s t"
  shows "stop_bound t < stop_bound s"
  using assms(2)
proof cases
  case (entry e c ks)
  have len: "length (ch_buf (lbIn (lsB s))) = Suc (length (ch_buf c))"
    using recv_facts [OF entry(3)] by simp
  show ?thesis
  proof (cases "is_line e")
    case True
    with entry flush_groups_count [of ks "lsBatch s @ [e]"] len show ?thesis
      by (auto simp: stop_bound_def lb_ops)
  next
    case False
    with entry flush_groups_count [of ks "lsBatch s"] len show ?thesis
      by (cases "lsBatch s") (auto simp: stop_bound_def lb_ops)
  qed
next
  case (closed ks)
  with flush_groups_count [OF closed(5)] show ?thesis
    by (cases "lsBatch s") (auto simp: stop_bound_def lb_ops)
next
  case (canceled ks)
  with flush_groups_count [OF canceled(4)] show ?thesis
    by (cases "lsBatch s") (auto simp: stop_bound_def lb_ops)
next
  case (tick ks)
  with flush_groups_count [OF tick(4)] show ?thesis
    by (cases "lsBatch s") (auto simp: stop_bound_def lb_ops)
qed (use batch in \<open>auto simp: stop_bound_def batch_ok_def lb_ops split: lb_splits\<close>)

lemma batch_ok_flusher: "batch_ok s \<Longrightarrow> flusher_step s t \<Longrightarrow> batch_ok t"
  by (erule batch_ok_step) (simp add: stream_step_def)

definition some_order :: "pendingLine list \<Rightarrow> flushKey list" where
  "some_order batch = remdups (map flush_key batch)"

lemma some_order [simp]: "key_order (some_order batch) batch"
  by (simp add: key_order_def some_order_def)

text \<open>One way to go on: groups in their order of appearance, store calls that do not fail.\<close>

definition flusher_next :: "log_stream \<Rightarrow> log_stream" where
  "flusher_next s =
     (case lsFlusher s of
        Selecting \<Rightarrow>
          (case try_recv (lbIn (lsB s)) of
             Some (e, c) \<Rightarrow> receive (some_order (lsBatch s @ (if is_line e then [e] else []))) e c s
           | None \<Rightarrow> (if ch_closed (lbIn (lsB s)) then begin_flush (some_order (lsBatch s)) Returning s else s))
      | Writing [] n k \<Rightarrow> s\<lparr>lsBatch := [], lsFlusher := Releasing n k\<rparr>
      | Writing ((key, es) # todo) n k \<Rightarrow> write_group False 0 key es s\<lparr>lsFlusher := Writing todo n k\<rparr>
      | Releasing n k \<Rightarrow> add_inflight (- n) s\<lparr>lsFlusher := Flushed k\<rparr>
      | Flushed k \<Rightarrow> flushed k s
      | Gone \<Rightarrow> s)"

lemma flusher_next_step:
  assumes "lsFlusher s \<noteq> Gone" and "ch_closed (lbIn (lsB s)) \<or> lsFlusher s \<noteq> Selecting \<or> ch_buf (lbIn (lsB s)) \<noteq> []"
  shows "flusher_step s (flusher_next s)"
proof (cases "lsFlusher s")
  case Selecting
  show ?thesis
  proof (cases "try_recv (lbIn (lsB s))")
    case None
    then have "ch_buf (lbIn (lsB s)) = []" by (simp add: try_recv_def split: list.splits)
    with Selecting None assms(2) show ?thesis
      by (auto simp: flusher_next_def intro: flusher_step.closed)
  next
    case (Some ec)
    with Selecting show ?thesis
      by (cases ec) (simp add: flusher_next_def flusher_step.entry)
  qed
next
  case (Writing todo n k)
  then show ?thesis
    by (cases todo rule: list.exhaust) (auto simp: flusher_next_def intro: flusher_step.written flusher_step.sink)
qed (use assms in \<open>auto simp: flusher_next_def intro: flusher_step.released flusher_step.continue\<close>)

lemma flusher_step_closed: "flusher_step s t \<Longrightarrow> ch_closed (lbIn (lsB t)) = ch_closed (lbIn (lsB s))"
  by (erule flusher_step.cases; auto simp: lb_ops split: lb_splits dest!: recv_facts)

lemma flusher_finishes:
  "batch_ok s \<Longrightarrow> ch_closed (lbIn (lsB s)) \<Longrightarrow> \<exists>t. flusher_step\<^sup>*\<^sup>* s t \<and> lsFlusher t = Gone"
proof (induction "stop_bound s" arbitrary: s rule: less_induct)
  case less
  show ?case
  proof (cases "lsFlusher s = Gone")
    case False
    have step: "flusher_step s (flusher_next s)"
      by (rule flusher_next_step [OF False]) (simp add: less.prems)
    from less.hyps [OF flusher_step_decreases [OF less.prems(1) this] batch_ok_flusher [OF less.prems(1) this]]
      flusher_step_closed [OF this] less.prems(2)
    obtain t where "flusher_step\<^sup>*\<^sup>* (flusher_next s) t" "lsFlusher t = Gone" by blast
    with step show ?thesis by (meson converse_rtranclp_into_rtranclp)
  qed blast
qed

lemma flusher_run_bounded:
  "(flusher_step ^^ n) s t \<Longrightarrow> batch_ok s \<Longrightarrow> n + stop_bound t \<le> stop_bound s \<and> batch_ok t"
proof (induction n arbitrary: t)
  case (Suc n)
  then obtain u where u: "(flusher_step ^^ n) s u" "flusher_step u t" by auto
  from Suc.IH [OF u(1) Suc.prems(2)] flusher_step_decreases [OF _ u(2)] batch_ok_flusher [OF _ u(2)]
  show ?case by fastforce
qed simp

section \<open>Properties\<close>

text \<open>
  The buffer of a stream is bounded, whatever is pushed and however slow the store is. The
  channel, the batch and the bytes of log text they hold never exceed the clamped limits, these
  are at most 65536 lines and 512 MiB, and the byte counter stays within its limit on both sides
  although it is updated after the send.
\<close>

theorem log_buffer_bounded:
  assumes "is_start cfg s" and "stream_step\<^sup>*\<^sup>* s t"
  shows "let c = clamped cfg; b = lsB t in
    int (length (ch_buf (lbIn b))) \<le> cfMaxLines c \<and> int (length (lsBatch t)) \<le> cfBatchSize c \<and>
    entry_bytes (ch_buf (lbIn b)) + entry_bytes (lsBatch t) \<le> cfMaxInflightBytes c \<and>
    \<bar>lbInflightBytes b\<bar> \<le> cfMaxInflightBytes c \<and>
    cfMaxLines c \<le> 65536 \<and> cfMaxInflightBytes c \<le> 536870912"
proof -
  have inv: "lb_inv cfg t" by (rule log_streams.inv_reachable [OF assms])
  have batch: "length (lsBatch t) \<le> lbBatchSize (lsB t)"
    using inv by (cases "lsFlusher t") (auto simp: lb_inv_def batch_ok_def)
  have pos: "0 \<le> entry_bytes (ch_buf (lbIn (lsB t)))" "0 \<le> entry_bytes (lsBatch t)"
    "0 \<le> entry_bytes (in_hand (lsProducer t))"
    by (simp_all add: entry_bytes_nonneg)
  with inv batch clamped_bounds [of cfg] show ?thesis
    by (auto simp: Let_def lb_inv_def chan_inv_def chan_ok_def bytes_ok_def retained_def logMaxLinesCeiling_def
        logMaxInflightBytesCeiling_def)
qed

text \<open>What one bulk insert leaves in the table: a row for the key of every line, and nothing else new.\<close>

lemma bulk_insert_rows:
  "(\<forall>l\<in>set ls. list_ex (same_log_key (log_row now l)) (bulkInsertLogLinesQ now ls rows)) \<and>
   set rows \<subseteq> set (bulkInsertLogLinesQ now ls rows) \<and>
   set (bulkInsertLogLinesQ now ls rows) \<subseteq> set rows \<union> log_row now ` set ls"
proof (induction ls arbitrary: rows)
  case (Cons l ls)
  let ?rows = "if list_ex (same_log_key (log_row now l)) rows then rows else rows @ [log_row now l]"
  have "list_ex (same_log_key (log_row now l)) ?rows" by (simp add: same_log_key_def)
  with Cons.IH [of ?rows] have "list_ex (same_log_key (log_row now l)) (bulkInsertLogLinesQ now ls ?rows)"
    by (auto simp only: list_ex_iff)
  moreover have "set rows \<subseteq> set ?rows" "set ?rows \<subseteq> set rows \<union> {log_row now l}" by auto
  ultimately show ?case using Cons.IH [of ?rows] by (simp only: bulkInsertLogLinesQ.simps list.set ball_simps) blast
qed simp

definition newly_persisted :: "log_stream \<Rightarrow> log_stream \<Rightarrow> LogLine set" where
  "newly_persisted t u = {plLine e | e. (e, Persisted) \<in> set (drop (length (lsSettled t)) (lsSettled u))}"

lemma write_group_rows:
  fixes t fails now key es
  defines "u \<equiv> write_group fails now key es t"
  shows "(\<forall>l\<in>newly_persisted t u. list_ex (same_log_key (log_row now l)) (lsRows u)) \<and>
    set (lsRows t) \<subseteq> set (lsRows u) \<and> set (lsRows u) \<subseteq> set (lsRows t) \<union> log_row now ` newly_persisted t u"
proof -
  obtain r rows where r: "BulkInsertLogLinesForJob fails now (fst key) (lbAgentID (lsB t)) (snd key) (map plLine es)
      (lsDB t) (lsRows t) = (r, rows)" by (rule prod.exhaust)
  then have u: "lsRows u = rows" "newly_persisted t u = (if r = SinkOk then plLine ` set es else {})"
    by (auto simp: u_def write_group_def newly_persisted_def outcome_of_def split: sink_result.splits)
  have "rows = (if r = SinkOk then bulkInsertLogLinesQ now (map plLine es) (lsRows t) else lsRows t)"
    using r by (auto simp: BulkInsertLogLinesForJob_def split: if_splits option.splits)
  then show ?thesis
    using bulk_insert_rows [of "map plLine es" now "lsRows t"] unfolding u by auto
qed

lemma step_rows:
  assumes "loop_step t u \<or> flusher_step t u"
  shows "\<exists>now. (\<forall>l\<in>newly_persisted t u. list_ex (same_log_key (log_row now l)) (lsRows u)) \<and>
    set (lsRows t) \<subseteq> set (lsRows u) \<and> set (lsRows u) \<subseteq> set (lsRows t) \<union> log_row now ` newly_persisted t u"
proof -
  note ops = newly_persisted_def Push_def AfterFlush_def sent_def give_up_def add_inflight_def Discard_def Stop_def
    begin_flush_def receive_def flushed_def Let_def
  from assms have "lsRows u = lsRows t \<and> newly_persisted t u = {} \<or>
      (\<exists>key es todo n k fails now. u = write_group fails now key es t\<lparr>lsFlusher := Writing todo n k\<rparr>)"
  proof
    assume "loop_step t u"
    then have "lsRows u = lsRows t \<and> newly_persisted t u = {}"
      by cases (auto simp: ops split: if_splits option.splits)
    then show ?thesis ..
  next
    assume "flusher_step t u"
    then show ?thesis
    proof cases
      case (sink key es todo n k fails now)
      then show ?thesis by blast
    qed (auto simp: ops split: if_splits option.splits continuation.splits)
  qed
  then show ?thesis
  proof (elim disjE exE)
    fix key es todo n k fails now
    assume u: "u = write_group fails now key es t\<lparr>lsFlusher := Writing todo n k\<rparr>"
    then have "newly_persisted t u = newly_persisted t (write_group fails now key es t)" "lsRows u = lsRows (write_group fails now key es t)"
      by (simp_all add: newly_persisted_def)
    then show ?thesis using write_group_rows [of t fails now key es] by metis
  qed simp
qed

text \<open>
  C39: no log line disappears without a trace. At any moment every pushed line is settled by a
  successful store call, counted on exactly one drop counter, or still on its way; and when the
  flusher has returned and the stream was not canceled, nothing is on its way any more. A line
  settled by a successful call has a row of its key (job, sequence number, time) in the log
  table: the step that settles lines removes no row and adds only rows of these lines. (The row
  of the key need not be the line's own: \<open>ON CONFLICT DO NOTHING\<close> keeps the earlier row of two
  lines with the same key, and no counter shows that.)
\<close>

theorem log_lines_accounted:
  assumes "is_start cfg s" and "stream_step\<^sup>*\<^sup>* s t"
  shows "(let b = lsB t;
      counted = lbDropBackpressure b + lbDropBytesFull b + lbSessionDiscarded b + lbDropSnapshotStale b + lbDropFlushFailed b;
      under_way = length (unsettled (lsFlusher t) (lsBatch t)) + length (filter is_line (ch_buf (lbIn b)))
        + length (filter is_line (in_hand (lsProducer t)))
    in lsPushed t = settled_as Persisted t + counted + under_way \<and>
      (lsFlusher t = Gone \<longrightarrow> \<not> lsCanceled t \<longrightarrow> under_way = 0)) \<and>
    (\<forall>u. loop_step t u \<or> flusher_step t u \<longrightarrow> (\<exists>now.
      (\<forall>l\<in>newly_persisted t u. list_ex (same_log_key (log_row now l)) (lsRows u)) \<and>
      set (lsRows t) \<subseteq> set (lsRows u) \<and> set (lsRows u) \<subseteq> set (lsRows t) \<union> log_row now ` newly_persisted t u))"
proof (intro conjI allI impI step_rows)
  have inv: "lb_inv cfg t" by (rule log_streams.inv_reachable [OF assms])
  then have "counters_ok t" "batch_ok t" "exit_ok t" by (simp_all add: lb_inv_def)
  then show "let b = lsB t;
      counted = lbDropBackpressure b + lbDropBytesFull b + lbSessionDiscarded b + lbDropSnapshotStale b + lbDropFlushFailed b;
      under_way = length (unsettled (lsFlusher t) (lsBatch t)) + length (filter is_line (ch_buf (lbIn b)))
        + length (filter is_line (in_hand (lsProducer t)))
    in lsPushed t = settled_as Persisted t + counted + under_way \<and>
      (lsFlusher t = Gone \<longrightarrow> \<not> lsCanceled t \<longrightarrow> under_way = 0)"
    by (auto simp: counters_ok_def batch_ok_def exit_ok_def Let_def)
qed assumption

text \<open>
  A barrier runs behind the lines before it. When the callback that archives a job runs,
  every line accepted into the channel before that barrier has been settled: written, stale,
  failed or discarded; none of them is still in the channel or the batch.
\<close>

theorem barrier_after_lines:
  assumes "is_start cfg s" and "stream_step\<^sup>*\<^sup>* s t" and "stream_step t u" and "lsRan u = lsRan t @ [job]"
  shows "\<exists>before e after. lsAccepted t = before @ e # after \<and> plAfterFlush e = Some job \<and>
    mset (filter is_line before) = mset (map fst (lsSettled t))"
proof -
  have inv: "lb_inv cfg t" by (rule log_streams.inv_reachable [OF assms(1,2)])
  have at: "lsFlusher t = Flushed (Barrier job)"
    using assms(3,4) unfolding stream_step_def
    by (elim lb_cases; hypsubst?; auto simp: lb_ops split: lb_splits)
  with inv obtain pre e where "lsReceived t = pre @ [e]" "plAfterFlush e = Some job"
    by (auto simp: lb_inv_def barrier_ok_def)
  with inv at show ?thesis
    by (intro exI [of _ pre] exI [of _ e] exI [of _ "ch_buf (lbIn (lsB t))"])
      (auto simp: lb_inv_def settled_ok_def batch_ok_def simp del: mset_map mset_filter)
qed

text \<open>
  C40: Stop returns. Once the channel is closed the flusher can always go on until it has
  returned, and every run of its steps is bounded by the entries queued, the batch and the
  groups of a flush under way.
\<close>

theorem stop_returns:
  assumes "is_start cfg s" and "stream_step\<^sup>*\<^sup>* s t" and "lsProducer t = Stopped"
  shows "(\<exists>u. flusher_step\<^sup>*\<^sup>* t u \<and> lsFlusher u = Gone) \<and>
    (\<forall>n u. (flusher_step ^^ n) t u \<longrightarrow> n \<le> stop_bound t)"
proof -
  have inv: "lb_inv cfg t" by (rule log_streams.inv_reachable [OF assms(1,2)])
  with assms(3) flusher_finishes [of t] flusher_run_bounded [of _ t] show ?thesis
    by (fastforce simp: lb_inv_def exit_ok_def)
qed

section \<open>Witnesses\<close>

definition loop_next :: "log_stream \<Rightarrow> log_stream" where
  "loop_next s =
     (case lsProducer s of
        Offering e \<Rightarrow> (case try_send (lbIn (lsB s)) e of Sent c \<Rightarrow> sent e c s | _ \<Rightarrow> s)
      | Counting n \<Rightarrow> add_inflight n s\<lparr>lsProducer := Idle\<rparr>
      | _ \<Rightarrow> s)"

lemma loop_next_steps: "stream_step\<^sup>*\<^sup>* s (loop_next s)"
  by (auto simp: loop_next_def stream_step_def split: producer.splits send_result.splits
      intro!: r_into_rtranclp intro: loop_step.offer_sent loop_step.counted)

lemma flusher_next_steps:
  "ch_closed (lbIn (lsB s)) \<or> lsFlusher s \<noteq> Selecting \<or> ch_buf (lbIn (lsB s)) \<noteq> [] \<Longrightarrow>
   stream_step\<^sup>*\<^sup>* s (flusher_next s)"
  by (cases "lsFlusher s = Gone") (simp add: flusher_next_def,
    metis flusher_next_step stream_step_def r_into_rtranclp)

text \<open>One line and the barrier of its job, on a stream of agent 7, which runs job 100.\<close>

definition ex_log_config :: logBatcherConfig where
  "ex_log_config = \<lparr>cfBatchSize = 2, cfFlushEvery = 5, cfMaxLines = 4, cfMaxInflightBytes = 0\<rparr>"

definition ex_log_line :: LogLine where
  "ex_log_line = \<lparr>llJobRunID = 100, llSeq = 1, llStream = ''stdout'', llAt = Some 3, llText = ''ok''\<rparr>"

definition ex_log_db :: DB where
  "ex_log_db =
     \<lparr>dbRuns = [], dbStages = [],
      dbJobs = [\<lparr>jrID = 100, jrRunID = 1, jrStageRunID = 10, jrName = ''unit'', jrMatrixKey = [], jrNeeds = [],
        jrStatus = StatusRunning, jrAgentID = Some 7, jrAttempt = 0, jrExitCode = None, jrError = None,
        jrOutputs = [], jrCancelRequested = False, jrCancelOrigin = None, jrApprovalGate = False,
        jrRetryUnsafe = False\<rparr>],
      dbEvents = []\<rparr>"

definition ex_started :: log_stream where
  "ex_started = start_stream 7 ex_log_config ex_log_db []"

definition ex_pushed :: log_stream where
  "ex_pushed = loop_next (loop_next (Push ex_log_line 0 ex_started))"

definition ex_queued :: log_stream where
  "ex_queued = loop_next (AfterFlush 100 ex_pushed)"

definition ex_flushed :: log_stream where
  "ex_flushed = flusher_next (flusher_next (flusher_next (flusher_next (flusher_next ex_queued))))"

lemma ex_started: "is_start ex_log_config ex_started"
  by (auto simp: is_start_def ex_started_def)

lemma ex_pushed_reached: "stream_step\<^sup>*\<^sup>* ex_started ex_pushed"
proof -
  have "stream_step ex_started (Push ex_log_line 0 ex_started)"
    by (simp add: stream_step_def loop_step.push ex_started_def start_stream_def)
  then show ?thesis
    unfolding ex_pushed_def by (meson loop_next_steps converse_rtranclp_into_rtranclp rtranclp_trans)
qed

lemma ex_queued_reached: "stream_step\<^sup>*\<^sup>* ex_started ex_queued"
proof -
  have "lsProducer ex_pushed = Idle" by code_simp
  then have "stream_step ex_pushed (AfterFlush 100 ex_pushed)"
    by (simp add: stream_step_def loop_step.barrier)
  with ex_pushed_reached show ?thesis
    unfolding ex_queued_def by (meson loop_next_steps rtranclp.rtrancl_into_rtrancl rtranclp_trans)
qed

lemma ex_flushed_reached: "stream_step\<^sup>*\<^sup>* ex_started ex_flushed"
proof -
  have "ch_buf (lbIn (lsB ex_queued)) \<noteq> []" by code_simp
  moreover have "ch_buf (lbIn (lsB (flusher_next ex_queued))) \<noteq> []" by code_simp
  moreover have "lsFlusher (flusher_next (flusher_next ex_queued)) \<noteq> Selecting" by code_simp
  moreover have "lsFlusher (flusher_next (flusher_next (flusher_next ex_queued))) \<noteq> Selecting" by code_simp
  moreover have "lsFlusher (flusher_next (flusher_next (flusher_next (flusher_next ex_queued)))) \<noteq> Selecting" by code_simp
  ultimately show ?thesis
    unfolding ex_flushed_def using ex_queued_reached by (meson flusher_next_steps rtranclp_trans)
qed

theorem log_buffer_bounded_witness:
  "entry_bytes (ch_buf (lbIn (lsB ex_queued))) + entry_bytes (lsBatch ex_queued) \<le> 1048576"
proof -
  have "cfMaxInflightBytes (clamped ex_log_config) = 1048576" by code_simp
  with log_buffer_bounded [OF ex_started ex_queued_reached] show ?thesis by (simp add: Let_def)
qed

theorem log_lines_accounted_witness: "settled_as Persisted ex_flushed = 1"
proof -
  have "lsPushed ex_flushed = 1" "lbDropBackpressure (lsB ex_flushed) = 0" "lbDropBytesFull (lsB ex_flushed) = 0"
    "lbSessionDiscarded (lsB ex_flushed) = 0" "lbDropSnapshotStale (lsB ex_flushed) = 0"
    "lbDropFlushFailed (lsB ex_flushed) = 0" "unsettled (lsFlusher ex_flushed) (lsBatch ex_flushed) = []"
    "filter is_line (ch_buf (lbIn (lsB ex_flushed))) = []" "in_hand (lsProducer ex_flushed) = []"
    by code_simp+
  with conjunct1 [OF log_lines_accounted [OF ex_started ex_flushed_reached]] show ?thesis by (simp add: Let_def)
qed

theorem barrier_after_lines_witness:
  "\<exists>before e after. lsAccepted ex_flushed = before @ e # after \<and> plAfterFlush e = Some 100 \<and>
    mset (filter is_line before) = mset (map fst (lsSettled ex_flushed))"
proof -
  have "lsFlusher ex_flushed \<noteq> Gone" "lsFlusher ex_flushed \<noteq> Selecting" by code_simp+
  then have "stream_step ex_flushed (flusher_next ex_flushed)"
    using flusher_next_step by (simp add: stream_step_def)
  moreover have "lsRan (flusher_next ex_flushed) = lsRan ex_flushed @ [100]" by code_simp
  ultimately show ?thesis
    by (rule barrier_after_lines [OF ex_started ex_flushed_reached])
qed

theorem stop_returns_witness: "\<exists>u. flusher_step\<^sup>*\<^sup>* (Stop ex_queued) u \<and> lsFlusher u = Gone"
proof -
  have "lsProducer ex_queued = Idle" by code_simp
  then have "stream_step ex_queued (Stop ex_queued)" by (simp add: stream_step_def loop_step.stop)
  with ex_queued_reached have "stream_step\<^sup>*\<^sup>* ex_started (Stop ex_queued)" by (rule rtranclp.rtrancl_into_rtrancl)
  from stop_returns [OF ex_started this] show ?thesis by (simp add: Stop_def)
qed

text \<open>
  The cancellation of the stream's context makes \<open>run\<close> return after flushing its batch only:
  what is still on the channel is then neither written nor counted, and \<open>Stop\<close> no longer
  drains it.
\<close>

lemma canceled_stream_loses_lines:
  "\<exists>t. stream_step\<^sup>*\<^sup>* ex_started t \<and> lsFlusher t = Gone \<and> lsProducer t = Stopped \<and> lsPushed t = 1 \<and>
     lsSettled t = [] \<and> lsRows t = [] \<and> length (filter is_line (ch_buf (lbIn (lsB t)))) = 1 \<and>
     lbDropBackpressure (lsB t) + lbDropBytesFull (lsB t) + lbSessionDiscarded (lsB t)
       + lbDropSnapshotStale (lsB t) + lbDropFlushFailed (lsB t) = 0"
proof -
  let ?c = "ex_pushed\<lparr>lsCanceled := True\<rparr>"
  let ?r = "begin_flush [] Returning ?c"
  let ?g = "flushed Returning ?r"
  have at: "lsFlusher ?c = Selecting" "lsBatch ?c = []" "lsProducer ?g = Idle" "lsFlusher ?r = Flushed Returning"
    by code_simp+
  have "stream_step ex_pushed ?c" "stream_step ?c ?r" "stream_step ?r ?g" "stream_step ?g (Stop ?g)"
    using at flusher_step.canceled [of ?c "[]"] flusher_step.continue [of ?r Returning] loop_step.stop [of ?g]
    by (simp_all add: stream_step_def outside_step.cancel key_order_def)
  with ex_pushed_reached have reached: "stream_step\<^sup>*\<^sup>* ex_started (Stop ?g)"
    by (meson rtranclp.rtrancl_into_rtrancl)
  show ?thesis by (rule exI [of _ "Stop ?g"], intro conjI, rule reached) code_simp+
qed

end
