(* ===== verification/RunLocal.thy ===== *)
theory RunLocal
  imports GateGraph GoStrings "HOL-Library.Multiset"
begin

text \<open>
  The execution plan of \<open>gocdnext run-local\<close> (\<open>cli/internal/runlocal/plan.go\<close>): the
  topological sort of a stage, the expansion of a job into its matrix cells, and \<open>Build\<close>.
  Go's Unicode tables are a parameter; the errors carry what the Go messages name.
\<close>

section \<open>Topological sort\<close>

text \<open>\<open>index\<close> maps a name to the last job of that name; needs outside the stage are dropped.\<close>

definition topo_index :: "Job list \<Rightarrow> string \<rightharpoonup> nat" where
  "topo_index jobs = map_of (rev (zip (map jName jobs) [0..<length jobs]))"

definition topo_needs :: "Job list \<Rightarrow> nat \<Rightarrow> nat list" where
  "topo_needs jobs i = List.map_filter (topo_index jobs) (jNeeds (jobs ! i))"

definition topo_indeg :: "Job list \<Rightarrow> int list" where
  "topo_indeg jobs = map (\<lambda>i. int (length (topo_needs jobs i))) [0..<length jobs]"

definition topo_dependents :: "Job list \<Rightarrow> nat \<Rightarrow> nat list" where
  "topo_dependents jobs d =
     concat (map (\<lambda>i. map (\<lambda>_. i) (filter (\<lambda>x. x = d) (topo_needs jobs i))) [0..<length jobs])"

text \<open>
  The inner loop over the dependents: the indegrees and the jobs that became ready, in order.
  All indices are those of jobs; one out of range would panic.
\<close>

fun release :: "int list \<Rightarrow> nat list \<Rightarrow> int list \<times> nat list" where
  "release indeg [] = (indeg, [])"
| "release indeg (d # ds) =
     (let indeg' = indeg[d := indeg ! d - 1] in
      case release indeg' ds of (r, ready) \<Rightarrow>
        (r, if d < length indeg \<and> indeg' ! d = 0 then d # ready else ready))"

definition waiting :: "int list \<Rightarrow> nat set" where
  "waiting indeg = {i. i < length indeg \<and> 0 < indeg ! i}"

lemma finite_waiting [simp]: "finite (waiting indeg)"
  by (simp add: waiting_def)

lemma release_waiting: "card (waiting (fst (release indeg ds))) + length (snd (release indeg ds)) \<le> card (waiting indeg)"
proof (induction indeg ds rule: release.induct)
  case (2 indeg d ds)
  let ?indeg = "indeg[d := indeg ! d - 1]"
  note IH = 2 [OF refl]
  show ?case
  proof (cases "d < length indeg \<and> ?indeg ! d = 0")
    case True
    then have "waiting ?indeg = waiting indeg - {d}" "d \<in> waiting indeg"
      by (auto simp: waiting_def nth_list_update split: if_splits)
    then have "Suc (card (waiting ?indeg)) = card (waiting indeg)" by (metis card_Suc_Diff1 finite_waiting)
    with IH True show ?thesis by (auto simp: Let_def split: prod.split)
  next
    case False
    have "waiting ?indeg \<subseteq> waiting indeg"
      by (cases "d < length indeg") (auto simp: waiting_def nth_list_update split: if_splits)
    then have "card (waiting ?indeg) \<le> card (waiting indeg)" by (simp add: card_mono)
    with IH False show ?thesis by (auto simp: Let_def split: prod.split)
  qed
qed simp

lemma release_pair:
  "(r, ready) = release indeg ds \<Longrightarrow> card (waiting r) + length ready \<le> card (waiting indeg)"
  using release_waiting [of indeg ds] by (metis fst_conv snd_conv)

function topo_loop :: "Job list \<Rightarrow> int list \<Rightarrow> nat list \<Rightarrow> Job list" where
  "topo_loop jobs indeg [] = []"
| "topo_loop jobs indeg (i # queue) =
     (case release indeg (topo_dependents jobs i) of
        (indeg', ready) \<Rightarrow> jobs ! i # topo_loop jobs indeg' (queue @ ready))"
  by pat_completeness auto

termination
  by (relation "measure (\<lambda>(jobs, indeg, queue). card (waiting indeg) + length queue)")
    (auto dest: release_pair)

definition topoSort :: "Job list \<Rightarrow> Job list option" where
  "topoSort jobs =
     (let indeg = topo_indeg jobs;
          out = topo_loop jobs indeg (filter (\<lambda>i. indeg ! i = 0) [0..<length jobs])
      in if length out \<noteq> length jobs then None else Some out)"

text \<open>The effect of one round of releases on indegrees that cover all releases.\<close>

lemma release_indeg:
  assumes "\<forall>k\<in>set ds. k < length indeg"
  shows "length (fst (release indeg ds)) = length indeg \<and>
    (\<forall>k<length indeg. fst (release indeg ds) ! k = indeg ! k - int (count_list ds k))"
  using assms
proof (induction indeg ds rule: release.induct)
  case (2 indeg d ds)
  then show ?case by (auto simp: Let_def nth_list_update split: prod.splits)
qed simp

lemma release_ready:
  assumes "\<forall>k\<in>set ds. k < length indeg" and "\<forall>k<length indeg. int (count_list ds k) \<le> indeg ! k"
  shows "distinct (snd (release indeg ds)) \<and>
    set (snd (release indeg ds)) = {k \<in> set ds. indeg ! k = int (count_list ds k)}"
  using assms
proof (induction indeg ds rule: release.induct)
  case (2 indeg d ds)
  let ?indeg = "indeg[d := indeg ! d - 1]"
  have d: "d < length indeg" using "2.prems" by simp
  have le: "\<forall>k<length ?indeg. int (count_list ds k) \<le> ?indeg ! k"
  proof (intro allI impI)
    fix k assume "k < length ?indeg"
    with "2.prems"(2) have "int (count_list (d # ds) k) \<le> indeg ! k" by simp
    then show "int (count_list ds k) \<le> ?indeg ! k"
      using d by (cases "k = d") (auto split: if_splits)
  qed
  have "\<forall>k\<in>set ds. k < length ?indeg" using "2.prems" by simp
  note IH = "2.IH" [OF refl this le]
  have "count_list ds d = 0 \<Longrightarrow> d \<notin> set ds" by (simp add: count_list_0_iff)
  with IH le d show ?case
    by (auto simp: Let_def nth_list_update split: prod.splits if_splits) 
qed simp

text \<open>Facts on the index tables.\<close>

lemma topo_index_range: "topo_index jobs n = Some d \<Longrightarrow> d < length jobs \<and> jName (jobs ! d) = n"
  unfolding topo_index_def by (drule map_of_SomeD) (auto simp: set_zip)

lemma topo_index_distinct:
  "distinct (map jName jobs) \<Longrightarrow> d < length jobs \<Longrightarrow> topo_index jobs (jName (jobs ! d)) = Some d"
  unfolding topo_index_def
  by (rule map_of_is_SomeI) (auto simp: rev_map [symmetric] set_zip intro!: exI [of _ d])

lemma in_topo_needs: "d \<in> set (topo_needs jobs i) \<longleftrightarrow> (\<exists>n\<in>set (jNeeds (jobs ! i)). topo_index jobs n = Some d)"
  by (auto simp: topo_needs_def map_filter_def image_iff)

lemma topo_needs_range: "d \<in> set (topo_needs jobs i) \<Longrightarrow> d < length jobs"
  by (auto simp: in_topo_needs dest: topo_index_range)

lemma count_replicate_map: "count_list (map (\<lambda>_. i) xs) k = (if k = i then length xs else 0)"
  by (induction xs) auto

lemma count_filter: "length (filter (\<lambda>x. x = d) xs) = count_list xs d"
  by (induction xs) auto

lemma count_topo_dependents:
  assumes "k < length jobs"
  shows "count_list (topo_dependents jobs d) k = count_list (topo_needs jobs k) d"
proof -
  have "count_list (concat (map (\<lambda>i. map (\<lambda>_. i) (filter (\<lambda>x. x = d) (topo_needs jobs i))) is)) k =
      (\<Sum>i\<leftarrow>is. if i = k then count_list (topo_needs jobs k) d else 0)" for "is"
    by (induction "is") (auto simp: count_replicate_map count_filter)
  moreover have "(\<Sum>i\<leftarrow>[0..<n]. if i = k then c else 0) = (if k < n then c else 0)" for n and c :: nat
    by (induction n) auto
  ultimately show ?thesis using assms by (simp add: topo_dependents_def)
qed

lemma topo_dependents_range: "k \<in> set (topo_dependents jobs d) \<Longrightarrow> k < length jobs"
  by (auto simp: topo_dependents_def)

text \<open>Kahn's invariant: the indegree of a job counts its needs that are not yet emitted.\<close>

definition open_needs :: "Job list \<Rightarrow> nat list \<Rightarrow> nat \<Rightarrow> nat list" where
  "open_needs jobs emitted k = filter (\<lambda>d. d \<notin> set emitted) (topo_needs jobs k)"

definition kahn :: "Job list \<Rightarrow> nat list \<Rightarrow> int list \<Rightarrow> nat list \<Rightarrow> bool" where
  "kahn jobs emitted indeg queue =
     (length indeg = length jobs \<and> distinct (emitted @ queue) \<and> set (emitted @ queue) \<subseteq> {..<length jobs} \<and>
      (\<forall>k<length jobs. indeg ! k = int (length (open_needs jobs emitted k))) \<and>
      (\<forall>k<length jobs. indeg ! k = 0 \<longleftrightarrow> k \<in> set (emitted @ queue)))"

lemma open_needs_emit:
  "i \<notin> set emitted \<Longrightarrow>
   length (open_needs jobs emitted k) = length (open_needs jobs (emitted @ [i]) k) + count_list (topo_needs jobs k) i"
proof -
  assume "i \<notin> set emitted"
  then have "length (filter (\<lambda>d. d \<notin> set emitted) ns) = length (filter (\<lambda>d. d \<notin> set (emitted @ [i])) ns) + count_list ns i"
    for ns by (induction ns) auto
  then show ?thesis by (simp only: open_needs_def)
qed

lemma kahn_step:
  assumes inv: "kahn jobs emitted indeg (i # queue)" and rel: "release indeg (topo_dependents jobs i) = (indeg', ready)"
  shows "kahn jobs (emitted @ [i]) indeg' (queue @ ready)"
proof -
  let ?ds = "topo_dependents jobs i"
  note K = inv [unfolded kahn_def]
  have range: "\<forall>k\<in>set ?ds. k < length indeg" using K topo_dependents_range by auto
  have new: "i \<notin> set emitted" using K by simp
  have split: "indeg ! k = int (length (open_needs jobs (emitted @ [i]) k)) + int (count_list ?ds k)" if "k < length jobs" for k
    using K that open_needs_emit [OF new, of jobs k] count_topo_dependents [OF that, of i] by simp
  then have le: "\<forall>k<length indeg. int (count_list ?ds k) \<le> indeg ! k" using K by simp
  have indeg': "length indeg' = length jobs"
    "\<And>k. k < length jobs \<Longrightarrow> indeg' ! k = int (length (open_needs jobs (emitted @ [i]) k))"
    using release_indeg [OF range] rel split K by auto
  have ready: "distinct ready" "set ready = {k \<in> set ?ds. indeg ! k = int (count_list ?ds k)}"
    using release_ready [OF range le] rel by auto
  have pos: "0 < indeg ! k" if "k \<in> set ready" for k
  proof -
    have "count_list ?ds k \<noteq> 0" "indeg ! k = int (count_list ?ds k)"
      using that ready(2) by (simp_all add: count_list_0_iff)
    then show ?thesis by simp
  qed
  have fresh: "k < length jobs" "k \<notin> set (emitted @ i # queue)" if "k \<in> set ready" for k
    using that ready(2) range K pos [OF that] by auto
  have "indeg' ! k = 0 \<longleftrightarrow> k \<in> set ((emitted @ [i]) @ queue @ ready)" if k: "k < length jobs" for k
  proof (cases "k \<in> set ?ds")
    case True
    then have "0 < count_list ?ds k" by (metis count_list_0_iff neq0_conv)
    then have "k \<notin> set (emitted @ i # queue)" using K k le by fastforce
    with True ready(2) split [OF k] indeg'(2) [OF k] show ?thesis by auto
  next
    case False
    then have "indeg ! k = indeg' ! k" using split [OF k] indeg'(2) [OF k] by (simp add: count_list_0_iff [symmetric])
    with False ready(2) K k show ?thesis by auto
  qed
  with indeg' ready(1) fresh K show ?thesis
    unfolding kahn_def by auto
qed

definition ordered_from :: "Job list \<Rightarrow> nat list \<Rightarrow> nat list \<Rightarrow> bool" where
  "ordered_from jobs emitted idx =
     (\<forall>xs i ys. idx = xs @ i # ys \<longrightarrow> set (topo_needs jobs i) \<subseteq> set emitted \<union> set xs)"

lemma ordered_from_Cons:
  "ordered_from jobs emitted (i # idx) \<longleftrightarrow>
     set (topo_needs jobs i) \<subseteq> set emitted \<and> ordered_from jobs (emitted @ [i]) idx"
  unfolding ordered_from_def
proof (intro iffI conjI allI impI; (elim conjE)?)
  fix xs k ys
  assume "set (topo_needs jobs i) \<subseteq> set emitted"
    and "\<forall>xs k ys. idx = xs @ k # ys \<longrightarrow> set (topo_needs jobs k) \<subseteq> set (emitted @ [i]) \<union> set xs"
    and "i # idx = xs @ k # ys"
  then show "set (topo_needs jobs k) \<subseteq> set emitted \<union> set xs"
    by (cases xs) auto
next
  fix xs k ys
  assume "\<forall>xs k ys. i # idx = xs @ k # ys \<longrightarrow> set (topo_needs jobs k) \<subseteq> set emitted \<union> set xs"
    and "idx = xs @ k # ys"
  then show "set (topo_needs jobs k) \<subseteq> set (emitted @ [i]) \<union> set xs"
    by (metis Cons_eq_appendI Un_insert_left Un_insert_right list.simps(15) set_append set_simps(1) sup_bot.right_neutral)
qed fastforce

lemma topo_loop_spec:
  assumes "kahn jobs emitted indeg queue"
  shows "\<exists>idx. topo_loop jobs indeg queue = map ((!) jobs) idx \<and> distinct (emitted @ idx) \<and>
    set idx \<subseteq> {..<length jobs} \<and> ordered_from jobs emitted idx \<and>
    (\<forall>k<length jobs. set (topo_needs jobs k) \<subseteq> set (emitted @ idx) \<longrightarrow> k \<in> set (emitted @ idx))"
  using assms
proof (induction jobs indeg queue arbitrary: emitted rule: topo_loop.induct)
  case (1 jobs indeg)
  have "k \<in> set emitted" if "k < length jobs" "set (topo_needs jobs k) \<subseteq> set emitted" for k
  proof -
    have "open_needs jobs emitted k = []" using that(2) by (auto simp: open_needs_def filter_empty_conv)
    moreover have "indeg ! k = int (length (open_needs jobs emitted k))" "indeg ! k = 0 \<longleftrightarrow> k \<in> set (emitted @ [])"
      using 1 that(1) unfolding kahn_def by blast+
    ultimately show ?thesis by simp
  qed
  with 1 show ?case by (intro exI [of _ "[]"]) (auto simp: kahn_def ordered_from_def)
next
  case (2 jobs indeg i queue)
  obtain indeg' ready where rel: "release indeg (topo_dependents jobs i) = (indeg', ready)" by fastforce
  from "2.IH" [OF rel [symmetric] kahn_step [OF "2.prems" rel]]
  obtain idx where idx: "topo_loop jobs indeg' (queue @ ready) = map ((!) jobs) idx" "distinct (emitted @ [i] @ idx)"
    "set idx \<subseteq> {..<length jobs}" "ordered_from jobs (emitted @ [i]) idx"
    "\<forall>k<length jobs. set (topo_needs jobs k) \<subseteq> set (emitted @ [i] @ idx) \<longrightarrow> k \<in> set (emitted @ [i] @ idx)"
    by auto
  have "i < length jobs" "indeg ! i = 0" "indeg ! i = int (length (open_needs jobs emitted i))"
    using "2.prems" by (auto simp: kahn_def)
  then have "set (topo_needs jobs i) \<subseteq> set emitted" by (auto simp: open_needs_def filter_empty_conv)
  with idx rel \<open>i < length jobs\<close> show ?case
    by (intro exI [of _ "i # idx"]) (auto simp: ordered_from_Cons)
qed

lemma kahn_init:
  "kahn jobs [] (topo_indeg jobs) (filter (\<lambda>i. topo_indeg jobs ! i = 0) [0..<length jobs])"
  by (auto simp: kahn_def topo_indeg_def open_needs_def)

lemma topoSort_emitted:
  obtains idx where "topo_loop jobs (topo_indeg jobs) (filter (\<lambda>i. topo_indeg jobs ! i = 0) [0..<length jobs]) = map ((!) jobs) idx"
    "distinct idx" "set idx \<subseteq> {..<length jobs}" "ordered_from jobs [] idx"
    "\<And>k. k < length jobs \<Longrightarrow> set (topo_needs jobs k) \<subseteq> set idx \<Longrightarrow> k \<in> set idx"
  using topo_loop_spec [OF kahn_init, of jobs] by auto

text \<open>A sorted stage has each of its jobs once, behind the jobs of the stage it needs.\<close>

lemma topoSort_Some:
  assumes "topoSort jobs = Some out" and names: "distinct (map jName jobs)"
  shows "mset out = mset jobs" and "out = xs @ j # ys \<Longrightarrow> k \<in> set (j # ys) \<Longrightarrow> jName k \<notin> set (jNeeds j)"
proof -
  obtain idx where idx: "topo_loop jobs (topo_indeg jobs) (filter (\<lambda>i. topo_indeg jobs ! i = 0) [0..<length jobs]) = map ((!) jobs) idx"
    "distinct idx" "set idx \<subseteq> {..<length jobs}" "ordered_from jobs [] idx"
    by (rule topoSort_emitted [of jobs])
  then have out: "out = map ((!) jobs) idx" "length idx = length jobs"
    using assms(1) by (auto simp: topoSort_def Let_def split: if_splits)
  then have set_idx: "set idx = set [0..<length jobs]"
    using card_subset_eq [OF finite_lessThan idx(3)] idx(2) by (simp add: distinct_card atLeast_upt)
  then have "mset idx = mset [0..<length jobs]" 
    using idx(2) by (metis distinct_upt set_eq_iff_mset_eq_distinct)
  then show "mset out = mset jobs" unfolding out(1) by (metis map_nth mset_map)
  assume xs: "out = xs @ j # ys" and k: "k \<in> set (j # ys)"
  obtain is1 i is2 where i: "idx = is1 @ i # is2" "j = jobs ! i" "ys = map ((!) jobs) is2"
    using xs unfolding out(1) by (auto simp: map_eq_append_conv map_eq_Cons_conv)
  obtain d where d: "d \<in> set (i # is2)" "k = jobs ! d" using k i by auto
  then have len: "d < length jobs" "i < length jobs" using set_idx i(1) by auto
  show "jName k \<notin> set (jNeeds j)"
  proof
    assume "jName k \<in> set (jNeeds j)"
    then have "d \<in> set (topo_needs jobs i)"
      using topo_index_distinct [OF names len(1)] d(2) i(2) by (auto simp: in_topo_needs)
    then have "d \<in> set is1" using idx(4) i(1) by (auto simp: ordered_from_def)
    with d(1) idx(2) i(1) show False by auto
  qed
qed

text \<open>A stage that cannot be sorted has jobs that all wait for each other.\<close>

lemma topoSort_None:
  assumes "topoSort jobs = None"
  obtains W where "W \<subseteq> set jobs" "W \<noteq> {}" "\<And>j. j \<in> W \<Longrightarrow> \<exists>k\<in>W. jName k \<in> set (jNeeds j)"
proof -
  obtain idx where idx: "topo_loop jobs (topo_indeg jobs) (filter (\<lambda>i. topo_indeg jobs ! i = 0) [0..<length jobs]) = map ((!) jobs) idx"
    "distinct idx" "set idx \<subseteq> {..<length jobs}"
    "\<And>k. k < length jobs \<Longrightarrow> set (topo_needs jobs k) \<subseteq> set idx \<Longrightarrow> k \<in> set idx"
    by (rule topoSort_emitted [of jobs]) blast
  then have "length idx \<noteq> length jobs" using assms by (auto simp: topoSort_def Let_def split: if_splits)
  then have "set idx \<noteq> {..<length jobs}" using idx(2) by (metis card_lessThan distinct_card)
  with idx(3) obtain i where i: "i < length jobs" "i \<notin> set idx" by blast
  let ?W = "(!) jobs ` ({..<length jobs} - set idx)"
  show thesis
  proof (rule that [of ?W])
    show "?W \<noteq> {}" using i by blast
    fix j assume "j \<in> ?W"
    then obtain k where k: "k < length jobs" "k \<notin> set idx" "j = jobs ! k" by blast
    with idx(4) obtain d where "d \<in> set (topo_needs jobs k)" "d \<notin> set idx" by blast
    with k(3) topo_needs_range [OF this(1)] show "\<exists>k\<in>?W. jName k \<in> set (jNeeds j)"
      by (auto simp: in_topo_needs dest: topo_index_range intro!: bexI [of _ d])
  qed auto
qed

lemma topoSort_accepted:
  assumes "accepted p"
  shows "\<exists>out. topoSort (filter (\<lambda>j. jStage j = stage) (plJobs p)) = Some out"
proof (rule ccontr)
  let ?jobs = "filter (\<lambda>j. jStage j = stage) (plJobs p)"
  assume "\<nexists>out. topoSort ?jobs = Some out"
  then have "topoSort ?jobs = None" by (metis not_None_eq)
  then obtain W where W: "W \<subseteq> set ?jobs" "W \<noteq> {}" "\<And>j. j \<in> W \<Longrightarrow> \<exists>k\<in>W. jName k \<in> set (jNeeds j)"
    by (rule topoSort_None) blast
  then obtain j where "j \<in> W" by blast
  then have "j \<in> set (plJobs p)" "jName j \<notin> - (jName ` W)" using W(1) by auto
  from accepted_progress [OF assms this] obtain k where
    k: "k \<in> set (plJobs p)" "jName k \<in> jName ` W" "set (jNeeds k) \<subseteq> - (jName ` W)" by auto
  have "distinct (map jName (plJobs p))" using assms by (simp add: accepted_def)
  then have "k \<in> W" using k(1,2) W(1) by (auto simp: distinct_map inj_on_def)
  with W(3) k(3) show False by blast
qed

section \<open>Plugin environment names\<close>

record UnicodeTables =
  utIsUpper :: "string \<Rightarrow> bool"
  utIsLower :: "string \<Rightarrow> bool"
  utToUpper :: "string \<Rightarrow> string"

fun env_key_loop :: "UnicodeTables \<Rightarrow> bool \<Rightarrow> string list \<Rightarrow> string" where
  "env_key_loop u prevLower [] = []"
| "env_key_loop u prevLower (r # rs) =
     (if r = ''-'' \<or> r = ''.'' \<or> r = '' '' then ''_'' @ env_key_loop u False rs
      else if utIsUpper u r then (if prevLower then ''_'' else []) @ r @ env_key_loop u False rs
      else utToUpper u r @ env_key_loop u (utIsLower u r) rs)"

definition pluginEnvKey :: "UnicodeTables \<Rightarrow> string \<Rightarrow> string" where
  "pluginEnvKey u k = env_key_loop u False (runes k)"

section \<open>Expansion\<close>

record PlannedJob =
  pjName :: string
  pjBaseName :: string
  pjStage :: string
  pjImage :: string
  pjScript :: "string list"
  pjPluginEnv :: smap
  pjVariables :: "string \<rightharpoonup> string"
  pjMatrixKey :: string
  pjSecrets :: "string list"
  pjDocker :: bool
  pjApproval :: bool
  pjNeeds :: "string list"

record PlannedStage =
  psName :: string
  psJobs :: "PlannedJob list"

record Plan =
  pnPipeline :: string
  pnStages :: "PlannedStage list"
  pnServices :: "Service list"

datatype expand_error = HasIDTokens | ImageAndUses | NoImage

datatype build_error = NeedsCycle string | JobError string expand_error | JobNotFound string string

text \<open>A cell lists its dimensions in the order of their names.\<close>

type_synonym cell = smap

fun cartesian_from :: "cell list \<Rightarrow> (string \<times> string list) list \<Rightarrow> cell list" where
  "cartesian_from cells [] = cells"
| "cartesian_from cells ((k, vs) # dims) =
     cartesian_from (concat (map (\<lambda>c. map (\<lambda>v. c @ [(k, v)]) vs) cells)) dims"

definition cartesian :: "(string \<times> string list) list \<Rightarrow> cell list" where
  "cartesian matrix = cartesian_from [[]] (sort_key fst matrix)"

fun expand_tasks :: "UnicodeTables \<Rightarrow> Task list \<Rightarrow> PlannedJob \<Rightarrow> expand_error + PlannedJob" where
  "expand_tasks u [] base = Inr base"
| "expand_tasks u (t # ts) base =
     (case tkPlugin t of
        Some pl \<Rightarrow>
          (if pjImage base \<noteq> [] \<and> pjImage base \<noteq> psImage pl then Inl ImageAndUses
           else
             expand_tasks u ts
               (base\<lparr>pjImage := psImage pl,
                  pjPluginEnv := map (\<lambda>(k, v). (''PLUGIN_'' @ pluginEnvKey u k, v)) (psSettings pl)\<rparr>))
      | None \<Rightarrow>
          expand_tasks u ts (if tkScript t \<noteq> [] then base\<lparr>pjScript := pjScript base @ [tkScript t]\<rparr> else base))"

definition cell_job :: "PlannedJob \<Rightarrow> cell \<Rightarrow> PlannedJob" where
  "cell_job base c =
     (let parts = map (\<lambda>(k, v). k @ ''='' @ v) c in
      base\<lparr>pjMatrixKey := str_join '','' parts,
        pjName := pjName base @ '' ['' @ str_join '' '' parts @ '']''\<rparr>)"

definition expand :: "UnicodeTables \<Rightarrow> Pipeline \<Rightarrow> Job \<Rightarrow> expand_error + PlannedJob list" where
  "expand u p j =
     (if jIDTokens j \<noteq> [] then Inl HasIDTokens
      else
        (case expand_tasks u (jTasks j)
                \<lparr>pjName = jName j, pjBaseName = jName j, pjStage = jStage j, pjImage = jImage j, pjScript = [],
                 pjPluginEnv = [], pjVariables = map_of (plVariables p) ++ map_of (jVariables j),
                 pjMatrixKey = [], pjSecrets = jSecrets j, pjDocker = jDocker j,
                 pjApproval = (jApproval j \<noteq> None), pjNeeds = jNeeds j\<rparr> of
           Inl e \<Rightarrow> Inl e
         | Inr base \<Rightarrow>
             (if \<not> pjApproval base \<and> pjImage base = [] then Inl NoImage
              else if jMatrix j = [] then Inr [base]
              else Inr (map (cell_job base) (cartesian (jMatrix j))))))"

definition jobSelected :: "string \<Rightarrow> string \<Rightarrow> bool" where
  "jobSelected name only = (only = name \<or> has_prefix only (name @ '' [''))"

section \<open>Build\<close>

fun build_jobs :: "UnicodeTables \<Rightarrow> Pipeline \<Rightarrow> string \<Rightarrow> Job list \<Rightarrow> build_error + PlannedJob list" where
  "build_jobs u p only [] = Inr []"
| "build_jobs u p only (j # js) =
     (if only \<noteq> [] \<and> \<not> jobSelected (jName j) only then build_jobs u p only js
      else
        (case expand u p j of
           Inl e \<Rightarrow> Inl (JobError (jName j) e)
         | Inr cells \<Rightarrow>
             (let kept = (if only \<noteq> [] then filter (\<lambda>c. pjName c = only \<or> pjBaseName c = only) cells else cells) in
              case build_jobs u p only js of Inl e \<Rightarrow> Inl e | Inr rest \<Rightarrow> Inr (kept @ rest))))"

fun build_stages :: "UnicodeTables \<Rightarrow> Pipeline \<Rightarrow> string \<Rightarrow> string list \<Rightarrow> build_error + PlannedStage list" where
  "build_stages u p only [] = Inr []"
| "build_stages u p only (stage # stages) =
     (case topoSort (filter (\<lambda>j. jStage j = stage) (plJobs p)) of
        None \<Rightarrow> Inl (NeedsCycle stage)
      | Some ordered \<Rightarrow>
          (case build_jobs u p only ordered of
             Inl e \<Rightarrow> Inl e
           | Inr jobs \<Rightarrow>
               (case build_stages u p only stages of
                  Inl e \<Rightarrow> Inl e
                | Inr rest \<Rightarrow> Inr (\<lparr>psName = stage, psJobs = jobs\<rparr> # rest))))"

definition Build :: "UnicodeTables \<Rightarrow> Pipeline \<Rightarrow> string \<Rightarrow> build_error + Plan" where
  "Build u p only =
     (case build_stages u p only (plStages p) of
        Inl e \<Rightarrow> Inl e
      | Inr stages \<Rightarrow>
          (if only \<noteq> [] \<and> list_all (\<lambda>s. psJobs s = []) stages then Inl (JobNotFound only (plName p))
           else Inr \<lparr>pnPipeline = plName p, pnStages = stages, pnServices = plServices p\<rparr>))"

section \<open>Properties\<close>

definition not_awaited :: "PlannedJob \<Rightarrow> PlannedJob \<Rightarrow> bool" where
  "not_awaited x y = (pjBaseName y \<notin> set (pjNeeds x))"

lemma topoSort_sorted:
  assumes "topoSort jobs = Some out" and "distinct (map jName jobs)"
  shows "sorted_wrt (\<lambda>j k. jName k \<notin> set (jNeeds j)) out" and "\<forall>j\<in>set out. jName j \<notin> set (jNeeds j)"
    and "mset out = mset jobs"
proof -
  note sorted = topoSort_Some(2) [OF assms]
  show "sorted_wrt (\<lambda>j k. jName k \<notin> set (jNeeds j)) out"
    unfolding sorted_wrt_iff_nth_less
  proof (intro allI impI)
    fix a b assume ab: "a < b" "b < length out"
    then have "out ! b \<in> set (drop (Suc a) out)"
      by (auto simp: in_set_conv_nth intro!: exI [of _ "b - Suc a"])
    with sorted [OF id_take_nth_drop [of a out]] ab show "jName (out ! b) \<notin> set (jNeeds (out ! a))" by simp
  qed
  show "\<forall>j\<in>set out. jName j \<notin> set (jNeeds j)"
    using sorted by (metis list.set_intros(1) split_list)
  show "mset out = mset jobs" by (rule topoSort_Some(1) [OF assms])
qed

lemma cartesian_from_length:
  "length (cartesian_from cells dims) = length cells * prod_list (map (length \<circ> snd) dims)"
  by (induction cells dims rule: cartesian_from.induct)
    (simp_all add: length_concat o_def sum_list_triv split_def mult.assoc)

lemma cartesian_length: "length (cartesian matrix) = prod_list (map (length \<circ> snd) matrix)"
proof -
  have "mset (map (length \<circ> snd) (sort_key fst matrix)) = mset (map (length \<circ> snd) matrix)" by simp
  then have "prod_list (map (length \<circ> snd) (sort_key fst matrix)) = prod_list (map (length \<circ> snd) matrix)"
    by (metis prod_mset_prod_list)
  then show ?thesis by (simp add: cartesian_def cartesian_from_length)
qed

lemma expand_tasks_keeps:
  "expand_tasks u ts base = Inr b \<Longrightarrow>
   pjBaseName b = pjBaseName base \<and> pjNeeds b = pjNeeds base \<and> pjStage b = pjStage base"
  by (induction ts arbitrary: base) (fastforce split: option.splits if_splits)+

lemma expand_cells:
  assumes "expand u p j = Inr cells"
  shows "\<forall>c\<in>set cells. pjBaseName c = jName j \<and> pjNeeds c = jNeeds j \<and> pjStage c = jStage j"
    and "length cells = prod_list (map (length \<circ> snd) (jMatrix j))"
  using assms
  by (auto simp: expand_def cell_job_def Let_def cartesian_length split: if_splits sum.splits dest!: expand_tasks_keeps)

lemma build_jobs_sorted:
  assumes "build_jobs u p only js = Inr cells" and "sorted_wrt (\<lambda>j k. jName k \<notin> set (jNeeds j)) js"
    and "\<forall>j\<in>set js. jName j \<notin> set (jNeeds j)"
  shows "sorted_wrt not_awaited cells \<and>
    (\<forall>c\<in>set cells. not_awaited c c \<and> (\<exists>j\<in>set js. pjBaseName c = jName j \<and> pjNeeds c = jNeeds j))"
  using assms
proof (induction js arbitrary: cells)
  case (Cons j js)
  show ?case
  proof (cases "only \<noteq> [] \<and> \<not> jobSelected (jName j) only")
    case True
    with Cons show ?thesis by fastforce
  next
    case False
    with Cons.prems(1) obtain cs rest where cs: "expand u p j = Inr cs" and rest: "build_jobs u p only js = Inr rest"
      and cells: "cells = (if only \<noteq> [] then filter (\<lambda>c. pjName c = only \<or> pjBaseName c = only) cs else cs) @ rest"
      by (auto simp: Let_def split: sum.splits)
    have IH: "sorted_wrt not_awaited rest \<and>
        (\<forall>c\<in>set rest. not_awaited c c \<and> (\<exists>j\<in>set js. pjBaseName c = jName j \<and> pjNeeds c = jNeeds j))"
      using Cons.IH [OF rest] Cons.prems by simp
    let ?kept = "if only \<noteq> [] then filter (\<lambda>c. pjName c = only \<or> pjBaseName c = only) cs else cs"
    have kept: "\<forall>c\<in>set ?kept. pjBaseName c = jName j \<and> pjNeeds c = jNeeds j"
      using expand_cells(1) [OF cs] by auto
    moreover have "sorted_wrt not_awaited ?kept"
      unfolding sorted_wrt_iff_nth_less
    proof (intro allI impI)
      fix a b assume "a < b" "b < length ?kept"
      then have "?kept ! a \<in> set ?kept" "?kept ! b \<in> set ?kept" by (meson nth_mem order_less_trans)+
      with kept Cons.prems(3) show "not_awaited (?kept ! a) (?kept ! b)" by (auto simp only: not_awaited_def list.set_intros)
    qed
    moreover have "\<forall>x\<in>set ?kept. \<forall>y\<in>set rest. not_awaited x y"
    proof (intro ballI)
      fix x y assume x: "x \<in> set ?kept" and "y \<in> set rest"
      with IH obtain k where "k \<in> set js" "pjBaseName y = jName k" by blast
      with kept [rule_format, OF x] Cons.prems(2) show "not_awaited x y" by (simp add: not_awaited_def)
    qed
    moreover have "\<forall>x\<in>set ?kept. not_awaited x x"
    proof
      fix x assume "x \<in> set ?kept"
      from kept [rule_format, OF this] Cons.prems(3) show "not_awaited x x" by (simp add: not_awaited_def)
    qed
    moreover have "\<forall>x\<in>set ?kept. \<exists>k\<in>set (j # js). pjBaseName x = jName k \<and> pjNeeds x = jNeeds k"
      using kept by (meson list.set_intros(1))
    moreover have "\<forall>x\<in>set rest. \<exists>k\<in>set (j # js). pjBaseName x = jName k \<and> pjNeeds x = jNeeds k"
      using IH by (meson list.set_intros(2))
    ultimately show ?thesis
      using IH unfolding cells sorted_wrt_append set_append by blast
  qed
qed simp

lemma build_jobs_counts:
  assumes "build_jobs u p [] js = Inr cells" and "distinct (map jName js)"
  shows "length (filter (\<lambda>c. pjBaseName c = n) cells) =
    (case find (\<lambda>j. jName j = n) js of None \<Rightarrow> 0 | Some j \<Rightarrow> prod_list (map (length \<circ> snd) (jMatrix j)))"
  using assms
proof (induction js arbitrary: cells)
  case (Cons j js)
  then obtain cs rest where cs: "expand u p j = Inr cs" and rest: "build_jobs u p [] js = Inr rest"
    and cells: "cells = cs @ rest" by (auto split: sum.splits)
  have eq: "filter (\<lambda>c. pjBaseName c = n) cs = (if jName j = n then cs else [])"
    using expand_cells(1) [OF cs] by (auto simp: filter_empty_conv filter_id_conv)
  have "find (\<lambda>j. jName j = n) js = None" if "jName j = n"
    using that Cons.prems(2) by (simp add: find_None_iff) (metis image_eqI)
  with Cons.IH [OF rest] Cons.prems(2) eq expand_cells(2) [OF cs] show ?case by (simp add: cells)
qed simp

lemma build_stages_stage:
  assumes "build_stages u p only (stage # stages) = Inr planned"
  obtains ordered cells rest where "topoSort (filter (\<lambda>j. jStage j = stage) (plJobs p)) = Some ordered"
    "build_jobs u p only ordered = Inr cells" "build_stages u p only stages = Inr rest"
    "planned = \<lparr>psName = stage, psJobs = cells\<rparr> # rest"
  using assms by (auto split: option.splits sum.splits)

lemma stage_jobs_distinct: "accepted p \<Longrightarrow> distinct (map jName (filter f (plJobs p)))"
  by (simp add: accepted_def distinct_map_filter)

lemma needs_not_later:
  assumes "accepted p" and "j \<in> set (plJobs p)" and "k \<in> set (plJobs p)" and "jName k \<in> set (jNeeds j)"
  shows "stageIndex p (jStage k) \<le> stageIndex p (jStage j)"
proof -
  have "(jName j, jName k) \<in> needs_rel (plJobs p)"
    using assms by (auto simp: accepted_def intro: needs_relI)
  from accepted_needs [OF assms(1) this accepted_byName [OF assms(1,2)]] accepted_byName [OF assms(1,3)]
  show ?thesis by simp
qed

lemma build_stages_sorted:
  assumes acc: "accepted p"
  shows "build_stages u p only stages = Inr planned \<Longrightarrow>
    sorted_wrt (\<lambda>a b. stageIndex p a < stageIndex p b) stages \<Longrightarrow>
    sorted_wrt not_awaited (concat (map psJobs planned)) \<and>
    (\<forall>c\<in>set (concat (map psJobs planned)). not_awaited c c \<and>
       (\<exists>j\<in>set (plJobs p). jStage j \<in> set stages \<and> pjBaseName c = jName j \<and> pjNeeds c = jNeeds j))"
proof (induction stages arbitrary: planned)
  case (Cons stage stages)
  obtain ordered cells rest where t: "topoSort (filter (\<lambda>j. jStage j = stage) (plJobs p)) = Some ordered"
    and c: "build_jobs u p only ordered = Inr cells" and r: "build_stages u p only stages = Inr rest"
    and planned: "planned = \<lparr>psName = stage, psJobs = cells\<rparr> # rest"
    by (rule build_stages_stage [OF Cons.prems(1)])
  note sorted = topoSort_sorted [OF t stage_jobs_distinct [OF acc]]
  have jobs: "set ordered = {j \<in> set (plJobs p). jStage j = stage}"
    using arg_cong [OF sorted(3), of set_mset] by simp
  note here = build_jobs_sorted [OF c sorted(1,2)]
  have later: "sorted_wrt not_awaited (concat (map psJobs rest)) \<and>
    (\<forall>c\<in>set (concat (map psJobs rest)). not_awaited c c \<and>
       (\<exists>j\<in>set (plJobs p). jStage j \<in> set stages \<and> pjBaseName c = jName j \<and> pjNeeds c = jNeeds j))"
    using Cons.IH [OF r] Cons.prems(2) by simp
  have "not_awaited x y" if x: "x \<in> set cells" and y: "y \<in> set (concat (map psJobs rest))" for x y
  proof -
    obtain j where j: "j \<in> set (plJobs p)" "jStage j = stage" "pjNeeds x = jNeeds j"
      using here x jobs by blast
    obtain k where k: "k \<in> set (plJobs p)" "jStage k \<in> set stages" "pjBaseName y = jName k"
      using later y by blast
    have "stageIndex p (jStage j) < stageIndex p (jStage k)" using Cons.prems(2) j(2) k(2) by simp
    with needs_not_later [OF acc j(1) k(1)] j(3) k(3) show ?thesis by (auto simp: not_awaited_def)
  qed
  moreover have "\<exists>j\<in>set (plJobs p). jStage j \<in> set (stage # stages) \<and> pjBaseName x = jName j \<and> pjNeeds x = jNeeds j"
    if "x \<in> set cells" for x
    using here that jobs by auto
  moreover have "\<exists>j\<in>set (plJobs p). jStage j \<in> set (stage # stages) \<and> pjBaseName x = jName j \<and> pjNeeds x = jNeeds j"
    if "x \<in> set (concat (map psJobs rest))" for x
    using later that by (meson list.set_intros(2))
  moreover have flat: "concat (map psJobs planned) = cells @ concat (map psJobs rest)" by (simp add: planned)
  ultimately show ?case
    using here later unfolding flat sorted_wrt_append set_append by blast
qed simp

lemma build_stages_counts:
  assumes acc: "accepted p" and j: "j \<in> set (plJobs p)"
  shows "build_stages u p [] stages = Inr planned \<Longrightarrow> distinct stages \<Longrightarrow>
    length (filter (\<lambda>c. pjBaseName c = jName j) (concat (map psJobs planned))) =
      (if jStage j \<in> set stages then prod_list (map (length \<circ> snd) (jMatrix j)) else 0)"
proof (induction stages arbitrary: planned)
  case (Cons stage stages)
  obtain ordered cells rest where t: "topoSort (filter (\<lambda>j. jStage j = stage) (plJobs p)) = Some ordered"
    and c: "build_jobs u p [] ordered = Inr cells" and r: "build_stages u p [] stages = Inr rest"
    and planned: "planned = \<lparr>psName = stage, psJobs = cells\<rparr> # rest"
    by (rule build_stages_stage [OF Cons.prems(1)])
  note sorted = topoSort_sorted [OF t stage_jobs_distinct [OF acc]]
  have jobs: "set ordered = {j \<in> set (plJobs p). jStage j = stage}"
    using arg_cong [OF sorted(3), of set_mset] by simp
  have "mset (map jName ordered) = mset (map jName (filter (\<lambda>j. jStage j = stage) (plJobs p)))"
    using sorted(3) by (metis mset_map)
  then have dist: "distinct (map jName ordered)"
    using stage_jobs_distinct [OF acc] by (metis mset_eq_imp_distinct_iff)
  have uniq: "k = j" if "k \<in> set (plJobs p)" "jName k = jName j" for k
    using acc j that by (auto simp: accepted_def distinct_map inj_on_def)
  have "find (\<lambda>k. jName k = jName j) ordered = (if jStage j = stage then Some j else None)"
  proof (cases "find (\<lambda>k. jName k = jName j) ordered")
    case None
    with j jobs show ?thesis by (auto simp: find_None_iff)
  next
    case (Some k)
    with find_SomeD [OF Some] jobs uniq [of k] show ?thesis by auto
  qed
  with build_jobs_counts [OF c dist, of "jName j"] Cons.IH [OF r] Cons.prems(2) show ?case
    by (auto simp: planned o_def)
qed simp

lemma stages_in_order:
  assumes "distinct (plStages p)"
  shows "sorted_wrt (\<lambda>a b. stageIndex p a < stageIndex p b) (plStages p)"
proof -
  have "stageIndex p (plStages p ! i) = i" if "i < length (plStages p)" for i
    using stage_ordinal_nth [OF assms that] by (simp add: stageIndex_def)
  then show ?thesis by (simp add: sorted_wrt_iff_nth_less)
qed

lemma build_stages_no_cycle: "accepted p \<Longrightarrow> build_stages u p only stages \<noteq> Inl (NeedsCycle s)"
proof (induction stages)
  case (Cons stage stages)
  have "build_jobs u p only js \<noteq> Inl (NeedsCycle s)" for js
    by (induction js) (auto simp: Let_def split: sum.splits)
  with Cons topoSort_accepted [OF Cons.prems, of stage] show ?case
    by (auto split: option.splits sum.splits)
qed simp

definition planned_jobs :: "Plan \<Rightarrow> PlannedJob list" where
  "planned_jobs plan = concat (map psJobs (pnStages plan))"

text \<open>
  C38: a local run of an accepted pipeline that declares no stage twice executes its jobs in the
  order of their needs. (The parser accepts a repeated stage; Build then plans it twice.) Build
  never reports a cycle; in the plan it returns, whatever job is selected, a planned job stands
  behind every planned cell of each job it needs; and without a selection each job is planned
  once per cell of its matrix.
\<close>

theorem run_local_plan:
  assumes "accepted p" and "distinct (plStages p)"
  shows "case Build u p only of
      Inl e \<Rightarrow> \<forall>stage. e \<noteq> NeedsCycle stage
    | Inr plan \<Rightarrow> (let flat = planned_jobs plan in
        (\<forall>a<length flat. \<forall>b<length flat. pjBaseName (flat ! b) \<in> set (pjNeeds (flat ! a)) \<longrightarrow> b < a) \<and>
        (only = [] \<longrightarrow> (\<forall>j\<in>set (plJobs p). length (filter (\<lambda>c. pjBaseName c = jName j) flat) =
           prod_list (map (length \<circ> snd) (jMatrix j)))))"
proof (cases "build_stages u p only (plStages p)")
  case (Inl e)
  then show ?thesis using build_stages_no_cycle [OF assms(1), of u only "plStages p"] by (auto simp: Build_def)
next
  case (Inr planned)
  let ?flat = "concat (map psJobs planned)"
  have sorted: "sorted_wrt not_awaited ?flat" "\<forall>c\<in>set ?flat. not_awaited c c"
    using build_stages_sorted [OF assms(1) Inr stages_in_order [OF assms(2)]] by blast+
  have order: "b < a" if "a < length ?flat" "b < length ?flat" "pjBaseName (?flat ! b) \<in> set (pjNeeds (?flat ! a))" for a b
  proof (rule ccontr)
    assume "\<not> b < a"
    then have "a < b \<or> a = b" by arith
    then have "not_awaited (?flat ! a) (?flat ! b)"
      using sorted that(1,2) by (metis nth_mem sorted_wrt_nth_less)
    with that(3) show False by (simp add: not_awaited_def)
  qed
  have counts: "length (filter (\<lambda>c. pjBaseName c = jName j) ?flat) = prod_list (map (length \<circ> snd) (jMatrix j))"
    if "only = []" "j \<in> set (plJobs p)" for j
  proof -
    have "jStage j \<in> set (plStages p)"
      using assms(1) that(2) by (simp add: accepted_def stages_declared_def list_all_iff)
    with build_stages_counts [OF assms(1) that(2) Inr [unfolded that(1)] assms(2)] show ?thesis by simp
  qed
  show ?thesis
  proof (cases "Build u p only")
    case (Inl e)
    with Inr show ?thesis by (auto simp: Build_def split: if_splits)
  next
    case (Inr plan)
    then have "planned_jobs plan = ?flat"
      using \<open>build_stages u p only (plStages p) = Inr planned\<close>
      by (auto simp: Build_def planned_jobs_def split: if_splits)
    with Inr order counts show ?thesis unfolding Let_def by simp
  qed
qed

section \<open>Witnesses\<close>

definition ex_unicode :: UnicodeTables where
  "ex_unicode =
     \<lparr>utIsUpper = (\<lambda>r. length r = 1 \<and> in_range (hd r) 65 90), utIsLower = (\<lambda>r. length r = 1 \<and> in_range (hd r) 97 122),
      utToUpper = (\<lambda>r. if length r = 1 \<and> in_range (hd r) 97 122 then [char_of (of_char (hd r) - (32 :: nat))] else r)\<rparr>"

text \<open>A test job over two Go versions, declared before the build it needs.\<close>

definition ex_local :: Pipeline where
  "ex_local = zero_pipeline
     \<lparr>plStages := [''ci''],
      plJobs := [zero_job \<lparr>jName := ''unit'', jStage := ''ci'', jImage := ''golang'', jNeeds := [''build''],
          jMatrix := [(''GO'', [''1.24'', ''1.25''])]\<rparr>,
        zero_job \<lparr>jName := ''build'', jStage := ''ci'', jImage := ''golang''\<rparr>]\<rparr>"

lemma ex_local_accepted: "accepted ex_local"
  by code_simp

lemma ex_local_plan:
  "map pjName (planned_jobs (projr (Build ex_unicode ex_local []))) = [''build'', ''unit [GO=1.24]'', ''unit [GO=1.25]'']"
  by code_simp

theorem run_local_plan_witness:
  "length (filter (\<lambda>c. pjBaseName c = ''unit'') (planned_jobs (projr (Build ex_unicode ex_local [])))) = 2"
proof -
  have "\<not> isl (Build ex_unicode ex_local [])" by code_simp
  then obtain plan where plan: "Build ex_unicode ex_local [] = Inr plan" by (metis sum.collapse(2))
  have unit: "plJobs ex_local ! 0 \<in> set (plJobs ex_local)" "jName (plJobs ex_local ! 0) = ''unit''"
    "jMatrix (plJobs ex_local ! 0) = [(''GO'', [''1.24'', ''1.25''])]"
    by code_simp+
  have "distinct (plStages ex_local)" by code_simp
  from run_local_plan [OF ex_local_accepted this, where u = ex_unicode and only = "[]"] plan unit
  have "length (filter (\<lambda>c. pjBaseName c = ''unit'') (planned_jobs plan)) = 2"
    unfolding Let_def by fastforce
  with plan show ?thesis by simp
qed

end
