(* ===== verification/DeployWatches.thy ===== *)
theory DeployWatches
  imports Approvals DeployDecide GoStrings
begin

text \<open>
  The durable record of an in-flight deploy and the transactions on it: the takeover
  (\<open>server/internal/store/native_deploy.go\<close>), the claimed watch (\<open>deploy_watches.go\<close>), the
  approval gate of a canary step (\<open>rollout_gate.go\<close>, \<open>rollout_gate_decide.go\<close>) and the revision
  (\<open>deployments.go\<close>), over the run store and the approval tables. \<open>NOW()\<close> is an argument;
  \<open>gen_random_uuid()\<close> is an argument too, and the steps of the system pass fresh values.
\<close>

section \<open>State\<close>

datatype deploy_status = DeployStatusInProgress | DeployStatusSuccess | DeployStatusFailed | DeployStatusCanceled

record DeploymentRevision =
  dvID :: uuid
  dvEnvironmentID :: uuid
  dvVersion :: string
  dvJobRunID :: "uuid option"
  dvAttempt :: int
  dvStatus :: deploy_status

text \<open>The observed snapshot kept for the UI.\<close>

record RolloutObservation =
  obPhase :: string
  obMessage :: string
  obPauseReason :: string
  obCurrentStep :: "int option"
  obStepCount :: "int option"
  obAborted :: "bool option"
  obError :: string
  obAnalysisKind :: string
  obAnalysisName :: string
  obAnalysisPhase :: string
  obAnalysisMessage :: string
  obAt :: "gotime option"

record DeployWatch =
  dwRevisionID :: uuid
  dwProjectID :: uuid
  dwSyncMode :: SyncMode
  dwCluster :: string
  dwApplication :: string
  dwNamespace :: string
  dwExpectedRevision :: string
  dwWatchStartedAt :: gotime
  dwSyncRequestedAt :: "gotime option"
  dwDeadlineAt :: gotime
  dwDegradedSince :: "gotime option"
  dwClaimID :: "uuid option"
  dwClaimedBy :: string
  dwClaimedAt :: "gotime option"
  dwCreatedAt :: gotime
  dwRolloutAware :: bool
  dwRolloutCluster :: string
  dwRolloutNamespace :: string
  dwRolloutName :: string
  dwObservation :: RolloutObservation
  dwGateApprovers :: "string list"
  dwGateApproverGroups :: "string list"
  dwGateRequired :: "int option"
  dwGateID :: "uuid option"
  dwGateArmedAt :: "gotime option"
  dwGatePausedStep :: "int option"
  dwGateRolloutCluster :: string
  dwGateRolloutNamespace :: string
  dwGateRolloutName :: string
  dwGateDecision :: GateDecision
  dwGateDecidedBy :: string
  dwGateDecidedAt :: "gotime option"
  dwGateActionedAt :: "gotime option"
  dwRolloutAbortActionedAt :: "gotime option"

text \<open>The durable audit event of a decided gate (\<open>emitRolloutGateAudit\<close>).\<close>

record RolloutGateAudit =
  raActor :: uuid
  raRevisionID :: uuid
  raGateID :: uuid
  raDecision :: GateDecision
  raRequired :: int
  raVotes :: "JobRunApproval list"

text \<open>A deploy target, as \<open>LockDeployTargetForDeploy\<close> reads it.\<close>

record DeployTarget =
  dtEnvironment :: string
  dtEnvironmentID :: uuid
  dtProjectID :: uuid
  dtCluster :: string
  dtApplication :: string
  dtNamespace :: string
  dtSyncMode :: SyncMode
  dtRolloutAware :: bool
  dtRolloutCluster :: string
  dtRolloutNamespace :: string
  dtRolloutName :: string
  dtGated :: bool

record DeployDB =
  ddAp :: ApprovalDB
  ddRevisions :: "DeploymentRevision list"
  ddWatches :: "DeployWatch list"
  ddTargets :: "DeployTarget list"
  ddAudit :: "RolloutGateAudit list"

definition on_db :: "(DB \<Rightarrow> DB) \<Rightarrow> DeployDB \<Rightarrow> DeployDB" where
  "on_db f s = s\<lparr>ddAp := (ddAp s)\<lparr>abDB := f (abDB (ddAp s))\<rparr>\<rparr>"

definition find_watch :: "uuid \<Rightarrow> DeployDB \<Rightarrow> DeployWatch option" where
  "find_watch rv s = find (\<lambda>w. dwRevisionID w = rv) (ddWatches s)"

definition find_revision :: "uuid \<Rightarrow> DeployDB \<Rightarrow> DeploymentRevision option" where
  "find_revision rv s = find (\<lambda>r. dvID r = rv) (ddRevisions s)"

text \<open>An \<open>UPDATE deploy_watches ... WHERE\<close> and its row count.\<close>

definition exec_watches :: "(DeployWatch \<Rightarrow> bool) \<Rightarrow> (DeployWatch \<Rightarrow> DeployWatch) \<Rightarrow> DeployDB \<Rightarrow> bool \<times> DeployDB" where
  "exec_watches p f s = (list_ex p (ddWatches s), s\<lparr>ddWatches := upd_where p f (ddWatches s)\<rparr>)"

definition fenced :: "uuid \<Rightarrow> uuid \<Rightarrow> DeployWatch \<Rightarrow> bool" where
  "fenced rv claim w = (dwRevisionID w = rv \<and> dwClaimID w = Some claim)"

section \<open>The takeover\<close>

record GoverningGate =
  ggApprovers :: "string list"
  ggApproverGroups :: "string list"
  ggRequired :: int

record StartNativeDeployInput =
  sdJobRunID :: uuid
  sdEnvironment :: string
  sdEnvironmentID :: uuid
  sdVersion :: string
  sdProjectID :: uuid
  sdSyncMode :: SyncMode
  sdCluster :: string
  sdApplication :: string
  sdNamespace :: string
  sdExpectedRevision :: string
  sdDeadlineAt :: gotime
  sdRolloutAware :: bool
  sdRolloutCluster :: string
  sdRolloutNamespace :: string
  sdRolloutName :: string
  sdGoverningGate :: "GoverningGate option"

datatype start_result =
  StartFrozen | StartLostRace | StartGated | StartDrifted | StartError | StartOk uuid int

definition zero_observation :: RolloutObservation where
  "zero_observation =
     \<lparr>obPhase = [], obMessage = [], obPauseReason = [], obCurrentStep = None, obStepCount = None,
      obAborted = None, obError = [], obAnalysisKind = [], obAnalysisName = [], obAnalysisPhase = [],
      obAnalysisMessage = [], obAt = None\<rparr>"

definition inserted_watch :: "gotime \<Rightarrow> uuid \<Rightarrow> StartNativeDeployInput \<Rightarrow> DeployWatch" where
  "inserted_watch now rv i =
     \<lparr>dwRevisionID = rv, dwProjectID = sdProjectID i, dwSyncMode = sdSyncMode i, dwCluster = sdCluster i,
      dwApplication = sdApplication i, dwNamespace = sdNamespace i, dwExpectedRevision = sdExpectedRevision i,
      dwWatchStartedAt = now, dwSyncRequestedAt = None, dwDeadlineAt = sdDeadlineAt i, dwDegradedSince = None,
      dwClaimID = None, dwClaimedBy = [], dwClaimedAt = None, dwCreatedAt = now,
      dwRolloutAware = sdRolloutAware i, dwRolloutCluster = sdRolloutCluster i,
      dwRolloutNamespace = sdRolloutNamespace i, dwRolloutName = sdRolloutName i,
      dwObservation = zero_observation,
      dwGateApprovers = (case sdGoverningGate i of None \<Rightarrow> [] | Some g \<Rightarrow> ggApprovers g),
      dwGateApproverGroups = (case sdGoverningGate i of None \<Rightarrow> [] | Some g \<Rightarrow> ggApproverGroups g),
      dwGateRequired = map_option (int32 \<circ> ggRequired) (sdGoverningGate i),
      dwGateID = None, dwGateArmedAt = None, dwGatePausedStep = None, dwGateRolloutCluster = [],
      dwGateRolloutNamespace = [], dwGateRolloutName = [], dwGateDecision = GateUndecided,
      dwGateDecidedBy = [], dwGateDecidedAt = None, dwGateActionedAt = None, dwRolloutAbortActionedAt = None\<rparr>"

text \<open>\<open>INSERT ... SELECT ... WHERE EXISTS (in_progress revision)\<close>; \<open>None\<close> is \<open>ErrRevisionNotInProgress\<close>.\<close>

definition CreateDeployWatch ::
  "gotime \<Rightarrow> uuid \<Rightarrow> StartNativeDeployInput \<Rightarrow> DeployDB \<Rightarrow> DeployDB option" where
  "CreateDeployWatch now rv i s =
     (if list_ex (\<lambda>r. dvID r = rv \<and> dvStatus r = DeployStatusInProgress) (ddRevisions s)
      then Some (s\<lparr>ddWatches := ddWatches s @ [inserted_watch now rv i]\<rparr>)
      else None)"

definition startNativeDeployTx ::
  "gotime \<Rightarrow> uuid \<Rightarrow> StartNativeDeployInput \<Rightarrow> DeployDB \<Rightarrow> start_result \<times> DeployDB" where
  "startNativeDeployTx now rv i s =
     (case StartServerManagedJob (sdJobRunID i) (abDB (ddAp s)) of
        (None, _) \<Rightarrow> (StartLostRace, s)
      | (Some job, d1) \<Rightarrow>
          (let d2 = MarkRunRunning (jrRunID job) (MarkStageRunning (jrStageRunID job) d1);
               s1 = on_db (\<lambda>_. d2) s;
               s2 = s1\<lparr>ddRevisions := ddRevisions s1 @
                 [\<lparr>dvID = rv, dvEnvironmentID = sdEnvironmentID i, dvVersion = sdVersion i, dvJobRunID = Some (sdJobRunID i), dvAttempt = jrAttempt job,
                   dvStatus = DeployStatusInProgress\<rparr>]\<rparr>
           in case CreateDeployWatch now rv i s2 of
                None \<Rightarrow> (StartError, s)
              | Some s3 \<Rightarrow> (StartOk rv (jrAttempt job), s3)))"

definition env_frozen :: "uuid \<Rightarrow> string \<Rightarrow> DeployDB \<Rightarrow> bool" where
  "env_frozen project env s = (FrozenEnvironments project [env] (ddAp s) \<noteq> [])"

definition StartNativeDeploy ::
  "gotime \<Rightarrow> uuid \<Rightarrow> StartNativeDeployInput \<Rightarrow> DeployDB \<Rightarrow> start_result \<times> DeployDB" where
  "StartNativeDeploy now rv i s =
     (if sdEnvironment i = [] then (StartError, s)
      else if env_frozen (sdProjectID i) (sdEnvironment i) s then (StartFrozen, s)
      else startNativeDeployTx now rv i s)"

record DeclaredTargetExpectation =
  deEnvironment :: string
  deCluster :: string
  deApplication :: string
  deNamespace :: string
  deSyncMode :: SyncMode

definition StartNativeDeployDeclared ::
  "gotime \<Rightarrow> uuid \<Rightarrow> StartNativeDeployInput \<Rightarrow> DeclaredTargetExpectation \<Rightarrow> DeployDB \<Rightarrow> start_result \<times> DeployDB" where
  "StartNativeDeployDeclared now rv i want s =
     (if deEnvironment want = [] then (StartError, s)
      else if env_frozen (sdProjectID i) (deEnvironment want) s then (StartFrozen, s)
      else
        (case find (\<lambda>t. dtProjectID t = sdProjectID i \<and> dtEnvironment t = deEnvironment want) (ddTargets s) of
           None \<Rightarrow> (StartDrifted, s)
         | Some t \<Rightarrow>
             (if dtGated t then (StartGated, s)
              else if dtCluster t \<noteq> deCluster want \<or> dtApplication t \<noteq> deApplication want
                \<or> dtNamespace t \<noteq> deNamespace want \<or> dtSyncMode t \<noteq> deSyncMode want then (StartDrifted, s)
              else
                startNativeDeployTx now rv
                  (i\<lparr>sdEnvironmentID := dtEnvironmentID t, sdSyncMode := dtSyncMode t, sdCluster := dtCluster t, sdApplication := dtApplication t,
                     sdNamespace := dtNamespace t, sdRolloutAware := dtRolloutAware t,
                     sdRolloutCluster := dtRolloutCluster t, sdRolloutNamespace := dtRolloutNamespace t,
                     sdRolloutName := dtRolloutName t, sdGoverningGate := None\<rparr>) s)))"

section \<open>The lease\<close>

definition in_progress :: "uuid \<Rightarrow> DeployDB \<Rightarrow> bool" where
  "in_progress rv s = list_ex (\<lambda>r. dvID r = rv \<and> dvStatus r = DeployStatusInProgress) (ddRevisions s)"

definition claimable :: "gotime \<Rightarrow> int \<Rightarrow> DeployDB \<Rightarrow> DeployWatch \<Rightarrow> bool" where
  "claimable now leaseSeconds s w =
     (in_progress (dwRevisionID w) s \<and>
      (case dwClaimedAt w of None \<Rightarrow> True | Some t \<Rightarrow> t < now - leaseSeconds))"

text \<open>
  \<open>ORDER BY claimed_at NULLS FIRST, created_at ... SKIP LOCKED LIMIT\<close>: \<open>locked\<close> tells the rows
  other transactions hold. \<open>token\<close> gives each claimed row its own fencing token.
\<close>

definition claim_picks :: "gotime \<Rightarrow> int \<Rightarrow> nat \<Rightarrow> (uuid \<Rightarrow> bool) \<Rightarrow> DeployDB \<Rightarrow> uuid list" where
  "claim_picks now leaseSeconds batch locked s =
     map dwRevisionID (take batch
       (sort_key (\<lambda>w. (case dwClaimedAt w of None \<Rightarrow> (0 :: nat, 0) | Some t \<Rightarrow> (1, t), dwCreatedAt w))
         (filter (\<lambda>w. claimable now leaseSeconds s w \<and> \<not> locked (dwRevisionID w)) (ddWatches s))))"

definition claimed_row :: "gotime \<Rightarrow> string \<Rightarrow> (uuid \<Rightarrow> uuid) \<Rightarrow> DeployWatch \<Rightarrow> DeployWatch" where
  "claimed_row now by' token w =
     w\<lparr>dwClaimID := Some (token (dwRevisionID w)), dwClaimedBy := by', dwClaimedAt := Some now\<rparr>"

definition ClaimDeployWatches ::
  "gotime \<Rightarrow> string \<Rightarrow> int \<Rightarrow> nat \<Rightarrow> (uuid \<Rightarrow> bool) \<Rightarrow> (uuid \<Rightarrow> uuid) \<Rightarrow> DeployDB \<Rightarrow> DeployWatch list \<times> DeployDB" where
  "ClaimDeployWatches now by' leaseSeconds batch locked token s =
     (let picks = claim_picks now leaseSeconds batch locked s;
          p = (\<lambda>w. dwRevisionID w \<in> set picks) in
      (map (claimed_row now by' token) (filter p (ddWatches s)),
       s\<lparr>ddWatches := upd_where p (claimed_row now by' token) (ddWatches s)\<rparr>))"

definition RenewDeployWatch :: "gotime \<Rightarrow> uuid \<Rightarrow> uuid \<Rightarrow> DeployDB \<Rightarrow> bool \<times> DeployDB" where
  "RenewDeployWatch now rv claim = exec_watches (fenced rv claim) (\<lambda>w. w\<lparr>dwClaimedAt := Some now\<rparr>)"

definition MarkDeployWatchSyncRequested :: "gotime \<Rightarrow> uuid \<Rightarrow> uuid \<Rightarrow> DeployDB \<Rightarrow> bool \<times> DeployDB" where
  "MarkDeployWatchSyncRequested now rv claim =
     exec_watches (fenced rv claim) (\<lambda>w. w\<lparr>dwSyncRequestedAt := Some now\<rparr>)"

definition StampDeployWatchSyncRequested :: "gotime \<Rightarrow> uuid \<Rightarrow> DeployDB \<Rightarrow> bool \<times> DeployDB" where
  "StampDeployWatchSyncRequested now rv =
     exec_watches (\<lambda>w. dwRevisionID w = rv \<and> dwSyncRequestedAt w = None)
       (\<lambda>w. w\<lparr>dwSyncRequestedAt := Some now\<rparr>)"

definition SetDeployWatchDegradedSince :: "gotime \<Rightarrow> uuid \<Rightarrow> uuid \<Rightarrow> DeployDB \<Rightarrow> bool \<times> DeployDB" where
  "SetDeployWatchDegradedSince now rv claim =
     exec_watches (fenced rv claim)
       (\<lambda>w. w\<lparr>dwDegradedSince := (case dwDegradedSince w of None \<Rightarrow> Some now | Some t \<Rightarrow> Some t)\<rparr>)"

definition ClearDeployWatchDegraded :: "uuid \<Rightarrow> uuid \<Rightarrow> DeployDB \<Rightarrow> bool \<times> DeployDB" where
  "ClearDeployWatchDegraded rv claim = exec_watches (fenced rv claim) (\<lambda>w. w\<lparr>dwDegradedSince := None\<rparr>)"


definition truncateRunes :: "string \<Rightarrow> nat \<Rightarrow> string" where
  "truncateRunes s n = (if length (runes s) \<le> n then s else concat (take n (runes s)))"

definition rolloutTextMax :: nat where
  "rolloutTextMax = 500"

record RolloutObservationInput =
  oiObserved :: bool
  oiPhase :: string
  oiMessage :: string
  oiPauseReason :: string
  oiCurrentStep :: int
  oiStepKnown :: bool
  oiStepCount :: int
  oiAborted :: bool
  oiError :: string
  oiAnalysisKind :: string
  oiAnalysisName :: string
  oiAnalysisPhase :: string
  oiAnalysisMessage :: string

definition observation_of :: "gotime \<Rightarrow> RolloutObservationInput \<Rightarrow> RolloutObservation" where
  "observation_of now i =
     (if oiObserved i then
        \<lparr>obPhase = oiPhase i, obMessage = truncateRunes (oiMessage i) rolloutTextMax,
          obPauseReason = oiPauseReason i,
          obCurrentStep = (if oiStepKnown i then Some (int32 (oiCurrentStep i)) else None),
          obStepCount = Some (int32 (oiStepCount i)), obAborted = Some (oiAborted i), obError = [],
          obAnalysisKind = oiAnalysisKind i, obAnalysisName = oiAnalysisName i,
          obAnalysisPhase = oiAnalysisPhase i,
          obAnalysisMessage = truncateRunes (oiAnalysisMessage i) rolloutTextMax, obAt = Some now\<rparr>
      else zero_observation\<lparr>obError := truncateRunes (oiError i) rolloutTextMax, obAt := Some now\<rparr>)"

definition StampRolloutObservation ::
  "gotime \<Rightarrow> uuid \<Rightarrow> uuid \<Rightarrow> RolloutObservationInput \<Rightarrow> DeployDB \<Rightarrow> bool \<times> DeployDB" where
  "StampRolloutObservation now rv claim i =
     exec_watches (fenced rv claim) (\<lambda>w. w\<lparr>dwObservation := observation_of now i\<rparr>)"

section \<open>The rollout gate\<close>

record ArmRolloutGateInput =
  agPausedStep :: int
  agRolloutCluster :: string
  agRolloutNamespace :: string
  agRolloutName :: string

text \<open>\<open>None\<close> is \<open>ErrIncompleteGatePin\<close>; \<open>gate\<close> is the fresh token.\<close>

definition ArmRolloutGate ::
  "gotime \<Rightarrow> uuid \<Rightarrow> uuid \<Rightarrow> uuid \<Rightarrow> ArmRolloutGateInput \<Rightarrow> DeployDB \<Rightarrow> bool option \<times> DeployDB" where
  "ArmRolloutGate now gate rv claim i s =
     (if agRolloutCluster i = [] \<or> agRolloutNamespace i = [] \<or> agRolloutName i = [] \<or> agPausedStep i < 0
      then (None, s)
      else
        map_prod Some id (exec_watches (\<lambda>w. fenced rv claim w \<and> dwGateID w = None)
          (\<lambda>w. w\<lparr>dwGateID := Some gate, dwGateArmedAt := Some now,
             dwGatePausedStep := Some (int32 (agPausedStep i)), dwGateRolloutCluster := agRolloutCluster i,
             dwGateRolloutNamespace := agRolloutNamespace i, dwGateRolloutName := agRolloutName i\<rparr>) s))"

definition MarkGateActioned :: "gotime \<Rightarrow> uuid \<Rightarrow> uuid \<Rightarrow> DeployDB \<Rightarrow> bool \<times> DeployDB" where
  "MarkGateActioned now rv claim =
     exec_watches (\<lambda>w. fenced rv claim w \<and> dwGateActionedAt w = None) (\<lambda>w. w\<lparr>dwGateActionedAt := Some now\<rparr>)"

text \<open>Disarming nulls the columns of the round; an undecided round gives its waiting time back.\<close>

definition resumed_deadline :: "gotime \<Rightarrow> DeployWatch \<Rightarrow> gotime" where
  "resumed_deadline now w =
     (case dwGateArmedAt w of
        Some t \<Rightarrow> (if dwGateDecision w = GateUndecided then dwDeadlineAt w + (now - t) else dwDeadlineAt w)
      | None \<Rightarrow> dwDeadlineAt w)"

definition disarmed :: "gotime \<Rightarrow> DeployWatch \<Rightarrow> DeployWatch" where
  "disarmed now w =
     w\<lparr>dwDeadlineAt := resumed_deadline now w, dwGateID := None, dwGateArmedAt := None, dwGatePausedStep := None,
       dwGateRolloutCluster := [], dwGateRolloutNamespace := [], dwGateRolloutName := [],
       dwGateDecision := GateUndecided, dwGateDecidedBy := [], dwGateDecidedAt := None, dwGateActionedAt := None\<rparr>"

definition DeleteDeployGateVotes :: "uuid \<Rightarrow> DeployDB \<Rightarrow> DeployDB" where
  "DeleteDeployGateVotes rv s =
     s\<lparr>ddAp := (ddAp s)\<lparr>abVotes :=
       filter (\<lambda>v. \<not> list_ex (\<lambda>r. dvID r = rv \<and> dvJobRunID r = Some (voJobRunID v)) (ddRevisions s))
         (abVotes (ddAp s))\<rparr>\<rparr>"

definition ClearRolloutGate :: "gotime \<Rightarrow> uuid \<Rightarrow> uuid \<Rightarrow> DeployDB \<Rightarrow> bool \<times> DeployDB" where
  "ClearRolloutGate now rv claim s =
     (case exec_watches (\<lambda>w. fenced rv claim w \<and> dwGateID w \<noteq> None) (disarmed now) s of
        (False, _) \<Rightarrow> (False, s)
      | (True, s1) \<Rightarrow> (True, DeleteDeployGateVotes rv s1))"

definition MarkRolloutAbortActioned :: "gotime \<Rightarrow> uuid \<Rightarrow> uuid \<Rightarrow> DeployDB \<Rightarrow> bool \<times> DeployDB" where
  "MarkRolloutAbortActioned now rv claim s =
     (case exec_watches (\<lambda>w. fenced rv claim w \<and> dwRolloutAbortActionedAt w = None)
             (\<lambda>w. (disarmed now w)\<lparr>dwRolloutAbortActionedAt := Some now\<rparr>) s of
        (False, _) \<Rightarrow> (False, s)
      | (True, s1) \<Rightarrow> (True, DeleteDeployGateVotes rv s1))"

text \<open>Whether the owning job carries a cancel request.\<close>

definition DeployWatchCancelRequested :: "uuid \<Rightarrow> DeployDB \<Rightarrow> bool" where
  "DeployWatchCancelRequested rv s =
     (case find_revision rv s of
        None \<Rightarrow> False
      | Some r \<Rightarrow>
          (case dvJobRunID r of
             None \<Rightarrow> False
           | Some job \<Rightarrow>
               (case find_job (abDB (ddAp s)) job of None \<Rightarrow> False | Some j \<Rightarrow> jrCancelRequested j)))"

section \<open>Human decisions\<close>

record RolloutGateDecisionInput =
  rdRevisionID :: uuid
  rdProjectID :: uuid
  rdGateID :: uuid
  rdDecision :: GateDecision
  rdUserID :: uuid
  rdUser :: string
  rdUserEmail :: string
  rdProvider :: string
  rdSubject :: string
  rdComment :: string

record RolloutGateResult =
  rgDecided :: bool
  rgDecision :: GateDecision
  rgPendingQuorum :: bool
  rgApprovalsNow :: int
  rgApprovalsRequired :: int

datatype rollout_gate_error =
  RgBadDecision | RgRevisionRequired | RgUserRequired | ErrGateStale | ErrAlreadyVoted | RgNoJobRun
| RgApprover approval_error

definition rollout_identity :: "RolloutGateDecisionInput \<Rightarrow> ApproverIdentity" where
  "rollout_identity i =
     \<lparr>aiUserID = rdUserID i, aiLabel = rdUser i, aiEmail = rdUserEmail i, aiProvider = rdProvider i,
      aiSubject = rdSubject i\<rparr>"

definition scoped_watch :: "RolloutGateDecisionInput \<Rightarrow> DeployWatch \<Rightarrow> bool" where
  "scoped_watch i w = (dwRevisionID w = rdRevisionID i \<and> dwProjectID w = rdProjectID i)"

definition externalGroupsForRolloutGate ::
  "ApproverGroupSource \<Rightarrow> RolloutGateDecisionInput \<Rightarrow> DeployDB \<Rightarrow> approval_error + string list" where
  "externalGroupsForRolloutGate source i s =
     (if source = None then Inr []
      else
        (case find (\<lambda>w. scoped_watch i w \<and> dwGateID w \<noteq> None \<and> dwGateDecision w = GateUndecided) (ddWatches s) of
           None \<Rightarrow> Inr []
         | Some w \<Rightarrow>
             resolveExternalApproverGroups source (abUserGroups (ddAp s)) (rollout_identity i)
               (dwGateApprovers w) (dwGateApproverGroups w)))"

definition rollout_required :: "int \<Rightarrow> int" where
  "rollout_required req = (if req < 1 then 1 else req)"

text \<open>All checks of a decision: the watch, its job and the quorum, or the error.\<close>

definition admitRolloutDecision ::
  "ApproverGroupSource \<Rightarrow> RolloutGateDecisionInput \<Rightarrow> DeployDB \<Rightarrow>
   rollout_gate_error + DeployWatch \<times> uuid \<times> int" where
  "admitRolloutDecision source i s =
     (if rdDecision i \<noteq> GateApproved \<and> rdDecision i \<noteq> GateRejected then Inl RgBadDecision
      else if rdRevisionID i = uuid_Nil then Inl RgRevisionRequired
      else if rdUserID i = uuid_Nil then Inl RgUserRequired
      else if rdGateID i = uuid_Nil then Inl ErrGateStale
      else
        (case externalGroupsForRolloutGate source i s of
           Inl e \<Rightarrow> Inl (RgApprover e)
         | Inr external \<Rightarrow>
             (case (find (scoped_watch i) (ddWatches s), find_revision (rdRevisionID i) s) of
                (Some w, Some r) \<Rightarrow>
                  (if dwGateID w \<noteq> Some (rdGateID i) \<or> dwGateDecision w \<noteq> GateUndecided then Inl ErrGateStale
                   else
                     (case (dwGateArmedAt w, dwGateRequired w) of
                        (Some _, Some req) \<Rightarrow>
                          (case dvJobRunID r of
                             None \<Rightarrow> Inl RgNoJobRun
                           | Some job \<Rightarrow>
                               (case authorizeApprover (abUserGroups (ddAp s)) (rollout_identity i)
                                       (dwGateApprovers w) (dwGateApproverGroups w) external of
                                  Some e \<Rightarrow> Inl (RgApprover e)
                                | None \<Rightarrow>
                                    (if list_ex (\<lambda>v. voJobRunID v = job \<and> voUserID v = rdUserID i) (abVotes (ddAp s))
                                     then Inl ErrAlreadyVoted
                                     else Inr (w, job, rollout_required req))))
                      | _ \<Rightarrow> Inl ErrGateStale))
              | _ \<Rightarrow> Inl ErrGateStale)))"

definition rollout_vote :: "uuid \<Rightarrow> RolloutGateDecisionInput \<Rightarrow> JobRunApproval" where
  "rollout_vote job i =
     \<lparr>voJobRunID = job, voUserID = rdUserID i, voUserLabel = rdUser i,
      voApproved = (rdDecision i = GateApproved), voComment = rdComment i\<rparr>"

definition decided_watch :: "gotime \<Rightarrow> RolloutGateDecisionInput \<Rightarrow> DeployWatch \<Rightarrow> DeployWatch" where
  "decided_watch now i w =
     w\<lparr>dwGateDecision := rdDecision i, dwGateDecidedBy := rdUser i, dwGateDecidedAt := Some now,
       dwDeadlineAt := dwDeadlineAt w + (case dwGateArmedAt w of None \<Rightarrow> 0 | Some t \<Rightarrow> now - t)\<rparr>"

text \<open>The durable record of the round.\<close>

definition emitRolloutGateAudit ::
  "RolloutGateDecisionInput \<Rightarrow> uuid \<Rightarrow> int \<Rightarrow> JobRunApproval list \<Rightarrow> RolloutGateAudit" where
  "emitRolloutGateAudit i job required votes =
     \<lparr>raActor = rdUserID i, raRevisionID = rdRevisionID i, raGateID = rdGateID i, raDecision = rdDecision i,
      raRequired = required, raVotes = filter (\<lambda>v. voJobRunID v = job) votes\<rparr>"

definition DecideRolloutGate ::
  "ApproverGroupSource \<Rightarrow> gotime \<Rightarrow> RolloutGateDecisionInput \<Rightarrow> DeployDB \<Rightarrow>
   (rollout_gate_error + RolloutGateResult) \<times> DeployDB" where
  "DecideRolloutGate source now i s =
     (case admitRolloutDecision source i s of
        Inl e \<Rightarrow> (Inl e, s)
      | Inr (w, job, required) \<Rightarrow>
          (let votes = abVotes (ddAp s) @ [rollout_vote job i];
               approvals = int (approved_count job votes);
               s1 = s\<lparr>ddAp := (ddAp s)\<lparr>abVotes := votes\<rparr>\<rparr> in
           if rdDecision i = GateApproved \<and> approvals < required then
             (Inr \<lparr>rgDecided = False, rgDecision = GateUndecided, rgPendingQuorum = True,
                rgApprovalsNow = approvals, rgApprovalsRequired = required\<rparr>, s1)
           else
             (case exec_watches (\<lambda>w. dwRevisionID w = rdRevisionID i \<and> dwGateID w = Some (rdGateID i)
                     \<and> dwGateDecision w = GateUndecided) (decided_watch now i) s1 of
                (False, _) \<Rightarrow> (Inl ErrGateStale, s)
              | (True, s2) \<Rightarrow>
                  (Inr \<lparr>rgDecided = True, rgDecision = rdDecision i, rgPendingQuorum = False,
                     rgApprovalsNow = approvals, rgApprovalsRequired = required\<rparr>,
                   s2\<lparr>ddAudit := ddAudit s2 @ [emitRolloutGateAudit i job required votes]\<rparr>))))"

section \<open>The end of a deploy\<close>

text \<open>The job or reaper path: flips the revision of one attempt and deletes its watch.\<close>

definition FinalizeDeploymentRevision ::
  "uuid \<Rightarrow> int \<Rightarrow> deploy_status \<Rightarrow> DeployDB \<Rightarrow> nat option \<times> DeployDB" where
  "FinalizeDeploymentRevision job attempt status s =
     (if status = DeployStatusInProgress then (None, s)
      else
        (let p = (\<lambda>r. dvJobRunID r = Some job \<and> dvAttempt r = attempt \<and> dvStatus r = DeployStatusInProgress) in
         (Some (count_where p (ddRevisions s)),
          s\<lparr>ddRevisions := upd_where p (\<lambda>r. r\<lparr>dvStatus := status\<rparr>) (ddRevisions s),
            ddWatches := filter (\<lambda>w. \<not> list_ex (\<lambda>r. p r \<and> dvID r = dwRevisionID w) (ddRevisions s)) (ddWatches s)\<rparr>)))"

definition FinalizeDeploymentRevisionByID :: "uuid \<Rightarrow> deploy_status \<Rightarrow> DeployDB \<Rightarrow> DeployDB" where
  "FinalizeDeploymentRevisionByID rv status s =
     s\<lparr>ddRevisions := upd_where (\<lambda>r. dvID r = rv \<and> dvStatus r = DeployStatusInProgress)
       (\<lambda>r. r\<lparr>dvStatus := status\<rparr>) (ddRevisions s)\<rparr>"

definition deleteDeployWatchClaimed :: "uuid \<Rightarrow> uuid \<Rightarrow> DeployDB \<Rightarrow> bool \<times> DeployDB" where
  "deleteDeployWatchClaimed rv claim s =
     (list_ex (fenced rv claim) (ddWatches s), s\<lparr>ddWatches := filter (\<lambda>w. \<not> fenced rv claim w) (ddWatches s)\<rparr>)"

definition run_status_of :: "deploy_status \<Rightarrow> RunStatus" where
  "run_status_of st =
     (case st of DeployStatusSuccess \<Rightarrow> StatusSuccess | DeployStatusFailed \<Rightarrow> StatusFailed
      | DeployStatusCanceled \<Rightarrow> StatusCanceled | DeployStatusInProgress \<Rightarrow> StatusRunning)"

definition deploy_status_of :: "RunStatus \<Rightarrow> deploy_status" where
  "deploy_status_of st =
     (if st = StatusSuccess then DeployStatusSuccess else if st = StatusFailed then DeployStatusFailed
      else DeployStatusCanceled)"

datatype finalize_result = FinalizeError | LeaseLost | Finalized "uuid option"

text \<open>
  Completing the server-managed job of a deploy: its effective status and run, or \<open>None\<close> for a
  rolled-back transaction. \<open>contended\<close> tells the runs whose rows other transactions hold.
\<close>

definition complete_native_job ::
  "(uuid \<Rightarrow> bool) \<Rightarrow> uuid \<Rightarrow> int \<Rightarrow> deploy_status \<Rightarrow> string \<Rightarrow> DB \<Rightarrow> ((deploy_status \<times> uuid option) \<times> DB) option" where
  "complete_native_job contended job attempt status reason d =
     (case CompleteJobRun job (run_status_of status) (if status = DeployStatusFailed then 1 else 0)
             (if status = DeployStatusFailed then Some reason else None) [] None attempt d of
        (_, None) \<Rightarrow> Some ((status, None), d)
      | (d1, Some row) \<Rightarrow>
          (case cascadeAfterJobCompletion (jrStageRunID row) (jrRunID row)
                  (zero_completion\<lparr>jcJobRunID := jrID row, jcRunID := jrRunID row,
                     jcStageRunID := jrStageRunID row, jcJobName := jrName row\<rparr>) d1 of
             None \<Rightarrow> None
           | Some (cp, d2) \<Rightarrow>
               (case supersedeAfterCascade contended (jrRunID row) (jrStageRunID row) cp d2 of
                  None \<Rightarrow> None
                | Some (_, d3) \<Rightarrow> Some ((deploy_status_of (jrStatus row), Some (jrRunID row)), d3))))"

definition fenced_delete :: "uuid \<Rightarrow> uuid \<Rightarrow> uuid option \<Rightarrow> DeployDB \<Rightarrow> DeployDB \<Rightarrow> finalize_result \<times> DeployDB" where
  "fenced_delete rv claim run s0 s =
     (case deleteDeployWatchClaimed rv claim s of
        (False, _) \<Rightarrow> (LeaseLost, s0)
      | (True, s1) \<Rightarrow> (Finalized run, s1))"

definition FinalizeDeployWatch ::
  "(uuid \<Rightarrow> bool) \<Rightarrow> uuid \<Rightarrow> uuid \<Rightarrow> deploy_status \<Rightarrow> string \<Rightarrow> DeployDB \<Rightarrow> finalize_result \<times> DeployDB" where
  "FinalizeDeployWatch contended rv claim status reason s =
     (if status = DeployStatusInProgress then (FinalizeError, s)
      else
        (case find_watch rv s of
           None \<Rightarrow> (LeaseLost, s)
         | Some w \<Rightarrow>
             (if dwClaimID w \<noteq> Some claim then (LeaseLost, s)
              else
                (case find_revision rv s of
                   None \<Rightarrow> fenced_delete rv claim None s s
                 | Some r \<Rightarrow>
                     (if dvStatus r \<noteq> DeployStatusInProgress then fenced_delete rv claim None s s
                      else
                        (case (case dvJobRunID r of
                                 None \<Rightarrow> Some ((status, None), abDB (ddAp s))
                               | Some job \<Rightarrow>
                                   complete_native_job contended job (dvAttempt r) status reason (abDB (ddAp s))) of
                           None \<Rightarrow> (FinalizeError, s)
                         | Some ((effective, run), d) \<Rightarrow>
                             fenced_delete rv claim run s
                               (FinalizeDeploymentRevisionByID rv effective (on_db (\<lambda>_. d) s))))))))"

end
