(* ===== verification/DeployWatcher.thy ===== *)
theory DeployWatcher
  imports DeployWatches
begin

text \<open>
  The deploy watcher (\<open>server/internal/deploysvc/watcher.go\<close>, \<open>watcher_gate.go\<close>): the processing
  of one claimed watch as the sequence of its store and cluster calls, and the system in which
  several replicas process watches between human decisions and all other transactions. The
  cluster is code outside the repository: its answers are arguments of the steps.
\<close>

section \<open>Targets and anchors\<close>

definition targetOf :: "DeployWatch \<Rightarrow> DeploymentTarget" where
  "targetOf w =
     \<lparr>tgProjectID = dwProjectID w, tgEnvironment = [], tgProvider = ''argocd'', tgCluster = dwCluster w,
      tgApplication = dwApplication w, tgNamespace = dwNamespace w, tgSyncMode = dwSyncMode w,
      tgRolloutAware = dwRolloutAware w, tgRolloutCluster = dwRolloutCluster w,
      tgRolloutNamespace = dwRolloutNamespace w, tgRolloutName = dwRolloutName w\<rparr>"

definition with_rollout :: "string \<Rightarrow> string \<Rightarrow> string \<Rightarrow> DeploymentTarget \<Rightarrow> DeploymentTarget" where
  "with_rollout c ns n t = t\<lparr>tgRolloutCluster := c, tgRolloutNamespace := ns, tgRolloutName := n\<rparr>"

definition pinnedTargetOf :: "DeployWatch \<Rightarrow> DeploymentTarget" where
  "pinnedTargetOf w =
     with_rollout (dwGateRolloutCluster w) (dwGateRolloutNamespace w) (dwGateRolloutName w) (targetOf w)"

definition pin_complete :: "DeployWatch \<Rightarrow> bool" where
  "pin_complete w =
     (dwGateRolloutCluster w \<noteq> [] \<and> dwGateRolloutNamespace w \<noteq> [] \<and> dwGateRolloutName w \<noteq> [])"

definition cancelAbortTarget :: "DeployWatch \<Rightarrow> DeployState \<Rightarrow> DeploymentTarget" where
  "cancelAbortTarget w state =
     (if pin_complete w then pinnedTargetOf w
      else
        with_rollout (roResolvedCluster (dsRollout state)) (roResolvedNamespace (dsRollout state))
          (roResolvedName (dsRollout state)) (targetOf w))"

definition gatePausedStepPtr :: "DeployWatch \<Rightarrow> int option" where
  "gatePausedStepPtr w = dwGatePausedStep w"

definition anchorsOf :: "DeployWatch \<Rightarrow> bool \<Rightarrow> WatchAnchors" where
  "anchorsOf w cancelRequested =
     \<lparr>waSyncMode = dwSyncMode w, waExpectedRevision = dwExpectedRevision w,
      waSyncRequestedAt = dwSyncRequestedAt w, waDeadlineAt = dwDeadlineAt w,
      waDegradedSince = dwDegradedSince w, waRolloutAware = dwRolloutAware w,
      waGated = (dwGateRequired w \<noteq> None), waCancelRequested = cancelRequested,
      waGateArmedAt = dwGateArmedAt w, waGateDecision = dwGateDecision w,
      waGateActionedAt = dwGateActionedAt w, waGatePausedStep = gatePausedStepPtr w,
      waHasPinnedRolloutTarget = pin_complete w, waRolloutAbortActionedAt = dwRolloutAbortActionedAt w\<rparr>"

section \<open>Texts\<close>

definition rollout_phase_text :: "RolloutPhase \<Rightarrow> string" where
  "rollout_phase_text p =
     (case p of RolloutProgressing \<Rightarrow> ''Progressing'' | RolloutPaused \<Rightarrow> ''Paused''
      | RolloutDegraded \<Rightarrow> ''Degraded'' | RolloutHealthy \<Rightarrow> ''Healthy'' | RolloutPhaseOther s \<Rightarrow> s)"

definition op_phase_text :: "OpPhase \<Rightarrow> string" where
  "op_phase_text p =
     (case p of OpRunning \<Rightarrow> ''Running'' | OpSucceeded \<Rightarrow> ''Succeeded'' | OpFailed \<Rightarrow> ''Failed''
      | OpError \<Rightarrow> ''Error'' | OpTerminating \<Rightarrow> ''Terminating'' | OpOther s \<Rightarrow> s)"

definition reason_text :: "reason \<Rightarrow> string" where
  "reason_text r =
     (case r of NoReason \<Rightarrow> []
      | ReasonDeadlineExceeded \<Rightarrow> ''progress deadline exceeded''
      | ReasonDegradedTooLong \<Rightarrow> ''degraded beyond debounce window''
      | ReasonRolloutAborted \<Rightarrow> ''rollout aborted''
      | ReasonRejected \<Rightarrow> ''deploy rejected at the approval gate''
      | ReasonCanceled \<Rightarrow> ''deploy canceled''
      | ReasonOperation p \<Rightarrow> ''sync operation '' @ op_phase_text p)"

definition failed_observation :: "string \<Rightarrow> RolloutObservationInput" where
  "failed_observation err =
     \<lparr>oiObserved = False, oiPhase = [], oiMessage = [], oiPauseReason = [], oiCurrentStep = 0,
      oiStepKnown = False, oiStepCount = 0, oiAborted = False, oiError = err, oiAnalysisKind = [],
      oiAnalysisName = [], oiAnalysisPhase = [], oiAnalysisMessage = []\<rparr>"

definition stampRollout :: "DeployState \<Rightarrow> RolloutObservationInput" where
  "stampRollout state =
     (if dsRolloutObserved state then
        (let r = dsRollout state in
         \<lparr>oiObserved = True, oiPhase = rollout_phase_text (roPhase r), oiMessage = roMessage r,
          oiPauseReason = roPauseReason r, oiCurrentStep = roCurrentStepIndex r,
          oiStepKnown = roCurrentStepKnown r, oiStepCount = roStepCount r, oiAborted = roAborted r,
          oiError = [], oiAnalysisKind = roAnalysisKind r, oiAnalysisName = roAnalysisName r,
          oiAnalysisPhase = roAnalysisPhase r, oiAnalysisMessage = roAnalysisMessage r\<rparr>)
      else failed_observation (dsRolloutError state))"

section \<open>Processing one watch\<close>

text \<open>
  Where \<open>processWatch\<close> stands: the call it makes next, with the cancel intent it has read and the
  snapshot it has observed.
\<close>

datatype watch_phase =
  Claimed
| LeaseRenewed
| IntentRead bool
| Observed bool DeployState RolloutObservationInput
| Snapshot bool DeployState
| Judged bool DeployState Verdict
| Actuating VerdictEffect
| Actuated
| CancelAborting DeployState
| CancelAborted
| Finalizing deploy_status string

record WatchTask =
  wtRow :: DeployWatch
  wtPhase :: watch_phase

text \<open>Calls of the cluster and gates armed, in the order they happen.\<close>

datatype watcher_event =
  GateArmed uuid uuid ArmRolloutGateInput
| PromoteCall DeployWatch DeploymentTarget
| AbortCall DeployWatch DeploymentTarget
| CancelAbortCall DeployWatch DeploymentTarget

text \<open>
  What a step meets: the time, whether the store answers, what the cluster reports (\<open>None\<close> is an
  error of \<open>Observe\<close>) and whether it accepts an actuation, and the token a new gate gets.
\<close>

record answers =
  anNow :: gotime
  anStoreOk :: bool
  anObserve :: "DeployState option"
  anActuated :: bool
  anGate :: uuid
  anContended :: "uuid \<Rightarrow> bool"

definition arm_input :: "DeployState \<Rightarrow> ArmRolloutGateInput" where
  "arm_input state =
     \<lparr>agPausedStep = roCurrentStepIndex (dsRollout state), agRolloutCluster = roResolvedCluster (dsRollout state),
      agRolloutNamespace = roResolvedNamespace (dsRollout state), agRolloutName = roResolvedName (dsRollout state)\<rparr>"

text \<open>The outcome of a step: the next phase, or \<open>None\<close> when the watch is dropped, and what it did.\<close>

type_synonym watch_outcome = "watch_phase option \<times> DeployDB \<times> watcher_event list"

text \<open>\<open>RenewDeployWatch\<close> before a long or terminal call: lost or unanswered, the watch is dropped.\<close>

definition renew_then :: "answers \<Rightarrow> DeployWatch \<Rightarrow> uuid \<Rightarrow> watch_phase \<Rightarrow> DeployDB \<Rightarrow> watch_outcome" where
  "renew_then an w claim p s =
     (if \<not> anStoreOk an then (None, s, [])
      else
        (case RenewDeployWatch (anNow an) (dwRevisionID w) claim s of
           (True, s1) \<Rightarrow> (Some p, s1, [])
         | (False, s1) \<Rightarrow> (None, s1, [])))"

definition last_call :: "answers \<Rightarrow> (DeployDB \<Rightarrow> bool \<times> DeployDB) \<Rightarrow> DeployDB \<Rightarrow> watch_outcome" where
  "last_call an f s = (None, if anStoreOk an then snd (f s) else s, [])"

definition armGate :: "answers \<Rightarrow> DeployWatch \<Rightarrow> uuid \<Rightarrow> DeployState \<Rightarrow> DeployDB \<Rightarrow> watch_outcome" where
  "armGate an w claim state s =
     (if \<not> anStoreOk an then (None, s, [])
      else
        (case ArmRolloutGate (anNow an) (anGate an) (dwRevisionID w) claim (arm_input state) s of
           (Some True, s1) \<Rightarrow> (None, s1, [GateArmed (dwRevisionID w) (anGate an) (arm_input state)])
         | (_, s1) \<Rightarrow> (None, s1, [])))"

definition apply_verdict ::
  "answers \<Rightarrow> DeployWatch \<Rightarrow> uuid \<Rightarrow> bool \<Rightarrow> DeployState \<Rightarrow> Verdict \<Rightarrow> DeployDB \<Rightarrow> watch_outcome" where
  "apply_verdict an w claim cancel state v s =
     (case vdEffect v of
        Continue \<Rightarrow> (None, s, [])
      | SetDegraded \<Rightarrow> last_call an (SetDeployWatchDegradedSince (anNow an) (dwRevisionID w) claim) s
      | ClearDegraded \<Rightarrow> last_call an (ClearDeployWatchDegraded (dwRevisionID w) claim) s
      | ArmGate \<Rightarrow> armGate an w claim state s
      | Promote \<Rightarrow> renew_then an w claim (Actuating Promote) s
      | Abort \<Rightarrow> renew_then an w claim (if cancel then CancelAborting state else Actuating Abort) s
      | ClearGate \<Rightarrow> last_call an (ClearRolloutGate (anNow an) (dwRevisionID w) claim) s
      | FinalizeSuccess \<Rightarrow> renew_then an w claim (Finalizing DeployStatusSuccess []) s
      | FinalizeFailed \<Rightarrow> renew_then an w claim (Finalizing DeployStatusFailed (reason_text (vdReason v))) s)"

definition observe_failed :: DeployState where
  "observe_failed = zero_state\<lparr>dsRolloutError := ''the deploy could not be observed''\<rparr>"

fun processWatch :: "duration \<Rightarrow> answers \<Rightarrow> DeployWatch \<Rightarrow> uuid \<Rightarrow> watch_phase \<Rightarrow> DeployDB \<Rightarrow> watch_outcome" where
  "processWatch window an w claim Claimed s = renew_then an w claim LeaseRenewed s"
| "processWatch window an w claim LeaseRenewed s =
     (Some (IntentRead (dwRolloutAbortActionedAt w \<noteq> None
        \<or> anStoreOk an \<and> DeployWatchCancelRequested (dwRevisionID w) s)), s, [])"
| "processWatch window an w claim (IntentRead cancel) s =
     (let (state, input) = (case anObserve an of
            None \<Rightarrow> (observe_failed, failed_observation (dsRolloutError observe_failed))
          | Some state \<Rightarrow> (state, stampRollout state)) in
      (Some (if dwRolloutAware w then Observed cancel state input else Snapshot cancel state), s, []))"
| "processWatch window an w claim (Observed cancel state input) s =
     (Some (Snapshot cancel state),
      if anStoreOk an then snd (StampRolloutObservation (anNow an) (dwRevisionID w) claim input s) else s, [])"
| "processWatch window an w claim (Snapshot cancel state) s =
     (Some (Judged cancel state (Decide state (anchorsOf w cancel) (anNow an) window)), s, [])"
| "processWatch window an w claim (Judged cancel state v) s = apply_verdict an w claim cancel state v s"
| "processWatch window an w claim (Actuating e) s =
     (if anActuated an then Some Actuated else None, s,
      [if e = Promote then PromoteCall w (pinnedTargetOf w) else AbortCall w (pinnedTargetOf w)])"
| "processWatch window an w claim Actuated s =
     last_call an (MarkGateActioned (anNow an) (dwRevisionID w) claim) s"
| "processWatch window an w claim (CancelAborting state) s =
     (if anActuated an then Some CancelAborted else None, s, [CancelAbortCall w (cancelAbortTarget w state)])"
| "processWatch window an w claim CancelAborted s =
     last_call an (MarkRolloutAbortActioned (anNow an) (dwRevisionID w) claim) s"
| "processWatch window an w claim (Finalizing status reason) s =
     (None, if anStoreOk an then snd (FinalizeDeployWatch (anContended an) (dwRevisionID w) claim status reason s) else s, [])"

section \<open>The system\<close>

text \<open>
  All replicas and everybody else: a step happens at a time. Claim tokens, gate tokens and
  revision ids are fresh, which is what \<open>gen_random_uuid()\<close> promises.
\<close>

record WatcherSystem =
  wyDB :: DeployDB
  wyTasks :: "WatchTask list"
  wyLog :: "watcher_event list"
  wyUsed :: "uuid list"

definition resume_task :: "nat \<Rightarrow> watch_phase option \<Rightarrow> WatchTask list \<Rightarrow> WatchTask list" where
  "resume_task i p ts =
     (case p of None \<Rightarrow> take i ts @ drop (Suc i) ts | Some q \<Rightarrow> ts[i := (ts ! i)\<lparr>wtPhase := q\<rparr>])"

definition new_revision :: "uuid \<Rightarrow> DeployDB \<Rightarrow> bool" where
  "new_revision rv s =
     ((\<forall>r\<in>set (ddRevisions s). dvID r \<noteq> rv) \<and> (\<forall>w\<in>set (ddWatches s). dwRevisionID w \<noteq> rv))"

inductive watch_step ::
  "ApproverGroupSource \<Rightarrow> duration \<Rightarrow> gotime \<Rightarrow> WatcherSystem \<Rightarrow> WatcherSystem \<Rightarrow> bool"
  for source window now where
  tick: "inj token \<Longrightarrow> (\<And>r. token r \<notin> set (wyUsed y)) \<Longrightarrow>
    ClaimDeployWatches now worker lease batch locked token (wyDB y) = (rows, s) \<Longrightarrow>
    watch_step source window now y (y\<lparr>wyDB := s,
      wyTasks := wyTasks y @ map (\<lambda>w. \<lparr>wtRow = w, wtPhase = Claimed\<rparr>) rows,
      wyUsed := wyUsed y @ map (token \<circ> dwRevisionID) rows\<rparr>)"
| process: "i < length (wyTasks y) \<Longrightarrow> dwClaimID (wtRow (wyTasks y ! i)) = Some claim \<Longrightarrow>
    anNow an = now \<Longrightarrow> anGate an \<notin> set (wyUsed y) \<Longrightarrow>
    processWatch window an (wtRow (wyTasks y ! i)) claim (wtPhase (wyTasks y ! i)) (wyDB y) = (p, s, es) \<Longrightarrow>
    watch_step source window now y (y\<lparr>wyDB := s, wyTasks := resume_task i p (wyTasks y),
      wyLog := wyLog y @ es, wyUsed := wyUsed y @ [anGate an]\<rparr>)"
| drop: "watch_step source window now y (y\<lparr>wyTasks := resume_task i None (wyTasks y)\<rparr>)"
| human: "watch_step source window now y (y\<lparr>wyDB := snd (DecideRolloutGate source now i (wyDB y))\<rparr>)"
| takeover: "rv \<notin> set (wyUsed y) \<Longrightarrow> new_revision rv (wyDB y) \<Longrightarrow>
    watch_step source window now y (y\<lparr>wyDB := snd (StartNativeDeploy now rv i (wyDB y)), wyUsed := wyUsed y @ [rv]\<rparr>)"
| declared: "rv \<notin> set (wyUsed y) \<Longrightarrow> new_revision rv (wyDB y) \<Longrightarrow>
    watch_step source window now y
      (y\<lparr>wyDB := snd (StartNativeDeployDeclared now rv i want (wyDB y)), wyUsed := wyUsed y @ [rv]\<rparr>)"
| synced: "watch_step source window now y (y\<lparr>wyDB := snd (StampDeployWatchSyncRequested now rv (wyDB y))\<rparr>)"
| marked: "watch_step source window now y (y\<lparr>wyDB := snd (MarkDeployWatchSyncRequested now rv claim (wyDB y))\<rparr>)"
| job_path: "watch_step source window now y (y\<lparr>wyDB := snd (FinalizeDeploymentRevision job attempt status (wyDB y))\<rparr>)"
| other: "ap_step source (ddAp (wyDB y)) a \<Longrightarrow> watch_step source window now y (y\<lparr>wyDB := (wyDB y)\<lparr>ddAp := a\<rparr>\<rparr>)"
| retarget: "watch_step source window now y (y\<lparr>wyDB := (wyDB y)\<lparr>ddTargets := ts\<rparr>\<rparr>)"

definition watch_reach :: "ApproverGroupSource \<Rightarrow> duration \<Rightarrow> WatcherSystem \<Rightarrow> WatcherSystem \<Rightarrow> bool" where
  "watch_reach source window = (\<lambda>y z. \<exists>now. watch_step source window now y z)\<^sup>*\<^sup>*"

text \<open>A server before its first native deploy.\<close>

definition quiet_server :: "WatcherSystem \<Rightarrow> bool" where
  "quiet_server y =
     (ddWatches (wyDB y) = [] \<and> ddAudit (wyDB y) = [] \<and> wyTasks y = [] \<and> wyLog y = []
      \<and> distinct (map (\<lambda>v. (voJobRunID v, voUserID v)) (abVotes (ddAp (wyDB y)))))"

section \<open>Invariants of the rows\<close>

definition awaiting_human :: "DeployWatch \<Rightarrow> bool" where
  "awaiting_human w = (dwGateArmedAt w \<noteq> None \<and> dwGateDecision w = GateUndecided)"

text \<open>The time a deploy has left: the clock stands still while a human is awaited.\<close>

definition budget :: "gotime \<Rightarrow> DeployWatch \<Rightarrow> duration" where
  "budget now w = dwDeadlineAt w - (if awaiting_human w then the (dwGateArmedAt w) else now)"

definition approvers_of :: "RolloutGateAudit \<Rightarrow> uuid set" where
  "approvers_of a = voUserID ` {v \<in> set (raVotes a). voApproved v}"

definition audit_of :: "DeployWatch \<Rightarrow> RolloutGateAudit \<Rightarrow> bool" where
  "audit_of w a =
     (dwGateID w = Some (raGateID a) \<and> raRevisionID a = dwRevisionID w \<and> raDecision a = dwGateDecision w
      \<and> dwGateRequired w \<noteq> None \<and> raRequired a = rollout_required (the (dwGateRequired w))
      \<and> (raDecision a = GateApproved \<longrightarrow> raRequired a \<le> int (card (approvers_of a)))
      \<and> (raDecision a = GateRejected \<longrightarrow> (\<exists>v\<in>set (raVotes a). voUserID v = raActor a \<and> \<not> voApproved v)))"

definition pinned_by :: "DeployWatch \<Rightarrow> ArmRolloutGateInput \<Rightarrow> bool" where
  "pinned_by w i =
     (dwGateRolloutCluster w = agRolloutCluster i \<and> dwGateRolloutNamespace w = agRolloutNamespace i
      \<and> dwGateRolloutName w = agRolloutName i \<and> dwGatePausedStep w = Some (int32 (agPausedStep i)))"

definition round_ok :: "watcher_event list \<Rightarrow> RolloutGateAudit list \<Rightarrow> DeployWatch \<Rightarrow> bool" where
  "round_ok evs audit w =
     (case dwGateID w of
        None \<Rightarrow> dwGateArmedAt w = None \<and> dwGateDecision w = GateUndecided
      | Some g \<Rightarrow> dwGateArmedAt w \<noteq> None
          \<and> (\<exists>i. GateArmed (dwRevisionID w) g i \<in> set evs \<and> pinned_by w i)
          \<and> (dwGateDecision w = GateUndecided
             \<or> dwGateDecision w \<in> {GateApproved, GateRejected} \<and> (\<exists>a\<in>set audit. audit_of w a)))"

definition votes_distinct :: "DeployDB \<Rightarrow> bool" where
  "votes_distinct s = distinct (map (\<lambda>v. (voJobRunID v, voUserID v)) (abVotes (ddAp s)))"

definition dd_ok :: "watcher_event list \<Rightarrow> DeployDB \<Rightarrow> bool" where
  "dd_ok evs s =
     (votes_distinct s \<and> distinct (map dwRevisionID (ddWatches s))
      \<and> (\<forall>w\<in>set (ddWatches s). round_ok evs (ddAudit s) w))"

text \<open>Every watch that was there before an operation has the same budget after it.\<close>

definition budgets_kept :: "gotime \<Rightarrow> DeployDB \<Rightarrow> DeployDB \<Rightarrow> bool" where
  "budgets_kept now s s' =
     (\<forall>w'\<in>set (ddWatches s'). dwRevisionID w' \<in> dwRevisionID ` set (ddWatches s) \<longrightarrow>
        (\<exists>w\<in>set (ddWatches s). dwRevisionID w = dwRevisionID w' \<and> budget now w' = budget now w))"

definition grows :: "DeployDB \<Rightarrow> DeployDB \<Rightarrow> bool" where
  "grows s s' = (set (ddAudit s) \<subseteq> set (ddAudit s'))"

definition keeps :: "watcher_event list \<Rightarrow> gotime \<Rightarrow> DeployDB \<Rightarrow> DeployDB \<Rightarrow> bool" where
  "keeps evs now s s' = (dd_ok evs s \<longrightarrow> dd_ok evs s' \<and> budgets_kept now s s' \<and> grows s s')"

lemma keeps_refl [simp]: "keeps evs now s s"
  by (auto simp: keeps_def budgets_kept_def grows_def)

lemma round_ok_mono: "round_ok evs audit w \<Longrightarrow> set evs \<subseteq> set evs' \<Longrightarrow> set audit \<subseteq> set audit' \<Longrightarrow> round_ok evs' audit' w"
  unfolding round_ok_def by (auto split: option.splits) (blast+)?

lemma keepsI:
  assumes "votes_distinct s \<Longrightarrow> votes_distinct s'" and "ddAudit s' = ddAudit s"
    and "\<And>w'. dd_ok evs s \<Longrightarrow> w' \<in> set (ddWatches s') \<Longrightarrow> \<exists>w\<in>set (ddWatches s). dwRevisionID w = dwRevisionID w'
      \<and> budget now w' = budget now w \<and> (round_ok evs (ddAudit s) w \<longrightarrow> round_ok evs (ddAudit s) w')"
    and "distinct (map dwRevisionID (ddWatches s)) \<Longrightarrow> distinct (map dwRevisionID (ddWatches s'))"
  shows "keeps evs now s s'"
  unfolding keeps_def
proof (intro impI conjI)
  assume ok: "dd_ok evs s"
  have "round_ok evs (ddAudit s) w'" if "w' \<in> set (ddWatches s')" for w'
    using assms(3) [OF ok that] ok by (auto simp: dd_ok_def)
  with ok assms(1,2,4) show "dd_ok evs s'" by (simp add: dd_ok_def)
  show "budgets_kept now s s'" unfolding budgets_kept_def using assms(3) [OF ok] by blast
  show "grows s s'" by (simp add: grows_def assms(2))
qed

lemma keeps_exec:
  assumes "\<And>w. p w \<Longrightarrow> dwRevisionID (f w) = dwRevisionID w"
    and "\<And>w. p w \<Longrightarrow> round_ok evs (ddAudit s) w \<Longrightarrow> round_ok evs (ddAudit s) (f w) \<and> budget now (f w) = budget now w"
  shows "keeps evs now s (snd (exec_watches p f s))"
proof (rule keepsI)
  have rows: "map dwRevisionID (ddWatches (snd (exec_watches p f s))) = map dwRevisionID (ddWatches s)"
    using assms(1) by (simp add: exec_watches_def upd_where_def)
  then show "distinct (map dwRevisionID (ddWatches s)) \<Longrightarrow>
      distinct (map dwRevisionID (ddWatches (snd (exec_watches p f s))))" by simp
  fix w' assume ok: "dd_ok evs s" and "w' \<in> set (ddWatches (snd (exec_watches p f s)))"
  then obtain w where "w \<in> set (ddWatches s)" "w' = (if p w then f w else w)"
    by (auto simp: exec_watches_def upd_where_def)
  with assms ok show "\<exists>w\<in>set (ddWatches s). dwRevisionID w = dwRevisionID w'
      \<and> budget now w' = budget now w \<and> (round_ok evs (ddAudit s) w \<longrightarrow> round_ok evs (ddAudit s) w')"
    by (intro bexI [of _ w]) (auto simp: dd_ok_def)
qed (simp_all add: exec_watches_def votes_distinct_def)

lemmas row_defs = round_ok_def budget_def awaiting_human_def audit_of_def pinned_by_def

text \<open>The columns of the round and the deadline decide both facts.\<close>

definition same_round :: "DeployWatch \<Rightarrow> DeployWatch \<Rightarrow> bool" where
  "same_round w w' =
     (dwRevisionID w' = dwRevisionID w \<and> dwGateID w' = dwGateID w \<and> dwGateArmedAt w' = dwGateArmedAt w
      \<and> dwGatePausedStep w' = dwGatePausedStep w \<and> dwGateRequired w' = dwGateRequired w
      \<and> dwGateRolloutCluster w' = dwGateRolloutCluster w \<and> dwGateRolloutNamespace w' = dwGateRolloutNamespace w
      \<and> dwGateRolloutName w' = dwGateRolloutName w \<and> dwGateDecision w' = dwGateDecision w
      \<and> dwDeadlineAt w' = dwDeadlineAt w)"

lemma same_roundD:
  assumes "same_round w w'"
  shows "round_ok evs audit w' = round_ok evs audit w" and "budget now w' = budget now w"
    and "dwRevisionID w' = dwRevisionID w"
proof -
  have "audit_of w' = audit_of w" "pinned_by w' = pinned_by w"
    using assms by (auto simp: same_round_def audit_of_def pinned_by_def fun_eq_iff)
  then show "round_ok evs audit w' = round_ok evs audit w" using assms by (cases "dwGateID w") (simp_all add: round_ok_def same_round_def)
  show "budget now w' = budget now w" "dwRevisionID w' = dwRevisionID w"
    using assms by (simp_all add: same_round_def budget_def awaiting_human_def)
qed

lemma keeps_same:
  assumes "\<And>w. same_round w (f w)"
  shows "keeps evs now s (snd (exec_watches p f s))"
  using same_roundD [OF assms] by (intro keeps_exec) simp_all

lemma keeps_plain_ops:
  "keeps evs now s (snd (RenewDeployWatch now rv claim s))"
  "keeps evs now s (snd (MarkDeployWatchSyncRequested now rv claim s))"
  "keeps evs now s (snd (StampDeployWatchSyncRequested now rv s))"
  "keeps evs now s (snd (SetDeployWatchDegradedSince now rv claim s))"
  "keeps evs now s (snd (ClearDeployWatchDegraded rv claim s))"
  "keeps evs now s (snd (StampRolloutObservation now rv claim input s))"
  "keeps evs now s (snd (MarkGateActioned now rv claim s))"
  unfolding RenewDeployWatch_def MarkDeployWatchSyncRequested_def StampDeployWatchSyncRequested_def
    SetDeployWatchDegradedSince_def ClearDeployWatchDegraded_def StampRolloutObservation_def MarkGateActioned_def
  by (rule keeps_same, simp add: same_round_def)+

lemma keeps_ArmRolloutGate:
  assumes "\<And>b s'. ArmRolloutGate now g rv claim i s = (Some True, s') \<Longrightarrow> GateArmed rv g i \<in> set evs"
  shows "keeps evs now s (snd (ArmRolloutGate now g rv claim i s))"
proof (cases "fst (ArmRolloutGate now g rv claim i s) = Some True")
  case True
  then have "ArmRolloutGate now g rv claim i s = (Some True, snd (ArmRolloutGate now g rv claim i s))"
    by (metis prod.collapse)
  from assms [OF this] have armed: "GateArmed rv g i \<in> set evs" .
  have "keeps evs now s (snd (exec_watches (\<lambda>w. fenced rv claim w \<and> dwGateID w = None)
      (\<lambda>w. w\<lparr>dwGateID := Some g, dwGateArmedAt := Some now, dwGatePausedStep := Some (int32 (agPausedStep i)),
        dwGateRolloutCluster := agRolloutCluster i, dwGateRolloutNamespace := agRolloutNamespace i,
        dwGateRolloutName := agRolloutName i\<rparr>) s))"
    using armed by (intro keeps_exec) (auto simp: row_defs fenced_def)
  then show ?thesis by (auto simp: ArmRolloutGate_def)
next
  case False
  then have "\<not> list_ex (\<lambda>w. fenced rv claim w \<and> dwGateID w = None) (ddWatches s) \<or> snd (ArmRolloutGate now g rv claim i s) = s"
    by (auto simp: ArmRolloutGate_def exec_watches_def)
  then have "snd (ArmRolloutGate now g rv claim i s) = s"
    by (auto simp: ArmRolloutGate_def exec_watches_def list_ex_iff upd_where_none)
  then show ?thesis by simp
qed

lemma disarmed_row:
  "round_ok evs audit (disarmed now w)" "budget now (disarmed now w) = budget now w"
  "dwRevisionID (disarmed now w) = dwRevisionID w"
  by (auto simp: row_defs disarmed_def resumed_deadline_def split: option.splits)

lemma keeps_delete_votes: "keeps evs now s s' \<Longrightarrow> keeps evs now s (DeleteDeployGateVotes rv s')"
proof -
  have "distinct (map k xs) \<Longrightarrow> distinct (map k (filter p xs))" for k :: "JobRunApproval \<Rightarrow> uuid \<times> uuid" and p xs
    by (induction xs) auto
  then show "keeps evs now s s' \<Longrightarrow> ?thesis"
    by (auto simp: keeps_def dd_ok_def DeleteDeployGateVotes_def votes_distinct_def budgets_kept_def grows_def)
qed

lemma keeps_disarming:
  "keeps evs now s (snd (ClearRolloutGate now rv claim s))"
  "keeps evs now s (snd (MarkRolloutAbortActioned now rv claim s))"
proof -
  have 1: "keeps evs now s (snd (exec_watches p (disarmed now) s))" for p
    by (rule keeps_exec) (simp_all add: disarmed_row)
  have "same_round (disarmed now w) ((disarmed now w)\<lparr>dwRolloutAbortActionedAt := t\<rparr>)" for w t
    by (simp add: same_round_def)
  note abort = same_roundD [OF this]
  have 2: "keeps evs now s (snd (exec_watches p (\<lambda>w. (disarmed now w)\<lparr>dwRolloutAbortActionedAt := t\<rparr>) s))" for p t
    by (rule keeps_exec) (simp_all add: disarmed_row abort)
  show "keeps evs now s (snd (ClearRolloutGate now rv claim s))"
    using keeps_delete_votes [OF 1] by (auto simp: ClearRolloutGate_def split: prod.split bool.split) (metis snd_conv)
  show "keeps evs now s (snd (MarkRolloutAbortActioned now rv claim s))"
    using keeps_delete_votes [OF 2] by (auto simp: MarkRolloutAbortActioned_def split: prod.split bool.split) (metis snd_conv)
qed

text \<open>Operations that only remove watches or touch other tables.\<close>

lemma keeps_fewer:
  assumes "set (ddWatches s') \<subseteq> set (ddWatches s)" and "ddAudit s' = ddAudit s" and "abVotes (ddAp s') = abVotes (ddAp s)"
    and "distinct (map dwRevisionID (ddWatches s)) \<Longrightarrow> distinct (map dwRevisionID (ddWatches s'))"
  shows "keeps evs now s s'"
  using assms by (intro keepsI) (auto simp: votes_distinct_def)

lemma distinct_map_filter: "distinct (map k xs) \<Longrightarrow> distinct (map k (filter p xs))"
  by (induction xs) auto

lemma keeps_FinalizeDeploymentRevision: "keeps evs now s (snd (FinalizeDeploymentRevision job attempt status s))"
  by (rule keeps_fewer) (auto simp: FinalizeDeploymentRevision_def Let_def intro: distinct_map_filter)

lemma fenced_delete_cases:
  obtains "fenced_delete rv claim run s0 s = (LeaseLost, s0)"
  | "fenced_delete rv claim run s0 s = (Finalized run, s\<lparr>ddWatches := filter (\<lambda>w. \<not> fenced rv claim w) (ddWatches s)\<rparr>)"
    "list_ex (fenced rv claim) (ddWatches s)"
  by (cases "list_ex (fenced rv claim) (ddWatches s)") (auto simp: fenced_delete_def deleteDeployWatchClaimed_def)

text \<open>What finalizing a watch leaves: everything, or the state without the watch.\<close>

lemma FinalizeDeployWatch_cases:
  obtains (kept) res where "FinalizeDeployWatch contended rv claim status reason s = (res, s)" "\<And>run. res \<noteq> Finalized run"
  | (late) "FinalizeDeployWatch contended rv claim status reason s =
      (Finalized None, s\<lparr>ddWatches := filter (\<lambda>w. \<not> fenced rv claim w) (ddWatches s)\<rparr>)"
    "list_ex (fenced rv claim) (ddWatches s)"
    "find_revision rv s = None \<or> (\<exists>r. find_revision rv s = Some r \<and> dvStatus r \<noteq> DeployStatusInProgress)"
  | (closed) r effective run d where "FinalizeDeployWatch contended rv claim status reason s =
      (Finalized run, (FinalizeDeploymentRevisionByID rv effective (on_db (\<lambda>_. d) s))
        \<lparr>ddWatches := filter (\<lambda>w. \<not> fenced rv claim w) (ddWatches s)\<rparr>)"
    "status \<noteq> DeployStatusInProgress" "list_ex (fenced rv claim) (ddWatches s)"
    "find_revision rv s = Some r" "dvStatus r = DeployStatusInProgress"
    "(case dvJobRunID r of
        None \<Rightarrow> Some ((status, None), abDB (ddAp s))
      | Some job \<Rightarrow> complete_native_job contended job (dvAttempt r) status reason (abDB (ddAp s))) =
     Some ((effective, run), d)"
proof (cases "status = DeployStatusInProgress \<or> find_watch rv s = None \<or> dwClaimID (the (find_watch rv s)) \<noteq> Some claim")
  case True
  then have "\<exists>res. FinalizeDeployWatch contended rv claim status reason s = (res, s) \<and> (\<forall>run. res \<noteq> Finalized run)"
    by (cases "find_watch rv s") (auto simp: FinalizeDeployWatch_def)
  then show thesis using kept by blast
next
  case False
  then obtain w where w: "find_watch rv s = Some w" "dwClaimID w = Some claim" "status \<noteq> DeployStatusInProgress" by auto
  then have fenced: "list_ex (fenced rv claim) (ddWatches s)"
    using find_SomeD [of _ "ddWatches s" w] by (auto simp: find_watch_def list_ex_iff fenced_def)
  let ?d = "\<lambda>s. s\<lparr>ddWatches := filter (\<lambda>w. \<not> fenced rv claim w) (ddWatches s)\<rparr>"
  have del: "fenced_delete rv claim run s0 s' = (Finalized run, ?d s')" if "ddWatches s' = ddWatches s" for run s0 s'
    using fenced that by (simp add: fenced_delete_def deleteDeployWatchClaimed_def)
  show thesis
  proof (cases "find_revision rv s")
    case None
    with w del [of s] show thesis by (intro late) (auto simp: FinalizeDeployWatch_def fenced)
  next
    case (Some r)
    show thesis
    proof (cases "dvStatus r = DeployStatusInProgress")
      case False
      with Some w del [of s] show thesis by (intro late) (auto simp: FinalizeDeployWatch_def fenced)
    next
      case True
      let ?c = "case dvJobRunID r of
          None \<Rightarrow> Some ((status, None), abDB (ddAp s))
        | Some job \<Rightarrow> complete_native_job contended job (dvAttempt r) status reason (abDB (ddAp s))"
      show thesis
      proof (cases ?c)
        case None
        with Some True w show thesis by (intro kept) (auto simp: FinalizeDeployWatch_def)
      next
        case (Some erd)
        obtain effective run d where erd: "erd = ((effective, run), d)" by (metis prod.collapse)
        have same: "ddWatches (FinalizeDeploymentRevisionByID rv effective (on_db (\<lambda>_. d) s)) = ddWatches s"
          by (simp add: FinalizeDeploymentRevisionByID_def on_db_def)
        have "FinalizeDeployWatch contended rv claim status reason s =
            fenced_delete rv claim run s (FinalizeDeploymentRevisionByID rv effective (on_db (\<lambda>_. d) s))"
          using \<open>find_revision rv s = Some r\<close> True w Some erd by (simp add: FinalizeDeployWatch_def)
        with del [OF same] same closed [of run effective d r] \<open>find_revision rv s = Some r\<close> True w fenced Some erd
        show thesis by simp
      qed
    qed
  qed
qed

text \<open>No way of finalizing a deploy deletes the votes of its gate.\<close>

lemma finalize_keeps_votes:
  "abVotes (ddAp (snd (FinalizeDeployWatch contended rv claim status reason s))) = abVotes (ddAp s)"
  "abVotes (ddAp (snd (FinalizeDeploymentRevision job attempt st s))) = abVotes (ddAp s)"
  by (cases rule: FinalizeDeployWatch_cases [of contended rv claim status reason s])
    (simp_all add: FinalizeDeploymentRevisionByID_def FinalizeDeploymentRevision_def on_db_def Let_def)

lemma keeps_FinalizeDeployWatch: "keeps evs now s (snd (FinalizeDeployWatch contended rv claim status reason s))"
  by (cases rule: FinalizeDeployWatch_cases [of contended rv claim status reason s])
    (auto intro!: keeps_fewer distinct_map_filter simp: FinalizeDeploymentRevisionByID_def on_db_def)

lemma admitRolloutDecision_InrD:
  assumes "admitRolloutDecision source i s = Inr (w, job, required)"
  shows "rdDecision i = GateApproved \<or> rdDecision i = GateRejected"
    and "w \<in> set (ddWatches s)" and "dwRevisionID w = rdRevisionID i" and "dwGateID w = Some (rdGateID i)"
    and "dwGateDecision w = GateUndecided" and "dwGateArmedAt w \<noteq> None"
    and "dwGateRequired w \<noteq> None" and "required = rollout_required (the (dwGateRequired w))"
    and "\<not> list_ex (\<lambda>v. voJobRunID v = job \<and> voUserID v = rdUserID i) (abVotes (ddAp s))"
  using assms find_SomeD [of "scoped_watch i" "ddWatches s" w]
  by (auto simp: admitRolloutDecision_def scoped_watch_def split: if_splits sum.splits option.splits)

lemma DecideRolloutGate_cases:
  obtains (refused) e where "DecideRolloutGate source now i s = (Inl e, s)"
  | (counted) w job required res where "admitRolloutDecision source i s = Inr (w, job, required)"
      "DecideRolloutGate source now i s =
        (Inr res, s\<lparr>ddAp := (ddAp s)\<lparr>abVotes := abVotes (ddAp s) @ [rollout_vote job i]\<rparr>\<rparr>)"
  | (decided) w job required res where "admitRolloutDecision source i s = Inr (w, job, required)"
      "rdDecision i = GateApproved \<longrightarrow> required \<le> int (approved_count job (abVotes (ddAp s) @ [rollout_vote job i]))"
      "DecideRolloutGate source now i s =
        (Inr res, s\<lparr>ddAp := (ddAp s)\<lparr>abVotes := abVotes (ddAp s) @ [rollout_vote job i]\<rparr>,
           ddWatches := upd_where (\<lambda>w. dwRevisionID w = rdRevisionID i \<and> dwGateID w = Some (rdGateID i)
             \<and> dwGateDecision w = GateUndecided) (decided_watch now i) (ddWatches s),
           ddAudit := ddAudit s @ [emitRolloutGateAudit i job required (abVotes (ddAp s) @ [rollout_vote job i])]\<rparr>)"
proof (cases "admitRolloutDecision source i s")
  case (Inl e)
  then show thesis using refused by (simp add: DecideRolloutGate_def)
next
  case (Inr x)
  then obtain w job required where adm: "admitRolloutDecision source i s = Inr (w, job, required)"
    by (metis prod.collapse)
  let ?votes = "abVotes (ddAp s) @ [rollout_vote job i]"
  note D = admitRolloutDecision_InrD [OF adm]
  have hit: "list_ex (\<lambda>w. dwRevisionID w = rdRevisionID i \<and> dwGateID w = Some (rdGateID i)
      \<and> dwGateDecision w = GateUndecided) (ddWatches s)"
    using D by (auto simp: list_ex_iff)
  show thesis
  proof (cases "rdDecision i = GateApproved \<and> int (approved_count job ?votes) < required")
    case True
    with adm counted show thesis by (simp add: DecideRolloutGate_def Let_def)
  next
    case False
    with adm hit decided [OF adm] show thesis
      by (auto simp: DecideRolloutGate_def Let_def exec_watches_def)
  qed
qed

lemma rollout_vote_distinct:
  assumes "votes_distinct s" and "\<not> list_ex (\<lambda>v. voJobRunID v = job \<and> voUserID v = rdUserID i) (abVotes (ddAp s))"
  shows "distinct (map (\<lambda>v. (voJobRunID v, voUserID v)) (abVotes (ddAp s) @ [rollout_vote job i]))"
  using assms by (auto simp: votes_distinct_def rollout_vote_def list_ex_iff)

lemma emitted_audit:
  assumes w: "dwRevisionID w = rdRevisionID i" "dwGateID w = Some (rdGateID i)" "dwGateRequired w \<noteq> None"
    and dist: "distinct (map (\<lambda>v. (voJobRunID v, voUserID v)) votes)" and vote: "rollout_vote job i \<in> set votes"
    and quorum: "rdDecision i = GateApproved \<longrightarrow> rollout_required (the (dwGateRequired w)) \<le> int (approved_count job votes)"
  shows "audit_of (decided_watch now i w) (emitRolloutGateAudit i job (rollout_required (the (dwGateRequired w))) votes)"
proof -
  have "approvers_of (emitRolloutGateAudit i job r votes) = voUserID ` {v \<in> set votes. voJobRunID v = job \<and> voApproved v}" for r
    by (auto simp: approvers_of_def emitRolloutGateAudit_def)
  with approved_count_card [OF dist, of job] quorum
  have "rdDecision i = GateApproved \<longrightarrow> rollout_required (the (dwGateRequired w)) \<le>
      int (card (approvers_of (emitRolloutGateAudit i job (rollout_required (the (dwGateRequired w))) votes)))"
    by simp
  with w vote show ?thesis
    by (auto simp: audit_of_def decided_watch_def emitRolloutGateAudit_def rollout_vote_def intro!: bexI [of _ "rollout_vote job i"])
qed

lemma keeps_DecideRolloutGate: "keeps evs now s (snd (DecideRolloutGate source now i s))"
proof (cases rule: DecideRolloutGate_cases [of source now i s])
  case (counted w job required res)
  note D = admitRolloutDecision_InrD [OF counted(1)]
  show ?thesis
    using rollout_vote_distinct [OF _ D(9)] unfolding counted(2)
    by (intro keepsI) (auto simp: votes_distinct_def)
next
  case (decided w job required res)
  note D = admitRolloutDecision_InrD [OF decided(1)]
  let ?votes = "abVotes (ddAp s) @ [rollout_vote job i]" and ?s = "snd (DecideRolloutGate source now i s)"
  let ?p = "\<lambda>w. dwRevisionID w = rdRevisionID i \<and> dwGateID w = Some (rdGateID i) \<and> dwGateDecision w = GateUndecided"
  let ?a = "emitRolloutGateAudit i job required ?votes"
  have s': "ddWatches ?s = upd_where ?p (decided_watch now i) (ddWatches s)" "ddAudit ?s = ddAudit s @ [?a]"
    "abVotes (ddAp ?s) = ?votes"
    using decided(3) by simp_all
  show ?thesis
    unfolding keeps_def
  proof (intro impI)
    assume ok: "dd_ok evs s"
    then have dist: "distinct (map (\<lambda>v. (voJobRunID v, voUserID v)) ?votes)"
      using rollout_vote_distinct [OF _ D(9)] by (simp add: dd_ok_def)
    have hit: "u = w" if "u \<in> set (ddWatches s)" "?p u" for u
      using ok that D(2,3) by (auto simp: dd_ok_def distinct_map inj_on_def)
    have awaiting: "round_ok evs (ddAudit s) u" if "u \<in> set (ddWatches s)" for u using ok that by (simp add: dd_ok_def)
    have row: "round_ok evs (ddAudit ?s) (decided_watch now i w) \<and> budget now (decided_watch now i w) = budget now w"
    proof -
      have "audit_of (decided_watch now i w) ?a"
        unfolding D(8) by (rule emitted_audit [OF D(3,4,7) dist]) (use decided(2) D(8) in simp_all)
      with awaiting [OF D(2)] D(1,4,5,6) s'(2) show ?thesis
        by (auto simp: round_ok_def decided_watch_def pinned_by_def budget_def awaiting_human_def split: option.splits)
    qed
    have rows: "\<exists>u\<in>set (ddWatches s). dwRevisionID u = dwRevisionID u' \<and> budget now u' = budget now u
        \<and> round_ok evs (ddAudit ?s) u'" if mem: "u' \<in> set (ddWatches ?s)" for u'
    proof -
      obtain u where u: "u \<in> set (ddWatches s)" "u' = (if ?p u then decided_watch now i u else u)"
        using mem s'(1) by (auto simp: upd_where_def)
      show ?thesis
      proof (cases "?p u")
        case True
        with u hit row show ?thesis by (intro bexI [of _ w]) (auto simp: decided_watch_def)
      next
        case False
        have "round_ok evs (ddAudit ?s) u"
          by (rule round_ok_mono [OF awaiting [OF u(1)]]) (auto simp: s'(2))
        with u False show ?thesis by (intro bexI [of _ u]) auto
      qed
    qed
    have "map dwRevisionID (ddWatches ?s) = map dwRevisionID (ddWatches s)"
      by (simp add: s' upd_where_def decided_watch_def)
    moreover have "budgets_kept now s ?s" unfolding budgets_kept_def using rows by metis
    moreover have "\<forall>w\<in>set (ddWatches ?s). round_ok evs (ddAudit ?s) w" using rows by blast
    ultimately show "dd_ok evs ?s \<and> budgets_kept now s ?s \<and> grows s ?s"
      using ok dist by (simp add: dd_ok_def votes_distinct_def s'(2,3) grows_def subset_insertI)
  qed
qed simp

text \<open>A new watch starts with an unarmed gate, under a revision nobody watches yet.\<close>

definition new_watch :: "uuid \<Rightarrow> DeployWatch \<Rightarrow> bool" where
  "new_watch rv w = (dwRevisionID w = rv \<and> dwGateID w = None \<and> dwGateArmedAt w = None \<and> dwGateDecision w = GateUndecided)"

lemma new_inserted_watch: "new_watch rv (inserted_watch now rv i)" "dwClaimID (inserted_watch now rv i) = None"
  by (simp_all add: new_watch_def inserted_watch_def)

text \<open>The two outcomes of a takeover: nothing, or one new watch and its revision.\<close>

definition took_over :: "uuid \<Rightarrow> DeployDB \<Rightarrow> DeployDB \<Rightarrow> bool" where
  "took_over rv s s' =
     (\<exists>w r d. new_watch rv w \<and> dwClaimID w = None \<and> dvID r = rv \<and> dvStatus r = DeployStatusInProgress
        \<and> s' = (on_db (\<lambda>_. d) s)\<lparr>ddRevisions := ddRevisions s @ [r], ddWatches := ddWatches s @ [w]\<rparr>)"

lemma startNativeDeployTx_cases: "snd (startNativeDeployTx now rv i s) = s \<or> took_over rv s (snd (startNativeDeployTx now rv i s))"
proof -
  have "took_over rv s (s1\<lparr>ddWatches := ddWatches s1 @ [inserted_watch now rv i]\<rparr>)"
    if "s1 = (on_db (\<lambda>_. d) s)\<lparr>ddRevisions := ddRevisions s @ [r]\<rparr>" "dvID r = rv" "dvStatus r = DeployStatusInProgress"
    for d r s1
    unfolding took_over_def using that new_inserted_watch
    by (intro exI [of _ "inserted_watch now rv i"] exI [of _ r] exI [of _ d]) (simp add: on_db_def)
  then show ?thesis
    by (auto simp: startNativeDeployTx_def CreateDeployWatch_def Let_def on_db_def split: option.splits prod.splits)
qed

lemma takeover_cases:
  "snd (StartNativeDeploy now rv i s) = s \<or> took_over rv s (snd (StartNativeDeploy now rv i s))"
  "snd (StartNativeDeployDeclared now rv i want s) = s \<or> took_over rv s (snd (StartNativeDeployDeclared now rv i want s))"
  using startNativeDeployTx_cases
  by (auto simp: StartNativeDeploy_def StartNativeDeployDeclared_def split: option.splits)

lemma keeps_took_over:
  assumes "took_over rv s s'" and fresh: "\<forall>w\<in>set (ddWatches s). dwRevisionID w \<noteq> rv"
  shows "keeps evs now s s'"
proof -
  obtain w r d where w: "new_watch rv w"
    "s' = (on_db (\<lambda>_. d) s)\<lparr>ddRevisions := ddRevisions s @ [r], ddWatches := ddWatches s @ [w]\<rparr>"
    using assms(1) by (auto simp: took_over_def)
  have s': "ddWatches s' = ddWatches s @ [w]" "ddAudit s' = ddAudit s" "abVotes (ddAp s') = abVotes (ddAp s)"
    by (simp_all add: w(2) on_db_def)
  have "round_ok evs audit w" for audit using w(1) by (simp add: new_watch_def round_ok_def)
  moreover have "dwRevisionID w = rv" using w(1) by (simp add: new_watch_def)
  ultimately show ?thesis
    using fresh by (auto simp: keeps_def dd_ok_def votes_distinct_def budgets_kept_def grows_def s')
qed

lemma claimed_same_round: "same_round w (claimed_row now worker token w)"
  by (simp add: same_round_def claimed_row_def)

lemma keeps_ClaimDeployWatches: "keeps evs now s (snd (ClaimDeployWatches now worker lease batch locked token s))"
  using keeps_same [OF claimed_same_round, of evs now s "\<lambda>w. dwRevisionID w \<in> set (claim_picks now lease batch locked s)"]
  by (simp add: ClaimDeployWatches_def exec_watches_def Let_def)

text \<open>Other transactions leave the deploy tables alone and keep votes unique.\<close>

lemma ap_step_votes:
  assumes "ap_step source a b" and "distinct (map (\<lambda>v. (voJobRunID v, voUserID v)) (abVotes a))"
  shows "distinct (map (\<lambda>v. (voJobRunID v, voUserID v)) (abVotes b))"
  using assms(1)
proof cases
  case (decision d contended approve)
  with assms(2) record_vote_distinct show ?thesis
    by (cases rule: decideGate_cases [of source contended d approve a]) auto
next
  case (rerun job)
  with assms(2) show ?thesis
    by (cases rule: RerunJob_cases [of job a]) (simp_all add: distinct_map_filter)
qed (use assms(2) in simp_all)

lemma keeps_other: "ap_step source (ddAp s) a \<Longrightarrow> keeps evs now s (s\<lparr>ddAp := a\<rparr>)"
  by (rule keepsI) (auto simp: votes_distinct_def dest: ap_step_votes)

text \<open>One step of a watcher.\<close>

lemma renew_then_db:
  "fst (snd (renew_then an w claim p s)) = (if anStoreOk an then snd (RenewDeployWatch (anNow an) (dwRevisionID w) claim s) else s)"
  "snd (snd (renew_then an w claim p s)) = []"
  by (auto simp: renew_then_def split: prod.split bool.split)

lemma armGate_db:
  "fst (snd (armGate an w claim state s)) =
     (if anStoreOk an then snd (ArmRolloutGate (anNow an) (anGate an) (dwRevisionID w) claim (arm_input state) s) else s)"
  "snd (snd (armGate an w claim state s)) =
     (if anStoreOk an \<and> fst (ArmRolloutGate (anNow an) (anGate an) (dwRevisionID w) claim (arm_input state) s) = Some True
      then [GateArmed (dwRevisionID w) (anGate an) (arm_input state)] else [])"
  by (auto simp: armGate_def split: prod.split option.split bool.split)

lemma keeps_if: "keeps evs now s (f s) \<Longrightarrow> keeps evs now s (if b then f s else s)"
  by simp

lemmas keeps_ops = keeps_if [where f = "\<lambda>s. snd (g s)" for g] keeps_plain_ops keeps_disarming keeps_FinalizeDeployWatch

lemma keeps_apply_verdict:
  "keeps (evs @ snd (snd (apply_verdict an w claim cancel state v s))) (anNow an) s
     (fst (snd (apply_verdict an w claim cancel state v s)))"
  by (cases "vdEffect v")
    (auto simp: apply_verdict_def last_call_def renew_then_db armGate_db
      intro: keeps_ops keeps_ArmRolloutGate split: if_splits)

lemma keeps_processWatch:
  assumes "processWatch window an w claim p s = (q, s', es)"
  shows "keeps (evs @ es) (anNow an) s s'"
proof -
  have "keeps (evs @ snd (snd (processWatch window an w claim p s))) (anNow an) s
      (fst (snd (processWatch window an w claim p s)))"
    by (cases p) (auto simp: last_call_def renew_then_db Let_def keeps_apply_verdict intro: keeps_ops
        split: prod.splits option.splits)
  with assms show ?thesis by simp
qed

section \<open>Invariants of the system\<close>

text \<open>A watcher is about to actuate only what its snapshot shows decided.\<close>

definition gate_decided :: "GateDecision \<Rightarrow> DeployWatch \<Rightarrow> bool" where
  "gate_decided d w =
     (dwGateDecision w = d \<and> dwGateRequired w \<noteq> None \<and> dwGateArmedAt w \<noteq> None \<and> pin_complete w)"

fun phase_ok :: "DeployWatch \<Rightarrow> watch_phase \<Rightarrow> bool" where
  "phase_ok w (Judged cancel state v) =
     ((vdEffect v = Promote \<longrightarrow> gate_decided GateApproved w)
      \<and> (vdEffect v = Abort \<longrightarrow> \<not> cancel \<longrightarrow> gate_decided GateRejected w))"
| "phase_ok w (Actuating e) =
     (if e = Promote then gate_decided GateApproved w else gate_decided GateRejected w)"
| "phase_ok w _ = True"

fun event_ok :: "watcher_event list \<Rightarrow> RolloutGateAudit list \<Rightarrow> watcher_event \<Rightarrow> bool" where
  "event_ok evs audit (PromoteCall w t) =
     (round_ok evs audit w \<and> gate_decided GateApproved w \<and> t = pinnedTargetOf w)"
| "event_ok evs audit (AbortCall w t) =
     (round_ok evs audit w \<and> gate_decided GateRejected w \<and> t = pinnedTargetOf w)"
| "event_ok evs audit _ = True"

lemma Decide_actuates:
  "vdEffect (Decide state (anchorsOf w cancel) now window) = Promote \<Longrightarrow> gate_decided GateApproved w"
  "vdEffect (Decide state (anchorsOf w cancel) now window) = Abort \<Longrightarrow> \<not> cancel \<Longrightarrow> gate_decided GateRejected w"
  using decide_convergence_effect [of state "anchorsOf w cancel" now window]
  by (auto simp: Decide_def Let_def anchorsOf_def gate_decided_def gateActuatable_def split: if_splits)

lemma renew_then_phase: "fst (renew_then an w claim p s) = Some q \<Longrightarrow> q = p"
  by (auto simp: renew_then_def split: if_splits prod.splits bool.splits)

lemma phase_ok_processWatch:
  assumes "phase_ok w p" and "processWatch window an w claim p s = (Some q, s', es)"
  shows "phase_ok w q"
proof -
  have q: "fst (processWatch window an w claim p s) = Some q" using assms(2) by simp
  show ?thesis
  proof (cases p)
    case (Snapshot cancel state)
    with q Decide_actuates show ?thesis by auto
  next
    case (Judged cancel state v)
    with q assms(1) show ?thesis
      by (cases "vdEffect v")
        (auto simp: apply_verdict_def last_call_def armGate_def dest!: renew_then_phase split: if_splits prod.splits option.splits bool.splits)
  qed (use q in \<open>auto simp: last_call_def Let_def dest!: renew_then_phase split: if_splits prod.splits option.splits\<close>)
qed

lemma event_ok_processWatch:
  assumes "phase_ok w p" and "round_ok evs audit w" and "processWatch window an w claim p s = (q, s', es)" and "e \<in> set es"
  shows "event_ok evs audit e"
proof -
  have e: "e \<in> set (snd (snd (processWatch window an w claim p s)))" using assms(3,4) by simp
  show ?thesis
  proof (cases p)
    case (Judged cancel state v)
    with e show ?thesis
      by (cases "vdEffect v") (auto simp: apply_verdict_def last_call_def renew_then_db armGate_db split: if_splits)
  qed (use e assms(1,2) in \<open>auto simp: last_call_def renew_then_db Let_def split: if_splits prod.splits\<close>)
qed

lemma event_ok_mono:
  "event_ok evs audit e \<Longrightarrow> set evs \<subseteq> set evs' \<Longrightarrow> set audit \<subseteq> set audit' \<Longrightarrow> event_ok evs' audit' e"
  by (cases e) (auto intro: round_ok_mono)

definition task_ok :: "watcher_event list \<Rightarrow> RolloutGateAudit list \<Rightarrow> WatchTask \<Rightarrow> bool" where
  "task_ok evs audit t = (round_ok evs audit (wtRow t) \<and> phase_ok (wtRow t) (wtPhase t))"

definition leases_ok :: "WatcherSystem \<Rightarrow> bool" where
  "leases_ok y =
     (distinct (map (dwClaimID \<circ> wtRow) (wyTasks y))
      \<and> (\<forall>t\<in>set (wyTasks y). \<exists>c\<in>set (wyUsed y). dwClaimID (wtRow t) = Some c))"

definition sys_inv :: "WatcherSystem \<Rightarrow> bool" where
  "sys_inv y =
     (dd_ok (wyLog y) (wyDB y) \<and> leases_ok y
      \<and> (\<forall>t\<in>set (wyTasks y). task_ok (wyLog y) (ddAudit (wyDB y)) t)
      \<and> (\<forall>e\<in>set (wyLog y). event_ok (wyLog y) (ddAudit (wyDB y)) e))"

text \<open>A step on the database alone.\<close>

lemma sys_inv_db:
  assumes "sys_inv y" and "keeps (wyLog y) now (wyDB y) s" and "set (wyUsed y) \<subseteq> set u"
  shows "sys_inv (y\<lparr>wyDB := s, wyUsed := u\<rparr>)"
proof -
  have s: "dd_ok (wyLog y) s" "set (ddAudit (wyDB y)) \<subseteq> set (ddAudit s)"
    using assms(1,2) by (auto simp: keeps_def sys_inv_def grows_def)
  have "task_ok (wyLog y) (ddAudit s) t" if "t \<in> set (wyTasks y)" for t
    using assms(1) that s(2) by (auto simp: sys_inv_def task_ok_def intro: round_ok_mono)
  moreover have "event_ok (wyLog y) (ddAudit s) e" if "e \<in> set (wyLog y)" for e
    using assms(1) that s(2) by (auto simp: sys_inv_def intro: event_ok_mono)
  moreover have "\<exists>c\<in>set u. dwClaimID (wtRow t) = Some c" if "t \<in> set (wyTasks y)" for t
    using assms(1,3) that unfolding sys_inv_def leases_ok_def by blast
  ultimately show ?thesis
    using assms(1) s(1) by (simp add: sys_inv_def leases_ok_def)
qed

lemma resume_task_set:
  "t \<in> set (resume_task i p ts) \<Longrightarrow> i < length ts \<Longrightarrow>
   t \<in> set ts \<or> (\<exists>q. p = Some q \<and> t = (ts ! i)\<lparr>wtPhase := q\<rparr>)"
  by (auto simp: resume_task_def dest: in_set_takeD in_set_dropD set_update_subset_insert [THEN subsetD] split: option.splits)

lemma resume_task_claims:
  assumes "distinct (map (dwClaimID \<circ> wtRow) ts)"
  shows "distinct (map (dwClaimID \<circ> wtRow) (resume_task i p ts))"
proof (cases p)
  case None
  have "distinct (take i xs @ drop (Suc i) xs)" if "distinct xs" for xs :: "uuid option list"
    using that by (auto simp: set_take_disj_set_drop_if_distinct)
  from this [OF assms] None show ?thesis by (simp add: resume_task_def take_map drop_map)
next
  case (Some q)
  have "map (dwClaimID \<circ> wtRow) (ts[i := (ts ! i)\<lparr>wtPhase := q\<rparr>]) = map (dwClaimID \<circ> wtRow) ts"
    by (cases "i < length ts") (simp_all add: map_update list_update_same_conv list_update_beyond)
  with assms Some show ?thesis by (simp add: resume_task_def)
qed

lemma sys_inv_process:
  assumes inv: "sys_inv y" and i: "i < length (wyTasks y)"
    and step: "processWatch window an (wtRow (wyTasks y ! i)) claim (wtPhase (wyTasks y ! i)) (wyDB y) = (p, s, es)"
  shows "sys_inv (y\<lparr>wyDB := s, wyTasks := resume_task i p (wyTasks y), wyLog := wyLog y @ es, wyUsed := wyUsed y @ [g]\<rparr>)"
proof -
  let ?t = "wyTasks y ! i" and ?log = "wyLog y @ es"
  have mem: "?t \<in> set (wyTasks y)" using i by simp
  have db: "dd_ok ?log (wyDB y)" using inv by (auto simp: sys_inv_def dd_ok_def intro: round_ok_mono)
  have s: "dd_ok ?log s" "set (ddAudit (wyDB y)) \<subseteq> set (ddAudit s)"
    using db keeps_processWatch [OF step, of "wyLog y"] by (auto simp: keeps_def grows_def)
  have t: "round_ok (wyLog y) (ddAudit (wyDB y)) (wtRow ?t)" "phase_ok (wtRow ?t) (wtPhase ?t)"
    using inv mem by (auto simp: sys_inv_def task_ok_def)
  have old: "task_ok ?log (ddAudit s) t" if "t \<in> set (wyTasks y)" for t
    using inv that s(2) by (auto simp: sys_inv_def task_ok_def intro: round_ok_mono)
  have "task_ok ?log (ddAudit s) t" if "t \<in> set (resume_task i p (wyTasks y))" for t
    using resume_task_set [OF that i] old [OF mem] old phase_ok_processWatch [OF t(2)] step by (auto simp: task_ok_def)
  moreover have "event_ok ?log (ddAudit s) e" if "e \<in> set ?log" for e
  proof (cases "e \<in> set es")
    case True
    from event_ok_processWatch [OF t(2,1) step this] s(2) show ?thesis by (auto intro: event_ok_mono)
  next
    case False
    with that inv have "event_ok (wyLog y) (ddAudit (wyDB y)) e" by (simp add: sys_inv_def)
    with s(2) show ?thesis by (auto intro: event_ok_mono)
  qed
  moreover have "\<exists>c\<in>set (wyUsed y). dwClaimID (wtRow t) = Some c" if "t \<in> set (resume_task i p (wyTasks y))" for t
    using resume_task_set [OF that i] inv mem by (auto simp: sys_inv_def leases_ok_def)
  ultimately show ?thesis
    using inv s(1) by (auto simp: sys_inv_def leases_ok_def resume_task_claims)
qed

lemma sys_inv_tick:
  assumes inv: "sys_inv y" and token: "inj token" "\<And>r. token r \<notin> set (wyUsed y)"
    and claim: "ClaimDeployWatches now worker lease batch locked token (wyDB y) = (rows, s)"
  shows "sys_inv (y\<lparr>wyDB := s, wyTasks := wyTasks y @ map (\<lambda>w. \<lparr>wtRow = w, wtPhase = Claimed\<rparr>) rows,
      wyUsed := wyUsed y @ map (token \<circ> dwRevisionID) rows\<rparr>)"
proof -
  obtain p where p: "rows = map (claimed_row now worker token) (filter p (ddWatches (wyDB y)))"
    using claim by (auto simp: ClaimDeployWatches_def Let_def)
  have s: "dd_ok (wyLog y) s" "set (ddAudit (wyDB y)) \<subseteq> set (ddAudit s)"
    using inv keeps_ClaimDeployWatches [of "wyLog y" now "wyDB y" worker lease batch locked token] claim
    by (auto simp: sys_inv_def keeps_def grows_def)
  have claims: "map dwClaimID rows = map (\<lambda>r. Some (token r)) (map dwRevisionID (filter p (ddWatches (wyDB y))))"
    "map dwRevisionID rows = map dwRevisionID (filter p (ddWatches (wyDB y)))"
    by (simp_all add: p claimed_row_def)
  have "distinct (map dwRevisionID (filter p (ddWatches (wyDB y))))"
    using inv by (auto simp: sys_inv_def dd_ok_def intro: distinct_map_filter)
  then have new: "distinct (map dwClaimID rows)"
    unfolding claims by (simp add: distinct_map inj_on_def) (use token(1) in \<open>auto dest: injD\<close>)
  have rows: "round_ok (wyLog y) (ddAudit s) w" "\<exists>c. dwClaimID w = Some c \<and> c = token (dwRevisionID w)" if mem: "w \<in> set rows" for w
  proof -
    obtain u where u: "u \<in> set (ddWatches (wyDB y))" "w = claimed_row now worker token u" using mem p by auto
    then have "round_ok (wyLog y) (ddAudit (wyDB y)) u" using inv by (simp add: sys_inv_def dd_ok_def)
    then have "round_ok (wyLog y) (ddAudit (wyDB y)) w" unfolding u(2) same_roundD(1) [OF claimed_same_round] .
    with s(2) show "round_ok (wyLog y) (ddAudit s) w" by (auto intro: round_ok_mono)
    show "\<exists>c. dwClaimID w = Some c \<and> c = token (dwRevisionID w)" by (simp add: u(2) claimed_row_def)
  qed
  have old: "dwClaimID (wtRow t) \<noteq> dwClaimID w" if "t \<in> set (wyTasks y)" "w \<in> set rows" for t w
    using inv that rows(2) token(2) by (fastforce simp: sys_inv_def leases_ok_def)
  have "task_ok (wyLog y) (ddAudit s) t" if "t \<in> set (wyTasks y)" for t
    using inv that s(2) by (auto simp: sys_inv_def task_ok_def intro: round_ok_mono)
  moreover have "event_ok (wyLog y) (ddAudit s) e" if "e \<in> set (wyLog y)" for e
    using inv that s(2) by (auto simp: sys_inv_def intro: event_ok_mono)
  moreover have "distinct (map (dwClaimID \<circ> wtRow) (wyTasks y @ map (\<lambda>w. \<lparr>wtRow = w, wtPhase = Claimed\<rparr>) rows))"
  proof -
    have "dwClaimID \<circ> wtRow \<circ> (\<lambda>w. \<lparr>wtRow = w, wtPhase = Claimed\<rparr>) = dwClaimID" by (simp add: fun_eq_iff)
    with inv new old show ?thesis by (auto simp: sys_inv_def leases_ok_def)
  qed
  moreover have "\<exists>c\<in>set (wyUsed y). dwClaimID (wtRow t) = Some c" if "t \<in> set (wyTasks y)" for t
    using inv that by (simp add: sys_inv_def leases_ok_def)
  ultimately show ?thesis
    using s(1) rows by (fastforce simp: sys_inv_def leases_ok_def task_ok_def)
qed

lemma sys_inv_step:
  assumes "sys_inv y" and "watch_step source window now y z"
  shows "sys_inv z"
  using assms(2)
proof cases
  case (tick token worker lease batch locked rows s)
  with assms(1) sys_inv_tick show ?thesis by simp
next
  case (process i claim an p s es)
  with assms(1) sys_inv_process show ?thesis by simp
next
  case (drop i)
  have "t \<in> set (wyTasks y)" if "t \<in> set (resume_task i None (wyTasks y))" for t
    using that by (auto simp: resume_task_def dest: in_set_takeD in_set_dropD)
  with assms(1) drop show ?thesis by (auto simp: sys_inv_def leases_ok_def resume_task_claims)
next
  case (takeover rv i)
  have "keeps (wyLog y) now (wyDB y) (snd (StartNativeDeploy now rv i (wyDB y)))"
    using takeover_cases(1) [of now rv i "wyDB y"] takeover(3) keeps_took_over by (auto simp: new_revision_def)
  from sys_inv_db [OF assms(1) this, of "wyUsed y @ [rv]"] takeover show ?thesis by (simp add: subset_insertI)
next
  case (declared rv i want)
  have "keeps (wyLog y) now (wyDB y) (snd (StartNativeDeployDeclared now rv i want (wyDB y)))"
    using takeover_cases(2) [of now rv i want "wyDB y"] declared(3) keeps_took_over by (auto simp: new_revision_def)
  from sys_inv_db [OF assms(1) this, of "wyUsed y @ [rv]"] declared show ?thesis by (simp add: subset_insertI)
next
  case (human i)
  with sys_inv_db [OF assms(1) keeps_DecideRolloutGate, of "wyUsed y"] show ?thesis by simp
next
  case (synced rv)
  with sys_inv_db [OF assms(1) keeps_plain_ops(3), of "wyUsed y"] show ?thesis by simp
next
  case (marked rv claim)
  with sys_inv_db [OF assms(1) keeps_plain_ops(2), of "wyUsed y"] show ?thesis by simp
next
  case (job_path job attempt status)
  with sys_inv_db [OF assms(1) keeps_FinalizeDeploymentRevision, of "wyUsed y"] show ?thesis by simp
next
  case (other a)
  with sys_inv_db [OF assms(1) keeps_other, of source a "wyUsed y"] show ?thesis by simp
next
  case (retarget ts)
  have "keeps (wyLog y) now (wyDB y) ((wyDB y)\<lparr>ddTargets := ts\<rparr>)"
    by (auto simp: keeps_def dd_ok_def votes_distinct_def budgets_kept_def grows_def)
  from sys_inv_db [OF assms(1) this, of "wyUsed y"] retarget show ?thesis by simp
qed

interpretation watchers: invariant_system quiet_server "\<lambda>y z. \<exists>now. watch_step source window now y z" sys_inv
  for source window
proof
  fix y assume "quiet_server y"
  then show "sys_inv y"
    by (auto simp: quiet_server_def sys_inv_def dd_ok_def votes_distinct_def leases_ok_def)
next
  fix y z assume "sys_inv y" "\<exists>now. watch_step source window now y z"
  then show "sys_inv z" using sys_inv_step by blast
qed

lemma sys_inv_reach: "quiet_server y \<Longrightarrow> watch_reach source window y z \<Longrightarrow> sys_inv z"
  unfolding watch_reach_def by (rule watchers.inv_reachable)

section \<open>Fencing\<close>

lemma exec_watches_none: "\<forall>w\<in>set (ddWatches s). \<not> p w \<Longrightarrow> exec_watches p f s = (False, s)"
  by (simp add: exec_watches_def list_ex_iff upd_where_none)

text \<open>Whatever step a watcher takes, without the lease it changes nothing.\<close>

lemma stale_processWatch:
  assumes stale: "\<forall>w'\<in>set (ddWatches s). \<not> fenced (dwRevisionID w) claim w'"
  shows "fst (snd (processWatch window an w claim p s)) = s"
proof -
  note none = exec_watches_none [of s "\<lambda>w'. fenced (dwRevisionID w) claim w' \<and> q w'" for q] exec_watches_none [OF stale]
  have final: "snd (FinalizeDeployWatch contended (dwRevisionID w) claim status reason s) = s" for contended status reason
    using stale by (cases rule: FinalizeDeployWatch_cases [of contended "dwRevisionID w" claim status reason s]) (auto simp: list_ex_iff)
  have ops: "snd (RenewDeployWatch now (dwRevisionID w) claim s) = s"
    "snd (SetDeployWatchDegradedSince now (dwRevisionID w) claim s) = s"
    "snd (ClearDeployWatchDegraded (dwRevisionID w) claim s) = s"
    "snd (StampRolloutObservation now (dwRevisionID w) claim i s) = s"
    "snd (ArmRolloutGate now g (dwRevisionID w) claim k s) = s"
    "snd (MarkGateActioned now (dwRevisionID w) claim s) = s"
    "snd (ClearRolloutGate now (dwRevisionID w) claim s) = s"
    "snd (MarkRolloutAbortActioned now (dwRevisionID w) claim s) = s" for now g i k
    using stale none
    by (simp_all add: RenewDeployWatch_def SetDeployWatchDegradedSince_def ClearDeployWatchDegraded_def
        StampRolloutObservation_def ArmRolloutGate_def MarkGateActioned_def ClearRolloutGate_def MarkRolloutAbortActioned_def)
  show ?thesis
  proof (cases p)
    case (Judged cancel state v)
    then show ?thesis
      by (cases "vdEffect v") (simp_all add: apply_verdict_def last_call_def renew_then_db armGate_db ops)
  qed (simp_all add: last_call_def renew_then_db ops final Let_def split: prod.splits)
qed

section \<open>Finalizing\<close>

lemma complete_native_job_spec:
  assumes wf: "wf_db d" and job: "find_job d job = Some j" "snapshot_matches job None attempt j"
    and status: "status \<noteq> DeployStatusInProgress"
    and c: "complete_native_job contended job attempt status reason d = Some ((effective, run), d')"
  shows "\<exists>j'. find_job d' job = Some j' \<and> effective = deploy_status_of (jrStatus j') \<and>
    jrStatus j' = (if jrCancelRequested j then StatusCanceled else run_status_of status)"
proof -
  let ?p = "snapshot_matches job None attempt"
  let ?f = "completed_row (run_status_of status) (if status = DeployStatusFailed then 1 else 0)
    (if status = DeployStatusFailed then Some reason else None) []"
  have j: "j \<in> set (dbJobs d)" "jrID j = job" using find_SomeD job(1) by (auto simp: find_job_def dest: find_SomeD)
  have uniq: "k = j" if "k \<in> set (dbJobs d)" "?p k" for k
    using job_id_unique [OF wf that(1) j(1)] that(2) j(2) by (simp add: snapshot_matches_def)
  have row: "find ?p (dbJobs d) = Some j"
  proof (cases "find ?p (dbJobs d)")
    case None
    with j(1) job(2) show ?thesis by (simp add: find_None_iff)
  next
    case (Some k)
    with uniq find_SomeD [OF Some] show ?thesis by simp
  qed
  obtain cp cp' d2 vs where casc: "cascadeAfterJobCompletion (jrStageRunID (?f j)) (jrRunID (?f j)) cp (upd_jobs ?p ?f d) = Some (cp', d2)"
    and sup: "supersedeAfterCascade contended (jrRunID (?f j)) (jrStageRunID (?f j)) cp' d2 = Some (vs, d')"
    and eff: "effective = deploy_status_of (jrStatus (?f j))"
    using c row by (auto simp: complete_native_job_def CompleteJobRun_def split: option.splits)
  have "?f j \<in> set (dbJobs (upd_jobs ?p ?f d))" using j(1) job(2) by (simp add: upd_where_mem)
  from cascade_evo [OF this casc] have "db_evo (upd_jobs ?p ?f d) d'"
    using safe_supersedeAfterCascade [OF sup] db_evo_trans by (auto simp: safe_def)
  moreover have "find_job (upd_jobs ?p ?f d) job = Some (?f j)"
    using find_job_upd [OF wf j(1), of ?p ?f] job(2) j(2) by (simp add: completed_row_def)
  ultimately obtain j' where j': "find_job d' job = Some j'" "evo_job (?f j) j'"
    using find_job_evo by blast
  have "\<not> job_unfinished (jrStatus (?f j))"
    using status by (cases status) (auto simp: completed_row_def run_status_of_def job_unfinished_def)
  with j' have "jrStatus j' = jrStatus (?f j)" by (simp add: evo_job_def)
  with j'(1) eff show ?thesis by (simp add: completed_row_def)
qed

lemma finalized_over: "st \<noteq> DeployStatusInProgress \<Longrightarrow> \<not> in_progress rv (FinalizeDeploymentRevisionByID rv st s)"
  by (simp add: in_progress_def FinalizeDeploymentRevisionByID_def list_ex_iff upd_where_def ball_Un)

lemma complete_native_job_ended:
  assumes "complete_native_job contended job attempt status reason d = Some ((effective, run), d')"
    and "status \<noteq> DeployStatusInProgress"
  shows "effective \<noteq> DeployStatusInProgress"
proof -
  have ended: "deploy_status_of st \<noteq> DeployStatusInProgress" for st by (simp add: deploy_status_of_def)
  obtain d1 row where "CompleteJobRun job (run_status_of status) (if status = DeployStatusFailed then 1 else 0)
      (if status = DeployStatusFailed then Some reason else None) [] None attempt d = (d1, row)" by fastforce
  with assms ended show ?thesis
    by (cases row) (auto simp: complete_native_job_def split: option.splits prod.splits)
qed

lemma find_revision_finalized:
  assumes "find_revision rv s = Some r" and "dvStatus r = DeployStatusInProgress"
  shows "find_revision rv (FinalizeDeploymentRevisionByID rv st s) = Some (r\<lparr>dvStatus := st\<rparr>)"
proof -
  have "find (\<lambda>r. dvID r = rv) (upd_where (\<lambda>r. dvID r = rv \<and> dvStatus r = DeployStatusInProgress) (\<lambda>r. r\<lparr>dvStatus := st\<rparr>) rs)
      = Some (r\<lparr>dvStatus := st\<rparr>)" if "find (\<lambda>r. dvID r = rv) rs = Some r" for rs
    using that assms(2) by (induction rs) (auto simp: upd_where_def split: if_splits)
  with assms(1) show ?thesis by (simp add: find_revision_def FinalizeDeploymentRevisionByID_def)
qed

section \<open>Properties\<close>

text \<open>
  The durable record behind an actuation: the gate was armed on exactly this Rollout, and an
  audit event holds the decision, with the approvals of as many different users as the deploy
  requires, or with the vote of the user who rejected.
\<close>

definition on_record :: "GateDecision \<Rightarrow> DeployWatch \<Rightarrow> DeploymentTarget \<Rightarrow> WatcherSystem \<Rightarrow> bool" where
  "on_record d w t y =
     (\<exists>g i a. dwGateID w = Some g \<and> GateArmed (dwRevisionID w) g i \<in> set (wyLog y)
        \<and> tgRolloutCluster t = agRolloutCluster i \<and> tgRolloutNamespace t = agRolloutNamespace i
        \<and> tgRolloutName t = agRolloutName i
        \<and> a \<in> set (ddAudit (wyDB y)) \<and> raGateID a = g \<and> raRevisionID a = dwRevisionID w \<and> raDecision a = d
        \<and> dwGateRequired w \<noteq> None \<and> raRequired a = max 1 (the (dwGateRequired w))
        \<and> (if d = GateApproved then raRequired a \<le> int (card (approvers_of a))
           else \<exists>v\<in>set (raVotes a). voUserID v = raActor a \<and> \<not> voApproved v))"

lemma actuation_on_record:
  assumes "round_ok (wyLog y) (ddAudit (wyDB y)) w" and "gate_decided d w" and "d = GateApproved \<or> d = GateRejected"
  shows "on_record d w (pinnedTargetOf w) y"
proof -
  obtain g i a where "dwGateID w = Some g" "GateArmed (dwRevisionID w) g i \<in> set (wyLog y)" "pinned_by w i"
    "a \<in> set (ddAudit (wyDB y))" "audit_of w a"
    using assms by (auto simp: round_ok_def gate_decided_def split: option.splits)
  with assms(2,3) show ?thesis
    unfolding on_record_def
    by (intro exI [of _ g] exI [of _ i] exI [of _ a])
      (auto simp: audit_of_def pinned_by_def gate_decided_def pinnedTargetOf_def with_rollout_def rollout_required_def)
qed

text \<open>
  C32: a canary step is promoted only on a quorum. In every run of the system, with any number of
  replicas, lost leases, crashes and interleaved decisions, each promotion the watcher asks of
  the cluster acts on the Rollout pinned when the gate was armed, and the audit trail holds the
  approval of that very gate by at least as many different users as the deploy requires; each
  abort of a gate acts on the pinned Rollout and has a recorded rejection.
\<close>

theorem promotion_has_quorum:
  assumes "quiet_server y" and "watch_reach source window y z" and "e \<in> set (wyLog z)"
  shows "case e of
      PromoteCall w t \<Rightarrow> on_record GateApproved w t z
    | AbortCall w t \<Rightarrow> on_record GateRejected w t z
    | _ \<Rightarrow> True"
proof -
  have "event_ok (wyLog z) (ddAudit (wyDB z)) e"
    using sys_inv_reach [OF assms(1,2)] assms(3) by (simp add: sys_inv_def)
  then show ?thesis by (cases e) (auto intro: actuation_on_record)
qed

lemma step_keeps:
  assumes inv: "sys_inv y" and step: "watch_step source window now y z"
  shows "budgets_kept now (wyDB y) (wyDB z)"
proof -
  have ok: "dd_ok evs (wyDB y)" if "set (wyLog y) \<subseteq> set evs" for evs
    using inv that by (auto simp: sys_inv_def dd_ok_def intro: round_ok_mono)
  have "\<exists>evs. set (wyLog y) \<subseteq> set evs \<and> keeps evs now (wyDB y) (wyDB z)"
    using step
  proof cases
    case (tick token worker lease batch locked rows s)
    then show ?thesis
      using keeps_ClaimDeployWatches [of "wyLog y" now "wyDB y" worker lease batch locked token] by auto
  next
    case (process i claim an p s es)
    then show ?thesis using keeps_processWatch by (intro exI [of _ "wyLog y @ es"]) fastforce
  next
    case (takeover rv i)
    then show ?thesis using takeover_cases(1) [of now rv i "wyDB y"] keeps_took_over by (auto simp: new_revision_def)
  next
    case (declared rv i want)
    then show ?thesis using takeover_cases(2) [of now rv i want "wyDB y"] keeps_took_over by (auto simp: new_revision_def)
  next
    case (retarget ts)
    then show ?thesis by (auto simp: keeps_def dd_ok_def votes_distinct_def budgets_kept_def grows_def)
  qed (auto intro: keeps_DecideRolloutGate keeps_plain_ops keeps_FinalizeDeploymentRevision keeps_other)
  with ok show ?thesis by (auto simp: keeps_def)
qed

text \<open>
  C33: waiting for a human costs a deploy none of its time, and gives it none. In every reachable
  state, a step at any moment leaves the budget of every watch as it was: the time from now to
  the deadline, or from the arming of the gate while its decision is open. In particular the
  deadline moves exactly when an open round ends, once, by the time the round was open.
\<close>

theorem waiting_costs_nothing:
  assumes "quiet_server y" and "watch_reach source window y z" and "watch_step source window now z z'"
    and "w \<in> set (ddWatches (wyDB z))" and "w' \<in> set (ddWatches (wyDB z'))" and "dwRevisionID w' = dwRevisionID w"
  shows "budget now w' = budget now w"
proof -
  have inv: "sys_inv z" by (rule sys_inv_reach [OF assms(1,2)])
  have "dwRevisionID w' \<in> dwRevisionID ` set (ddWatches (wyDB z))" using assms(4,6) by simp
  then obtain u where u: "u \<in> set (ddWatches (wyDB z))" "dwRevisionID u = dwRevisionID w'" "budget now w' = budget now u"
    using step_keeps [OF inv assms(3)] assms(5) unfolding budgets_kept_def by blast
  have "u = w"
    using inv u(1,2) assms(4,6) by (auto simp: sys_inv_def dd_ok_def distinct_map inj_on_def)
  with u(3) show ?thesis by simp
qed

text \<open>
  C34: at most one watcher can act on a deploy. Of two tasks for the same deploy in any reachable
  state, whatever their phases, at least one has lost its lease, and no next step of that one
  changes anything in the database, whatever the store and the cluster answer.
\<close>

theorem one_watcher_acts:
  assumes "quiet_server y" and "watch_reach source window y z"
    and "i < length (wyTasks z)" and "j < length (wyTasks z)" and "i \<noteq> j"
    and "dwRevisionID (wtRow (wyTasks z ! i)) = dwRevisionID (wtRow (wyTasks z ! j))"
  shows "\<exists>k\<in>{i, j}. let t = wyTasks z ! k in
    \<forall>an. fst (snd (processWatch window an (wtRow t) (the (dwClaimID (wtRow t))) (wtPhase t) (wyDB z))) = wyDB z"
proof -
  let ?t = "\<lambda>k. wtRow (wyTasks z ! k)" and ?rv = "dwRevisionID (wtRow (wyTasks z ! i))"
  have inv: "sys_inv z" by (rule sys_inv_reach [OF assms(1,2)])
  have claims: "dwClaimID (?t k) = Some (the (dwClaimID (?t k)))" if "k < length (wyTasks z)" for k
  proof -
    have "wyTasks z ! k \<in> set (wyTasks z)" using that by simp
    with inv show ?thesis by (fastforce simp: sys_inv_def leases_ok_def)
  qed
  have "dwClaimID (?t i) \<noteq> dwClaimID (?t j)"
    using inv assms(3-5) by (auto simp: sys_inv_def leases_ok_def distinct_conv_nth)
  then have diff: "the (dwClaimID (?t i)) \<noteq> the (dwClaimID (?t j))" using claims assms(3,4) by metis
  have "u = v" if "u \<in> set (ddWatches (wyDB z))" "v \<in> set (ddWatches (wyDB z))" "dwRevisionID u = dwRevisionID v" for u v
    using inv that by (auto simp: sys_inv_def dd_ok_def distinct_map inj_on_def)
  then have "(\<forall>w'\<in>set (ddWatches (wyDB z)). \<not> fenced ?rv (the (dwClaimID (?t i))) w')
      \<or> (\<forall>w'\<in>set (ddWatches (wyDB z)). \<not> fenced ?rv (the (dwClaimID (?t j))) w')"
    using diff unfolding fenced_def by (metis option.inject)
  then show ?thesis
    using stale_processWatch assms(6) unfolding Let_def by (metis insertCI)
qed

text \<open>
  C35: the end of a deploy is told truthfully. When a watcher finalizes a deploy, its watch is
  gone and its revision has ended; if the deploy still owned its running job, that job has ended
  too, with the watcher's verdict or as canceled when a cancel was requested, and the revision
  carries the job's final status.
\<close>

theorem deploy_end_honest:
  assumes wf: "wf_db (abDB (ddAp s))" "distinct (map dvID (ddRevisions s))" "distinct (map dwRevisionID (ddWatches s))"
    and fin: "FinalizeDeployWatch contended rv claim status reason s = (Finalized run, s')"
  shows "find_watch rv s' = None \<and> \<not> in_progress rv s' \<and>
    (\<forall>r job j. find_revision rv s = Some r \<and> dvStatus r = DeployStatusInProgress \<and> dvJobRunID r = Some job \<and>
       find_job (abDB (ddAp s)) job = Some j \<and> snapshot_matches job None (dvAttempt r) j \<longrightarrow>
       (\<exists>j' r'. find_job (abDB (ddAp s')) job = Some j' \<and> find_revision rv s' = Some r' \<and>
          jrStatus j' = (if jrCancelRequested j then StatusCanceled else run_status_of status) \<and>
          run_status_of (dvStatus r') = jrStatus j'))"
proof -
  have gone: "find_watch rv (s0\<lparr>ddWatches := filter (\<lambda>w. \<not> fenced rv claim w) (ddWatches s)\<rparr>) = None"
    if "list_ex (fenced rv claim) (ddWatches s)" for s0
    using that wf(3)
    by (auto simp: find_watch_def find_None_iff fenced_def list_ex_iff distinct_map inj_on_def)
  show ?thesis
  proof (cases rule: FinalizeDeployWatch_cases [of contended rv claim status reason s])
    case (kept res)
    with fin show ?thesis by simp
  next
    case late
    have "\<not> in_progress rv s"
    proof
      assume "in_progress rv s"
      then obtain r where r: "r \<in> set (ddRevisions s)" "dvID r = rv" "dvStatus r = DeployStatusInProgress"
        by (auto simp: in_progress_def list_ex_iff)
      with late(3) show False
        using find_SomeD [of "\<lambda>r. dvID r = rv" "ddRevisions s"] wf(2)
        by (auto simp: find_revision_def find_None_iff distinct_map inj_on_def)
    qed
    with late fin gone [of s] show ?thesis by (auto simp: in_progress_def)
  next
    case (closed r effective run' d)
    let ?s = "FinalizeDeploymentRevisionByID rv effective (on_db (\<lambda>_. d) s)"
    have s': "s' = ?s\<lparr>ddWatches := filter (\<lambda>w. \<not> fenced rv claim w) (ddWatches s)\<rparr>" using closed(1) fin by simp
    have rev: "find_revision rv ?s = Some (r\<lparr>dvStatus := effective\<rparr>)"
      by (rule find_revision_finalized) (use closed(4,5) in \<open>simp_all add: find_revision_def on_db_def\<close>)
    have eff: "effective \<noteq> DeployStatusInProgress"
      by (cases "dvJobRunID r") (use closed(2,6) complete_native_job_ended in auto)
    then have over: "\<not> in_progress rv s'"
      using finalized_over [OF eff, of rv "on_db (\<lambda>_. d) s"] by (simp add: s' in_progress_def)
    show ?thesis
    proof (intro conjI allI impI, goal_cases)
      case 1
      show ?case unfolding s' by (rule gone [OF closed(3)])
    next
      case 2
      show ?case by (rule over)
    next
      case (3 r0 job j)
      then have r0: "r0 = r" using closed(4) by simp
      with 3 closed(6) have "complete_native_job contended job (dvAttempt r) status reason (abDB (ddAp s)) = Some ((effective, run'), d)"
        by simp
      from complete_native_job_spec [OF wf(1) _ _ closed(2) this, of j] 3 r0
      obtain j' where j': "find_job d job = Some j'" "effective = deploy_status_of (jrStatus j')"
        "jrStatus j' = (if jrCancelRequested j then StatusCanceled else run_status_of status)" by auto
      then have "run_status_of effective = jrStatus j'"
        using closed(2) by (cases status) (auto simp: deploy_status_of_def run_status_of_def)
      with j'(1,3) rev show ?case
        by (auto simp: s' find_revision_def FinalizeDeploymentRevisionByID_def on_db_def)
    qed
  qed
qed

section \<open>Witnesses\<close>

text \<open>Runs of the system that can be evaluated: each operation checks that it is enabled.\<close>

datatype demo_op =
  Tick gotime uuid
| Process nat answers
| Human gotime RolloutGateDecisionInput
| Takeover gotime uuid StartNativeDeployInput

fun demo_enabled :: "demo_op \<Rightarrow> WatcherSystem \<Rightarrow> bool" where
  "demo_enabled (Tick now off) y = list_all (\<lambda>u. u < off) (wyUsed y)"
| "demo_enabled (Process i an) y =
     (i < length (wyTasks y) \<and> dwClaimID (wtRow (wyTasks y ! i)) \<noteq> None \<and> \<not> list_ex (\<lambda>u. u = anGate an) (wyUsed y))"
| "demo_enabled (Human now i) y = True"
| "demo_enabled (Takeover now rv i) y =
     (\<not> list_ex (\<lambda>u. u = rv) (wyUsed y) \<and> \<not> list_ex (\<lambda>r. dvID r = rv) (ddRevisions (wyDB y))
      \<and> \<not> list_ex (\<lambda>w. dwRevisionID w = rv) (ddWatches (wyDB y)))"

fun demo_exec :: "demo_op \<Rightarrow> WatcherSystem \<Rightarrow> WatcherSystem" where
  "demo_exec (Tick now off) y =
     (case ClaimDeployWatches now ''replica'' 60 20 (\<lambda>_. False) (\<lambda>r. r + off) (wyDB y) of
        (rows, s) \<Rightarrow> y\<lparr>wyDB := s, wyTasks := wyTasks y @ map (\<lambda>w. \<lparr>wtRow = w, wtPhase = Claimed\<rparr>) rows,
          wyUsed := wyUsed y @ map ((\<lambda>r. r + off) \<circ> dwRevisionID) rows\<rparr>)"
| "demo_exec (Process i an) y =
     (case processWatch 120 an (wtRow (wyTasks y ! i)) (the (dwClaimID (wtRow (wyTasks y ! i)))) (wtPhase (wyTasks y ! i))
             (wyDB y) of
        (p, s, es) \<Rightarrow> y\<lparr>wyDB := s, wyTasks := resume_task i p (wyTasks y), wyLog := wyLog y @ es,
          wyUsed := wyUsed y @ [anGate an]\<rparr>)"
| "demo_exec (Human now i) y = y\<lparr>wyDB := snd (DecideRolloutGate None now i (wyDB y))\<rparr>"
| "demo_exec (Takeover now rv i) y =
     y\<lparr>wyDB := snd (StartNativeDeploy now rv i (wyDB y)), wyUsed := wyUsed y @ [rv]\<rparr>"

fun demo_time :: "demo_op \<Rightarrow> gotime" where
  "demo_time (Tick now off) = now"
| "demo_time (Process i an) = anNow an"
| "demo_time (Human now i) = now"
| "demo_time (Takeover now rv i) = now"

fun demo :: "demo_op list \<Rightarrow> WatcherSystem \<Rightarrow> WatcherSystem option" where
  "demo [] y = Some y"
| "demo (x # xs) y = (if demo_enabled x y then demo xs (demo_exec x y) else None)"

lemma demo_step: "demo_enabled x y \<Longrightarrow> watch_step None 120 (demo_time x) y (demo_exec x y)"
proof (cases x)
  case (Tick now off)
  assume "demo_enabled x y"
  then have "r + off \<notin> set (wyUsed y)" for r using Tick by (auto simp: list_all_iff)
  with Tick show ?thesis by (auto split: prod.split intro!: watch_step.tick injI)
next
  case (Process i an)
  assume "demo_enabled x y"
  with Process show ?thesis
    by (auto simp: list_ex_iff split: prod.split intro!: watch_step.process)
next
  case (Human now i)
  then show ?thesis by (auto intro: watch_step.human)
next
  case (Takeover now rv i)
  assume "demo_enabled x y"
  with Takeover show ?thesis by (auto simp: list_ex_iff new_revision_def intro!: watch_step.takeover)
qed

lemma demo_reach: "demo xs y = Some z \<Longrightarrow> watch_reach None 120 y z"
proof (induction xs arbitrary: y)
  case Nil
  then show ?case by (simp add: watch_reach_def)
next
  case (Cons x xs)
  then have on: "demo_enabled x y" "watch_reach None 120 (demo_exec x y) z" by (auto split: if_splits)
  from demo_step [OF on(1)] have "\<exists>now. watch_step None 120 now y (demo_exec x y)" by blast
  then show ?case using on(2) unfolding watch_reach_def by (rule converse_rtranclp_into_rtranclp)
qed

lemma demo_the: "demo xs y \<noteq> None \<Longrightarrow> watch_reach None 120 y (the (demo xs y))"
  by (cases "demo xs y") (simp_all add: demo_reach)

text \<open>A gated canary deploy that needs two approvals.\<close>

definition ex_quiet :: WatcherSystem where
  "ex_quiet =
     \<lparr>wyDB = \<lparr>ddAp = \<lparr>abDB = \<lparr>dbRuns = [ex_run 1 1], dbStages = [ex_stage 10 1 ''deploy'' 0],
            dbJobs = [ex_job 100 1 10 ''prod''], dbEvents = []\<rparr>,
          abGate = (\<lambda>_. \<lparr>gcApprovers = [], gcApproverGroups = [], gcRequired = 1\<rparr>), abDecided = Map.empty,
          abVotes = [], abPasses = [], abFrozen = [], abProject = (\<lambda>_. 9), abUserGroups = (\<lambda>_. [])\<rparr>,
        ddRevisions = [], ddWatches = [], ddTargets = [], ddAudit = []\<rparr>,
      wyTasks = [], wyLog = [], wyUsed = []\<rparr>"

definition ex_input :: StartNativeDeployInput where
  "ex_input =
     \<lparr>sdJobRunID = 100, sdEnvironment = ''prod'', sdEnvironmentID = 3, sdVersion = ''v2'', sdProjectID = 9,
      sdSyncMode = SyncModeTrigger, sdCluster = ''c'', sdApplication = ''app'', sdNamespace = ''argocd'',
      sdExpectedRevision = ''r2'', sdDeadlineAt = 1000, sdRolloutAware = True, sdRolloutCluster = ''c'',
      sdRolloutNamespace = ''shop'', sdRolloutName = ''web'',
      sdGoverningGate = Some \<lparr>ggApprovers = [], ggApproverGroups = [], ggRequired = 2\<rparr>\<rparr>"

definition ex_paused :: DeployState where
  "ex_paused = zero_state\<lparr>dsSync := SyncSynced, dsHealth := HealthSuspended, dsObservedRev := ''r2'', dsRolloutObserved := True,
     dsRollout := zero_rollout\<lparr>roPhase := RolloutPaused, roPauseReason := PauseReasonCanaryStep, roCurrentStepIndex := 1,
       roCurrentStepKnown := True, roStepCount := 3, roPausedIndefinitely := True, roResolvedCluster := ''c'',
       roResolvedNamespace := ''shop'', roResolvedName := ''web''\<rparr>\<rparr>"

definition ex_answers :: "gotime \<Rightarrow> uuid \<Rightarrow> answers" where
  "ex_answers now g =
     \<lparr>anNow = now, anStoreOk = True, anObserve = Some ex_paused, anActuated = True, anGate = g, anContended = (\<lambda>_. False)\<rparr>"

definition ex_yes :: "uuid \<Rightarrow> string \<Rightarrow> RolloutGateDecisionInput" where
  "ex_yes u n =
     \<lparr>rdRevisionID = 50, rdProjectID = 9, rdGateID = 206, rdDecision = GateApproved, rdUserID = u, rdUser = n,
      rdUserEmail = [], rdProvider = ''oidc'', rdSubject = n, rdComment = []\<rparr>"

text \<open>The gate is armed at the pause, two people approve, a second claim promotes.\<close>

definition ex_arm :: "demo_op list" where
  "ex_arm = [Takeover 0 50 ex_input, Tick 5 100] @ map (\<lambda>g. Process 0 (ex_answers 6 g)) [201, 202, 203, 204, 205, 206]"

definition ex_promote :: "demo_op list" where
  "ex_promote = ex_arm @ [Human 500 (ex_yes 1 ''ann''), Human 600 (ex_yes 2 ''bob''), Tick 700 300]
     @ map (\<lambda>g. Process 0 (ex_answers 701 g)) [401, 402, 403, 404, 405, 406, 407]"

definition ex_armed :: WatcherSystem where "ex_armed = the (demo ex_arm ex_quiet)"
definition ex_promoted :: WatcherSystem where "ex_promoted = the (demo ex_promote ex_quiet)"

lemma ex_quiet_server: "quiet_server ex_quiet"
  by (simp add: quiet_server_def ex_quiet_def)

lemma ex_armed_Some: "demo ex_arm ex_quiet \<noteq> None"
  by code_simp

lemma ex_promoted_Some: "demo ex_promote ex_quiet \<noteq> None"
  by code_simp

lemma ex_armed_reached: "watch_reach None 120 ex_quiet ex_armed"
  unfolding ex_armed_def by (rule demo_the [OF ex_armed_Some])

lemma ex_promoted_reached: "watch_reach None 120 ex_quiet ex_promoted"
  unfolding ex_promoted_def by (rule demo_the [OF ex_promoted_Some])

text \<open>The promotion of the example has both approvals on record.\<close>

theorem promotion_has_quorum_witness:
  "\<exists>w t. wyLog ex_promoted ! 1 = PromoteCall w t \<and> on_record GateApproved w t ex_promoted"
proof -
  have "case wyLog ex_promoted ! 1 of PromoteCall w t \<Rightarrow> True | _ \<Rightarrow> False" "1 < length (wyLog ex_promoted)"
    by code_simp+
  then obtain w t where e: "wyLog ex_promoted ! 1 = PromoteCall w t" "wyLog ex_promoted ! 1 \<in> set (wyLog ex_promoted)"
    by (auto split: watcher_event.splits dest: nth_mem)
  from promotion_has_quorum [OF ex_quiet_server ex_promoted_reached e(2)] e(1)
  have "on_record GateApproved w t ex_promoted" by simp
  with e(1) show ?thesis by blast
qed

text \<open>The second approval comes 594 seconds after the arming and moves the deadline by as much.\<close>

definition ex_half :: WatcherSystem where
  "ex_half = the (demo (ex_arm @ [Human 500 (ex_yes 1 ''ann'')]) ex_quiet)"

theorem waiting_costs_nothing_witness:
  "budget 600 (hd (ddWatches (wyDB (demo_exec (Human 600 (ex_yes 2 ''bob'')) ex_half)))) = 994 \<and>
   dwDeadlineAt (hd (ddWatches (wyDB (demo_exec (Human 600 (ex_yes 2 ''bob'')) ex_half)))) = 1594"
proof -
  let ?op = "Human 600 (ex_yes 2 ''bob'')"
  have "demo (ex_arm @ [Human 500 (ex_yes 1 ''ann'')]) ex_quiet \<noteq> None" by code_simp
  then have reach: "watch_reach None 120 ex_quiet ex_half" unfolding ex_half_def by (rule demo_the)
  have step: "watch_step None 120 (demo_time ?op) ex_half (demo_exec ?op ex_half)" by (rule demo_step) simp
  have mem: "ddWatches (wyDB ex_half) \<noteq> []" "ddWatches (wyDB (demo_exec ?op ex_half)) \<noteq> []"
    "dwRevisionID (hd (ddWatches (wyDB (demo_exec ?op ex_half)))) = dwRevisionID (hd (ddWatches (wyDB ex_half)))"
    "budget 600 (hd (ddWatches (wyDB ex_half))) = 994"
    "dwDeadlineAt (hd (ddWatches (wyDB (demo_exec ?op ex_half)))) = 1594"
    by code_simp+
  from waiting_costs_nothing [OF ex_quiet_server reach step hd_in_set [OF mem(1)] hd_in_set [OF mem(2)] mem(3)] mem(4,5)
  show ?thesis by simp
qed

text \<open>Two replicas with the same watch: the first claim has been taken over.\<close>

definition ex_twice :: WatcherSystem where
  "ex_twice = the (demo [Takeover 0 50 ex_input, Tick 5 100, Tick 70 300] ex_quiet)"

theorem one_watcher_acts_witness:
  "\<exists>k\<in>{0, 1}. let t = wyTasks ex_twice ! k in
    \<forall>an. fst (snd (processWatch 120 an (wtRow t) (the (dwClaimID (wtRow t))) (wtPhase t) (wyDB ex_twice))) = wyDB ex_twice"
proof -
  have "demo [Takeover 0 50 ex_input, Tick 5 100, Tick 70 300] ex_quiet \<noteq> None" by code_simp
  then have reach: "watch_reach None 120 ex_quiet ex_twice" unfolding ex_twice_def by (rule demo_the)
  have two: "0 < length (wyTasks ex_twice)" "1 < length (wyTasks ex_twice)"
    "dwRevisionID (wtRow (wyTasks ex_twice ! 0)) = dwRevisionID (wtRow (wyTasks ex_twice ! 1))"
    by code_simp+
  from one_watcher_acts [OF ex_quiet_server reach two(1,2) _ two(3)] show ?thesis by simp
qed

text \<open>A canceled deploy is finalized as canceled although the watcher found it converged.\<close>

definition ex_canceled_deploy :: DeployDB where
  "ex_canceled_deploy = on_db (snd \<circ> CancelRun 1) (wyDB ex_armed)"

definition ex_finalized :: "finalize_result \<times> DeployDB" where
  "ex_finalized = FinalizeDeployWatch (\<lambda>_. False) 50 150 DeployStatusSuccess [] ex_canceled_deploy"

theorem deploy_end_honest_witness:
  "find_watch 50 (snd ex_finalized) = None \<and>
   (\<exists>r'. find_revision 50 (snd ex_finalized) = Some r' \<and> run_status_of (dvStatus r') = StatusCanceled)"
proof -
  let ?s = ex_canceled_deploy
  have fin: "FinalizeDeployWatch (\<lambda>_. False) 50 150 DeployStatusSuccess [] ?s = (Finalized (Some 1), snd ex_finalized)"
  proof -
    have "fst ex_finalized = Finalized (Some 1)" by code_simp
    then show ?thesis unfolding ex_finalized_def by (metis prod.collapse)
  qed
  have wf: "wf_db (abDB (ddAp ?s))" "distinct (map dvID (ddRevisions ?s))" "distinct (map dwRevisionID (ddWatches ?s))"
    by code_simp+
  have here: "find_revision 50 ?s = Some (hd (ddRevisions ?s))" "dvStatus (hd (ddRevisions ?s)) = DeployStatusInProgress"
    "dvJobRunID (hd (ddRevisions ?s)) = Some 100"
    "find_job (abDB (ddAp ?s)) 100 = Some (hd (dbJobs (abDB (ddAp ?s))))"
    "snapshot_matches 100 None (dvAttempt (hd (ddRevisions ?s))) (hd (dbJobs (abDB (ddAp ?s))))"
    "jrCancelRequested (hd (dbJobs (abDB (ddAp ?s))))"
    by code_simp+
  from deploy_end_honest [OF wf fin] here show ?thesis by fastforce
qed

end
