(* ===== verification/Reaper.thy ===== *)
theory Reaper
  imports DeployWatcher Sessions
begin

text \<open>
  Taking jobs back from dead agents: the queries and loops of the sweeper
  (\<open>server/internal/store/sweeper.go\<close>, \<open>queries/sweeper.sql\<close>), the pass of the reaper
  (\<open>server/internal/scheduler/reaper.go\<close>), and the verdict on a job whose pod was taken away
  (\<open>store/disruption.go\<close>). The rows are those of \<open>RunStore\<close> and \<open>DeployWatches\<close>; the columns
  that hold instants, and the agents table, are arguments.
\<close>

section \<open>What the queries read\<close>

record AgentRow =
  arID :: uuid
  arOffline :: bool
  arLastSeenAt :: "gotime option"
  arSessionGeneration :: "64 word"

text \<open>\<open>NOW()\<close>, the agents, and the instants \<open>started_at\<close> and \<open>cancel_requested_at\<close> by job.\<close>

record SweepView =
  swNow :: gotime
  swAgents :: "AgentRow list"
  swStartedAt :: "uuid \<Rightarrow> gotime option"
  swCancelRequestedAt :: "uuid \<Rightarrow> gotime option"

definition find_agent :: "SweepView \<Rightarrow> uuid \<Rightarrow> AgentRow option" where
  "find_agent v a = find (\<lambda>r. arID r = a) (swAgents v)"

definition agent_silent :: "SweepView \<Rightarrow> duration \<Rightarrow> AgentRow \<Rightarrow> bool" where
  "agent_silent v window a =
     (arOffline a \<or> (case arLastSeenAt a of None \<Rightarrow> True | Some t \<Rightarrow> t < swNow v - window))"

text \<open>The agents of the inner join that both cancel queries and the stale query test.\<close>

definition unreachable :: "SweepView \<Rightarrow> duration \<Rightarrow> uuid \<Rightarrow> bool" where
  "unreachable v window a = (case find_agent v a of None \<Rightarrow> False | Some r \<Rightarrow> agent_silent v window r)"

definition watched :: "uuid \<Rightarrow> DeployDB \<Rightarrow> bool" where
  "watched job s =
     list_ex (\<lambda>w. list_ex (\<lambda>r. dvID r = dwRevisionID w \<and> dvJobRunID r = Some job) (ddRevisions s)) (ddWatches s)"

definition abandoned :: "SweepView \<Rightarrow> duration \<Rightarrow> DeployDB \<Rightarrow> uuid \<Rightarrow> bool" where
  "abandoned v window s job =
     ((case swCancelRequestedAt v job of None \<Rightarrow> False | Some t \<Rightarrow> t < swNow v - window) \<and> \<not> watched job s)"

record StaleJob =
  sjID :: uuid
  sjRunID :: uuid
  sjName :: string
  sjAttempt :: int
  sjAgentID :: "uuid option"
  sjRetryUnsafe :: bool
  sjGeneration :: "64 word"

definition stale_row :: "64 word \<Rightarrow> JobRow \<Rightarrow> StaleJob" where
  "stale_row generation j =
     \<lparr>sjID = jrID j, sjRunID = jrRunID j, sjName = jrName j, sjAttempt = jrAttempt j, sjAgentID = jrAgentID j,
      sjRetryUnsafe = jrRetryUnsafe j, sjGeneration = generation\<rparr>"

definition joined_agent :: "SweepView \<Rightarrow> JobRow \<Rightarrow> AgentRow option" where
  "joined_agent v j = Option.bind (jrAgentID j) (find_agent v)"

definition is_stale :: "SweepView \<Rightarrow> duration \<Rightarrow> DeployDB \<Rightarrow> JobRow \<Rightarrow> bool" where
  "is_stale v window s j =
     (jrStatus j = StatusRunning \<and> \<not> jrCancelRequested j \<and> \<not> watched (jrID j) s
      \<and> (case joined_agent v j of
           Some a \<Rightarrow> agent_silent v window a
         | None \<Rightarrow> (case swStartedAt v (jrID j) of None \<Rightarrow> True | Some t \<Rightarrow> t < swNow v - window)))"

definition ListStaleRunningJobs :: "SweepView \<Rightarrow> duration \<Rightarrow> DeployDB \<Rightarrow> StaleJob list" where
  "ListStaleRunningJobs v window s =
     map (\<lambda>j. stale_row (case joined_agent v j of Some a \<Rightarrow> arSessionGeneration a | None \<Rightarrow> 0) j)
       (filter (is_stale v window s) (dbJobs (abDB (ddAp s))))"

definition ListRunningJobsForAgent :: "uuid \<Rightarrow> DB \<Rightarrow> StaleJob list" where
  "ListRunningJobsForAgent agent d =
     map (stale_row 0) (filter (\<lambda>j. jrStatus j = StatusRunning \<and> jrAgentID j = Some agent
       \<and> \<not> jrCancelRequested j) (dbJobs d))"

section \<open>The reclaim loops\<close>

record ReclaimResult =
  rcJobRunID :: uuid
  rcRunID :: uuid
  rcJobName :: string
  rcAgentID :: "uuid option"
  rcGeneration :: "64 word"
  rcAttempt :: int
  rcAction :: "ReclaimAction option"
  rcErr :: bool

definition OutcomeLabel :: "ReclaimResult \<Rightarrow> string" where
  "OutcomeLabel r =
     (if rcErr r then ''error''
      else (case rcAction r of
          Some ReclaimActionRequeued \<Rightarrow> ''requeued''
        | Some ReclaimActionFailed \<Rightarrow> ''failed_max''
        | _ \<Rightarrow> ''skipped''))"

text \<open>\<open>%d\<close> of a non-negative number.\<close>

fun decimal :: "nat \<Rightarrow> string" where
  "decimal n = (if n < 10 then [char_of (48 + n)] else decimal (n div 10) @ [char_of (48 + n mod 10)])"

definition lost_reason :: "string \<Rightarrow> int \<Rightarrow> StaleJob \<Rightarrow> string" where
  "lost_reason what maxAttempts j =
     (if sjRetryUnsafe j then what @ '' before completion; not auto-retried (deploy/environment job)''
      else what @ '' before completion (attempts='' @ decimal (nat (sjAttempt j)) @ '', max=''
        @ decimal (nat maxAttempts) @ '')'')"

text \<open>The body that both loops share; the snapshot may be older than the tables.\<close>

definition reclaim_one :: "string \<Rightarrow> int \<Rightarrow> StaleJob \<Rightarrow> DB \<Rightarrow> ReclaimResult \<times> DB" where
  "reclaim_one what maxAttempts j d =
     (let res = \<lparr>rcJobRunID = sjID j, rcRunID = sjRunID j, rcJobName = sjName j, rcAgentID = sjAgentID j,
        rcGeneration = sjGeneration j, rcAttempt = sjAttempt j, rcAction = None, rcErr = False\<rparr> in
      if sjRetryUnsafe j \<or> sjAttempt j + 1 > maxAttempts then
        (case failJobIfStale (sjID j) (sjAttempt j) (sjAgentID j) (lost_reason what maxAttempts j) d of
           (TxError, d1) \<Rightarrow> (res\<lparr>rcErr := True\<rparr>, d1)
         | (TxMiss, d1) \<Rightarrow> (res\<lparr>rcAction := Some ReclaimActionSkipped\<rparr>, d1)
         | (TxOk cp, d1) \<Rightarrow> (res\<lparr>rcAction := Some ReclaimActionFailed\<rparr>, d1))
      else
        (case requeueStaleJob (sjID j) maxAttempts (sjAttempt j) (sjAgentID j) d of
           ((action, attempt), d1) \<Rightarrow>
             (res\<lparr>rcAction := Some action,
                rcAttempt := (case attempt of None \<Rightarrow> sjAttempt j | Some a \<Rightarrow> a)\<rparr>, d1)))"

fun reclaim_jobs :: "string \<Rightarrow> int \<Rightarrow> StaleJob list \<Rightarrow> DB \<Rightarrow> ReclaimResult list \<times> DB" where
  "reclaim_jobs what maxAttempts [] d = ([], d)"
| "reclaim_jobs what maxAttempts (j # js) d =
     (let (r, d1) = reclaim_one what maxAttempts j d;
          (rs, d2) = reclaim_jobs what maxAttempts js d1 in (r # rs, d2))"

definition attempts_cap :: "int \<Rightarrow> int" where
  "attempts_cap n = (if n \<le> 0 then 3 else n)"

definition staleness_window :: "duration \<Rightarrow> duration" where
  "staleness_window w = (if w \<le> 0 then 90 * 1000000000 else w)"

definition ReclaimStaleJobs :: "SweepView \<Rightarrow> int \<Rightarrow> duration \<Rightarrow> DeployDB \<Rightarrow> ReclaimResult list \<times> DB" where
  "ReclaimStaleJobs v maxAttempts staleness s =
     reclaim_jobs ''agent lost'' (attempts_cap maxAttempts)
       (ListStaleRunningJobs v (staleness_window staleness) s) (abDB (ddAp s))"

definition ReclaimAgentJobs :: "uuid \<Rightarrow> int \<Rightarrow> DB \<Rightarrow> ReclaimResult list \<times> DB" where
  "ReclaimAgentJobs agent maxAttempts d =
     reclaim_jobs ''agent re-registered'' (attempts_cap maxAttempts) (ListRunningJobsForAgent agent d) d"

section \<open>The pass of the reaper\<close>

datatype reaper_event =
  ReaperReclaimed "ReclaimResult list" | ReaperFence uuid "64 word" | ReaperNotify uuid

text \<open>The cancel sweeps with the revisions they close in the same transaction.\<close>

definition cancel_revisions :: "JobRow list \<Rightarrow> DeployDB \<Rightarrow> DeployDB" where
  "cancel_revisions rows s =
     fold (\<lambda>r s. snd (FinalizeDeploymentRevision (jrID r) (jrAttempt r) DeployStatusCanceled s)) rows s"

definition finish_cancels ::
  "(DB \<Rightarrow> JobRow list option \<times> DB) \<Rightarrow> DeployDB \<Rightarrow> JobRow list \<times> DeployDB" where
  "finish_cancels sweep s =
     (case sweep (abDB (ddAp s)) of
        (None, _) \<Rightarrow> ([], s)
      | (Some rows, d) \<Rightarrow> (rows, cancel_revisions rows (on_db (\<lambda>_. d) s)))"

definition notify_runs :: "uuid list \<Rightarrow> reaper_event list" where
  "notify_runs runs = map ReaperNotify (dedup [] runs)"

definition add_fence :: "ReclaimResult \<Rightarrow> (uuid \<times> 64 word) list \<Rightarrow> (uuid \<times> 64 word) list" where
  "add_fence r fs =
     (case rcAgentID r of
        None \<Rightarrow> fs
      | Some a \<Rightarrow> (if a \<in> set (map fst fs) then fs else fs @ [(a, rcGeneration r)]))"

definition finalizeDeadDeployRevision :: "ReclaimResult \<Rightarrow> DeployDB \<Rightarrow> DeployDB" where
  "finalizeDeadDeployRevision r s =
     snd (FinalizeDeploymentRevision (rcJobRunID r) (rcAttempt r) DeployStatusFailed s)"

fun sweep_walk ::
  "ReclaimResult list \<Rightarrow> (uuid \<times> 64 word) list \<Rightarrow> uuid list \<Rightarrow> DeployDB \<Rightarrow>
   (uuid \<times> 64 word) list \<times> uuid list \<times> DeployDB" where
  "sweep_walk [] fs ns s = (fs, ns, s)"
| "sweep_walk (r # rs) fs ns s =
     (if rcErr r then sweep_walk rs fs ns s
      else
        (case rcAction r of
           Some ReclaimActionRequeued \<Rightarrow>
             sweep_walk rs (add_fence r fs) (if rcRunID r \<in> set ns then ns else ns @ [rcRunID r])
               (finalizeDeadDeployRevision r s)
         | Some ReclaimActionFailed \<Rightarrow> sweep_walk rs (add_fence r fs) ns (finalizeDeadDeployRevision r s)
         | _ \<Rightarrow> sweep_walk rs fs ns s))"

definition Sweep :: "SweepView \<Rightarrow> int \<Rightarrow> duration \<Rightarrow> DeployDB \<Rightarrow> reaper_event list \<times> DeployDB" where
  "Sweep v maxAttempts staleness s =
     (let (cs, s1) = finish_cancels (ReclaimPendingCancelsForOfflineAgent (unreachable v staleness)) s;
          (ns, s2) = finish_cancels (ReclaimAbandonedNativeCancels (abandoned v staleness s1)) s1;
          (rs, d) = ReclaimStaleJobs v maxAttempts staleness s2;
          (fs, runs, s3) = sweep_walk rs [] [] (on_db (\<lambda>_. d) s2) in
      (notify_runs (map jrRunID cs) @ notify_runs (map jrRunID ns)
         @ ReaperReclaimed rs # map (\<lambda>(a, g). ReaperFence a g) fs @ map ReaperNotify runs, s3))"

section \<open>Disrupted jobs\<close>

datatype DisruptedOutcome =
  DisruptedRequeued | DisruptedFailedCapped | DisruptedFailedUnsafe | DisruptedCanceled | DisruptedSkipped

record HandleDisruptedInput =
  hdJobRunID :: uuid
  hdExpectedAgentID :: uuid
  hdExpectedAttempt :: int
  hdMaxAttempts :: int
  hdReason :: string

record DisruptedResult =
  drOutcome :: DisruptedOutcome
  drRunID :: uuid
  drCompletion :: "JobCompletion option"

definition disrupted_result :: "DisruptedOutcome \<Rightarrow> uuid \<Rightarrow> JobCompletion option \<Rightarrow> DisruptedResult" where
  "disrupted_result outcome run cp = \<lparr>drOutcome = outcome, drRunID = run, drCompletion = cp\<rparr>"

definition disrupted_failure :: "HandleDisruptedInput \<Rightarrow> CompleteJobInput" where
  "disrupted_failure i =
     \<lparr>ciJobRunID = hdJobRunID i, ciStatus = StatusFailed, ciExitCode = - 1, ciErrorMsg = hdReason i,
      ciExpectedAgentID = Some (hdExpectedAgentID i), ciExpectedAttempt = hdExpectedAttempt i, ciOutputs = []\<rparr>"

text \<open>
  The classifying read is unlocked: \<open>cls\<close> is the row it saw, and the transactions run on the
  tables \<open>d\<close> of a later moment. \<open>None\<close> is a failed transaction.
\<close>

definition act_on_disrupted ::
  "(uuid \<Rightarrow> bool) \<Rightarrow> HandleDisruptedInput \<Rightarrow> JobRow \<Rightarrow> DB \<Rightarrow> DisruptedResult option \<times> DB" where
  "act_on_disrupted contended i cls d =
     (let maxAttempts = attempts_cap (hdMaxAttempts i); run = jrRunID cls;
          retry = (\<not> jrRetryUnsafe cls \<and> \<not> jrCancelRequested cls \<and> jrAttempt cls + 1 \<le> maxAttempts);
          (taken, d1) = (if retry then
              requeueStaleJob (hdJobRunID i) maxAttempts (hdExpectedAttempt i) (Some (hdExpectedAgentID i)) d
            else ((ReclaimActionSkipped, None), d)) in
      if fst taken = ReclaimActionRequeued then (Some (disrupted_result DisruptedRequeued run None), d1)
      else
        (case CompleteJob contended (disrupted_failure i) d1 of
           (TxError, d2) \<Rightarrow> (None, d2)
         | (TxMiss, d2) \<Rightarrow> (Some (disrupted_result DisruptedSkipped run None), d2)
         | (TxOk cp, d2) \<Rightarrow>
             (Some (disrupted_result
                (if jcJobStatus cp = StatusCanceled then DisruptedCanceled
                 else if jrRetryUnsafe cls then DisruptedFailedUnsafe else DisruptedFailedCapped)
                run (Some cp)), d2)))"

definition HandleDisruptedJob ::
  "(uuid \<Rightarrow> bool) \<Rightarrow> HandleDisruptedInput \<Rightarrow> DB \<Rightarrow> DisruptedResult option \<times> DB" where
  "HandleDisruptedJob contended i d =
     (case find_job d (hdJobRunID i) of
        None \<Rightarrow> (Some (disrupted_result DisruptedSkipped uuid_Nil None), d)
      | Some cls \<Rightarrow>
          (if jrStatus cls \<noteq> StatusRunning then (Some (disrupted_result DisruptedSkipped (jrRunID cls) None), d)
           else act_on_disrupted contended i cls d))"

section \<open>What a cascade does to other jobs\<close>

definition fallen :: "JobRow \<Rightarrow> JobRow \<Rightarrow> bool" where
  "fallen j j' =
     (j' = j \<or> (jrStatus j = StatusQueued \<or> jrStatus j = StatusAwaitingApproval)
        \<and> j' = j\<lparr>jrStatus := StatusCanceled, jrCancelOrigin := first_origin OriginDependency j\<rparr>)"

lemma fallen_refl [simp]: "fallen j j"
  by (simp add: fallen_def)

lemma fallen_trans: "fallen i j \<Longrightarrow> fallen j k \<Longrightarrow> fallen i k"
  by (auto simp: fallen_def)

lemma fallen_settled [simp]:
  "jrStatus j \<noteq> StatusQueued \<Longrightarrow> jrStatus j \<noteq> StatusAwaitingApproval \<Longrightarrow> fallen j j' \<longleftrightarrow> j' = j"
  by (auto simp: fallen_def)

lemma fallen_key: "fallen j j' \<Longrightarrow> jrID j' = jrID j \<and> jrStageRunID j' = jrStageRunID j \<and> jrRunID j' = jrRunID j"
  by (auto simp: fallen_def)

lemma fallen_tables: "list_all2 fallen xs ys \<Longrightarrow> list_all2 fallen ys zs \<Longrightarrow> list_all2 fallen xs zs"
  by (rule list_all2_trans [OF fallen_trans])

lemma finish_run_jobs: "dbJobs (snd (finish_run run cp d)) = dbJobs d"
  by (simp add: finish_run_def Let_def CompleteRun_def)

lemma fail_fast_fallen: "list_all2 fallen (dbJobs d) (dbJobs (fail_fast run d))"
  by (simp add: fail_fast_def CancelQueuedJobsInRun_def CancelQueuedStagesInRun_def)
    (rule list_all2_upd_where, auto simp: fallen_def)

lemma cascade_fallen:
  assumes "cascadeAfterJobCompletion stage run cp d = Some (cp', d')"
  shows "list_all2 fallen (dbJobs d) (dbJobs d')"
proof -
  have jobs: "dbJobs (fst (CompleteStageRun stage st d)) = dbJobs d" for st
    by (simp add: CompleteStageRun_def)
  have "list_all2 fallen (dbJobs d) (dbJobs (if st = StatusFailed then fail_fast run (fst (CompleteStageRun stage st d))
      else fst (CompleteStageRun stage st d)))" for st
    using fail_fast_fallen [of "fst (CompleteStageRun stage st d)" run] jobs [of st]
    by (cases "st = StatusFailed") (simp_all add: list.rel_refl)
  then have "list_all2 fallen (dbJobs d) (dbJobs (snd (finish_run run cp1 (if st = StatusFailed
      then fail_fast run (fst (CompleteStageRun stage st d)) else fst (CompleteStageRun stage st d)))))" for st cp1
    by (simp only: finish_run_jobs)
  then show ?thesis
    using cascade_result [OF assms] list.rel_refl [of fallen, OF fallen_refl] unfolding Let_def by blast
qed

lemma cascade_defined:
  assumes "wf_db d" and "j \<in> set (dbJobs d)"
  shows "\<exists>cp' d'. cascadeAfterJobCompletion (jrStageRunID j) run cp d = Some (cp', d')"
proof -
  obtain s where "s \<in> set (dbStages d)" "srID s = jrStageRunID j"
    using assms by (auto simp: wf_db_def)
  then have "find_stage d (jrStageRunID j) \<noteq> None"
    unfolding find_stage_def find_None_iff by blast
  then show ?thesis by (auto simp: cascadeAfterJobCompletion_def split: prod.split)
qed

section \<open>One reclaimed job\<close>

definition failed_row :: "string option \<Rightarrow> JobRow \<Rightarrow> JobRow" where
  "failed_row e j = j\<lparr>jrStatus := StatusFailed, jrExitCode := Some (- 1), jrError := e\<rparr>"

definition retryable :: "int \<Rightarrow> JobRow \<Rightarrow> bool" where
  "retryable m j = (\<not> jrRetryUnsafe j \<and> jrAttempt j + 1 \<le> m)"

definition reclaimed :: "int \<Rightarrow> JobRow \<Rightarrow> JobRow \<Rightarrow> bool" where
  "reclaimed m j j' = (if retryable m j then fallen (requeued_row j) j' else \<exists>e. j' = failed_row e j)"

definition lost :: "JobRow \<Rightarrow> bool" where
  "lost j = (jrStatus j = StatusRunning \<and> \<not> jrCancelRequested j)"

definition swept :: "uuid set \<Rightarrow> int \<Rightarrow> JobRow \<Rightarrow> JobRow \<Rightarrow> bool" where
  "swept ids m j j' = (if jrID j \<in> ids then reclaimed m j j' else fallen j j')"

lemma reclaimed_fallen: "reclaimed m i j \<Longrightarrow> fallen j k \<Longrightarrow> reclaimed m i k"
  unfolding reclaimed_def by (auto simp: failed_row_def intro: fallen_trans split: if_splits)

lemma swept_fallen: "swept ids m i j \<Longrightarrow> fallen j k \<Longrightarrow> swept ids m i k"
  unfolding swept_def using reclaimed_fallen fallen_trans by (auto split: if_splits)

lemma row_keys [simp]:
  "jrID (requeued_row j) = jrID j" "jrRunID (requeued_row j) = jrRunID j" "jrStageRunID (requeued_row j) = jrStageRunID j"
  "jrAttempt (requeued_row j) = jrAttempt j + 1" "jrStatus (requeued_row j) = StatusQueued"
  "jrID (failed_row e j) = jrID j" "jrRunID (failed_row e j) = jrRunID j" "jrStageRunID (failed_row e j) = jrStageRunID j"
  "jrStatus (failed_row e j) = StatusFailed"
  by (simp_all add: requeued_row_def failed_row_def)

lemma reclaimed_key: "reclaimed m j j' \<Longrightarrow> jrID j' = jrID j"
  by (auto simp: reclaimed_def dest: fallen_key split: if_splits)

lemma swept_key: "swept ids m j j' \<Longrightarrow> jrID j' = jrID j"
  using reclaimed_key fallen_key by (auto simp: swept_def split: if_splits)

lemma find_only: "x \<in> set xs \<Longrightarrow> p x \<Longrightarrow> (\<And>y. y \<in> set xs \<Longrightarrow> p y \<Longrightarrow> y = x) \<Longrightarrow> find p xs = Some x"
  by (cases "find p xs") (blast dest: find_SomeD find_None_iff [THEN iffD1])+

text \<open>Moving one row of the swept tables.\<close>

lemma swept_upd:
  assumes wf: "wf_db d0" and sw: "list_all2 (swept ids m) (dbJobs d0) (dbJobs d)"
    and j: "j \<in> set (dbJobs d0)" "jrID j \<notin> ids" "reclaimed m j (f j)"
    and p: "\<And>k. k \<in> set (dbJobs d) \<Longrightarrow> p k \<longleftrightarrow> k = j"
    and cur: "\<And>k. swept ids m j k \<Longrightarrow> k = j"
  shows "list_all2 (swept (insert (jrID j) ids) m) (dbJobs d0) (upd_where p f (dbJobs d))"
  unfolding upd_where_def list_all2_map2
proof (rule list.rel_mono_strong [OF sw])
  fix a b assume ab: "a \<in> set (dbJobs d0)" "b \<in> set (dbJobs d)" "swept ids m a b"
  show "swept (insert (jrID j) ids) m a (if p b then f b else b)"
  proof (cases "jrID a = jrID j")
    case True
    then have "a = j" using job_id_unique [OF wf ab(1) j(1)] by simp
    with ab(3) cur have "b = j" by blast
    with p [OF ab(2)] j(3) \<open>a = j\<close> show ?thesis by (simp add: swept_def)
  next
    case False
    then have "b \<noteq> j" using swept_key [OF ab(3)] by auto
    with p [OF ab(2)] ab(3) False show ?thesis by (simp add: swept_def)
  qed
qed

lemma lost_current:
  assumes "lost j" and "jrID j \<notin> ids" and "swept ids m j k"
  shows "k = j"
  using assms by (auto simp: swept_def lost_def)

lemma requeueStaleJob_evo: "db_evo d (snd (requeueStaleJob job m attempt agent d))"
  using safe_requeueStaleJob [of "[]" d job m attempt agent] by (rule safe_evo)

lemma failJobIfStale_evo: "db_evo d (snd (failJobIfStale job attempt agent reason d))"
  using safe_failJobIfStale [of "[]" d job attempt agent reason] by (rule safe_evo)

text \<open>The line a reclaimed job must have in the report.\<close>

definition report_of :: "int \<Rightarrow> 64 word \<Rightarrow> JobRow \<Rightarrow> ReclaimResult" where
  "report_of m g j =
     \<lparr>rcJobRunID = jrID j, rcRunID = jrRunID j, rcJobName = jrName j, rcAgentID = jrAgentID j, rcGeneration = g,
      rcAttempt = (if retryable m j then jrAttempt j + 1 else jrAttempt j),
      rcAction = Some (if retryable m j then ReclaimActionRequeued else ReclaimActionFailed), rcErr = False\<rparr>"

lemma reclaim_one_swept:
  assumes wf: "wf_db d0" and evo: "db_evo d0 d" and sw: "list_all2 (swept ids m) (dbJobs d0) (dbJobs d)"
    and j: "j \<in> set (dbJobs d0)" "jrID j \<notin> ids" "lost j"
    and one: "reclaim_one what m (stale_row g j) d = (r, d')"
  shows "list_all2 (swept (insert (jrID j) ids) m) (dbJobs d0) (dbJobs d')" and "db_evo d0 d'"
    and "r = report_of m g j"
proof -
  have wfd: "wf_db d" using wf_evo [OF evo wf] .
  note cur = lost_current [OF j(3,2)]
  have here: "j \<in> set (dbJobs d)"
    using list_all2_forth [OF sw j(1)] cur by blast
  then have only: "k \<in> set (dbJobs d) \<Longrightarrow> jrID k = jrID j \<longleftrightarrow> k = j" for k
    using job_id_unique [OF wfd] by blast
  let ?p = "reclaimable (jrID j) (jrAttempt j) (jrAgentID j)"
  have p: "k \<in> set (dbJobs d) \<Longrightarrow> ?p k \<longleftrightarrow> k = j" for k
    using only j(3) by (auto simp: reclaimable_def lost_def)
  have all: "list_all2 (swept (insert (jrID j) ids) m) (dbJobs d0) (dbJobs d') \<and> db_evo d d' \<and>
    r = report_of m g j"
  proof (cases "retryable m j")
    case True
    let ?q = "\<lambda>k. ?p k \<and> jrAttempt k < m"
    have q: "k \<in> set (dbJobs d) \<Longrightarrow> ?q k \<longleftrightarrow> k = j" for k
      using p True by (auto simp: retryable_def)
    have "find ?q (dbJobs d) = Some j" by (rule find_only) (use here q in blast)+
    then have "requeueStaleJob (jrID j) m (jrAttempt j) (jrAgentID j) d =
        ((ReclaimActionRequeued, Some (jrAttempt j + 1)), upd_jobs ?q requeued_row d)"
      by (simp add: requeueStaleJob_def ReclaimJobForRetry_def Let_def requeued_row_def)
    then have d': "d' = upd_jobs ?q requeued_row d" and r: "r = report_of m g j"
      and evo': "db_evo d d'"
      using one True requeueStaleJob_evo [of d "jrID j" m "jrAttempt j" "jrAgentID j"]
      by (auto simp: reclaim_one_def stale_row_def retryable_def report_of_def)
    have "list_all2 (swept (insert (jrID j) ids) m) (dbJobs d0) (dbJobs d')"
      unfolding d' upd_tables
      by (rule swept_upd [OF wf sw j(1,2) _ q cur]) (use True in \<open>simp_all add: reclaimed_def\<close>)
    then show ?thesis using r evo' True by simp
  next
    case False
    let ?reason = "lost_reason what m (stale_row g j)"
    let ?d1 = "upd_jobs ?p (failed_row (Some ?reason)) d"
    have f: "find ?p (dbJobs d) = Some j" by (rule find_only) (use here p in blast)+
    have "db_evo d ?d1"
      by (rule evo_upd(1)) (use p j(3) in \<open>auto simp: failed_row_def evo_defs lost_def\<close>)
    then have wf1: "wf_db ?d1" using wf_evo wfd by blast
    have mem: "failed_row (Some ?reason) j \<in> set (dbJobs ?d1)"
      using upd_where_mem [OF here, of ?p "failed_row (Some ?reason)"] p [OF here] by simp
    obtain cp d2 where d2: "cascadeAfterJobCompletion (jrStageRunID j) (jrRunID j)
        (completion_of (failed_row (Some ?reason) j)) ?d1 = Some (cp, d2)"
      using cascade_defined [OF wf1 mem, of "jrRunID j" "completion_of (failed_row (Some ?reason) j)"] by auto
    have fail: "failJobIfStale (jrID j) (jrAttempt j) (jrAgentID j) ?reason d = (TxOk cp, d2)"
      using f d2 by (simp add: failJobIfStale_def FailStaleJobAtMax_def failed_row_def [abs_def])
    have "list_all2 (swept (insert (jrID j) ids) m) (dbJobs d0) (dbJobs ?d1)"
      unfolding upd_tables
      by (rule swept_upd [OF wf sw j(1,2) _ p cur]) (use False in \<open>auto simp: reclaimed_def\<close>)
    from list_all2_trans [OF swept_fallen this cascade_fallen [OF d2]]
    have "list_all2 (swept (insert (jrID j) ids) m) (dbJobs d0) (dbJobs d2)" .
    moreover have "db_evo d d2"
      using failJobIfStale_evo [of d "jrID j" "jrAttempt j" "jrAgentID j" ?reason] fail by simp
    ultimately show ?thesis
      using one False fail by (auto simp: reclaim_one_def stale_row_def retryable_def report_of_def)
  qed
  then show "db_evo d0 d'" using evo db_evo_trans by blast
  from all show "list_all2 (swept (insert (jrID j) ids) m) (dbJobs d0) (dbJobs d')"
    and "r = report_of m g j"
    by simp_all
qed

section \<open>The loops\<close>

lemma reclaim_jobs_swept:
  assumes wf: "wf_db d0"
  shows "db_evo d0 d \<Longrightarrow> list_all2 (swept ids m) (dbJobs d0) (dbJobs d) \<Longrightarrow>
    (\<forall>j\<in>set js. j \<in> set (dbJobs d0) \<and> jrID j \<notin> ids \<and> lost j) \<Longrightarrow> distinct (map jrID js) \<Longrightarrow>
    reclaim_jobs what m (map (\<lambda>j. stale_row (g j) j) js) d = (rs, d') \<Longrightarrow>
    list_all2 (swept (ids \<union> jrID ` set js) m) (dbJobs d0) (dbJobs d') \<and> db_evo d0 d' \<and> rs = map (\<lambda>j. report_of m (g j) j) js"
proof (induction js arbitrary: ids d rs)
  case (Cons j js)
  obtain r d1 where one: "reclaim_one what m (stale_row (g j) j) d = (r, d1)" by fastforce
  obtain rs' where rest: "reclaim_jobs what m (map (\<lambda>j. stale_row (g j) j) js) d1 = (rs', d')" and rs: "rs = r # rs'"
    using Cons.prems(5) one by (auto split: prod.splits)
  have j: "j \<in> set (dbJobs d0)" "jrID j \<notin> ids" "lost j" using Cons.prems(3) by auto
  note step = reclaim_one_swept [OF wf Cons.prems(1,2) j one]
  have "\<forall>k\<in>set js. k \<in> set (dbJobs d0) \<and> jrID k \<notin> insert (jrID j) ids \<and> lost k"
    using Cons.prems(3,4) by (auto simp: image_iff)
  from Cons.IH [OF step(2,1) this _ rest] Cons.prems(4)
  show ?case using step(3-) by (simp add: rs)
qed simp

lemma stale_lost: "is_stale v window s j \<Longrightarrow> lost j"
  by (simp add: is_stale_def lost_def)

lemma reclaim_stale_swept:
  assumes wf: "wf_db (abDB (ddAp s))" and r: "ReclaimStaleJobs v n staleness s = (rs, d')"
  shows "list_all2 (swept (jrID ` {j \<in> set (dbJobs (abDB (ddAp s))). is_stale v (staleness_window staleness) s j})
      (attempts_cap n)) (dbJobs (abDB (ddAp s))) (dbJobs d')" and "db_evo (abDB (ddAp s)) d'"
    and "rs = map (\<lambda>j. report_of (attempts_cap n) (case joined_agent v j of Some a \<Rightarrow> arSessionGeneration a | None \<Rightarrow> 0) j)
      (filter (is_stale v (staleness_window staleness) s) (dbJobs (abDB (ddAp s))))"
proof -
  let ?d = "abDB (ddAp s)" and ?w = "staleness_window staleness"
  let ?js = "filter (is_stale v ?w s) (dbJobs ?d)"
  have start: "list_all2 (swept {} (attempts_cap n)) (dbJobs ?d) (dbJobs ?d)"
    by (simp add: list_all2_same swept_def)
  have js: "\<forall>j\<in>set ?js. j \<in> set (dbJobs ?d) \<and> jrID j \<notin> {} \<and> lost j" by (auto dest: stale_lost)
  have "distinct (map jrID ?js)" using wf by (simp add: wf_db_def distinct_map_filter)
  from reclaim_jobs_swept [OF wf db_evo_refl start js this r [unfolded ReclaimStaleJobs_def ListStaleRunningJobs_def]]
  show "list_all2 (swept (jrID ` {j \<in> set (dbJobs ?d). is_stale v ?w s j}) (attempts_cap n)) (dbJobs ?d) (dbJobs d')"
    and "db_evo ?d d'"
    and "rs = map (\<lambda>j. report_of (attempts_cap n) (case joined_agent v j of Some a \<Rightarrow> arSessionGeneration a | None \<Rightarrow> 0) j) ?js"
    by simp_all
qed

lemma cascade_rows_fallen:
  "wf_db d \<Longrightarrow> (\<forall>r\<in>set rs. \<exists>j\<in>set (dbJobs d). same_home r j) \<Longrightarrow>
   \<exists>d'. cascade_rows rs d = Some d' \<and> list_all2 fallen (dbJobs d) (dbJobs d') \<and> db_evo d d'"
proof (induction rs arbitrary: d)
  case (Cons r rs)
  let ?cp = "zero_completion\<lparr>jcJobRunID := jrID r, jcRunID := jrRunID r, jcStageRunID := jrStageRunID r,
        jcJobName := jrName r\<rparr>"
  obtain j where j: "j \<in> set (dbJobs d)" "jrStageRunID j = jrStageRunID r" "jrRunID j = jrRunID r"
    using Cons.prems(2) by (auto simp: same_home_def)
  obtain cp d1 where d1: "cascadeAfterJobCompletion (jrStageRunID r) (jrRunID r) ?cp d = Some (cp, d1)"
    using cascade_defined [OF Cons.prems(1) j(1)] j(2) by metis
  have evo: "db_evo d d1" using cascade_evo [OF j(1)] j(2,3) d1 by simp
  have "\<exists>j\<in>set (dbJobs d1). same_home q j" if "q \<in> set rs" for q
  proof -
    obtain k where k: "k \<in> set (dbJobs d)" "same_home q k" using Cons.prems(2) \<open>q \<in> set rs\<close> by auto
    from evo_rows(6) [OF evo k(1)] k(2) show ?thesis by (auto simp: same_home_def evo_job_def)
  qed
  with Cons.IH [OF wf_evo [OF evo Cons.prems(1)]] obtain d' where
    "cascade_rows rs d1 = Some d'" "list_all2 fallen (dbJobs d1) (dbJobs d')" "db_evo d1 d'" by blast
  with d1 evo cascade_fallen [OF d1] show ?case
    by (auto intro: fallen_tables db_evo_trans)
qed (simp add: list.rel_refl)

definition canceled_row :: "JobRow \<Rightarrow> JobRow" where
  "canceled_row j = j\<lparr>jrStatus := StatusCanceled\<rparr>"

lemma reclaim_cancels_rows:
  assumes wf: "wf_db d"
  shows "\<exists>rows d'. reclaim_cancels owned d = (Some rows, d') \<and> db_evo d d'
    \<and> set rows = canceled_row ` {j \<in> set (dbJobs d). cancel_pending j \<and> owned j}
    \<and> list_all2 (\<lambda>j j'. if cancel_pending j \<and> owned j then j' = canceled_row j else fallen j j') (dbJobs d) (dbJobs d')"
proof -
  let ?p = "\<lambda>j. cancel_pending j \<and> owned j"
  let ?d1 = "upd_jobs ?p canceled_row d" and ?rows = "sort_key jrID (map canceled_row (filter ?p (dbJobs d)))"
  have evo: "db_evo d ?d1"
    by (rule evo_upd(1)) (use cancel_pending_ok(1) in \<open>auto simp: canceled_row_def\<close>)
  have home: "\<forall>r\<in>set ?rows. \<exists>j\<in>set (dbJobs ?d1). same_home r j"
    by (auto simp: same_home_def set_upd_where)
  obtain d' where d': "cascade_rows ?rows ?d1 = Some d'" "list_all2 fallen (dbJobs ?d1) (dbJobs d')" "db_evo ?d1 d'"
    using cascade_rows_fallen [OF wf_evo [OF evo wf] home] by blast
  have "reclaim_cancels owned d = (Some ?rows, d')"
    using d'(1) by (simp add: reclaim_cancels_def Let_def canceled_row_def [abs_def])
  moreover have first: "list_all2 (\<lambda>j j'. if ?p j then j' = canceled_row j else fallen j j') (dbJobs d) (dbJobs ?d1)"
    unfolding upd_tables by (simp add: upd_where_def list_all2_map2 list_all2_same)
  have "list_all2 (\<lambda>j j'. if ?p j then j' = canceled_row j else fallen j j') (dbJobs d) (dbJobs d')"
    by (rule list_all2_trans [OF _ first d'(2)]) (auto simp: canceled_row_def intro: fallen_trans split: if_splits)
  ultimately show ?thesis
    using db_evo_trans [OF evo d'(3)] by (intro exI [of _ ?rows] exI [of _ d']) auto
qed

section \<open>A whole pass, row by row\<close>

lemma find_list_all2_key:
  assumes "list_all2 R xs ys" and "\<And>x y. R x y \<Longrightarrow> k y = k x" and "find (\<lambda>x. k x = i) xs = Some x"
  shows "\<exists>y. find (\<lambda>y. k y = i) ys = Some y \<and> R x y"
  using assms by (rule find_list_all2)

text \<open>Finalizing a revision never touches the run store, nor a revision that is final.\<close>

lemma FinalizeDeploymentRevision_keeps [simp]:
  "ddAp (snd (FinalizeDeploymentRevision job attempt st s)) = ddAp s"
  by (simp add: FinalizeDeploymentRevision_def Let_def)

lemma FinalizeDeploymentRevision_final:
  "r \<in> set (ddRevisions s) \<Longrightarrow> dvStatus r \<noteq> DeployStatusInProgress \<Longrightarrow>
   r \<in> set (ddRevisions (snd (FinalizeDeploymentRevision job attempt st s)))"
  by (force simp: FinalizeDeploymentRevision_def Let_def set_upd_where image_iff)

lemma FinalizeDeploymentRevision_hits:
  assumes "r \<in> set (ddRevisions s)" and "dvJobRunID r = Some job" and "dvAttempt r = attempt"
    and "dvStatus r = DeployStatusInProgress" and "st \<noteq> DeployStatusInProgress"
  shows "r\<lparr>dvStatus := st\<rparr> \<in> set (ddRevisions (snd (FinalizeDeploymentRevision job attempt st s)))"
  using assms by (force simp: FinalizeDeploymentRevision_def Let_def set_upd_where image_iff)

lemma FinalizeDeploymentRevision_other:
  "r \<in> set (ddRevisions s) \<Longrightarrow> \<not> (dvJobRunID r = Some job \<and> dvAttempt r = attempt) \<Longrightarrow>
   r \<in> set (ddRevisions (snd (FinalizeDeploymentRevision job attempt st s)))"
  by (force simp: FinalizeDeploymentRevision_def Let_def set_upd_where image_iff)

lemma cancel_revisions_ap [simp]: "ddAp (cancel_revisions rows s) = ddAp s"
  unfolding cancel_revisions_def by (induction rows arbitrary: s) simp_all

lemma cancel_revisions_final:
  "r \<in> set (ddRevisions s) \<Longrightarrow> dvStatus r \<noteq> DeployStatusInProgress \<Longrightarrow>
   r \<in> set (ddRevisions (cancel_revisions rows s))"
  unfolding cancel_revisions_def
  by (induction rows arbitrary: s) (simp_all add: FinalizeDeploymentRevision_final)

lemma cancel_revisions_hits:
  assumes "j \<in> set rows" and "dvJobRunID r = Some (jrID j)" and "dvAttempt r = jrAttempt j"
    and "r \<in> set (ddRevisions s)" and "dvStatus r = DeployStatusInProgress"
  shows "r\<lparr>dvStatus := DeployStatusCanceled\<rparr> \<in> set (ddRevisions (cancel_revisions rows s))"
  using assms(1,4)
proof (induction rows arbitrary: s)
  case (Cons q rows)
  let ?s1 = "snd (FinalizeDeploymentRevision (jrID q) (jrAttempt q) DeployStatusCanceled s)"
  have rest: "cancel_revisions (q # rows) s = cancel_revisions rows ?s1" by (simp add: cancel_revisions_def)
  show ?case
  proof (cases "jrID q = jrID j \<and> jrAttempt q = jrAttempt j")
    case True
    with assms Cons.prems(2) have "r\<lparr>dvStatus := DeployStatusCanceled\<rparr> \<in> set (ddRevisions ?s1)"
      by (intro FinalizeDeploymentRevision_hits) auto
    then show ?thesis unfolding rest by (rule cancel_revisions_final) simp
  next
    case False
    then have "r \<in> set (ddRevisions ?s1)"
      using Cons.prems(2) assms(2,3) by (intro FinalizeDeploymentRevision_other) auto
    with Cons.IH Cons.prems(1) False show ?thesis unfolding rest by auto
  qed
qed simp

lemma sweep_walk_ap: "sweep_walk rs fs ns s = (fs', ns', s') \<Longrightarrow> ddAp s' = ddAp s"
proof (induction rs arbitrary: fs ns s)
  case (Cons r rs)
  then show ?case
    by (auto simp: finalizeDeadDeployRevision_def split: if_splits option.splits ReclaimAction.splits dest!: Cons.IH)
qed simp

lemma sweep_walk_final:
  "sweep_walk rs fs ns s = (fs', ns', s') \<Longrightarrow> r \<in> set (ddRevisions s) \<Longrightarrow> dvStatus r \<noteq> DeployStatusInProgress \<Longrightarrow>
   r \<in> set (ddRevisions s')"
proof (induction rs arbitrary: fs ns s)
  case (Cons q rs)
  from FinalizeDeploymentRevision_final [OF Cons.prems(2,3)]
  have "r \<in> set (ddRevisions (finalizeDeadDeployRevision q s))" by (simp add: finalizeDeadDeployRevision_def)
  with Cons show ?case
    by (auto split: if_splits option.splits ReclaimAction.splits dest!: Cons.IH)
qed simp

text \<open>A cancel sweep, with its revisions.\<close>

lemma finish_cancels_rows:
  assumes wf: "wf_db (abDB (ddAp s))" and f: "finish_cancels (reclaim_cancels owned) s = (rows, s')"
  shows "list_all2 (\<lambda>j j'. if cancel_pending j \<and> owned j then j' = canceled_row j else fallen j j')
      (dbJobs (abDB (ddAp s))) (dbJobs (abDB (ddAp s')))"
    and "db_evo (abDB (ddAp s)) (abDB (ddAp s'))"
    and "set rows = canceled_row ` {j \<in> set (dbJobs (abDB (ddAp s))). cancel_pending j \<and> owned j}"
    and "s' = cancel_revisions rows (on_db (\<lambda>_. abDB (ddAp s')) s)"
proof -
  obtain rows' d where d: "reclaim_cancels owned (abDB (ddAp s)) = (Some rows', d)" "db_evo (abDB (ddAp s)) d"
    "set rows' = canceled_row ` {j \<in> set (dbJobs (abDB (ddAp s))). cancel_pending j \<and> owned j}"
    "list_all2 (\<lambda>j j'. if cancel_pending j \<and> owned j then j' = canceled_row j else fallen j j')
       (dbJobs (abDB (ddAp s))) (dbJobs d)"
    using reclaim_cancels_rows [OF wf, of owned] by blast
  with f have rows: "rows = rows'" and s': "s' = cancel_revisions rows (on_db (\<lambda>_. d) s)"
    by (auto simp: finish_cancels_def)
  then have db: "abDB (ddAp s') = d" by (simp add: on_db_def)
  show "list_all2 (\<lambda>j j'. if cancel_pending j \<and> owned j then j' = canceled_row j else fallen j j')
      (dbJobs (abDB (ddAp s))) (dbJobs (abDB (ddAp s')))"
    and "db_evo (abDB (ddAp s)) (abDB (ddAp s'))"
    and "set rows = canceled_row ` {j \<in> set (dbJobs (abDB (ddAp s))). cancel_pending j \<and> owned j}"
    using d rows by (simp_all add: db)
  show "s' = cancel_revisions rows (on_db (\<lambda>_. abDB (ddAp s')) s)"
    unfolding db by (rule s')
qed

lemma agent_cancels_owned:
  "ReclaimPendingCancelsForOfflineAgent u = reclaim_cancels (\<lambda>j. \<exists>a. jrAgentID j = Some a \<and> u a)"
  unfolding ReclaimPendingCancelsForOfflineAgent_def
  by (rule arg_cong [where f = reclaim_cancels]) (auto split: option.split)

text \<open>The stages of a pass.\<close>

lemma Sweep_stages:
  assumes "Sweep v n staleness s = (ev, s')"
  obtains cs s1 ns s2 rs d fs runs where
    "finish_cancels (reclaim_cancels (\<lambda>j. \<exists>a. jrAgentID j = Some a \<and> unreachable v staleness a)) s = (cs, s1)"
    "finish_cancels (reclaim_cancels (\<lambda>j. jrAgentID j = None \<and> abandoned v staleness s1 (jrID j))) s1 = (ns, s2)"
    "ReclaimStaleJobs v n staleness s2 = (rs, d)"
    "sweep_walk rs [] [] (on_db (\<lambda>_. d) s2) = (fs, runs, s')"
    "ev = notify_runs (map jrRunID cs) @ notify_runs (map jrRunID ns)
      @ ReaperReclaimed rs # map (\<lambda>(a, g). ReaperFence a g) fs @ map ReaperNotify runs"
proof -
  obtain cs s1 where 1: "finish_cancels (reclaim_cancels (\<lambda>j. \<exists>a. jrAgentID j = Some a \<and> unreachable v staleness a)) s
      = (cs, s1)" by (rule prod.exhaust)
  obtain ns s2 where 2: "finish_cancels (reclaim_cancels (\<lambda>j. jrAgentID j = None \<and> abandoned v staleness s1 (jrID j))) s1
      = (ns, s2)" by (rule prod.exhaust)
  obtain rs d where 3: "ReclaimStaleJobs v n staleness s2 = (rs, d)" by (rule prod.exhaust)
  obtain fs runs s3 where 4: "sweep_walk rs [] [] (on_db (\<lambda>_. d) s2) = (fs, runs, s3)" by (rule prod_cases3)
  have "s3 = s'" and "ev = notify_runs (map jrRunID cs) @ notify_runs (map jrRunID ns)
      @ ReaperReclaimed rs # map (\<lambda>(a, g). ReaperFence a g) fs @ map ReaperNotify runs"
    using assms by (simp_all add: Sweep_def agent_cancels_owned ReclaimAbandonedNativeCancels_def 1 2 3 4)
  then show ?thesis using that [OF 1 2 3] 4 by blast
qed

lemma cancel_revisions_cases:
  "r \<in> set (ddRevisions s) \<Longrightarrow> r \<in> set (ddRevisions (cancel_revisions rows s)) \<or>
   r\<lparr>dvStatus := DeployStatusCanceled\<rparr> \<in> set (ddRevisions (cancel_revisions rows s))"
proof (induction rows arbitrary: s)
  case (Cons q rows)
  let ?s1 = "snd (FinalizeDeploymentRevision (jrID q) (jrAttempt q) DeployStatusCanceled s)"
  have rest: "cancel_revisions (q # rows) s = cancel_revisions rows ?s1" by (simp add: cancel_revisions_def)
  have "r \<in> set (ddRevisions ?s1) \<or> r\<lparr>dvStatus := DeployStatusCanceled\<rparr> \<in> set (ddRevisions ?s1)"
    using FinalizeDeploymentRevision_hits [OF Cons.prems] FinalizeDeploymentRevision_other [OF Cons.prems]
      FinalizeDeploymentRevision_final [OF Cons.prems] by blast
  then show ?case
    unfolding rest using Cons.IH [of ?s1] cancel_revisions_final [of "r\<lparr>dvStatus := DeployStatusCanceled\<rparr>" ?s1 rows]
    by auto
qed (simp add: cancel_revisions_def)

lemma cancel_revisions_watched: "watched job (cancel_revisions rows s) \<Longrightarrow> watched job s"
proof (induction rows arbitrary: s)
  case (Cons q rows)
  let ?s1 = "snd (FinalizeDeploymentRevision (jrID q) (jrAttempt q) DeployStatusCanceled s)"
  have "watched job ?s1"
    using Cons.IH [of ?s1] Cons.prems by (simp add: cancel_revisions_def)
  then show ?case
    by (auto simp: watched_def FinalizeDeploymentRevision_def Let_def list_ex_iff set_upd_where split: if_splits)
qed (simp add: cancel_revisions_def)

lemma swept_pass:
  assumes wf: "wf_db (abDB (ddAp s))" and r: "ReclaimStaleJobs v n staleness s = (rs, d')"
    and j: "find_job (abDB (ddAp s)) i = Some j"
  shows "\<exists>j'. find_job d' i = Some j' \<and>
    (if is_stale v (staleness_window staleness) s j then reclaimed (attempts_cap n) j j' else fallen j j')"
proof -
  let ?ids = "jrID ` {j \<in> set (dbJobs (abDB (ddAp s))). is_stale v (staleness_window staleness) s j}"
  obtain j' where j': "find_job d' i = Some j'" "swept ?ids (attempts_cap n) j j'"
    using find_list_all2_key [OF reclaim_stale_swept(1) [OF wf r], of jrID i j] swept_key [of ?ids "attempts_cap n"]
      j [unfolded find_job_def]
    unfolding find_job_def by blast
  have here: "j \<in> set (dbJobs (abDB (ddAp s)))"
    using j by (auto simp: find_job_def dest: find_SomeD)
  have "jrID j \<in> ?ids \<longleftrightarrow> is_stale v (staleness_window staleness) s j"
    using job_id_unique [OF wf here] here by auto
  with j' show ?thesis by (auto simp: swept_def)
qed

lemma cancel_pass:
  assumes wf: "wf_db (abDB (ddAp s))" and f: "finish_cancels (reclaim_cancels owned) s = (rows, s')"
    and j: "find_job (abDB (ddAp s)) i = Some j"
  shows "\<exists>j'. find_job (abDB (ddAp s')) i = Some j' \<and>
    (if cancel_pending j \<and> owned j then j' = canceled_row j else fallen j j')"
  unfolding find_job_def
  by (rule find_list_all2_key [OF finish_cancels_rows(1) [OF wf f] _ j [unfolded find_job_def]])
    (auto simp: canceled_row_def dest: fallen_key split: if_splits)

lemma canceled_settled: "cancel_pending j \<Longrightarrow> fallen j j' \<longleftrightarrow> j' = j" "fallen (canceled_row j) j' \<longleftrightarrow> j' = canceled_row j"
  by (auto simp: fallen_def cancel_pending_def canceled_row_def)

text \<open>What the three phases make of one job with a pending cancel.\<close>

lemma phases_cancel_row:
  assumes wf: "wf_db (abDB (ddAp s))" and j: "find_job (abDB (ddAp s)) i = Some j" "cancel_pending j"
    and 1: "finish_cancels (reclaim_cancels (\<lambda>j. \<exists>a. jrAgentID j = Some a \<and> unreachable v w a)) s = (cs, s1)"
    and 2: "finish_cancels (reclaim_cancels (\<lambda>j. jrAgentID j = None \<and> abandoned v w s1 (jrID j))) s1 = (ns, s2)"
    and 3: "ReclaimStaleJobs v n staleness s2 = (rs, d)"
  defines "own1 \<equiv> \<exists>a. jrAgentID j = Some a \<and> unreachable v w a"
    and "own2 \<equiv> jrAgentID j = None \<and> abandoned v w s1 (jrID j)"
  shows "find_job (abDB (ddAp s1)) i = Some (if own1 then canceled_row j else j)"
    and "find_job d i = Some (if own1 \<or> own2 then canceled_row j else j)"
proof -
  note wf1 = wf_evo [OF finish_cancels_rows(2) [OF wf 1] wf]
  note wf2 = wf_evo [OF finish_cancels_rows(2) [OF wf1 2] wf1]
  let ?j1 = "if own1 then canceled_row j else j" and ?j2 = "if own1 \<or> own2 then canceled_row j else j"
  have "j1 = ?j1" if "if cancel_pending j \<and> own1 then j1 = canceled_row j else fallen j j1" for j1
    using that j(2) canceled_settled(1) [OF j(2)] by (simp split: if_splits)
  then show j1: "find_job (abDB (ddAp s1)) i = Some ?j1"
    using cancel_pass [OF wf 1 j(1)] unfolding own1_def by blast
  have "j2 = ?j2" if f: "if cancel_pending ?j1 \<and> jrAgentID ?j1 = None \<and> abandoned v w s1 (jrID ?j1)
      then j2 = canceled_row ?j1 else fallen ?j1 j2" for j2
  proof (cases own1)
    case True
    then have "\<not> cancel_pending ?j1" by (simp add: cancel_pending_def canceled_row_def)
    with f True show ?thesis using canceled_settled(2) [of j j2] by simp
  next
    case False
    with f j(2) canceled_settled(1) [OF j(2)] show ?thesis unfolding own2_def by (simp split: if_splits)
  qed
  then have j2: "find_job (abDB (ddAp s2)) i = Some ?j2"
    using cancel_pass [OF wf1 2 j1] by blast
  have "\<not> is_stale v (staleness_window staleness) s2 ?j2" and settled: "\<And>j'. fallen ?j2 j' \<longleftrightarrow> j' = ?j2"
    using j(2) canceled_settled by (auto simp: is_stale_def canceled_row_def cancel_pending_def)
  with swept_pass [OF wf2 3 j2] show "find_job d i = Some ?j2" by auto
qed

text \<open>The open revision of such a job.\<close>

lemma phase_cancels_revision:
  assumes wf: "wf_db (abDB (ddAp s))" and f: "finish_cancels (reclaim_cancels owned) s = (rows, s')"
    and r: "r \<in> set (ddRevisions s)" "dvJobRunID r = Some i" "dvAttempt r = jrAttempt j" "dvStatus r = DeployStatusInProgress"
  defines "r' \<equiv> r\<lparr>dvStatus := DeployStatusCanceled\<rparr>"
  shows "r \<in> set (ddRevisions s') \<or> r' \<in> set (ddRevisions s')"
    and "find_job (abDB (ddAp s)) i = Some j \<Longrightarrow> cancel_pending j \<Longrightarrow> owned j \<Longrightarrow> r' \<in> set (ddRevisions s')"
proof -
  note s' = finish_cancels_rows(4) [OF wf f]
  have r0: "r \<in> set (ddRevisions (on_db (\<lambda>_. x) s))" for x using r(1) by (simp add: on_db_def)
  show "r \<in> set (ddRevisions s') \<or> r' \<in> set (ddRevisions s')"
    unfolding r'_def by (subst (1 2) s') (rule cancel_revisions_cases [OF r0])
  assume j: "find_job (abDB (ddAp s)) i = Some j" "cancel_pending j" "owned j"
  then have "j \<in> set (dbJobs (abDB (ddAp s)))" "jrID j = i" by (auto simp: find_job_def dest: find_SomeD)
  then have row: "canceled_row j \<in> set rows" and "jrID (canceled_row j) = i" "jrAttempt (canceled_row j) = jrAttempt j"
    using finish_cancels_rows(3) [OF wf f] j(2,3) by (auto simp: canceled_row_def)
  with r r0 show "r' \<in> set (ddRevisions s')"
    unfolding r'_def by (subst s') (rule cancel_revisions_hits [OF row], simp_all)
qed

lemma phase_keeps_final:
  assumes "wf_db (abDB (ddAp s))" and "finish_cancels (reclaim_cancels owned) s = (rows, s')"
    and "r \<in> set (ddRevisions s)" "dvStatus r \<noteq> DeployStatusInProgress"
  shows "r \<in> set (ddRevisions s')"
  by (subst finish_cancels_rows(4) [OF assms(1,2)]) (use assms(3,4) in \<open>simp add: cancel_revisions_final on_db_def\<close>)

lemma phase_keeps_abandoned:
  assumes "wf_db (abDB (ddAp s))" and "finish_cancels (reclaim_cancels owned) s = (rows, s')" and "abandoned v w s i"
  shows "abandoned v w s' i"
proof -
  have "watched i (cancel_revisions rows (on_db (\<lambda>_. abDB (ddAp s')) s)) \<Longrightarrow> watched i s"
    by (drule cancel_revisions_watched) (simp add: watched_def on_db_def)
  then have "watched i s' \<Longrightarrow> watched i s"
    unfolding finish_cancels_rows(4) [OF assms(1,2), symmetric] .
  with assms(3) show ?thesis by (auto simp: abandoned_def)
qed

text \<open>Canceling the revisions of other jobs leaves the watches of a job alone.\<close>

lemma FinalizeDeploymentRevision_watched:
  fixes attempt :: int
  assumes ids: "distinct (map dvID (ddRevisions s))" and other: "job \<noteq> i" and w: "watched i s"
  defines "s1 \<equiv> snd (FinalizeDeploymentRevision job attempt DeployStatusCanceled s)"
  shows "watched i s1" and "distinct (map dvID (ddRevisions s1))"
proof -
  let ?p = "\<lambda>r. dvJobRunID r = Some job \<and> dvAttempt r = attempt \<and> dvStatus r = DeployStatusInProgress"
  have s1: "ddRevisions s1 = upd_where ?p (\<lambda>r. r\<lparr>dvStatus := DeployStatusCanceled\<rparr>) (ddRevisions s)"
    "ddWatches s1 = filter (\<lambda>w. \<not> list_ex (\<lambda>r. ?p r \<and> dvID r = dwRevisionID w) (ddRevisions s)) (ddWatches s)"
    by (simp_all add: s1_def FinalizeDeploymentRevision_def Let_def)
  obtain w r where wr: "w \<in> set (ddWatches s)" "r \<in> set (ddRevisions s)" "dvID r = dwRevisionID w" "dvJobRunID r = Some i"
    using assms(3) by (auto simp: watched_def list_ex_iff)
  have "\<not> (?p q \<and> dvID q = dwRevisionID w)" if "q \<in> set (ddRevisions s)" for q
  proof
    assume q: "?p q \<and> dvID q = dwRevisionID w"
    have "inj_on dvID (set (ddRevisions s))" using ids by (simp add: distinct_map)
    then have "q = r" using q wr(2,3) that by (simp add: inj_on_def)
    with q wr(4) other show False by simp
  qed
  then have "w \<in> set (ddWatches s1)" unfolding s1 using wr(1) by (simp add: list_ex_iff)
  moreover have "r \<in> set (ddRevisions s1)"
    unfolding s1 upd_where_def using wr(2,4) other by (force simp: image_iff)
  ultimately show "watched i s1" using wr(3,4) by (auto simp: watched_def list_ex_iff)
  show "distinct (map dvID (ddRevisions s1))" unfolding s1 using ids by (simp add: map_upd_where)
qed

lemma cancel_revisions_watched_other:
  "distinct (map dvID (ddRevisions s)) \<Longrightarrow> \<forall>q\<in>set rows. jrID q \<noteq> i \<Longrightarrow> watched i s \<Longrightarrow> watched i (cancel_revisions rows s)"
proof (induction rows arbitrary: s)
  case (Cons q rows)
  have other: "jrID q \<noteq> i" using Cons.prems(2) by simp
  note one = FinalizeDeploymentRevision_watched [OF Cons.prems(1) other Cons.prems(3), of "jrAttempt q"]
  have "watched i (cancel_revisions rows (snd (FinalizeDeploymentRevision (jrID q) (jrAttempt q) DeployStatusCanceled s)))"
    by (rule Cons.IH [OF one(2) _ one(1)]) (use Cons.prems(2) in simp)
  then show ?case by (simp add: cancel_revisions_def)
qed (simp add: cancel_revisions_def)

text \<open>Nobody is left to deliver a cancel: the agent is unreachable, or no watch owns an old request.\<close>

definition undeliverable :: "SweepView \<Rightarrow> duration \<Rightarrow> DeployDB \<Rightarrow> JobRow \<Rightarrow> bool" where
  "undeliverable v w s j =
     (case jrAgentID j of Some a \<Rightarrow> unreachable v w a | None \<Rightarrow> abandoned v w s (jrID j))"

lemma phase_abandons:
  assumes wf: "wf_db (abDB (ddAp s))" and ids: "distinct (map dvID (ddRevisions s))"
    and f: "finish_cancels (reclaim_cancels (\<lambda>j. \<exists>a. jrAgentID j = Some a \<and> unreachable v w a)) s = (rows, s1)"
    and j: "j \<in> set (dbJobs (abDB (ddAp s)))" "jrAgentID j = None"
  shows "abandoned v w s1 (jrID j) \<longleftrightarrow> abandoned v w s (jrID j)"
proof -
  have "jrID q \<noteq> jrID j" if q: "q \<in> set rows" for q
  proof
    assume same: "jrID q = jrID j"
    obtain k where k: "k \<in> set (dbJobs (abDB (ddAp s)))" "q = canceled_row k" "jrAgentID k \<noteq> None"
      using q unfolding finish_cancels_rows(3) [OF wf f] by blast
    then have "k = j" using job_id_unique [OF wf k(1) j(1)] same by (simp add: canceled_row_def)
    with k(3) j(2) show False by simp
  qed
  then have "watched (jrID j) (on_db (\<lambda>_. abDB (ddAp s1)) s) \<Longrightarrow>
      watched (jrID j) (cancel_revisions rows (on_db (\<lambda>_. abDB (ddAp s1)) s))"
    by (intro cancel_revisions_watched_other) (use ids in \<open>simp_all add: on_db_def\<close>)
  then have "watched (jrID j) s \<Longrightarrow> watched (jrID j) s1"
    unfolding finish_cancels_rows(4) [OF wf f, symmetric] by (simp add: watched_def on_db_def)
  then show ?thesis using phase_keeps_abandoned [OF wf f, of v w "jrID j"] by (auto simp: abandoned_def)
qed

text \<open>
  C16: a cancel that nobody is left to deliver is honoured, exactly then, and never turned into
  a retry or a failure. After a pass of the reaper a running job whose cancel was requested is
  canceled if its agent is unreachable, or if it has no agent, its request is older than the
  window and no deploy watch owns it; otherwise its row is untouched. When it is canceled, the
  open revision of its deploy is canceled with it.
\<close>

theorem sweep_honours_cancel:
  assumes wf: "wf_db (abDB (ddAp s))" and ids: "distinct (map dvID (ddRevisions s))"
    and sweep: "Sweep v n staleness s = (ev, s')"
    and j: "find_job (abDB (ddAp s)) i = Some j" "cancel_pending j"
  shows "find_job (abDB (ddAp s')) i = Some (if undeliverable v staleness s j then canceled_row j else j) \<and>
    (undeliverable v staleness s j \<longrightarrow>
       (\<forall>r\<in>set (ddRevisions s). dvJobRunID r = Some i \<and> dvAttempt r = jrAttempt j \<and> dvStatus r = DeployStatusInProgress \<longrightarrow>
          r\<lparr>dvStatus := DeployStatusCanceled\<rparr> \<in> set (ddRevisions s')))"
proof -
  obtain cs s1 ns s2 rs d fs runs where
    1: "finish_cancels (reclaim_cancels (\<lambda>j. \<exists>a. jrAgentID j = Some a \<and> unreachable v staleness a)) s = (cs, s1)" and
    2: "finish_cancels (reclaim_cancels (\<lambda>j. jrAgentID j = None \<and> abandoned v staleness s1 (jrID j))) s1 = (ns, s2)" and
    3: "ReclaimStaleJobs v n staleness s2 = (rs, d)" and
    4: "sweep_walk rs [] [] (on_db (\<lambda>_. d) s2) = (fs, runs, s')"
    by (rule Sweep_stages [OF sweep])
  let ?own1 = "\<exists>a. jrAgentID j = Some a \<and> unreachable v staleness a"
  let ?own2 = "jrAgentID j = None \<and> abandoned v staleness s1 (jrID j)"
  note rows = phases_cancel_row [OF wf j 1 2 3]
  note wf1 = wf_evo [OF finish_cancels_rows(2) [OF wf 1] wf]
  have db: "abDB (ddAp s') = d" using sweep_walk_ap [OF 4] by (simp add: on_db_def)
  have mem: "j \<in> set (dbJobs (abDB (ddAp s)))" using j(1) by (auto simp: find_job_def dest: find_SomeD)
  have own: "undeliverable v staleness s j \<longleftrightarrow> ?own1 \<or> ?own2"
    using phase_abandons [OF wf ids 1 mem] by (cases "jrAgentID j") (auto simp: undeliverable_def)
  have "r\<lparr>dvStatus := DeployStatusCanceled\<rparr> \<in> set (ddRevisions s')"
    if lost: "?own1 \<or> ?own2" and r: "r \<in> set (ddRevisions s)" "dvJobRunID r = Some i" "dvAttempt r = jrAttempt j"
      "dvStatus r = DeployStatusInProgress" for r
  proof -
    let ?r = "r\<lparr>dvStatus := DeployStatusCanceled\<rparr>"
    have final: "?r \<in> set (ddRevisions s1) \<Longrightarrow> ?r \<in> set (ddRevisions s2)"
      by (rule phase_keeps_final [OF wf1 2]) simp_all
    have "?r \<in> set (ddRevisions s2)"
    proof (cases ?own1)
      case True
      then show ?thesis using final phase_cancels_revision(2) [OF wf 1 r j] by blast
    next
      case False
      then have "find_job (abDB (ddAp s1)) i = Some j" and ?own2 using rows(1) lost by auto
      then show ?thesis
        using final phase_cancels_revision(1) [OF wf 1 r] phase_cancels_revision(2) [OF wf1 2 _ r(2-4) _ j(2)] by blast
    qed
    then show ?thesis using sweep_walk_final [OF 4] by (simp add: on_db_def)
  qed
  then show ?thesis using rows(2) db own by auto
qed

section \<open>A pass is a history of the store\<close>

lemma run_exec_step:
  "run_enabled c \<lparr>rvDB = d, rvListed = l\<rparr> \<Longrightarrow> listed_after c \<lparr>rvDB = d, rvListed = l\<rparr> = l \<Longrightarrow>
   run_step\<^sup>*\<^sup>* \<lparr>rvDB = d, rvListed = l\<rparr> \<lparr>rvDB = run_exec c d, rvListed = l\<rparr>"
  unfolding run_step_def by (rule r_into_rtranclp) (auto intro!: exI [of _ c])

lemma reclaim_cancels_cong:
  assumes "\<And>j. j \<in> set (dbJobs d) \<Longrightarrow> owned j = owned' j"
  shows "reclaim_cancels owned d = reclaim_cancels owned' d"
proof -
  have "filter (\<lambda>j. cancel_pending j \<and> owned j) (dbJobs d) = filter (\<lambda>j. cancel_pending j \<and> owned' j) (dbJobs d)"
    by (rule filter_cong) (use assms in simp_all)
  moreover have "upd_jobs (\<lambda>j. cancel_pending j \<and> owned j) f d = upd_jobs (\<lambda>j. cancel_pending j \<and> owned' j) f d" for f
    using assms by (simp add: upd_jobs_def upd_where_def)
  ultimately show ?thesis unfolding reclaim_cancels_def Let_def by (simp only:)
qed

lemma finish_cancels_db:
  "finish_cancels (reclaim_cancels owned) s = (rows, s') \<Longrightarrow> abDB (ddAp s') = snd (reclaim_cancels owned (abDB (ddAp s)))"
  by (auto simp: finish_cancels_def on_db_def reclaim_cancels_def Let_def split: option.splits)

lemma cancel_sweeps_history:
  "run_step\<^sup>*\<^sup>* \<lparr>rvDB = d, rvListed = l\<rparr>
     \<lparr>rvDB = snd (reclaim_cancels (\<lambda>j. \<exists>a. jrAgentID j = Some a \<and> unreachable v w a) d), rvListed = l\<rparr>"
  "run_step\<^sup>*\<^sup>* \<lparr>rvDB = d, rvListed = l\<rparr>
     \<lparr>rvDB = snd (reclaim_cancels (\<lambda>j. jrAgentID j = None \<and> abandoned v w s (jrID j)) d), rvListed = l\<rparr>"
proof -
  have "(\<lambda>a. a \<in> set (filter (unreachable v w) (map arID (swAgents v)))) = unreachable v w"
    by (rule ext) (auto simp: unreachable_def find_agent_def dest!: find_SomeD split: option.splits)
  then show "run_step\<^sup>*\<^sup>* \<lparr>rvDB = d, rvListed = l\<rparr>
      \<lparr>rvDB = snd (reclaim_cancels (\<lambda>j. \<exists>a. jrAgentID j = Some a \<and> unreachable v w a) d), rvListed = l\<rparr>"
    using run_exec_step [of "RReclaimCancels (filter (unreachable v w) (map arID (swAgents v)))" d l]
    by (simp only: run_exec.simps run_enabled.simps listed_after.simps agent_cancels_owned run_server.select_convs)
  let ?ids = "filter (abandoned v w s) (map jrID (dbJobs d))"
  have "reclaim_cancels (\<lambda>j. jrAgentID j = None \<and> jrID j \<in> set ?ids) d
      = reclaim_cancels (\<lambda>j. jrAgentID j = None \<and> abandoned v w s (jrID j)) d"
    by (rule reclaim_cancels_cong) auto
  then show "run_step\<^sup>*\<^sup>* \<lparr>rvDB = d, rvListed = l\<rparr>
      \<lparr>rvDB = snd (reclaim_cancels (\<lambda>j. jrAgentID j = None \<and> abandoned v w s (jrID j)) d), rvListed = l\<rparr>"
    using run_exec_step [of "RReclaimNative ?ids" d l]
    by (simp only: run_exec.simps run_enabled.simps listed_after.simps ReclaimAbandonedNativeCancels_def
        run_server.select_convs)
qed

lemma reclaim_one_history:
  assumes safe: "\<And>k. k \<in> set (dbJobs d) \<Longrightarrow> jrID k = sjID j \<Longrightarrow> jrRetryUnsafe k = sjRetryUnsafe j"
  shows "run_step\<^sup>*\<^sup>* \<lparr>rvDB = d, rvListed = l\<rparr> \<lparr>rvDB = snd (reclaim_one what m j d), rvListed = l\<rparr>"
proof (cases "sjRetryUnsafe j \<or> sjAttempt j + 1 > m")
  case True
  then have "snd (reclaim_one what m j d) =
      run_exec (RFailStale (sjID j) (sjAttempt j) (sjAgentID j) (lost_reason what m j)) d"
    by (auto simp: reclaim_one_def Let_def split: prod.split tx_result.split)
  then show ?thesis using run_exec_step [of "RFailStale (sjID j) (sjAttempt j) (sjAgentID j) (lost_reason what m j)" d l]
    by simp
next
  case False
  then have "snd (reclaim_one what m j d) = run_exec (RRequeue (sjID j) m (sjAttempt j) (sjAgentID j)) d"
    by (auto simp: reclaim_one_def Let_def split: prod.split)
  then show ?thesis using run_exec_step [of "RRequeue (sjID j) m (sjAttempt j) (sjAgentID j)" d l] False safe
    by (auto simp: list_all_iff)
qed

text \<open>The loop: rows of a listing keep their retry flag while other rows are reclaimed.\<close>

lemma rel_steps: "run_step\<^sup>*\<^sup>* v w \<Longrightarrow> lifecycle.rel (rvDB v) (rvDB w)"
  by (induction rule: rtranclp_induct) (auto intro: lifecycle.rel_same lifecycle.rel_trans lifecycle.rel_run_step)

lemma reclaim_jobs_history:
  assumes "\<forall>j\<in>set js. \<forall>k\<in>set (dbJobs d). jrID k = sjID j \<longrightarrow> jrRetryUnsafe k = sjRetryUnsafe j"
  shows "run_step\<^sup>*\<^sup>* \<lparr>rvDB = d, rvListed = l\<rparr> \<lparr>rvDB = snd (reclaim_jobs what m js d), rvListed = l\<rparr>"
  using assms
proof (induction js arbitrary: d)
  case (Cons j js)
  let ?d1 = "snd (reclaim_one what m j d)"
  have one: "run_step\<^sup>*\<^sup>* \<lparr>rvDB = d, rvListed = l\<rparr> \<lparr>rvDB = ?d1, rvListed = l\<rparr>"
    by (rule reclaim_one_history) (use Cons.prems in auto)
  from rel_steps [OF one] have "list_all2 moves (dbJobs d) (dbJobs ?d1)" by (simp add: lifecycle.rel_def)
  then have orig: "\<exists>k0\<in>set (dbJobs d). moves k0 k" if "k \<in> set (dbJobs ?d1)" for k
    by (rule list_all2_back [OF _ that])
  have "\<forall>j\<in>set js. \<forall>k\<in>set (dbJobs ?d1). jrID k = sjID j \<longrightarrow> jrRetryUnsafe k = sjRetryUnsafe j"
  proof (intro ballI impI)
    fix q k assume q: "q \<in> set js" "k \<in> set (dbJobs ?d1)" "jrID k = sjID q"
    from orig [OF q(2)] obtain k0 where "k0 \<in> set (dbJobs d)" "jrID k = jrID k0" "jrRetryUnsafe k = jrRetryUnsafe k0"
      by (auto simp: moves_def same_key_def)
    with Cons.prems q show "jrRetryUnsafe k = sjRetryUnsafe q" by simp
  qed
  from rtranclp_trans [OF one Cons.IH [OF this]] show ?case by (simp add: case_prod_beta Let_def)
qed simp

text \<open>
  The reaper adds nothing to what the store may do. The effect of a whole pass on runs,
  stages and jobs is a history of the store's own transactions, so everything proved of all
  histories (honest verdicts, final outcomes, no stranded run, the life cycle of a job) holds
  across passes of the reaper too.
\<close>

theorem sweep_is_history:
  assumes wf: "wf_db (abDB (ddAp s))" and sweep: "Sweep v n staleness s = (ev, s')"
  shows "run_step\<^sup>*\<^sup>* \<lparr>rvDB = abDB (ddAp s), rvListed = l\<rparr> \<lparr>rvDB = abDB (ddAp s'), rvListed = l\<rparr>"
proof -
  obtain cs s1 ns s2 rs d fs runs where
    1: "finish_cancels (reclaim_cancels (\<lambda>j. \<exists>a. jrAgentID j = Some a \<and> unreachable v staleness a)) s = (cs, s1)" and
    2: "finish_cancels (reclaim_cancels (\<lambda>j. jrAgentID j = None \<and> abandoned v staleness s1 (jrID j))) s1 = (ns, s2)" and
    3: "ReclaimStaleJobs v n staleness s2 = (rs, d)" and
    4: "sweep_walk rs [] [] (on_db (\<lambda>_. d) s2) = (fs, runs, s')"
    by (rule Sweep_stages [OF sweep])
  note wf2 = wf_evo [OF finish_cancels_rows(2) [OF wf_evo [OF finish_cancels_rows(2) [OF wf 1] wf] 2]
      wf_evo [OF finish_cancels_rows(2) [OF wf 1] wf]]
  have db: "abDB (ddAp s') = d" using sweep_walk_ap [OF 4] by (simp add: on_db_def)
  let ?js = "ListStaleRunningJobs v (staleness_window staleness) s2"
  have "\<forall>j\<in>set ?js. \<forall>k\<in>set (dbJobs (abDB (ddAp s2))). jrID k = sjID j \<longrightarrow> jrRetryUnsafe k = sjRetryUnsafe j"
    using job_id_unique [OF wf2] by (fastforce simp: ListStaleRunningJobs_def stale_row_def)
  from reclaim_jobs_history [OF this] 3
  have "run_step\<^sup>*\<^sup>* \<lparr>rvDB = abDB (ddAp s2), rvListed = l\<rparr> \<lparr>rvDB = d, rvListed = l\<rparr>"
    unfolding ReclaimStaleJobs_def by (metis snd_conv)
  with cancel_sweeps_history(1) [of "abDB (ddAp s)" l v staleness]
    cancel_sweeps_history(2) [of "abDB (ddAp s1)" l v staleness s1] show ?thesis
    unfolding finish_cancels_db [OF 1, symmetric] finish_cancels_db [OF 2, symmetric] db
    by (meson rtranclp_trans)
qed

section \<open>What a pass reclaims\<close>

text \<open>
  C17: the reaper takes back exactly the lost jobs and reports exactly what it did. A running job
  with no pending cancel, no deploy watch and a silent agent (or none, past the window) goes back
  to the queue with its next attempt, unless it may not be retried or has used its attempts, in
  which case it fails and keeps its attempt; the failure of another job can still cancel it in
  the queue. Every other job keeps its row, except that a failure can cancel jobs of its run that
  are queued or wait for an approval.
  The report has one line per lost job, in table order, none for any other job, and the line
  carries the job, its run and name, the agent that held it with the agent's session generation
  (0 without one), the action taken and the attempt that results.
\<close>

theorem reclaim_stale_exact:
  assumes "wf_db (abDB (ddAp s))" and "ReclaimStaleJobs v n staleness s = (rs, d')"
  shows "rs = map (\<lambda>j. \<lparr>rcJobRunID = jrID j, rcRunID = jrRunID j, rcJobName = jrName j, rcAgentID = jrAgentID j,
        rcGeneration = (case joined_agent v j of Some a \<Rightarrow> arSessionGeneration a | None \<Rightarrow> 0),
        rcAttempt = (if jrRetryUnsafe j \<or> jrAttempt j + 1 > attempts_cap n then jrAttempt j else jrAttempt j + 1),
        rcAction = Some (if jrRetryUnsafe j \<or> jrAttempt j + 1 > attempts_cap n then ReclaimActionFailed else ReclaimActionRequeued),
        rcErr = False\<rparr>) (filter (is_stale v (staleness_window staleness) s) (dbJobs (abDB (ddAp s))))
    \<and> (\<forall>i j. find_job (abDB (ddAp s)) i = Some j \<longrightarrow> (\<exists>j'. find_job d' i = Some j' \<and>
    (if is_stale v (staleness_window staleness) s j then
       (if jrRetryUnsafe j \<or> jrAttempt j + 1 > attempts_cap n
        then jrStatus j' = StatusFailed \<and> jrAttempt j' = jrAttempt j
        else jrAttempt j' = jrAttempt j + 1 \<and> jrAgentID j' = None \<and> jrStatus j' \<in> {StatusQueued, StatusCanceled})
     else j' = j \<or> jrStatus j \<in> {StatusQueued, StatusAwaitingApproval} \<and> jrStatus j' = StatusCanceled)))"
proof (intro conjI allI impI)
  have "report_of (attempts_cap n) g j = \<lparr>rcJobRunID = jrID j, rcRunID = jrRunID j, rcJobName = jrName j, rcAgentID = jrAgentID j,
        rcGeneration = g,
        rcAttempt = (if jrRetryUnsafe j \<or> jrAttempt j + 1 > attempts_cap n then jrAttempt j else jrAttempt j + 1),
        rcAction = Some (if jrRetryUnsafe j \<or> jrAttempt j + 1 > attempts_cap n then ReclaimActionFailed else ReclaimActionRequeued),
        rcErr = False\<rparr>" for g j
    by (auto simp: report_of_def retryable_def)
  then show "rs = map (\<lambda>j. \<lparr>rcJobRunID = jrID j, rcRunID = jrRunID j, rcJobName = jrName j, rcAgentID = jrAgentID j,
        rcGeneration = (case joined_agent v j of Some a \<Rightarrow> arSessionGeneration a | None \<Rightarrow> 0),
        rcAttempt = (if jrRetryUnsafe j \<or> jrAttempt j + 1 > attempts_cap n then jrAttempt j else jrAttempt j + 1),
        rcAction = Some (if jrRetryUnsafe j \<or> jrAttempt j + 1 > attempts_cap n then ReclaimActionFailed else ReclaimActionRequeued),
        rcErr = False\<rparr>) (filter (is_stale v (staleness_window staleness) s) (dbJobs (abDB (ddAp s))))"
    using reclaim_stale_swept(3) [OF assms] by (simp only:)
next
  fix i j assume "find_job (abDB (ddAp s)) i = Some j"
  from swept_pass [OF assms this] obtain j' where j': "find_job d' i = Some j'"
    "if is_stale v (staleness_window staleness) s j then reclaimed (attempts_cap n) j j' else fallen j j'"
    by blast
  then show "\<exists>j'. find_job d' i = Some j' \<and>
    (if is_stale v (staleness_window staleness) s j then
       (if jrRetryUnsafe j \<or> jrAttempt j + 1 > attempts_cap n
        then jrStatus j' = StatusFailed \<and> jrAttempt j' = jrAttempt j
        else jrAttempt j' = jrAttempt j + 1 \<and> jrAgentID j' = None \<and> jrStatus j' \<in> {StatusQueued, StatusCanceled})
     else j' = j \<or> jrStatus j \<in> {StatusQueued, StatusAwaitingApproval} \<and> jrStatus j' = StatusCanceled)"
    by (intro exI [of _ j']) (auto simp: reclaimed_def retryable_def failed_row_def fallen_def requeued_row_def
        split: if_splits)
qed

lemma sweep_walk_targets:
  "sweep_walk rs fs ns s = (fs', ns', s') \<Longrightarrow> distinct (map fst fs) \<Longrightarrow> distinct ns \<Longrightarrow>
   set fs \<subseteq> set fs' \<and> set ns \<subseteq> set ns' \<and> distinct (map fst fs') \<and> distinct ns' \<and>
   (\<forall>r\<in>set rs. \<not> rcErr r \<longrightarrow> rcAction r = Some ReclaimActionRequeued \<longrightarrow>
      rcRunID r \<in> set ns' \<and> (\<forall>a. rcAgentID r = Some a \<longrightarrow> a \<in> fst ` set fs')) \<and>
   (\<forall>(a, g)\<in>set fs'. (a, g) \<in> set fs \<or> (\<exists>r\<in>set rs. rcAgentID r = Some a \<and> rcGeneration r = g))"
proof (induction rs arbitrary: fs ns s)
  case (Cons r rs)
  have add: "distinct (map fst (add_fence r fs))" "set fs \<subseteq> set (add_fence r fs)"
    "\<forall>a. rcAgentID r = Some a \<longrightarrow> a \<in> fst ` set (add_fence r fs)"
    "\<forall>(a, g)\<in>set (add_fence r fs). (a, g) \<in> set fs \<or> rcAgentID r = Some a \<and> rcGeneration r = g"
    using Cons.prems(2) by (auto simp: add_fence_def image_iff split: option.split)
  let ?ns = "if rcRunID r \<in> set ns then ns else ns @ [rcRunID r]"
  have ns: "distinct ?ns" "set ns \<subseteq> set ?ns" "rcRunID r \<in> set ?ns" using Cons.prems(3) by auto
  consider "rcErr r \<or> rcAction r = None \<or> rcAction r = Some ReclaimActionSkipped"
    | "\<not> rcErr r" "rcAction r = Some ReclaimActionRequeued" | "\<not> rcErr r" "rcAction r = Some ReclaimActionFailed"
    by (cases "rcAction r") (auto intro: ReclaimAction.exhaust)
  then show ?case
  proof cases
    case 1
    then have "sweep_walk (r # rs) fs ns s = sweep_walk rs fs ns s" by (cases "rcErr r") auto
    with Cons.prems(1) have "sweep_walk rs fs ns s = (fs', ns', s')" by simp
    from Cons.IH [OF this Cons.prems(2,3)] 1 show ?thesis by auto
  next
    case 2
    with Cons.prems(1) have "sweep_walk rs (add_fence r fs) ?ns (finalizeDeadDeployRevision r s) = (fs', ns', s')" by simp
    note ih = Cons.IH [OF this add(1) ns(1)]
    then have "rcRunID r \<in> set ns'" "\<forall>a. rcAgentID r = Some a \<longrightarrow> a \<in> fst ` set fs'"
      using ns(3) add(3) by blast+
    with ih add(2,4) ns(2) show ?thesis by (simp add: 2) blast
  next
    case 3
    with Cons.prems(1) have "sweep_walk rs (add_fence r fs) ns (finalizeDeadDeployRevision r s) = (fs', ns', s')" by simp
    from Cons.IH [OF this add(1) Cons.prems(3)] add(2,4) 3 show ?thesis by simp blast
  qed
qed auto

text \<open>
  Fence before waking. In the trace of a pass, every agent whose job went back to the
  queue is fenced, with the session generation that was read when the job was listed and at
  most once, after the job was taken back and before the run of the job is announced to the
  scheduler; no fence follows an announcement.
\<close>

theorem sweep_fences_before_waking:
  assumes "Sweep v n staleness s = (ev, s')"
  shows "\<exists>early rs fs runs. ev = map ReaperNotify early @ ReaperReclaimed rs # map (\<lambda>(a, g). ReaperFence a g) fs @ map ReaperNotify runs
    \<and> distinct (map fst fs) \<and> distinct runs
    \<and> (\<forall>r\<in>set rs. rcAction r = Some ReclaimActionRequeued \<and> \<not> rcErr r \<longrightarrow>
         rcRunID r \<in> set runs \<and> (\<forall>a. rcAgentID r = Some a \<longrightarrow> (\<exists>g. (a, g) \<in> set fs)))
    \<and> (\<forall>(a, g)\<in>set fs. \<exists>r\<in>set rs. rcAgentID r = Some a \<and> rcGeneration r = g)"
proof -
  obtain cs s1 ns s2 rs d fs runs where
    "finish_cancels (reclaim_cancels (\<lambda>j. \<exists>a. jrAgentID j = Some a \<and> unreachable v staleness a)) s = (cs, s1)" and
    "finish_cancels (reclaim_cancels (\<lambda>j. jrAgentID j = None \<and> abandoned v staleness s1 (jrID j))) s1 = (ns, s2)" and
    "ReclaimStaleJobs v n staleness s2 = (rs, d)" and
    4: "sweep_walk rs [] [] (on_db (\<lambda>_. d) s2) = (fs, runs, s')" and
    ev: "ev = notify_runs (map jrRunID cs) @ notify_runs (map jrRunID ns)
      @ ReaperReclaimed rs # map (\<lambda>(a, g). ReaperFence a g) fs @ map ReaperNotify runs"
    by (rule Sweep_stages [OF assms])
  have "notify_runs (map jrRunID cs) @ notify_runs (map jrRunID ns) =
      map ReaperNotify (dedup [] (map jrRunID cs) @ dedup [] (map jrRunID ns))"
    by (simp add: notify_runs_def)
  with ev have "ev = map ReaperNotify (dedup [] (map jrRunID cs) @ dedup [] (map jrRunID ns))
      @ ReaperReclaimed rs # map (\<lambda>(a, g). ReaperFence a g) fs @ map ReaperNotify runs" by simp
  moreover have "distinct (map fst fs) \<and> distinct runs"
    and "\<forall>r\<in>set rs. rcAction r = Some ReclaimActionRequeued \<and> \<not> rcErr r \<longrightarrow>
      rcRunID r \<in> set runs \<and> (\<forall>a. rcAgentID r = Some a \<longrightarrow> (\<exists>g. (a, g) \<in> set fs))"
    and "\<forall>(a, g)\<in>set fs. \<exists>r\<in>set rs. rcAgentID r = Some a \<and> rcGeneration r = g"
    using sweep_walk_targets [OF 4] by (simp_all add: image_iff Bex_def split_paired_Ex)
  ultimately show ?thesis by blast
qed

section \<open>An attempt that was taken back\<close>

lemma requeueStaleJob_cases:
  obtains "requeueStaleJob job m attempt agent d = ((ReclaimActionSkipped, None), d)"
    and "\<forall>j\<in>set (dbJobs d). \<not> (reclaimable job attempt agent j \<and> jrAttempt j < m)"
  | j where "requeueStaleJob job m attempt agent d = ((ReclaimActionRequeued, Some (attempt + 1)),
        upd_jobs (\<lambda>j. reclaimable job attempt agent j \<and> jrAttempt j < m) requeued_row d)"
    and "j \<in> set (dbJobs d)" and "reclaimable job attempt agent j" and "jrAttempt j < m"
proof (cases "find (\<lambda>j. reclaimable job attempt agent j \<and> jrAttempt j < m) (dbJobs d)")
  case None
  then have "requeueStaleJob job m attempt agent d = ((ReclaimActionSkipped, None), d)"
    unfolding requeueStaleJob_def ReclaimJobForRetry_def Let_def by simp
  moreover have "\<forall>j\<in>set (dbJobs d). \<not> (reclaimable job attempt agent j \<and> jrAttempt j < m)"
    using None by (simp only: find_None_iff) blast
  ultimately show ?thesis by (rule that(1))
next
  case (Some j)
  then have j: "j \<in> set (dbJobs d)" "reclaimable job attempt agent j" "jrAttempt j < m" by (auto dest: find_SomeD)
  then have "jrAttempt j = attempt" by (simp add: reclaimable_def)
  then have "requeueStaleJob job m attempt agent d = ((ReclaimActionRequeued, Some (attempt + 1)),
      upd_jobs (\<lambda>j. reclaimable job attempt agent j \<and> jrAttempt j < m) requeued_row d)"
    unfolding requeueStaleJob_def ReclaimJobForRetry_def Let_def Some by simp
  then show ?thesis using that(2) j by blast
qed

lemma requeued_find:
  assumes "wf_db d" and "j \<in> set (dbJobs d)" and "reclaimable job attempt agent j" and "jrAttempt j < m"
  shows "find_job (upd_jobs (\<lambda>j. reclaimable job attempt agent j \<and> jrAttempt j < m) requeued_row d) job
    = Some (requeued_row j)"
  using find_job_upd [OF assms(1,2), of "\<lambda>j. reclaimable job attempt agent j \<and> jrAttempt j < m" requeued_row] assms(3,4)
  by (simp add: reclaimable_def)


text \<open>
  A job that must not be retried is never retried. Under every history of the store, the
  attempt number of a deploy or environment job stays what it was, so no such job is ever
  started again on its own after its agent vanished.
\<close>

theorem retry_unsafe_once:
  assumes "run_step\<^sup>*\<^sup>* v w" and "find_job (rvDB v) i = Some j" and "jrRetryUnsafe j"
  shows "\<exists>j'. find_job (rvDB w) i = Some j' \<and> jrAttempt j' = jrAttempt j \<and> jrRetryUnsafe j'"
  using find_list_all2_key [OF rel_steps [OF assms(1), unfolded lifecycle.rel_def], of jrID i j] assms(2,3)
  unfolding find_job_def by (auto simp: moves_def same_key_def)

section \<open>Disrupted jobs: the verdict\<close>

lemma CompleteJob_owner:
  assumes "j \<in> set (dbJobs d)" and "snapshot_matches (ciJobRunID i) (ciExpectedAgentID i) (ciExpectedAttempt i) j"
  shows "fst (CompleteJob contended i d) \<noteq> TxMiss"
proof -
  let ?p = "snapshot_matches (ciJobRunID i) (ciExpectedAgentID i) (ciExpectedAttempt i)"
  obtain k where k: "find ?p (dbJobs d) = Some k"
    using assms find_None_iff [of ?p "dbJobs d"] by (cases "find ?p (dbJobs d)") auto
  have "PrecheckJobCompletion (ciJobRunID i) (ciExpectedAgentID i) (ciExpectedAttempt i) d"
    using assms by (auto simp: PrecheckJobCompletion_def list_ex_iff)
  then show ?thesis
    by (simp add: CompleteJob_def CompleteJobRun_def k split: option.split prod.split)
qed

definition disrupted_outcome :: "HandleDisruptedInput \<Rightarrow> JobRow \<Rightarrow> DisruptedOutcome" where
  "disrupted_outcome i j =
     (if \<not> (jrStatus j = StatusRunning \<and> jrAttempt j = hdExpectedAttempt i \<and> jrAgentID j = Some (hdExpectedAgentID i))
      then DisruptedSkipped
      else if jrCancelRequested j then DisruptedCanceled
      else if jrRetryUnsafe j then DisruptedFailedUnsafe
      else if jrAttempt j + 1 > attempts_cap (hdMaxAttempts i) then DisruptedFailedCapped
      else DisruptedRequeued)"

text \<open>
  The verdict on a disrupted job. A report from another session than the one that holds
  the job is skipped and changes nothing; otherwise a requested cancel wins, a deploy or
  environment job fails, a job that used its attempts fails, and any other job goes back to
  the queue with the next attempt. The row says what the verdict says.
\<close>

theorem disrupted_verdict:
  assumes wf: "wf_db d" and j: "find_job d (hdJobRunID i) = Some j"
    and h: "HandleDisruptedJob contended i d = (Some r, d')"
  shows "drOutcome r = disrupted_outcome i j \<and> (\<exists>j'. find_job d' (hdJobRunID i) = Some j' \<and>
    (case drOutcome r of
       DisruptedSkipped \<Rightarrow> d' = d
     | DisruptedRequeued \<Rightarrow> j' = requeued_row j
     | DisruptedCanceled \<Rightarrow> jrStatus j' = StatusCanceled
     | _ \<Rightarrow> jrStatus j' = StatusFailed))"
proof (cases "jrStatus j = StatusRunning")
  case False
  with h j show ?thesis by (auto simp: HandleDisruptedJob_def disrupted_result_def disrupted_outcome_def)
next
  case True
  let ?m = "attempts_cap (hdMaxAttempts i)" and ?req = "requeueStaleJob (hdJobRunID i)
      (attempts_cap (hdMaxAttempts i)) (hdExpectedAttempt i) (Some (hdExpectedAgentID i)) d"
  let ?owner = "jrAttempt j = hdExpectedAttempt i \<and> jrAgentID j = Some (hdExpectedAgentID i)"
  let ?retry = "\<not> jrRetryUnsafe j \<and> \<not> jrCancelRequested j \<and> jrAttempt j + 1 \<le> ?m"
  have act: "act_on_disrupted contended i j d = (Some r, d')"
    using h j True by (simp add: HandleDisruptedJob_def)
  have mem: "j \<in> set (dbJobs d)" "jrID j = hdJobRunID i"
    using j by (auto simp: find_job_def dest: find_SomeD)
  show ?thesis
  proof (cases "?retry \<and> ?owner")
    case retry: True
    have p: "reclaimable (hdJobRunID i) (hdExpectedAttempt i) (Some (hdExpectedAgentID i)) j" "jrAttempt j < ?m"
      using retry True mem by (auto simp: reclaimable_def)
    with requeueStaleJob_cases [of "hdJobRunID i" ?m "hdExpectedAttempt i" "Some (hdExpectedAgentID i)" d] mem(1)
    have "?req = ((ReclaimActionRequeued, Some (hdExpectedAttempt i + 1)), upd_jobs (\<lambda>j. reclaimable (hdJobRunID i)
        (hdExpectedAttempt i) (Some (hdExpectedAgentID i)) j \<and> jrAttempt j < ?m) requeued_row d)" by metis
    with act retry requeued_find [OF wf mem(1) p] True show ?thesis
      by (auto simp: act_on_disrupted_def disrupted_result_def disrupted_outcome_def)
  next
    case terminal: False
    have skip: "?req = ((ReclaimActionSkipped, None), d)" if "?retry"
    proof -
      have "\<not> reclaimable (hdJobRunID i) (hdExpectedAttempt i) (Some (hdExpectedAgentID i)) k" if "k \<in> set (dbJobs d)" for k
        using job_id_unique [OF wf that mem(1)] mem(2) terminal \<open>?retry\<close> by (auto simp: reclaimable_def)
      then show ?thesis by (metis requeueStaleJob_cases)
    qed
    obtain t d2 where t: "CompleteJob contended (disrupted_failure i) d = (t, d2)" by (rule prod.exhaust)
    have r: "t \<noteq> TxError" "t = TxMiss \<Longrightarrow> d' = d2 \<and> r = disrupted_result DisruptedSkipped (jrRunID j) None"
      "t = TxOk cp \<Longrightarrow> d' = d2 \<and> r = disrupted_result (if jcJobStatus cp = StatusCanceled then DisruptedCanceled
         else if jrRetryUnsafe j then DisruptedFailedUnsafe else DisruptedFailedCapped) (jrRunID j) (Some cp)" for cp
      using act skip t by (auto simp: act_on_disrupted_def Let_def split: if_splits)
    show ?thesis
    proof (cases ?owner)
      case False
      have "CompleteJob contended (disrupted_failure i) d \<in> {(TxMiss, d), (TxError, d)}"
        by (rule stale_result_ignored [OF wf, of _ j]) (use j False in \<open>auto simp: disrupted_failure_def\<close>)
      with t r(1) have "t = TxMiss" "d2 = d" by auto
      with r(2) j False show ?thesis by (simp add: disrupted_result_def disrupted_outcome_def)
    next
      case owner: True
      have "t \<noteq> TxMiss"
        using CompleteJob_owner [OF mem(1), of "disrupted_failure i" contended] t owner True mem(2)
        by (auto simp: disrupted_failure_def snapshot_matches_def active_def)
      with r(1) obtain cp where ok: "t = TxOk cp" by (cases t) auto
      note row = CompleteJob_row [OF wf, of "disrupted_failure i" j contended cp d2]
      show ?thesis
        using row j t ok r(3) [OF ok] owner terminal True
        by (auto simp: disrupted_failure_def completed_row_def disrupted_result_def disrupted_outcome_def)
    qed
  qed
qed

section \<open>Witnesses\<close>

text \<open>
  Three running jobs of a dead agent, one of them with a pending cancel and one a deploy, with
  its open revision.
\<close>

definition ex_row :: "uuid \<Rightarrow> JobRow" where
  "ex_row i = (ex_job i 1 10 ''work'')\<lparr>jrStatus := StatusRunning, jrAgentID := Some 7\<rparr>"

definition ex_lost :: DeployDB where
  "ex_lost = (wyDB ex_quiet)\<lparr>ddAp := (ddAp (wyDB ex_quiet))\<lparr>abDB := \<lparr>dbRuns = [ex_run 1 1],
       dbStages = [ex_stage 10 1 ''deploy'' 0],
       dbJobs = [ex_row 100, (ex_row 101)\<lparr>jrCancelRequested := True\<rparr>, (ex_row 102)\<lparr>jrRetryUnsafe := True\<rparr>],
       dbEvents = []\<rparr>\<rparr>,
     ddRevisions := [\<lparr>dvID = 60, dvEnvironmentID = 3, dvVersion = ''v1'', dvJobRunID = Some 101, dvAttempt = 0,
       dvStatus = DeployStatusInProgress\<rparr>]\<rparr>"

definition ex_view :: SweepView where
  "ex_view = \<lparr>swNow = 1000, swAgents = [\<lparr>arID = 7, arOffline = True, arLastSeenAt = Some 10, arSessionGeneration = 4\<rparr>],
     swStartedAt = (\<lambda>_. Some 20), swCancelRequestedAt = (\<lambda>_. Some 500)\<rparr>"

definition ex_pass :: "reaper_event list \<times> DeployDB" where
  "ex_pass = Sweep ex_view 3 90 ex_lost"

lemma ex_wf: "wf_db (abDB (ddAp ex_lost))"
  by code_simp

lemma ex_rows:
  "find_job (abDB (ddAp ex_lost)) 100 = Some (ex_row 100)"
  "find_job (abDB (ddAp ex_lost)) 101 = Some ((ex_row 101)\<lparr>jrCancelRequested := True\<rparr>)"
  "find_job (abDB (ddAp ex_lost)) 102 = Some ((ex_row 102)\<lparr>jrRetryUnsafe := True\<rparr>)"
  by code_simp+

theorem sweep_honours_cancel_witness:
  "find_job (abDB (ddAp (snd ex_pass))) 101 = Some (canceled_row ((ex_row 101)\<lparr>jrCancelRequested := True\<rparr>)) \<and>
   (hd (ddRevisions ex_lost))\<lparr>dvStatus := DeployStatusCanceled\<rparr> \<in> set (ddRevisions (snd ex_pass))"
proof -
  have "Sweep ex_view 3 90 ex_lost = (fst ex_pass, snd ex_pass)" by (simp add: ex_pass_def)
  moreover have "cancel_pending ((ex_row 101)\<lparr>jrCancelRequested := True\<rparr>)" "unreachable ex_view 90 7"
    "jrAgentID ((ex_row 101)\<lparr>jrCancelRequested := True\<rparr>) = Some 7" "jrAttempt ((ex_row 101)\<lparr>jrCancelRequested := True\<rparr>) = 0"
    by code_simp+
  moreover have "hd (ddRevisions ex_lost) \<in> set (ddRevisions ex_lost)" "dvJobRunID (hd (ddRevisions ex_lost)) = Some 101"
    "dvAttempt (hd (ddRevisions ex_lost)) = 0" "dvStatus (hd (ddRevisions ex_lost)) = DeployStatusInProgress"
    by (simp_all add: ex_lost_def)
  moreover have "distinct (map dvID (ddRevisions ex_lost))" by code_simp
  ultimately show ?thesis
    using sweep_honours_cancel [OF ex_wf _ _ ex_rows(2), of ex_view 3 90 "fst ex_pass" "snd ex_pass"]
    by (auto simp: undeliverable_def)
qed

theorem sweep_is_history_witness:
  "run_step\<^sup>*\<^sup>* \<lparr>rvDB = abDB (ddAp ex_lost), rvListed = []\<rparr> \<lparr>rvDB = abDB (ddAp (snd ex_pass)), rvListed = []\<rparr>"
  by (rule sweep_is_history [OF ex_wf, of ex_view 3 90 "fst ex_pass"]) (simp add: ex_pass_def)

theorem reclaim_stale_exact_witness:
  "\<exists>j'. find_job (snd (ReclaimStaleJobs ex_view 3 90 ex_lost)) 100 = Some j' \<and> jrAttempt j' = 1 \<and> jrAgentID j' = None"
proof -
  have "is_stale ex_view (staleness_window 90) ex_lost (ex_row 100)" "\<not> jrRetryUnsafe (ex_row 100)"
    "jrAttempt (ex_row 100) = 0" "attempts_cap 3 = 3"
    by code_simp+
  moreover from conjunct2 [OF reclaim_stale_exact [OF ex_wf prod.collapse [symmetric], of ex_view 3 90]] ex_rows(1)
  obtain j' where "find_job (snd (ReclaimStaleJobs ex_view 3 90 ex_lost)) 100 = Some j'"
    "if is_stale ex_view (staleness_window 90) ex_lost (ex_row 100) then
       (if jrRetryUnsafe (ex_row 100) \<or> jrAttempt (ex_row 100) + 1 > attempts_cap 3
        then jrStatus j' = StatusFailed \<and> jrAttempt j' = jrAttempt (ex_row 100)
        else jrAttempt j' = jrAttempt (ex_row 100) + 1 \<and> jrAgentID j' = None \<and> jrStatus j' \<in> {StatusQueued, StatusCanceled})
     else j' = ex_row 100 \<or> jrStatus (ex_row 100) \<in> {StatusQueued, StatusAwaitingApproval} \<and> jrStatus j' = StatusCanceled"
    by blast
  ultimately show ?thesis by auto
qed

theorem sweep_fences_before_waking_witness:
  "\<exists>early rs fs runs. fst ex_pass = map ReaperNotify early @ ReaperReclaimed rs # map (\<lambda>(a, g). ReaperFence a g) fs @ map ReaperNotify runs
    \<and> distinct (map fst fs) \<and> distinct runs"
  using sweep_fences_before_waking [of ex_view 3 90 ex_lost "fst ex_pass" "snd ex_pass"] by (auto simp: ex_pass_def)



definition ex_lost_server :: run_server where
  "ex_lost_server = \<lparr>rvDB = abDB (ddAp ex_lost), rvListed = []\<rparr>"

definition ex_reclaims :: "run_op list" where
  "ex_reclaims = [RRequeue 100 3 0 (Some 7), RFailStale 102 0 (Some 7) ''agent lost'']"

theorem retry_unsafe_once_witness:
  "\<exists>j'. find_job (rvDB (the (run_all ex_reclaims ex_lost_server))) 102 = Some j' \<and> jrAttempt j' = 0"
proof -
  have "run_all ex_reclaims ex_lost_server \<noteq> None" by code_simp
  note steps = run_all_the [OF this]
  have "find_job (rvDB ex_lost_server) 102 = Some ((ex_row 102)\<lparr>jrRetryUnsafe := True\<rparr>)"
    using ex_rows(3) by (simp add: ex_lost_server_def)
  from retry_unsafe_once [OF steps this] show ?thesis by (auto simp: ex_row_def ex_job_def)
qed

definition ex_evicted :: HandleDisruptedInput where
  "ex_evicted = \<lparr>hdJobRunID = 100, hdExpectedAgentID = 7, hdExpectedAttempt = 0, hdMaxAttempts = 3, hdReason = ''evicted''\<rparr>"

theorem disrupted_verdict_witness:
  "find_job (snd (HandleDisruptedJob (\<lambda>_. False) ex_evicted (abDB (ddAp ex_lost)))) 100 = Some (requeued_row (ex_row 100))"
proof -
  let ?h = "HandleDisruptedJob (\<lambda>_. False) ex_evicted (abDB (ddAp ex_lost))"
  have "fst ?h = Some (disrupted_result DisruptedRequeued 1 None)" by code_simp
  then have h: "?h = (Some (disrupted_result DisruptedRequeued 1 None), snd ?h)" by (metis prod.collapse)
  have "find_job (abDB (ddAp ex_lost)) (hdJobRunID ex_evicted) = Some (ex_row 100)"
    using ex_rows(1) by (simp add: ex_evicted_def)
  from disrupted_verdict [OF ex_wf this h] show ?thesis by (simp add: disrupted_result_def ex_evicted_def)
qed

end
