(* ===== verification/Artifacts.thy ===== *)
theory Artifacts
  imports Sessions RunStore
begin

text \<open>
  Artifacts: the table with its life cycle (\<open>store/artifacts.go\<close>, \<open>queries/artifacts.sql\<close>), the
  upload tickets (\<open>RequestArtifactUpload\<close>), the confirmation of a job result
  (\<open>confirmArtifacts\<close>), and the retention pass (\<open>retention/sweeper.go\<close>). What a statement reads
  from the clock is an argument, and so is the storage backend. A failing database is not
  modelled, and of a complaint that quotes an error or a status only the fixed words are kept. \<open>ORDER BY\<close> leaves the order of equal keys open: it is a parameter that sorts.
\<close>

section \<open>The table\<close>

datatype ArtifactStatus = ArtifactPending | ArtifactReady | ArtifactDeleting

record Artifact =
  afID :: uuid
  afRunID :: uuid
  afJobRunID :: uuid
  afPipelineID :: uuid
  afProjectID :: uuid
  afPath :: string
  afStorageKey :: string
  afStatus :: ArtifactStatus
  afSizeBytes :: int
  afContentSHA256 :: string
  afContentType :: string
  afExpiresAt :: "gotime option"
  afPinnedAt :: "gotime option"
  afDeletedAt :: "gotime option"
  afCreatedAt :: gotime

record InsertPendingArtifact =
  ipRunID :: uuid
  ipJobRunID :: uuid
  ipPipelineID :: uuid
  ipProjectID :: uuid
  ipPath :: string
  ipStorageKey :: string
  ipExpiresAt :: "gotime option"

fun NormalizeArtifactPath :: "string \<Rightarrow> string" where
  "NormalizeArtifactPath p =
     (if length p > 1 \<and> last p = CHR ''/'' then NormalizeArtifactPath (butlast p) else p)"

declare NormalizeArtifactPath.simps [simp del]

text \<open>The row of the partial unique index on \<open>(job_run_id, path) WHERE deleted_at IS NULL\<close>.\<close>

definition active_at :: "uuid \<Rightarrow> string \<Rightarrow> Artifact \<Rightarrow> bool" where
  "active_at job path a = (afJobRunID a = job \<and> afPath a = path \<and> afDeletedAt a = None)"

definition pending_artifact :: "uuid \<Rightarrow> gotime \<Rightarrow> InsertPendingArtifact \<Rightarrow> Artifact" where
  "pending_artifact i now p =
     \<lparr>afID = i, afRunID = ipRunID p, afJobRunID = ipJobRunID p, afPipelineID = ipPipelineID p,
      afProjectID = ipProjectID p, afPath = NormalizeArtifactPath (ipPath p), afStorageKey = ipStorageKey p,
      afStatus = ArtifactPending, afSizeBytes = 0, afContentSHA256 = [],
      afContentType = ''application/gzip'', afExpiresAt = ipExpiresAt p, afPinnedAt = None,
      afDeletedAt = None, afCreatedAt = now\<rparr>"

datatype artifact_error =
  ErrArtifactActivePathNotPending | ErrDuplicateStorageKey

definition InsertPendingArtifactRow ::
  "uuid \<Rightarrow> gotime \<Rightarrow> InsertPendingArtifact \<Rightarrow> Artifact list \<Rightarrow> (artifact_error + Artifact) \<times> Artifact list" where
  "InsertPendingArtifactRow i now p rows =
     (let at = active_at (ipJobRunID p) (NormalizeArtifactPath (ipPath p));
          f = (\<lambda>a. a\<lparr>afExpiresAt := ipExpiresAt p\<rparr>);
          new = pending_artifact i now p in
      case find at rows of
        Some a \<Rightarrow>
          (if afStatus a = ArtifactPending then (Inr (f a), upd_where at f rows)
           else (Inl ErrArtifactActivePathNotPending, rows))
      | None \<Rightarrow>
          (if ipStorageKey p \<in> afStorageKey ` set rows then (Inl ErrDuplicateStorageKey, rows)
           else (Inr new, rows @ [new])))"

fun insert_loop ::
  "gotime \<Rightarrow> (uuid \<times> InsertPendingArtifact) list \<Rightarrow> Artifact list \<Rightarrow> (artifact_error + Artifact list) \<times> Artifact list" where
  "insert_loop now [] rows = (Inr [], rows)"
| "insert_loop now ((i, p) # ps) rows =
     (case InsertPendingArtifactRow i now p rows of
        (Inl e, rows1) \<Rightarrow> (Inl e, rows1)
      | (Inr a, rows1) \<Rightarrow>
          (case insert_loop now ps rows1 of
             (Inl e, rows2) \<Rightarrow> (Inl e, rows2)
           | (Inr rest, rows2) \<Rightarrow> (Inr (a # rest), rows2)))"

text \<open>One transaction: an error rolls the whole batch back.\<close>

definition InsertPendingArtifactsBatch ::
  "gotime \<Rightarrow> (uuid \<times> InsertPendingArtifact) list \<Rightarrow> Artifact list \<Rightarrow> (artifact_error + Artifact list) \<times> Artifact list" where
  "InsertPendingArtifactsBatch now ps rows =
     (case insert_loop now ps rows of
        (Inl e, _) \<Rightarrow> (Inl e, rows)
      | (Inr out, rows1) \<Rightarrow> (Inr out, rows1))"

definition MarkArtifactReady ::
  "string \<Rightarrow> int \<Rightarrow> string \<Rightarrow> string \<Rightarrow> Artifact list \<Rightarrow> bool \<times> Artifact list" where
  "MarkArtifactReady key sz sha contentType rows =
     (let ct = (if contentType = [] then ''application/gzip'' else contentType);
          p = (\<lambda>a. afStorageKey a = key \<and> afStatus a = ArtifactPending) in
      (0 < count_where p rows,
       upd_where p (\<lambda>a. a\<lparr>afStatus := ArtifactReady, afSizeBytes := sz, afContentSHA256 := sha,
                       afContentType := ct\<rparr>) rows))"

definition RetireArtifactsByJobRun :: "uuid \<Rightarrow> gotime \<Rightarrow> Artifact list \<Rightarrow> Artifact list" where
  "RetireArtifactsByJobRun job now =
     upd_where (\<lambda>a. afJobRunID a = job \<and> afDeletedAt a = None)
       (\<lambda>a. a\<lparr>afStatus := ArtifactDeleting, afDeletedAt := Some now, afExpiresAt := Some now, afPinnedAt := None\<rparr>)"

text \<open>\<open>ORDER BY created_at\<close>, read only through a map by storage key.\<close>

definition ListArtifactsByJobRun :: "uuid \<Rightarrow> Artifact list \<Rightarrow> Artifact list" where
  "ListArtifactsByJobRun job rows = sort_key afCreatedAt (filter (\<lambda>a. afJobRunID a = job) rows)"

definition GetArtifactByStorageKey :: "string \<Rightarrow> Artifact list \<Rightarrow> Artifact option" where
  "GetArtifactByStorageKey key rows = find (\<lambda>a. afStorageKey a = key) rows"

text \<open>What a downstream job may download; an empty path list stands for all paths.\<close>

definition ListReadyArtifactsByRunAndJob ::
  "DB \<Rightarrow> uuid \<Rightarrow> string \<Rightarrow> string list \<Rightarrow> Artifact list \<Rightarrow> Artifact list" where
  "ListReadyArtifactsByRunAndJob d run name paths rows =
     (let normalized = List.map NormalizeArtifactPath paths in
      sort_key afPath (filter (\<lambda>a. afRunID a = run
        \<and> list_ex (\<lambda>j. jrID j = afJobRunID a \<and> jrName j = name) (dbJobs d)
        \<and> afStatus a = ArtifactReady \<and> afDeletedAt a = None
        \<and> (normalized = [] \<or> afPath a \<in> set normalized)) rows))"

section \<open>Upload tickets\<close>

datatype rpc_code =
  CodeUnimplemented | CodeInvalidArgument | CodeUnauthenticated | CodeNotFound
| CodePermissionDenied | CodeFailedPrecondition | CodeInternal

record RequestArtifactUploadRequest =
  ruSessionID :: string
  ruRunID :: string
  ruJobID :: string
  ruPaths :: "string list"

record ArtifactUploadTicket =
  utPath :: string
  utStorageKey :: string
  utPutURL :: string

text \<open>The pass over \<open>paths\<close> that drops repeats up to trailing slashes; \<open>None\<close> is an empty path.\<close>

fun dedupe_paths :: "string list \<Rightarrow> string list \<Rightarrow> string list option" where
  "dedupe_paths seen [] = Some []"
| "dedupe_paths seen (p # ps) =
     (if p = [] then None
      else if NormalizeArtifactPath p \<in> set seen then dedupe_paths seen ps
      else map_option ((#) p) (dedupe_paths (NormalizeArtifactPath p # seen) ps))"

definition JobRunParents ::
  "(uuid \<Rightarrow> uuid option) \<Rightarrow> uuid \<Rightarrow> uuid \<Rightarrow> DB \<Rightarrow> (uuid \<times> uuid \<times> uuid) option" where
  "JobRunParents project_of job run d =
     (case find (\<lambda>j. jrID j = job \<and> jrRunID j = run) (dbJobs d) of
        None \<Rightarrow> None
      | Some j \<Rightarrow>
          (case find_run d (jrRunID j) of
             None \<Rightarrow> None
           | Some r \<Rightarrow>
               (case project_of (rrPipelineID r) of
                  None \<Rightarrow> None
                | Some project \<Rightarrow>
                    Some (rrPipelineID r, project, (case jrAgentID j of None \<Rightarrow> uuid_Nil | Some a \<Rightarrow> a)))))"

text \<open>
  \<open>uaFresh\<close> draws the row id and the random part of the storage key of the \<open>i\<close>th row,
  \<open>uaSign\<close> is the backend's signature, \<open>uaParse\<close> and \<open>uaShow\<close> the uuid package.
\<close>

record upload_env =
  uaBackend :: bool
  uaParse :: "string \<Rightarrow> uuid option"
  uaShow :: "uuid \<Rightarrow> string"
  uaProjectOf :: "uuid \<Rightarrow> uuid option"
  uaFresh :: "nat \<Rightarrow> uuid \<times> string"
  uaSign :: "string \<Rightarrow> string option"
  uaNow :: gotime
  uaRetention :: duration

definition upload_key :: "upload_env \<Rightarrow> uuid \<Rightarrow> uuid \<Rightarrow> nat \<Rightarrow> string" where
  "upload_key e run job i = ''run/'' @ uaShow e run @ ''/job/'' @ uaShow e job @ ''/'' @ snd (uaFresh e i)"

definition upload_rows ::
  "upload_env \<Rightarrow> uuid \<Rightarrow> uuid \<Rightarrow> uuid \<Rightarrow> uuid \<Rightarrow> string list \<Rightarrow> (uuid \<times> InsertPendingArtifact) list" where
  "upload_rows e run job pipeline project paths =
     map (\<lambda>i. (fst (uaFresh e i),
       \<lparr>ipRunID = run, ipJobRunID = job, ipPipelineID = pipeline, ipProjectID = project, ipPath = paths ! i,
        ipStorageKey = upload_key e run job i, ipExpiresAt = Some (uaNow e + uaRetention e)\<rparr>)) [0..<length paths]"

fun sign_loop :: "upload_env \<Rightarrow> (string \<times> Artifact) list \<Rightarrow> ArtifactUploadTicket list option" where
  "sign_loop e [] = Some []"
| "sign_loop e ((p, a) # xs) =
     (case uaSign e (afStorageKey a) of
        None \<Rightarrow> None
      | Some url \<Rightarrow>
          map_option ((#) \<lparr>utPath = p, utStorageKey = afStorageKey a, utPutURL = url\<rparr>) (sign_loop e xs))"

text \<open>From the authorized job on.\<close>

definition issue_tickets ::
  "upload_env \<Rightarrow> uuid \<Rightarrow> uuid \<Rightarrow> uuid \<Rightarrow> uuid \<Rightarrow> string list \<Rightarrow> Artifact list \<Rightarrow>
   (rpc_code + ArtifactUploadTicket list) \<times> Artifact list" where
  "issue_tickets e run job pipeline project paths rows =
     (case dedupe_paths [] paths of
        None \<Rightarrow> (Inl CodeInvalidArgument, rows)
      | Some ps \<Rightarrow>
          (case InsertPendingArtifactsBatch (uaNow e) (upload_rows e run job pipeline project ps) rows of
             (Inl ErrArtifactActivePathNotPending, rows1) \<Rightarrow> (Inl CodeFailedPrecondition, rows1)
           | (Inl _, rows1) \<Rightarrow> (Inl CodeInternal, rows1)
           | (Inr out, rows1) \<Rightarrow>
               (case sign_loop e (zip ps out) of
                  None \<Rightarrow> (Inl CodeInternal, rows1)
                | Some tickets \<Rightarrow> (Inr tickets, rows1))))"

definition RequestArtifactUpload ::
  "upload_env \<Rightarrow> SessionStore \<Rightarrow> DB \<Rightarrow> RequestArtifactUploadRequest \<Rightarrow> Artifact list \<Rightarrow>
   (rpc_code + ArtifactUploadTicket list) \<times> Artifact list" where
  "RequestArtifactUpload e st d q rows =
     (if \<not> uaBackend e then (Inl CodeUnimplemented, rows)
      else if ruSessionID q = [] then (Inl CodeInvalidArgument, rows)
      else if ruRunID q = [] \<or> ruJobID q = [] then (Inl CodeInvalidArgument, rows)
      else if ruPaths q = [] then (Inr [], rows)
      else
        (case Lookup st (ruSessionID q) of
           None \<Rightarrow> (Inl CodeUnauthenticated, rows)
         | Some r \<Rightarrow>
             (case (uaParse e (ruRunID q), uaParse e (ruJobID q)) of
                (Some run, Some job) \<Rightarrow>
                  (case JobRunParents (uaProjectOf e) job run d of
                     None \<Rightarrow> (Inl CodeNotFound, rows)
                   | Some (pipeline, project, owner) \<Rightarrow>
                       (if owner = uuid_Nil \<or> owner \<noteq> ssAgentID (sess_at st r)
                        then (Inl CodePermissionDenied, rows)
                        else issue_tickets e run job pipeline project (ruPaths q) rows))
              | _ \<Rightarrow> (Inl CodeInvalidArgument, rows))))"

section \<open>Confirmation of a result\<close>

record ArtifactRef =
  rfPath :: string
  rfStorageKey :: string
  rfContentSHA256 :: string
  rfSize :: int

record ObjectInfo =
  oiSize :: int
  oiContentSHA256 :: string
  oiContentType :: string

definition detectContentType :: "nat list \<Rightarrow> string" where
  "detectContentType magic =
     (if length magic \<ge> 4 \<and> magic ! 0 = 40 \<and> magic ! 1 = 181 \<and> magic ! 2 = 47 \<and> magic ! 3 = 253
      then ''application/zstd'' else ''application/gzip'')"

text \<open>The object is read once; \<open>digest\<close> is SHA-256 in lower-case hex, \<open>None\<close> a failing read.\<close>

definition InspectObject ::
  "(nat list \<Rightarrow> string) \<Rightarrow> (string \<Rightarrow> nat list option) \<Rightarrow> string \<Rightarrow> ObjectInfo option" where
  "InspectObject digest objects key =
     map_option (\<lambda>bytes. \<lparr>oiSize = int (length bytes), oiContentSHA256 = digest bytes,
       oiContentType = detectContentType (take 4 bytes)\<rparr>) (objects key)"

definition is_hex :: "char \<Rightarrow> bool" where
  "is_hex c = (c \<in> set ''0123456789abcdefABCDEF'')"

definition lower_ascii :: "char \<Rightarrow> char" where
  "lower_ascii c = (if 65 \<le> (of_char c :: nat) \<and> (of_char c :: nat) \<le> 90 then char_of ((of_char c :: nat) + 32) else c)"

definition normalizeSHA256 :: "string \<Rightarrow> string option" where
  "normalizeSHA256 raw =
     (let r = trim_space raw in
      if length r \<noteq> 64 then None else if \<not> list_all is_hex r then None else Some (map lower_ascii r))"

text \<open>\<open>strings.EqualFold\<close> on hex digests.\<close>

definition equal_fold :: "string \<Rightarrow> string \<Rightarrow> bool" where
  "equal_fold a b = (map lower_ascii a = map lower_ascii b)"

text \<open>The checks of one reference before the row is touched: a complaint, or the row and the object.\<close>

definition check_ref ::
  "(string \<Rightarrow> ObjectInfo option) \<Rightarrow> Artifact list \<Rightarrow> ArtifactRef \<Rightarrow> string + Artifact \<times> ObjectInfo" where
  "check_ref inspect issued rf =
     (if rfStorageKey rf = [] then Inl (rfPath rf @ '' (empty storage_key)'')
      else
        (case find (\<lambda>a. afStorageKey a = rfStorageKey rf) (List.rev issued) of
           None \<Rightarrow> Inl (rfPath rf @ '' (not issued for job)'')
         | Some row \<Rightarrow>
             (if afPath row \<noteq> NormalizeArtifactPath (rfPath rf)
              then Inl (rfPath rf @ '' (path does not match issued artifact)'')
              else
                (case normalizeSHA256 (rfContentSHA256 rf) of
                   None \<Rightarrow> Inl (rfPath rf @ '' (invalid sha256)'')
                 | Some want \<Rightarrow>
                     (if rfSize rf < 0 then Inl (rfPath rf @ '' (negative size)'')
                      else
                        (case inspect (rfStorageKey rf) of
                           None \<Rightarrow> Inl (rfPath rf @ '' (inspect)'')
                         | Some info \<Rightarrow>
                             (if oiSize info \<noteq> rfSize rf then Inl (rfPath rf @ '' (size mismatch)'')
                              else if oiContentSHA256 info \<noteq> want then Inl (rfPath rf @ '' (sha256 mismatch)'')
                              else Inr (row, info))))))))"

definition ready_as :: "ObjectInfo \<Rightarrow> Artifact \<Rightarrow> bool" where
  "ready_as info a = (afSizeBytes a = oiSize info \<and> equal_fold (afContentSHA256 a) (oiContentSHA256 info))"

text \<open>
  One turn of the loop. \<open>rows\<close> are the rows at the moment of the update: other transactions
  may have run since \<open>issued\<close> was read.
\<close>

definition confirm_ref ::
  "(string \<Rightarrow> ObjectInfo option) \<Rightarrow> Artifact list \<Rightarrow> ArtifactRef \<Rightarrow> Artifact list \<Rightarrow> string option \<times> Artifact list" where
  "confirm_ref inspect issued rf rows =
     (case check_ref inspect issued rf of
        Inl complaint \<Rightarrow> (Some complaint, rows)
      | Inr (row, info) \<Rightarrow>
          (case afStatus row of
             ArtifactReady \<Rightarrow>
               ((if ready_as info row then None else Some (rfPath rf @ '' (ready row metadata mismatch)'')), rows)
           | ArtifactDeleting \<Rightarrow> (Some (rfPath rf @ '' (artifact row not pending)''), rows)
           | ArtifactPending \<Rightarrow>
               (let (updated, rows1) =
                      MarkArtifactReady (rfStorageKey rf) (oiSize info) (oiContentSHA256 info) (oiContentType info) rows in
                if updated then (None, rows1)
                else
                  (case GetArtifactByStorageKey (rfStorageKey rf) rows1 of
                     None \<Rightarrow> (Some (rfPath rf @ '' (mark ready race)''), rows1)
                   | Some latest \<Rightarrow>
                       (if afStatus latest = ArtifactReady \<and> ready_as info latest then (None, rows1)
                        else (Some (rfPath rf @ '' (mark ready race: status)''), rows1))))))"

text \<open>\<open>between i\<close> is what other transactions do to the table before the \<open>i\<close>th turn.\<close>

fun confirm_loop ::
  "(nat \<Rightarrow> Artifact list \<Rightarrow> Artifact list) \<Rightarrow> (string \<Rightarrow> ObjectInfo option) \<Rightarrow> Artifact list \<Rightarrow> nat \<Rightarrow>
   ArtifactRef list \<Rightarrow> Artifact list \<Rightarrow> string list \<times> Artifact list" where
  "confirm_loop between inspect issued i [] rows = ([], rows)"
| "confirm_loop between inspect issued i (rf # rfs) rows =
     (let (complaint, rows1) = confirm_ref inspect issued rf (between i rows);
          (bad, rows2) = confirm_loop between inspect issued (Suc i) rfs rows1 in
      ((case complaint of None \<Rightarrow> bad | Some c \<Rightarrow> c # bad), rows2))"

definition joinCSV :: "string list \<Rightarrow> string" where
  "joinCSV xs = str_join '', '' xs"

definition confirmArtifacts ::
  "bool \<Rightarrow> (nat \<Rightarrow> Artifact list \<Rightarrow> Artifact list) \<Rightarrow> (string \<Rightarrow> ObjectInfo option) \<Rightarrow> uuid \<Rightarrow> ArtifactRef list \<Rightarrow>
   Artifact list \<Rightarrow> string \<times> Artifact list" where
  "confirmArtifacts backend between inspect job refs rows =
     (if refs = [] \<or> \<not> backend then ([], rows)
      else
        (let (bad, rows1) = confirm_loop between inspect (ListArtifactsByJobRun job rows) 0 refs rows in
         ((if bad = [] then [] else ''failed artifacts: '' @ joinCSV bad), rows1)))"

section \<open>Retention\<close>

type_synonym order_by = "(Artifact \<Rightarrow> int) \<Rightarrow> Artifact list \<Rightarrow> Artifact list"

definition unpinned :: "Artifact \<Rightarrow> bool" where
  "unpinned a = (afDeletedAt a = None \<and> afPinnedAt a = None)"

text \<open>
  The keep-last query. \<open>row_number()\<close> numbers the joined rows of a pipeline from the latest
  run on; \<open>SELECT DISTINCT\<close> is applied to the numbered rows. A run is over the limit when one
  of its numbers is.
\<close>

definition runs_beyond :: "order_by \<Rightarrow> (uuid \<Rightarrow> gotime) \<Rightarrow> nat \<Rightarrow> Artifact list \<Rightarrow> uuid list" where
  "runs_beyond ord run_created n rows =
     map afRunID (concat (map (\<lambda>pl.
       drop n (ord (\<lambda>a. - run_created (afRunID a)) (filter (\<lambda>a. afPipelineID a = pl \<and> unpinned a) rows)))
       (remdups (map afPipelineID rows))))"

definition ExpireArtifactsBeyondKeepLast ::
  "order_by \<Rightarrow> (uuid \<Rightarrow> gotime) \<Rightarrow> nat \<Rightarrow> gotime \<Rightarrow> Artifact list \<Rightarrow> nat \<times> Artifact list" where
  "ExpireArtifactsBeyondKeepLast ord run_created n now rows =
     (let over = runs_beyond ord run_created n rows;
          p = (\<lambda>a. afRunID a \<in> set over \<and> unpinned a
                \<and> (case afExpiresAt a of None \<Rightarrow> True | Some t \<Rightarrow> t > now)) in
      (count_where p rows, upd_where p (\<lambda>a. a\<lparr>afExpiresAt := Some now\<rparr>) rows))"

definition live_bytes :: "Artifact \<Rightarrow> bool" where
  "live_bytes a = (unpinned a \<and> (afStatus a = ArtifactPending \<or> afStatus a = ArtifactReady))"

definition ListProjectsOverArtifactQuota :: "int \<Rightarrow> Artifact list \<Rightarrow> (uuid \<times> int) list" where
  "ListProjectsOverArtifactQuota quota rows =
     (let live = filter live_bytes rows in
      filter (\<lambda>(p, bytes). bytes > quota)
        (map (\<lambda>p. (p, sum_list (map afSizeBytes (filter (\<lambda>a. afProjectID a = p) live))))
           (remdups (map afProjectID live))))"

definition GlobalArtifactUsage :: "Artifact list \<Rightarrow> int" where
  "GlobalArtifactUsage rows = sum_list (map afSizeBytes (filter live_bytes rows))"

text \<open>\<open>cum_prev\<close> is the sum over the rows before; the rows with \<open>cum_prev < excess\<close> are demoted.\<close>

fun demoted_ids :: "int \<Rightarrow> int \<Rightarrow> Artifact list \<Rightarrow> uuid list" where
  "demoted_ids excess cum_prev [] = []"
| "demoted_ids excess cum_prev (a # as) =
     (if cum_prev < excess then [afID a] else []) @ demoted_ids excess (cum_prev + afSizeBytes a) as"

definition expire_oldest ::
  "order_by \<Rightarrow> (Artifact \<Rightarrow> bool) \<Rightarrow> int \<Rightarrow> gotime \<Rightarrow> Artifact list \<Rightarrow> nat \<times> Artifact list" where
  "expire_oldest ord sel excess now rows =
     (let ids = demoted_ids excess 0 (ord afCreatedAt (filter sel rows));
          p = (\<lambda>a. afID a \<in> set ids) in
      (count_where p rows, upd_where p (\<lambda>a. a\<lparr>afExpiresAt := Some now\<rparr>) rows))"

definition ExpireOldestInProjectByExcess ::
  "order_by \<Rightarrow> uuid \<Rightarrow> int \<Rightarrow> gotime \<Rightarrow> Artifact list \<Rightarrow> nat \<times> Artifact list" where
  "ExpireOldestInProjectByExcess ord project = expire_oldest ord (\<lambda>a. afProjectID a = project \<and> live_bytes a)"

definition ExpireOldestGloballyByExcess ::
  "order_by \<Rightarrow> int \<Rightarrow> gotime \<Rightarrow> Artifact list \<Rightarrow> nat \<times> Artifact list" where
  "ExpireOldestGloballyByExcess ord = expire_oldest ord live_bytes"

definition minutes :: duration where
  "minutes = 60000000000"

text \<open>The three populations of the claim.\<close>

definition sweepable :: "gotime \<Rightarrow> int \<Rightarrow> Artifact \<Rightarrow> bool" where
  "sweepable now grace a =
     (afPinnedAt a = None \<and>
      (case afStatus a of
         ArtifactReady \<Rightarrow> (case afExpiresAt a of None \<Rightarrow> False | Some t \<Rightarrow> t < now)
       | ArtifactDeleting \<Rightarrow> (case afDeletedAt a of None \<Rightarrow> False | Some t \<Rightarrow> t < now - grace * minutes)
       | ArtifactPending \<Rightarrow> afCreatedAt a < now - grace * minutes))"

definition sweep_order :: "Artifact \<Rightarrow> int" where
  "sweep_order a =
     (case afExpiresAt a of
        Some t \<Rightarrow> t
      | None \<Rightarrow> (case afDeletedAt a of Some t \<Rightarrow> t | None \<Rightarrow> afCreatedAt a))"

text \<open>\<open>FOR UPDATE SKIP LOCKED\<close>: rows that another sweeper has locked are passed over.\<close>

definition ClaimArtifactsForSweep ::
  "order_by \<Rightarrow> (uuid \<Rightarrow> bool) \<Rightarrow> nat \<Rightarrow> int \<Rightarrow> gotime \<Rightarrow> Artifact list \<Rightarrow> Artifact list \<times> Artifact list" where
  "ClaimArtifactsForSweep ord locked limit grace now rows =
     (let batch = take limit (ord sweep_order (filter (\<lambda>a. sweepable now grace a \<and> \<not> locked (afID a)) rows));
          p = (\<lambda>a. afID a \<in> afID ` set batch);
          f = (\<lambda>a. a\<lparr>afStatus := ArtifactDeleting, afDeletedAt := Some now\<rparr>) in
      (map f batch, upd_where p f rows))"

definition RemoveArtifactRow :: "uuid \<Rightarrow> Artifact list \<Rightarrow> Artifact list" where
  "RemoveArtifactRow i = filter (\<lambda>a. afID a \<noteq> i)"

text \<open>The backend: the keys that hold an object, and the answer of a delete.\<close>

datatype delete_result = DeleteOk | DeleteNotFound | DeleteFailed

record retention_world =
  rwRows :: "Artifact list"
  rwObjects :: "string list"

record SweepStats =
  skDemotedKeepLast :: nat
  skDemotedProjectCap :: nat
  skDemotedGlobalCap :: nat
  skClaimed :: nat
  skDeleted :: nat
  skStorageFailures :: nat
  skBytesFreed :: int

definition zero_stats :: SweepStats where
  "zero_stats = \<lparr>skDemotedKeepLast = 0, skDemotedProjectCap = 0, skDemotedGlobalCap = 0,
     skClaimed = 0, skDeleted = 0, skStorageFailures = 0, skBytesFreed = 0\<rparr>"

record Sweeper =
  swkKeepLast :: nat
  swkProjectQuotaBytes :: int
  swkGlobalQuotaBytes :: int
  swkBatchSize :: nat
  swkGraceMinutes :: int

definition New_sweeper :: Sweeper where
  "New_sweeper = \<lparr>swkKeepLast = 30, swkProjectQuotaBytes = 100 * 1024 * 1024 * 1024, swkGlobalQuotaBytes = 0,
     swkBatchSize = 500, swkGraceMinutes = 5\<rparr>"

fun project_caps ::
  "order_by \<Rightarrow> int \<Rightarrow> gotime \<Rightarrow> (uuid \<times> int) list \<Rightarrow> Artifact list \<Rightarrow> nat \<times> Artifact list" where
  "project_caps ord quota now [] rows = (0, rows)"
| "project_caps ord quota now ((p, bytes) # over) rows =
     (let (n, rows1) = ExpireOldestInProjectByExcess ord p (bytes - quota) now rows;
          (m, rows2) = project_caps ord quota now over rows1 in
      (n + m, rows2))"

fun delete_claimed ::
  "(string \<Rightarrow> delete_result) \<Rightarrow> Artifact list \<Rightarrow> SweepStats \<Rightarrow> retention_world \<Rightarrow> SweepStats \<times> retention_world" where
  "delete_claimed del [] st w = (st, w)"
| "delete_claimed del (a # as) st w =
     (case del (afStorageKey a) of
        DeleteFailed \<Rightarrow> delete_claimed del as (st\<lparr>skStorageFailures := skStorageFailures st + 1\<rparr>) w
      | _ \<Rightarrow> delete_claimed del as
          (st\<lparr>skDeleted := skDeleted st + 1, skBytesFreed := skBytesFreed st + afSizeBytes a\<rparr>)
          \<lparr>rwRows = RemoveArtifactRow (afID a) (rwRows w), rwObjects = removeAll (afStorageKey a) (rwObjects w)\<rparr>)"

text \<open>
  The artifact layers of a pass: keep-last, project caps, global cap, then the claim and the
  deletes. \<open>clock i\<close> is the instant of the \<open>i\<close>th layer.
\<close>

definition demote_layers ::
  "Sweeper \<Rightarrow> order_by \<Rightarrow> (uuid \<Rightarrow> gotime) \<Rightarrow> (nat \<Rightarrow> gotime) \<Rightarrow> Artifact list \<Rightarrow> SweepStats \<times> Artifact list" where
  "demote_layers s ord run_created clock rows =
     (let (n1, rows1) = (if swkKeepLast s > 0
            then ExpireArtifactsBeyondKeepLast ord run_created (swkKeepLast s) (clock 0) rows else (0, rows));
          (n2, rows2) = (if swkProjectQuotaBytes s > 0
            then project_caps ord (swkProjectQuotaBytes s) (clock 1)
                   (ListProjectsOverArtifactQuota (swkProjectQuotaBytes s) rows1) rows1 else (0, rows1));
          total = GlobalArtifactUsage rows2;
          (n3, rows3) = (if swkGlobalQuotaBytes s > 0 \<and> total > swkGlobalQuotaBytes s
            then ExpireOldestGloballyByExcess ord (total - swkGlobalQuotaBytes s) (clock 2) rows2 else (0, rows2)) in
      (zero_stats\<lparr>skDemotedKeepLast := n1, skDemotedProjectCap := n2, skDemotedGlobalCap := n3\<rparr>, rows3))"

definition SweepOnce ::
  "Sweeper \<Rightarrow> order_by \<Rightarrow> (uuid \<Rightarrow> bool) \<Rightarrow> (uuid \<Rightarrow> gotime) \<Rightarrow> (nat \<Rightarrow> gotime) \<Rightarrow>
   (string \<Rightarrow> delete_result) \<Rightarrow> retention_world \<Rightarrow> SweepStats \<times> retention_world" where
  "SweepOnce s ord locked run_created clock del w =
     (let (st, rows1) = demote_layers s ord run_created clock (rwRows w);
          (claimed, rows2) =
            ClaimArtifactsForSweep ord locked (swkBatchSize s) (swkGraceMinutes s) (clock 3) rows1 in
      delete_claimed del claimed (st\<lparr>skClaimed := length claimed\<rparr>) (w\<lparr>rwRows := rows2\<rparr>))"

end
