(* ===== verification/ArtifactLife.thy ===== *)
theory ArtifactLife
  imports Artifacts RunLifecycle "HOL-Library.Multiset"
begin

text \<open>
  The artifacts as a system: agents that request tickets, upload and report, result handlers,
  reclaims, the demotion layers, and any number of sweepers, each statement and each backend
  call a step of its own. Its invariant gives that what can be downloaded exists and is what
  the server has read.
\<close>

section \<open>The system\<close>

definition sorts :: "order_by \<Rightarrow> bool" where
  "sorts ord = (\<forall>k xs. mset (ord k xs) = mset xs \<and> sorted (map k (ord k xs)))"

lemma sorts_set [simp]: "sorts ord \<Longrightarrow> set (ord k xs) = set xs"
  by (metis sorts_def set_mset_mset)

lemma sorts_sorted: "sorts ord \<Longrightarrow> sorted (map k (ord k xs))"
  by (simp add: sorts_def)

lemma sorts_mset: "sorts ord \<Longrightarrow> mset (ord k xs) = mset xs"
  by (simp add: sorts_def)

lemma sorts_sort_key: "sorts sort_key"
  by (simp add: sorts_def)

text \<open>
  \<open>awClaims\<close> are the rows sweepers have claimed, \<open>awSeen\<close> the objects that result handlers
  have read.
\<close>

record artifact_world =
  awRows :: "Artifact list"
  awObjects :: "string \<Rightarrow> nat list option"
  awClaims :: "(uuid \<times> string) list"
  awSeen :: "(string \<times> ObjectInfo) list"

text \<open>Row ids and the random parts of storage keys are drawn anew.\<close>

definition fresh_draws :: "upload_env \<Rightarrow> artifact_world \<Rightarrow> bool" where
  "fresh_draws e w =
     (inj (\<lambda>i. fst (uaFresh e i)) \<and>
      (\<forall>i. fst (uaFresh e i) \<notin> afID ` set (awRows w) \<union> fst ` set (awClaims w)) \<and>
      (\<forall>run job i. upload_key e run job i \<notin> snd ` set (awClaims w) \<union> fst ` set (awSeen w)))"

text \<open>With write-once signatures (\<open>once\<close>) the backend refuses to replace an object.\<close>

inductive artifact_step :: "bool \<Rightarrow> (nat list \<Rightarrow> string) \<Rightarrow> artifact_world \<Rightarrow> artifact_world \<Rightarrow> bool"
  for once :: bool and digest :: "nat list \<Rightarrow> string" where
  request: "fresh_draws e w \<Longrightarrow>
    artifact_step once digest w (w\<lparr>awRows := snd (RequestArtifactUpload e st d q (awRows w))\<rparr>)"
| upload: "once \<longrightarrow> awObjects w key = None \<Longrightarrow>
    artifact_step once digest w (w\<lparr>awObjects := (awObjects w)(key \<mapsto> bytes)\<rparr>)"
| inspect: "InspectObject digest (awObjects w) key = Some info \<Longrightarrow>
    artifact_step once digest w (w\<lparr>awSeen := (key, info) # awSeen w\<rparr>)"
| confirm: "(key, info) \<in> set (awSeen w) \<Longrightarrow>
    artifact_step once digest w (w\<lparr>awRows := snd (MarkArtifactReady key (oiSize info)
      (oiContentSHA256 info) (oiContentType info) (awRows w))\<rparr>)"
| retire: "artifact_step once digest w (w\<lparr>awRows := RetireArtifactsByJobRun job now (awRows w)\<rparr>)"
| keep_last: "artifact_step once digest w
    (w\<lparr>awRows := snd (ExpireArtifactsBeyondKeepLast ord run_created n now (awRows w))\<rparr>)"
| expire: "artifact_step once digest w (w\<lparr>awRows := snd (expire_oldest ord sel excess now (awRows w))\<rparr>)"
| claim: "sorts ord \<Longrightarrow> ClaimArtifactsForSweep ord locked limit grace now (awRows w) = (batch, rows) \<Longrightarrow>
    artifact_step once digest w
      (w\<lparr>awRows := rows, awClaims := map (\<lambda>a. (afID a, afStorageKey a)) batch @ awClaims w\<rparr>)"
| delete_object: "(i, key) \<in> set (awClaims w) \<Longrightarrow>
    artifact_step once digest w (w\<lparr>awObjects := (awObjects w)(key := None)\<rparr>)"
| remove_row: "(i, key) \<in> set (awClaims w) \<Longrightarrow>
    artifact_step once digest w (w\<lparr>awRows := RemoveArtifactRow i (awRows w)\<rparr>)"

definition artifact_init :: "artifact_world \<Rightarrow> bool" where
  "artifact_init w = (w = \<lparr>awRows = [], awObjects = (\<lambda>_. None), awClaims = [], awSeen = []\<rparr>)"

section \<open>The life of a row\<close>

fun status_rank :: "ArtifactStatus \<Rightarrow> nat" where
  "status_rank ArtifactPending = 0"
| "status_rank ArtifactReady = 1"
| "status_rank ArtifactDeleting = 2"

definition same_artifact :: "Artifact \<Rightarrow> Artifact \<Rightarrow> bool" where
  "same_artifact a b =
     (afID b = afID a \<and> afRunID b = afRunID a \<and> afJobRunID b = afJobRunID a \<and> afPipelineID b = afPipelineID a
      \<and> afProjectID b = afProjectID a \<and> afPath b = afPath a \<and> afStorageKey b = afStorageKey a
      \<and> afCreatedAt b = afCreatedAt a)"

definition art_evo :: "Artifact \<Rightarrow> Artifact \<Rightarrow> bool" where
  "art_evo a b =
     (same_artifact a b \<and> status_rank (afStatus a) \<le> status_rank (afStatus b)
      \<and> (afStatus a \<noteq> ArtifactPending \<longrightarrow>
           afSizeBytes b = afSizeBytes a \<and> afContentSHA256 b = afContentSHA256 a \<and> afContentType b = afContentType a)
      \<and> (afDeletedAt a \<noteq> None \<longrightarrow> afDeletedAt b \<noteq> None)
      \<and> ((afStatus a = ArtifactDeleting \<longleftrightarrow> afDeletedAt a \<noteq> None) \<longrightarrow>
           (afStatus b = ArtifactDeleting \<longleftrightarrow> afDeletedAt b \<noteq> None)))"

lemma art_evo_refl [simp]: "art_evo a a"
  by (simp add: art_evo_def same_artifact_def)

lemma art_evo_trans: "art_evo a b \<Longrightarrow> art_evo b c \<Longrightarrow> art_evo a c"
  by (cases "afStatus a"; cases "afStatus b"; cases "afStatus c") (auto simp: art_evo_def same_artifact_def)

lemma art_evo_expiry [simp]: "art_evo a (a\<lparr>afExpiresAt := t\<rparr>)"
  by (simp add: art_evo_def same_artifact_def)

lemma art_evo_deleting [simp]:
  "art_evo a (a\<lparr>afStatus := ArtifactDeleting, afDeletedAt := Some t\<rparr>)"
  "art_evo a (a\<lparr>afStatus := ArtifactDeleting, afDeletedAt := Some t, afExpiresAt := x, afPinnedAt := y\<rparr>)"
  by (cases "afStatus a"; simp add: art_evo_def same_artifact_def)+

lemma art_evo_ready:
  "afStatus a = ArtifactPending \<Longrightarrow>
     art_evo a (a\<lparr>afStatus := ArtifactReady, afSizeBytes := n, afContentSHA256 := h, afContentType := c\<rparr>)"
  by (simp add: art_evo_def same_artifact_def)

definition rows_evo :: "Artifact list \<Rightarrow> Artifact list \<Rightarrow> bool" where
  "rows_evo xs ys = list_all2 art_evo xs ys"

lemma rows_evo_refl [simp]: "rows_evo xs xs"
  by (simp add: rows_evo_def list_all2_refl)

lemma rows_evo_upd: "(\<And>a. a \<in> set xs \<Longrightarrow> p a \<Longrightarrow> art_evo a (f a)) \<Longrightarrow> rows_evo xs (upd_where p f xs)"
  unfolding rows_evo_def upd_where_def by (induction xs) auto

lemma rows_evo_keys:
  assumes "rows_evo xs ys"
  shows "map afID ys = map afID xs" and "map afStorageKey ys = map afStorageKey xs"
  using assms unfolding rows_evo_def
  by (induction rule: list_all2_induct) (auto simp: art_evo_def same_artifact_def)

lemma rows_evo_back:
  "rows_evo xs ys \<Longrightarrow> b \<in> set ys \<Longrightarrow> \<exists>a\<in>set xs. art_evo a b"
  unfolding rows_evo_def by (induction rule: list_all2_induct) auto

lemma rows_evo_forth:
  "rows_evo xs ys \<Longrightarrow> a \<in> set xs \<Longrightarrow> \<exists>b\<in>set ys. art_evo a b"
  unfolding rows_evo_def by (induction rule: list_all2_induct) auto

text \<open>Every statement but the marking leaves alone which rows are ready.\<close>

definition art_calm :: "Artifact \<Rightarrow> Artifact \<Rightarrow> bool" where
  "art_calm a b = (art_evo a b \<and> (afStatus b = ArtifactReady \<longrightarrow> afStatus a = ArtifactReady))"

lemma art_calm_refl [simp]: "art_calm a a"
  by (simp add: art_calm_def)

lemma art_calm_expiry [simp]: "art_calm a (a\<lparr>afExpiresAt := t\<rparr>)"
  by (simp add: art_calm_def)

lemma art_calm_trans: "art_calm a b \<Longrightarrow> art_calm b c \<Longrightarrow> art_calm a c"
  by (auto simp: art_calm_def intro: art_evo_trans)

definition rows_calm :: "Artifact list \<Rightarrow> Artifact list \<Rightarrow> bool" where
  "rows_calm xs ys = list_all2 art_calm xs ys"

lemma rows_calm_upd: "(\<And>a. a \<in> set xs \<Longrightarrow> p a \<Longrightarrow> art_calm a (f a)) \<Longrightarrow> rows_calm xs (upd_where p f xs)"
  unfolding rows_calm_def upd_where_def by (induction xs) auto

lemma rows_calm_evo: "rows_calm xs ys \<Longrightarrow> rows_evo xs ys"
  unfolding rows_calm_def rows_evo_def by (erule list_all2_mono) (simp add: art_calm_def)

lemma rows_calm_back: "rows_calm xs ys \<Longrightarrow> b \<in> set ys \<Longrightarrow> \<exists>a\<in>set xs. art_calm a b"
  unfolding rows_calm_def by (induction rule: list_all2_induct) auto

lemma rows_calm_forth: "rows_calm xs ys \<Longrightarrow> a \<in> set xs \<Longrightarrow> \<exists>b\<in>set ys. art_calm a b"
  unfolding rows_calm_def by (induction rule: list_all2_induct) auto

lemma calm_updates:
  "rows_calm rows (snd (ExpireArtifactsBeyondKeepLast ord run_created n now rows))"
  "rows_calm rows (snd (expire_oldest ord sel excess now rows))"
  "rows_calm rows (RetireArtifactsByJobRun job now rows)"
  "rows_calm rows (snd (ClaimArtifactsForSweep ord locked limit grace now rows))"
  by (simp_all add: ExpireArtifactsBeyondKeepLast_def expire_oldest_def RetireArtifactsByJobRun_def
      ClaimArtifactsForSweep_def Let_def rows_calm_upd art_calm_def)

lemma mark_evo: "rows_evo rows (snd (MarkArtifactReady key n h c rows))"
  by (auto simp: MarkArtifactReady_def Let_def intro!: rows_evo_upd art_evo_ready)

section \<open>The invariant\<close>

definition rows_sound :: "Artifact list \<Rightarrow> bool" where
  "rows_sound rows =
     (distinct (map afID rows) \<and> distinct (map afStorageKey rows)
      \<and> (\<forall>a\<in>set rows. afStatus a = ArtifactDeleting \<longleftrightarrow> afDeletedAt a \<noteq> None)
      \<and> (\<forall>a\<in>set rows. \<forall>b\<in>set rows. active_at (afJobRunID a) (afPath a) a \<longrightarrow>
           active_at (afJobRunID a) (afPath a) b \<longrightarrow> afID a = afID b))"

definition stored :: "bool \<Rightarrow> (nat list \<Rightarrow> string) \<Rightarrow> (string \<Rightarrow> nat list option) \<Rightarrow> Artifact \<Rightarrow> bool" where
  "stored once digest objects a =
     (\<exists>bytes. objects (afStorageKey a) = Some bytes \<and>
        (once \<longrightarrow> afSizeBytes a = int (length bytes) \<and> afContentSHA256 a = digest bytes
           \<and> afContentType a = detectContentType (take 4 bytes)))"

definition claimed_ok :: "Artifact list \<Rightarrow> uuid \<times> string \<Rightarrow> bool" where
  "claimed_ok rows c =
     (\<forall>a\<in>set rows. afID a = fst c \<or> afStorageKey a = snd c \<longrightarrow>
        afID a = fst c \<and> afStorageKey a = snd c \<and> afStatus a = ArtifactDeleting)"

definition seen_ok ::
  "bool \<Rightarrow> (nat list \<Rightarrow> string) \<Rightarrow> (string \<Rightarrow> nat list option) \<Rightarrow> Artifact list \<Rightarrow> string \<times> ObjectInfo \<Rightarrow> bool" where
  "seen_ok once digest objects rows c =
     (\<forall>a\<in>set rows. afStorageKey a = fst c \<and> afStatus a = ArtifactPending \<longrightarrow>
        objects (fst c) \<noteq> None \<and> (once \<longrightarrow> InspectObject digest objects (fst c) = Some (snd c)))"

definition artifact_inv :: "bool \<Rightarrow> (nat list \<Rightarrow> string) \<Rightarrow> artifact_world \<Rightarrow> bool" where
  "artifact_inv once digest w =
     (rows_sound (awRows w) \<and> (\<forall>c\<in>set (awClaims w). claimed_ok (awRows w) c)
      \<and> (\<forall>c\<in>set (awSeen w). seen_ok once digest (awObjects w) (awRows w) c)
      \<and> (\<forall>a\<in>set (awRows w). afStatus a = ArtifactReady \<longrightarrow> stored once digest (awObjects w) a))"

lemmas same_artifactD = art_evo_def [THEN iffD1, THEN conjunct1, unfolded same_artifact_def]

lemma art_evo_deleted: "art_evo a b \<Longrightarrow> afDeletedAt b = None \<Longrightarrow> afDeletedAt a = None"
  by (auto simp: art_evo_def)

lemma rows_sound_evo:
  assumes "rows_sound xs" and "rows_evo xs ys"
  shows "rows_sound ys"
  unfolding rows_sound_def
proof (intro conjI ballI impI)
  show "distinct (map afID ys)" "distinct (map afStorageKey ys)"
    using assms rows_evo_keys [OF assms(2)] by (simp_all add: rows_sound_def)
next
  fix b assume "b \<in> set ys"
  then obtain a where a: "a \<in> set xs" "art_evo a b" using rows_evo_back [OF assms(2)] by blast
  then show "(afStatus b = ArtifactDeleting) = (afDeletedAt b \<noteq> None)"
    using assms(1) by (simp add: rows_sound_def art_evo_def)
next
  fix b c assume b: "b \<in> set ys" "c \<in> set ys" "active_at (afJobRunID b) (afPath b) b" "active_at (afJobRunID b) (afPath b) c"
  obtain a where a: "a \<in> set xs" "art_evo a b" using rows_evo_back [OF assms(2) b(1)] by blast
  obtain d where d: "d \<in> set xs" "art_evo d c" using rows_evo_back [OF assms(2) b(2)] by blast
  have "active_at (afJobRunID a) (afPath a) a"
    using b(3) art_evo_deleted [OF a(2)] by (simp add: active_at_def)
  moreover have "active_at (afJobRunID a) (afPath a) d"
    using b(4) same_artifactD [OF a(2)] same_artifactD [OF d(2)] art_evo_deleted [OF d(2)]
    unfolding active_at_def by metis
  ultimately have "afID a = afID d" using assms(1) a(1) d(1) unfolding rows_sound_def by blast
  then show "afID b = afID c" using same_artifactD [OF a(2)] same_artifactD [OF d(2)] by simp
qed

text \<open>An insert renews the expiry of a row, or adds one pending row, or changes nothing.\<close>

definition renewed :: "Artifact list \<Rightarrow> Artifact list \<Rightarrow> bool" where
  "renewed xs ys = (\<exists>p e. ys = upd_where p (\<lambda>a. a\<lparr>afExpiresAt := e\<rparr>) xs)"

lemma renewed_refl [simp]: "renewed xs xs"
  unfolding renewed_def by (rule exI [of _ "\<lambda>_. False"]) (simp add: upd_where_def)

lemma renewed_calm: "renewed xs ys \<Longrightarrow> rows_calm xs ys"
  by (auto simp: renewed_def intro: rows_calm_upd)

lemma renewed_status: "renewed xs ys \<Longrightarrow> b \<in> set ys \<Longrightarrow> \<exists>a\<in>set xs. art_calm a b \<and> afStatus b = afStatus a"
proof -
  assume "renewed xs ys" and b: "b \<in> set ys"
  then obtain p e where "ys = upd_where p (\<lambda>a. a\<lparr>afExpiresAt := e\<rparr>) xs" by (auto simp: renewed_def)
  with b obtain a where "a \<in> set xs" and "b = (if p a then a\<lparr>afExpiresAt := e\<rparr> else a)"
    by (auto simp: set_upd_where)
  then show ?thesis by (intro bexI [of _ a]) simp_all
qed

lemma insert_row_cases:
  assumes "InsertPendingArtifactRow i now p rows = (res, rows')"
  obtains (old) "renewed rows rows'"
  | (new) "rows' = rows @ [pending_artifact i now p]" and "res = Inr (pending_artifact i now p)"
    and "\<forall>a\<in>set rows. \<not> active_at (ipJobRunID p) (NormalizeArtifactPath (ipPath p)) a"
    and "ipStorageKey p \<notin> afStorageKey ` set rows"
proof (cases "find (active_at (ipJobRunID p) (NormalizeArtifactPath (ipPath p))) rows")
  case None
  show ?thesis
  proof (cases "ipStorageKey p \<in> afStorageKey ` set rows")
    case True
    with None assms have "rows' = rows" by (simp add: InsertPendingArtifactRow_def Let_def)
    then show ?thesis by (intro old) simp
  next
    case False
    from None have "\<forall>a\<in>set rows. \<not> active_at (ipJobRunID p) (NormalizeArtifactPath (ipPath p)) a"
      by (simp add: find_None_iff)
    moreover from None assms False have "res = Inr (pending_artifact i now p)" "rows' = rows @ [pending_artifact i now p]"
      by (simp_all add: InsertPendingArtifactRow_def Let_def)
    ultimately show ?thesis using False by (intro new)
  qed
next
  case (Some a)
  have "renewed rows rows'"
  proof (cases "afStatus a = ArtifactPending")
    case True
    with Some assms show ?thesis by (auto simp: InsertPendingArtifactRow_def Let_def renewed_def)
  next
    case False
    with Some assms show ?thesis by (simp add: InsertPendingArtifactRow_def Let_def)
  qed
  then show ?thesis by (rule old)
qed

lemma pending_artifact_simps [simp]:
  "afID (pending_artifact i now p) = i" "afStatus (pending_artifact i now p) = ArtifactPending"
  "afStorageKey (pending_artifact i now p) = ipStorageKey p" "afDeletedAt (pending_artifact i now p) = None"
  "afJobRunID (pending_artifact i now p) = ipJobRunID p"
  "afPath (pending_artifact i now p) = NormalizeArtifactPath (ipPath p)"
  by (simp_all add: pending_artifact_def)

text \<open>The table after inserts of rows with the given ids and keys.\<close>

definition grown :: "uuid set \<Rightarrow> string set \<Rightarrow> Artifact list \<Rightarrow> Artifact list \<Rightarrow> bool" where
  "grown ids keys xs ys =
     ((\<forall>b\<in>set ys. (\<exists>a\<in>set xs. art_calm a b \<and> afStatus b = afStatus a)
         \<or> afStatus b = ArtifactPending \<and> afID b \<in> ids \<and> afStorageKey b \<in> keys)
      \<and> (\<forall>a\<in>set xs. \<exists>b\<in>set ys. art_evo a b))"

lemma grown_refl [simp]: "grown ids keys xs xs"
  by (auto simp: grown_def intro!: bexI)

lemma art_calmD: "art_calm a b \<Longrightarrow> art_evo a b"
  by (simp add: art_calm_def)

lemma grown_trans:
  assumes "grown i1 k1 xs ys" and "grown i2 k2 ys zs"
  shows "grown (i1 \<union> i2) (k1 \<union> k2) xs zs"
  unfolding grown_def
proof (intro conjI ballI)
  fix c assume "c \<in> set zs"
  then consider b where "b \<in> set ys" "art_calm b c" "afStatus c = afStatus b"
    | "afStatus c = ArtifactPending \<and> afID c \<in> i2 \<and> afStorageKey c \<in> k2"
    using assms(2) by (auto simp: grown_def)
  then show "(\<exists>a\<in>set xs. art_calm a c \<and> afStatus c = afStatus a)
      \<or> afStatus c = ArtifactPending \<and> afID c \<in> i1 \<union> i2 \<and> afStorageKey c \<in> k1 \<union> k2"
  proof cases
    case (1 b)
    then consider a where "a \<in> set xs" "art_calm a b" "afStatus b = afStatus a"
      | "afStatus b = ArtifactPending \<and> afID b \<in> i1 \<and> afStorageKey b \<in> k1"
      using assms(1) by (auto simp: grown_def)
    then show ?thesis
    proof cases
      case (1 a)
      with \<open>art_calm b c\<close> \<open>afStatus c = afStatus b\<close> show ?thesis by (auto intro: art_calm_trans)
    next
      case 2
      with 1 same_artifactD [OF art_calmD [OF \<open>art_calm b c\<close>]] show ?thesis by auto
    qed
  qed auto
next
  fix a assume "a \<in> set xs"
  then obtain b where b: "b \<in> set ys" "art_evo a b" using assms(1) by (auto simp: grown_def)
  then obtain c where "c \<in> set zs" "art_evo b c" using assms(2) by (auto simp: grown_def)
  with art_evo_trans [OF b(2)] show "\<exists>c\<in>set zs. art_evo a c" by blast
qed

lemma grown_ids: "grown ids keys xs ys \<Longrightarrow> afID ` set ys \<subseteq> afID ` set xs \<union> ids"
  by (fastforce simp: grown_def dest: art_calmD same_artifactD)

lemma insert_row_grown:
  assumes "InsertPendingArtifactRow i now p rows = (res, rows')" and "rows_sound rows" and "i \<notin> afID ` set rows"
  shows "rows_sound rows'" and "grown {i} {ipStorageKey p} rows rows'"
proof -
  from assms(1) have "rows_sound rows' \<and> grown {i} {ipStorageKey p} rows rows'"
  proof (cases rule: insert_row_cases)
    case old
    then have "rows_sound rows'" using rows_sound_evo [OF assms(2) rows_calm_evo [OF renewed_calm]] by blast
    moreover have "grown {i} {ipStorageKey p} rows rows'"
      using renewed_status [OF old] rows_calm_forth [OF renewed_calm [OF old]] art_calmD
      unfolding grown_def by blast
    ultimately show ?thesis ..
  next
    case new
    let ?n = "pending_artifact i now p"
    have "afID a = afID b" if "a \<in> set (rows @ [?n])" "b \<in> set (rows @ [?n])"
      "active_at (afJobRunID a) (afPath a) a" "active_at (afJobRunID a) (afPath a) b" for a b
    proof (cases "a = ?n \<or> b = ?n")
      case True
      with that new(3) show ?thesis by (auto simp: active_at_def)
    next
      case False
      with that have "a \<in> set rows" "b \<in> set rows" by auto
      with that(3,4) assms(2) show ?thesis unfolding rows_sound_def by blast
    qed
    moreover have "distinct (map afID (rows @ [?n]))" "distinct (map afStorageKey (rows @ [?n]))"
      using assms(2,3) new(4) by (simp_all add: rows_sound_def)
    moreover have "\<forall>a\<in>set (rows @ [?n]). afStatus a = ArtifactDeleting \<longleftrightarrow> afDeletedAt a \<noteq> None"
      using assms(2) by (simp add: rows_sound_def)
    ultimately have "rows_sound rows'" unfolding new(1) rows_sound_def by blast
    moreover have "grown {i} {ipStorageKey p} rows rows'"
      unfolding new(1) by (auto simp: grown_def intro!: bexI)
    ultimately show ?thesis ..
  qed
  then show "rows_sound rows'" "grown {i} {ipStorageKey p} rows rows'" by auto
qed

lemma insert_loop_grown:
  assumes "insert_loop now ps rows = (res, rows')" and "rows_sound rows" and "distinct (map fst ps)"
    and "fst ` set ps \<inter> afID ` set rows = {}"
  shows "rows_sound rows' \<and> grown (fst ` set ps) (ipStorageKey ` snd ` set ps) rows rows'"
  using assms
proof (induction now ps rows arbitrary: res rows' rule: insert_loop.induct)
  case (2 now i p ps rows)
  obtain r rows1 where one: "InsertPendingArtifactRow i now p rows = (r, rows1)" by (rule prod.exhaust)
  note g = insert_row_grown [OF one 2(3)]
  have i: "i \<notin> afID ` set rows" using 2(5) by auto
  show ?case
  proof (cases r)
    case (Inl e)
    then have "rows' = rows1" using 2(2) one by simp
    then show ?thesis using g [OF i] grown_trans [OF g(2) [OF i] grown_refl] by (auto simp: grown_def)
  next
    case (Inr a)
    obtain r2 rows2 where rest: "insert_loop now ps rows1 = (r2, rows2)" by (rule prod.exhaust)
    have rows': "rows' = rows2" using 2(2) one Inr rest by (auto split: sum.splits)
    have "i \<notin> fst ` set ps" and "fst ` set ps \<inter> afID ` set rows = {}" using 2(4,5) by auto
    with grown_ids [OF g(2) [OF i]] have "fst ` set ps \<inter> afID ` set rows1 = {}" by blast
    then have "rows_sound rows2 \<and> grown (fst ` set ps) (ipStorageKey ` snd ` set ps) rows1 rows2"
      using 2(4) by (intro 2(1) [OF one [symmetric] Inr rest g(1) [OF i]]) simp_all
    then show ?thesis using grown_trans [OF g(2) [OF i]] by (simp add: rows')
  qed
qed simp

lemma issue_tickets_rows:
  "snd (issue_tickets e run job pipeline project paths rows) = rows \<or>
   (\<exists>ps. snd (issue_tickets e run job pipeline project paths rows) =
      snd (InsertPendingArtifactsBatch (uaNow e) (upload_rows e run job pipeline project ps) rows))"
proof (cases "dedupe_paths [] paths")
  case (Some ps)
  obtain res rows1 where b: "InsertPendingArtifactsBatch (uaNow e) (upload_rows e run job pipeline project ps) rows = (res, rows1)"
    by (rule prod.exhaust)
  have "snd (issue_tickets e run job pipeline project paths rows) = rows1"
    by (auto simp: issue_tickets_def Some b split: sum.split artifact_error.split option.split)
  with b show ?thesis by (metis snd_conv)
qed (simp add: issue_tickets_def)

lemma request_rows:
  "snd (RequestArtifactUpload e st d q rows) = rows \<or>
   (\<exists>run job pipeline project ps. snd (RequestArtifactUpload e st d q rows) =
      snd (InsertPendingArtifactsBatch (uaNow e) (upload_rows e run job pipeline project ps) rows))"
proof -
  have "snd (RequestArtifactUpload e st d q rows) = rows \<or>
    (\<exists>run job pipeline project paths. snd (RequestArtifactUpload e st d q rows) =
      snd (issue_tickets e run job pipeline project paths rows))"
    unfolding RequestArtifactUpload_def by (auto split: option.split prod.split; blast)
  with issue_tickets_rows show ?thesis by metis
qed

definition new_draws :: "artifact_world \<Rightarrow> uuid set \<Rightarrow> string set \<Rightarrow> bool" where
  "new_draws w ids keys =
     ((\<forall>i\<in>ids. i \<notin> afID ` set (awRows w) \<union> fst ` set (awClaims w))
      \<and> (\<forall>k\<in>keys. k \<notin> snd ` set (awClaims w) \<union> fst ` set (awSeen w)))"

lemma upload_rows_draws:
  assumes "fresh_draws e w"
  shows "distinct (map fst (upload_rows e run job pipeline project ps))"
    and "new_draws w (fst ` set (upload_rows e run job pipeline project ps))
      (ipStorageKey ` snd ` set (upload_rows e run job pipeline project ps))"
proof -
  have "map fst (upload_rows e run job pipeline project ps) = map (\<lambda>i. fst (uaFresh e i)) [0..<length ps]"
    by (simp add: upload_rows_def)
  moreover have "inj (\<lambda>i. fst (uaFresh e i))" using assms by (simp add: fresh_draws_def)
  ultimately show "distinct (map fst (upload_rows e run job pipeline project ps))"
    by (auto simp: distinct_map inj_on_def)
  show "new_draws w (fst ` set (upload_rows e run job pipeline project ps))
      (ipStorageKey ` snd ` set (upload_rows e run job pipeline project ps))"
    unfolding new_draws_def
  proof (intro conjI ballI)
    fix x assume "x \<in> fst ` set (upload_rows e run job pipeline project ps)"
    then obtain i where "x = fst (uaFresh e i)" by (auto simp: upload_rows_def)
    with assms show "x \<notin> afID ` set (awRows w) \<union> fst ` set (awClaims w)" by (simp add: fresh_draws_def)
  next
    fix x assume "x \<in> ipStorageKey ` snd ` set (upload_rows e run job pipeline project ps)"
    then obtain i where "x = upload_key e run job i" by (auto simp: upload_rows_def)
    with assms show "x \<notin> snd ` set (awClaims w) \<union> fst ` set (awSeen w)" by (simp add: fresh_draws_def)
  qed
qed

lemma request_grown:
  assumes "fresh_draws e w" and "rows_sound (awRows w)"
  obtains ids keys where "rows_sound (snd (RequestArtifactUpload e st d q (awRows w)))"
    and "grown ids keys (awRows w) (snd (RequestArtifactUpload e st d q (awRows w)))" and "new_draws w ids keys"
proof -
  have none: "new_draws w {} {}" by (simp add: new_draws_def)
  consider "snd (RequestArtifactUpload e st d q (awRows w)) = awRows w"
    | run job pipeline project ps where "snd (RequestArtifactUpload e st d q (awRows w)) =
        snd (InsertPendingArtifactsBatch (uaNow e) (upload_rows e run job pipeline project ps) (awRows w))"
    using request_rows by blast
  then show thesis
  proof cases
    case 1
    with none assms(2) show thesis by (intro that [of "{}" "{}"]) simp_all
  next
    case (2 run job pipeline project ps)
    let ?ps = "upload_rows e run job pipeline project ps"
    obtain res rows1 where l: "insert_loop (uaNow e) ?ps (awRows w) = (res, rows1)" by (rule prod.exhaust)
    note draws = upload_rows_draws [OF assms(1), of run job pipeline project ps]
    have g: "rows_sound rows1 \<and> grown (fst ` set ?ps) (ipStorageKey ` snd ` set ?ps) (awRows w) rows1"
      by (rule insert_loop_grown [OF l assms(2) draws(1)]) (use draws(2) in \<open>auto simp: new_draws_def\<close>)
    have "snd (InsertPendingArtifactsBatch (uaNow e) ?ps (awRows w)) = (case res of Inl _ \<Rightarrow> awRows w | Inr _ \<Rightarrow> rows1)"
      by (simp add: InsertPendingArtifactsBatch_def l split: sum.split)
    then show thesis
      using 2 g none draws(2) assms(2)
      by (cases res) (auto intro: that [of "{}" "{}"] that [of "fst ` set ?ps" "ipStorageKey ` snd ` set ?ps"])
  qed
qed

section \<open>Preservation\<close>

lemma inv_rows:
  assumes inv: "artifact_inv once digest w" and sound: "rows_sound rows"
    and origin: "\<And>b. b \<in> set rows \<Longrightarrow> (\<exists>a\<in>set (awRows w). art_calm a b) \<or>
      afStatus b = ArtifactPending \<and> afID b \<notin> fst ` set (awClaims w)
        \<and> afStorageKey b \<notin> snd ` set (awClaims w) \<union> fst ` set (awSeen w)"
  shows "artifact_inv once digest (w\<lparr>awRows := rows\<rparr>)"
proof -
  have claims: "claimed_ok rows c" if c: "c \<in> set (awClaims w)" for c
    unfolding claimed_ok_def
  proof (intro ballI impI)
    fix b assume b: "b \<in> set rows" "afID b = fst c \<or> afStorageKey b = snd c"
    with origin [OF b(1)] c obtain a where a: "a \<in> set (awRows w)" "art_calm a b" by auto
    note k = same_artifactD [OF art_calmD [OF a(2)]]
    have "afID a = fst c \<and> afStorageKey a = snd c \<and> afStatus a = ArtifactDeleting"
      using inv c a(1) b(2) k unfolding artifact_inv_def claimed_ok_def by metis
    then show "afID b = fst c \<and> afStorageKey b = snd c \<and> afStatus b = ArtifactDeleting"
      using k art_calmD [OF a(2)] by (cases "afStatus b") (auto simp: art_evo_def)
  qed
  have seen: "seen_ok once digest (awObjects w) rows c" if c: "c \<in> set (awSeen w)" for c
    unfolding seen_ok_def
  proof (intro ballI impI)
    fix b assume b: "b \<in> set rows" "afStorageKey b = fst c \<and> afStatus b = ArtifactPending"
    with origin [OF b(1)] c obtain a where a: "a \<in> set (awRows w)" "art_calm a b" by auto
    have "afStatus a = ArtifactPending" using art_calmD [OF a(2)] b(2)
      by (cases "afStatus a") (auto simp: art_evo_def)
    moreover have "afStorageKey a = fst c" using same_artifactD [OF art_calmD [OF a(2)]] b(2) by simp
    ultimately show "awObjects w (fst c) \<noteq> None \<and> (once \<longrightarrow> InspectObject digest (awObjects w) (fst c) = Some (snd c))"
      using inv c a(1) unfolding artifact_inv_def seen_ok_def by blast
  qed
  have "stored once digest (awObjects w) b" if b: "b \<in> set rows" "afStatus b = ArtifactReady" for b
  proof -
    from origin [OF b(1)] b(2) obtain a where a: "a \<in> set (awRows w)" "art_calm a b" by auto
    then have r: "afStatus a = ArtifactReady" using b(2) by (simp add: art_calm_def)
    then have "stored once digest (awObjects w) a" using inv a(1) by (simp add: artifact_inv_def)
    then show ?thesis using art_calmD [OF a(2)] r
      by (auto simp: stored_def art_evo_def same_artifact_def)
  qed
  with claims seen sound show ?thesis by (simp add: artifact_inv_def)
qed

lemma inv_calm:
  assumes "artifact_inv once digest w" and "rows_calm (awRows w) rows"
  shows "artifact_inv once digest (w\<lparr>awRows := rows\<rparr>)"
  using rows_sound_evo [OF _ rows_calm_evo [OF assms(2)]] rows_calm_back [OF assms(2)] assms(1)
  by (intro inv_rows) (auto simp: artifact_inv_def)

text \<open>A row that goes on in the next state evolves; ids and claims are never reused.\<close>

definition follows :: "artifact_world \<Rightarrow> artifact_world \<Rightarrow> bool" where
  "follows w w' =
     ((\<forall>b\<in>set (awRows w'). (\<exists>a\<in>set (awRows w). art_evo a b) \<or> afID b \<notin> afID ` set (awRows w) \<union> fst ` set (awClaims w))
      \<and> (\<forall>a\<in>set (awRows w). (\<exists>b\<in>set (awRows w'). art_evo a b) \<or> afID a \<in> fst ` set (awClaims w'))
      \<and> set (awClaims w) \<subseteq> set (awClaims w'))"

lemma follows_evo:
  assumes "rows_evo (awRows w) rows" and "awRows w' = rows" and "set (awClaims w) \<subseteq> set (awClaims w')"
  shows "follows w w'"
  unfolding follows_def using assms rows_evo_back [OF assms(1)] rows_evo_forth [OF assms(1)] by auto

lemma follows_same: "awRows w' = awRows w \<Longrightarrow> awClaims w' = awClaims w \<Longrightarrow> follows w w'"
  by (rule follows_evo [of w "awRows w"]) simp_all

lemma follows_calm: "rows_calm (awRows w) rows \<Longrightarrow> follows w (w\<lparr>awRows := rows\<rparr>)"
  by (rule follows_evo [OF rows_calm_evo]) simp_all

lemma inv_request:
  assumes "artifact_inv once digest w" and "fresh_draws e w"
    and "w' = w\<lparr>awRows := snd (RequestArtifactUpload e st d q (awRows w))\<rparr>"
  shows "artifact_inv once digest w'" and "follows w w'"
proof -
  obtain ids keys where g: "rows_sound (awRows w')" "grown ids keys (awRows w) (awRows w')" "new_draws w ids keys"
    by (rule request_grown [OF assms(2), of st d q]) (use assms(1,3) in \<open>auto simp: artifact_inv_def\<close>)
  have new: "(\<exists>a\<in>set (awRows w). art_calm a b) \<or>
      afStatus b = ArtifactPending \<and> afID b \<notin> afID ` set (awRows w) \<union> fst ` set (awClaims w)
        \<and> afStorageKey b \<notin> snd ` set (awClaims w) \<union> fst ` set (awSeen w)" if "b \<in> set (awRows w')" for b
    using g(2) that g(3) unfolding grown_def new_draws_def by metis
  have "artifact_inv once digest (w\<lparr>awRows := awRows w'\<rparr>)"
  proof (rule inv_rows [OF assms(1) g(1)])
    fix b assume "b \<in> set (awRows w')"
    from new [OF this] show "(\<exists>a\<in>set (awRows w). art_calm a b) \<or>
      afStatus b = ArtifactPending \<and> afID b \<notin> fst ` set (awClaims w)
        \<and> afStorageKey b \<notin> snd ` set (awClaims w) \<union> fst ` set (awSeen w)" by blast
  qed
  then show "artifact_inv once digest w'" by (simp add: assms(3))
  have "\<forall>a\<in>set (awRows w). \<exists>b\<in>set (awRows w'). art_evo a b" using g(2) by (simp add: grown_def)
  then show "follows w w'" using new art_calmD unfolding follows_def by (simp add: assms(3)) blast
qed

lemma inv_confirm:
  assumes inv: "artifact_inv once digest w" and seen: "(key, info) \<in> set (awSeen w)"
  shows "artifact_inv once digest (w\<lparr>awRows := snd (MarkArtifactReady key (oiSize info)
      (oiContentSHA256 info) (oiContentType info) (awRows w))\<rparr>)" (is "artifact_inv once digest (w\<lparr>awRows := ?rows\<rparr>)")
proof -
  note evo = mark_evo [of "awRows w" key "oiSize info" "oiContentSHA256 info" "oiContentType info"]
  have sound: "rows_sound ?rows" using rows_sound_evo [OF _ evo] inv by (simp add: artifact_inv_def)
  have row: "(b \<in> set (awRows w) \<and> \<not> (afStorageKey b = key \<and> afStatus b = ArtifactPending)) \<or>
      (afStatus b = ArtifactReady \<and> (\<exists>a\<in>set (awRows w). afStatus a = ArtifactPending \<and> afStorageKey a = key
         \<and> afID b = afID a \<and> afStorageKey b = key
         \<and> afSizeBytes b = oiSize info \<and> afContentSHA256 b = oiContentSHA256 info
         \<and> (oiContentType info \<noteq> [] \<longrightarrow> afContentType b = oiContentType info)))"
    if "b \<in> set ?rows" for b
    using that by (auto simp: MarkArtifactReady_def Let_def set_upd_where)
  have "claimed_ok ?rows c" if "c \<in> set (awClaims w)" for c
    unfolding claimed_ok_def
  proof (intro ballI impI)
    fix b assume b: "b \<in> set ?rows" and k: "afID b = fst c \<or> afStorageKey b = snd c"
    from inv that have ok: "claimed_ok (awRows w) c" by (simp add: artifact_inv_def)
    from row [OF b] show "afID b = fst c \<and> afStorageKey b = snd c \<and> afStatus b = ArtifactDeleting"
    proof
      assume "b \<in> set (awRows w) \<and> \<not> (afStorageKey b = key \<and> afStatus b = ArtifactPending)"
      with ok k show ?thesis unfolding claimed_ok_def by blast
    next
      assume "afStatus b = ArtifactReady \<and> (\<exists>a\<in>set (awRows w). afStatus a = ArtifactPending \<and> afStorageKey a = key
         \<and> afID b = afID a \<and> afStorageKey b = key
         \<and> afSizeBytes b = oiSize info \<and> afContentSHA256 b = oiContentSHA256 info
         \<and> (oiContentType info \<noteq> [] \<longrightarrow> afContentType b = oiContentType info))"
      then obtain a where "a \<in> set (awRows w)" "afStatus a = ArtifactPending" "afID a = fst c \<or> afStorageKey a = snd c"
        using k by metis
      with ok have "afStatus a = ArtifactDeleting" unfolding claimed_ok_def by blast
      with \<open>afStatus a = ArtifactPending\<close> show ?thesis by simp
    qed
  qed
  moreover have "seen_ok once digest (awObjects w) ?rows c" if "c \<in> set (awSeen w)" for c
    using inv that row by (fastforce simp: artifact_inv_def seen_ok_def)
  moreover have "stored once digest (awObjects w) b" if b: "b \<in> set ?rows" "afStatus b = ArtifactReady" for b
    using row [OF b(1)]
  proof
    assume "b \<in> set (awRows w) \<and> \<not> (afStorageKey b = key \<and> afStatus b = ArtifactPending)"
    with inv b(2) show ?thesis by (simp add: artifact_inv_def)
  next
    assume "afStatus b = ArtifactReady \<and> (\<exists>a\<in>set (awRows w). afStatus a = ArtifactPending \<and> afStorageKey a = key
         \<and> afID b = afID a \<and> afStorageKey b = key
         \<and> afSizeBytes b = oiSize info \<and> afContentSHA256 b = oiContentSHA256 info
         \<and> (oiContentType info \<noteq> [] \<longrightarrow> afContentType b = oiContentType info))"
    then obtain a where a: "a \<in> set (awRows w)" "afStatus a = ArtifactPending" "afStorageKey a = key"
      and b': "afStorageKey b = key" "afSizeBytes b = oiSize info" "afContentSHA256 b = oiContentSHA256 info"
        "oiContentType info \<noteq> [] \<longrightarrow> afContentType b = oiContentType info" by blast
    have ok: "awObjects w key \<noteq> None" "once \<longrightarrow> InspectObject digest (awObjects w) key = Some info"
      using inv seen a unfolding artifact_inv_def seen_ok_def by (metis fst_conv snd_conv)+
    then obtain bytes where o: "awObjects w key = Some bytes" by blast
    have "once \<longrightarrow> info = \<lparr>oiSize = int (length bytes), oiContentSHA256 = digest bytes,
        oiContentType = detectContentType (take 4 bytes)\<rparr>"
      using ok(2) o by (auto simp: InspectObject_def)
    moreover have "detectContentType (take 4 bytes) \<noteq> []" by (simp add: detectContentType_def)
    ultimately show ?thesis unfolding stored_def using b' o by (intro exI [of _ bytes]) auto
  qed
  ultimately show ?thesis using sound by (simp add: artifact_inv_def)
qed

lemma inv_claim:
  assumes inv: "artifact_inv once digest w" and ord: "sorts ord"
    and claim: "ClaimArtifactsForSweep ord locked limit grace now (awRows w) = (batch, rows)"
  shows "artifact_inv once digest
      (w\<lparr>awRows := rows, awClaims := map (\<lambda>a. (afID a, afStorageKey a)) batch @ awClaims w\<rparr>)"
proof -
  have calm: "rows_calm (awRows w) rows" using calm_updates(4) [of "awRows w"] claim by (metis snd_conv)
  have i: "artifact_inv once digest (w\<lparr>awRows := rows\<rparr>)" by (rule inv_calm [OF inv calm])
  have "claimed_ok rows (afID x, afStorageKey x)" if "x \<in> set batch" for x
    unfolding claimed_ok_def
  proof (intro ballI impI)
    fix b assume b: "b \<in> set rows" "afID b = fst (afID x, afStorageKey x) \<or> afStorageKey b = snd (afID x, afStorageKey x)"
    let ?cand = "take limit (ord sweep_order (filter (\<lambda>a. sweepable now grace a \<and> \<not> locked (afID a)) (awRows w)))"
    from claim have batch: "batch = map (\<lambda>a. a\<lparr>afStatus := ArtifactDeleting, afDeletedAt := Some now\<rparr>) ?cand"
      and rows: "rows = upd_where (\<lambda>a. afID a \<in> afID ` set ?cand)
        (\<lambda>a. a\<lparr>afStatus := ArtifactDeleting, afDeletedAt := Some now\<rparr>) (awRows w)"
      by (auto simp: ClaimArtifactsForSweep_def Let_def)
    from that batch obtain y where y: "y \<in> set ?cand" "afID x = afID y" "afStorageKey x = afStorageKey y" by auto
    then have yw: "y \<in> set (awRows w)" using ord by (auto dest!: in_set_takeD)
    obtain a where a: "a \<in> set (awRows w)" "afID b = afID a" "afStorageKey b = afStorageKey a"
      and b': "afID a \<in> afID ` set ?cand \<Longrightarrow> afStatus b = ArtifactDeleting"
      using b(1) rows by (auto simp: set_upd_where)
    have "a = y" using b(2) a yw y(2,3) inv
      by (auto simp: artifact_inv_def rows_sound_def distinct_map inj_on_def)
    then show "afID b = fst (afID x, afStorageKey x) \<and> afStorageKey b = snd (afID x, afStorageKey x) \<and> afStatus b = ArtifactDeleting"
      using a y b' by simp
  qed
  with i show ?thesis by (auto simp: artifact_inv_def)
qed

lemma inv_upload:
  assumes inv: "artifact_inv once digest w" and free: "once \<longrightarrow> awObjects w key = None"
  shows "artifact_inv once digest (w\<lparr>awObjects := (awObjects w)(key \<mapsto> bytes)\<rparr>)"
proof -
  let ?o = "(awObjects w)(key \<mapsto> bytes)"
  have "seen_ok once digest ?o (awRows w) c" if "c \<in> set (awSeen w)" for c
  proof -
    from inv that have "seen_ok once digest (awObjects w) (awRows w) c" by (simp add: artifact_inv_def)
    then show ?thesis using free
      by (cases "fst c = key") (auto simp: seen_ok_def InspectObject_def)
  qed
  moreover have "stored once digest ?o a" if "a \<in> set (awRows w)" "afStatus a = ArtifactReady" for a
  proof -
    from inv that have "stored once digest (awObjects w) a" by (simp add: artifact_inv_def)
    then show ?thesis using free by (cases "afStorageKey a = key") (auto simp: stored_def)
  qed
  ultimately show ?thesis using inv by (simp add: artifact_inv_def)
qed

lemma inv_inspect:
  assumes "artifact_inv once digest w" and "InspectObject digest (awObjects w) key = Some info"
  shows "artifact_inv once digest (w\<lparr>awSeen := (key, info) # awSeen w\<rparr>)"
  using assms by (auto simp: artifact_inv_def seen_ok_def InspectObject_def)

lemma inv_delete_object:
  assumes inv: "artifact_inv once digest w" and claim: "(i, key) \<in> set (awClaims w)"
  shows "artifact_inv once digest (w\<lparr>awObjects := (awObjects w)(key := None)\<rparr>)"
proof -
  have gone: "afStatus a = ArtifactDeleting" if "a \<in> set (awRows w)" "afStorageKey a = key" for a
    using inv claim that unfolding artifact_inv_def claimed_ok_def by (metis snd_conv)
  have "seen_ok once digest ((awObjects w)(key := None)) (awRows w) c" if "c \<in> set (awSeen w)" for c
  proof -
    from inv that have "seen_ok once digest (awObjects w) (awRows w) c" by (simp add: artifact_inv_def)
    moreover have "afStatus a \<noteq> ArtifactPending" if "a \<in> set (awRows w)" "afStorageKey a = key" for a
      using gone [OF that] by simp
    ultimately show ?thesis unfolding seen_ok_def InspectObject_def
      by (cases "fst c = key") (simp_all, blast?)
  qed
  moreover have "stored once digest ((awObjects w)(key := None)) a"
    if "a \<in> set (awRows w)" "afStatus a = ArtifactReady" for a
  proof -
    from inv that have "stored once digest (awObjects w) a" by (simp add: artifact_inv_def)
    then show ?thesis using gone [OF that(1)] that(2) by (auto simp: stored_def)
  qed
  ultimately show ?thesis using inv by (simp add: artifact_inv_def)
qed

lemma inv_remove_row:
  assumes "artifact_inv once digest w"
  shows "artifact_inv once digest (w\<lparr>awRows := RemoveArtifactRow i (awRows w)\<rparr>)"
proof (rule inv_rows [OF assms])
  show "rows_sound (RemoveArtifactRow i (awRows w))"
    using assms unfolding artifact_inv_def rows_sound_def RemoveArtifactRow_def by (simp add: distinct_map_filter)
  show "b \<in> set (RemoveArtifactRow i (awRows w)) \<Longrightarrow> (\<exists>a\<in>set (awRows w). art_calm a b) \<or>
      afStatus b = ArtifactPending \<and> afID b \<notin> fst ` set (awClaims w)
        \<and> afStorageKey b \<notin> snd ` set (awClaims w) \<union> fst ` set (awSeen w)" for b
    unfolding RemoveArtifactRow_def by (auto intro: bexI [of _ b])
qed

lemma artifact_inv_step:
  assumes "artifact_inv once digest w" and "artifact_step once digest w w'"
  shows "artifact_inv once digest w' \<and> follows w w'"
  using assms(2)
proof cases
  case (request e st d q)
  show ?thesis using inv_request [OF assms(1) request(2,1)] by simp
next
  case (confirm key info)
  show ?thesis unfolding confirm(1)
    by (intro conjI inv_confirm [OF assms(1) confirm(2)] follows_evo [OF mark_evo]) simp_all
next
  case (claim ord locked limit grace now batch rows)
  have "rows_evo (awRows w) rows"
    using rows_calm_evo [OF calm_updates(4) [of "awRows w" ord locked limit grace now]] claim(3) by simp
  then show ?thesis unfolding claim(1)
    by (intro conjI inv_claim [OF assms(1) claim(2,3)] follows_evo) simp_all
next
  case (remove_row i key)
  then have "i \<in> fst ` set (awClaims w)" by force
  then have "follows w w'" unfolding follows_def remove_row(1)
    by (auto simp: RemoveArtifactRow_def) (use art_evo_refl in blast)+
  then show ?thesis using inv_remove_row [OF assms(1)] remove_row(1) by simp
next
  case (upload key bytes)
  then show ?thesis using inv_upload [OF assms(1)] by (simp add: follows_same)
next
  case (inspect key info)
  then show ?thesis using inv_inspect [OF assms(1)] by (simp add: follows_same)
next
  case (delete_object i key)
  then show ?thesis using inv_delete_object [OF assms(1)] by (simp add: follows_same)
next
  case (retire job now)
  show ?thesis unfolding retire(1) by (intro conjI inv_calm [OF assms(1)] follows_calm calm_updates)
next
  case (keep_last ord run_created n now)
  show ?thesis unfolding keep_last(1) by (intro conjI inv_calm [OF assms(1)] follows_calm calm_updates)
next
  case (expire ord sel excess now)
  show ?thesis unfolding expire(1) by (intro conjI inv_calm [OF assms(1)] follows_calm calm_updates)
qed

lemma artifact_inv_init: "artifact_init w \<Longrightarrow> artifact_inv once digest w"
  by (simp add: artifact_init_def artifact_inv_def rows_sound_def)

interpretation artifact_system: invariant_system artifact_init "artifact_step once digest" "artifact_inv once digest"
  for once digest
  by unfold_locales (auto intro: artifact_inv_init dest: artifact_inv_step)

section \<open>Properties\<close>

text \<open>
  C27: what can be downloaded is there, and is what the server has read. In every state the
  system reaches, an artifact offered to downstream jobs has its object in the backend; and when
  signatures are write-once, size, digest and codec of the row are those of that object. This
  holds under every interleaving of uploads, confirmations, reclaims and sweepers.
\<close>

theorem downloads_verified:
  assumes "artifact_init w0" and "(artifact_step once digest)\<^sup>*\<^sup>* w0 w"
    and "a \<in> set (ListReadyArtifactsByRunAndJob d run name paths (awRows w))"
  shows "\<exists>bytes. awObjects w (afStorageKey a) = Some bytes \<and>
    (once \<longrightarrow> afSizeBytes a = int (length bytes) \<and> afContentSHA256 a = digest bytes
       \<and> afContentType a = detectContentType (take 4 bytes))"
proof -
  have "artifact_inv once digest w" by (rule artifact_system.inv_reachable [OF assms(1,2)])
  moreover have "a \<in> set (awRows w)" and "afStatus a = ArtifactReady"
    using assms(3) by (auto simp: ListReadyArtifactsByRunAndJob_def Let_def)
  ultimately show ?thesis by (simp add: artifact_inv_def stored_def)
qed

text \<open>
  The artifact table stays sound. Storage keys are never shared, a job has at most one
  active row per path, and a row counts as deleted exactly when it is being deleted; so a
  retried job can upload its paths again, and no upload lands on another artifact's object.
\<close>

theorem artifact_rows_sound:
  assumes "artifact_init w0" and "(artifact_step once digest)\<^sup>*\<^sup>* w0 w"
    and "a \<in> set (awRows w)" and "b \<in> set (awRows w)"
  shows "(afStorageKey a = afStorageKey b \<longrightarrow> a = b) \<and>
    (active_at job path a \<and> active_at job path b \<longrightarrow> a = b) \<and>
    (afStatus a = ArtifactDeleting \<longleftrightarrow> afDeletedAt a \<noteq> None)"
proof -
  have sound: "rows_sound (awRows w)"
    using artifact_system.inv_reachable [OF assms(1,2)] by (simp add: artifact_inv_def)
  then have ids: "inj_on afID (set (awRows w))" and keys: "inj_on afStorageKey (set (awRows w))"
    by (simp_all add: rows_sound_def distinct_map)
  have "afID a = afID b" if "active_at job path a \<and> active_at job path b"
  proof -
    from that have "active_at (afJobRunID a) (afPath a) a" "active_at (afJobRunID a) (afPath a) b"
      by (simp_all add: active_at_def)
    with sound assms(3,4) show ?thesis unfolding rows_sound_def by blast
  qed
  then show ?thesis
    using ids keys assms(3,4) sound unfolding rows_sound_def by (meson inj_onD)
qed

lemma same_id:
  assumes "artifact_inv once digest w" and "a \<in> set (awRows w)" and "b \<in> set (awRows w)" and "afID a = afID b"
  shows "a = b"
proof -
  have "inj_on afID (set (awRows w))" using assms(1) by (simp add: artifact_inv_def rows_sound_def distinct_map)
  then show ?thesis using assms(4,2,3) by (rule inj_onD)
qed

definition lives_on :: "Artifact \<Rightarrow> artifact_world \<Rightarrow> bool" where
  "lives_on a w =
     ((\<exists>b\<in>set (awRows w). art_evo a b) \<or> afID a \<in> fst ` set (awClaims w) \<and> afID a \<notin> afID ` set (awRows w))"

lemma follows_back:
  "follows w w' \<Longrightarrow> c \<in> set (awRows w') \<Longrightarrow> afID c \<in> afID ` set (awRows w) \<union> fst ` set (awClaims w) \<Longrightarrow>
     \<exists>d\<in>set (awRows w). art_evo d c"
  unfolding follows_def by blast

lemma lives_on_step:
  assumes "artifact_inv once digest w" and "artifact_step once digest w w'" and "lives_on a w"
  shows "lives_on a w'"
proof -
  have f: "follows w w'" and inv: "artifact_inv once digest w'" using artifact_inv_step [OF assms(1,2)] by auto
  from assms(3) consider b where "b \<in> set (awRows w)" "art_evo a b"
    | "afID a \<in> fst ` set (awClaims w)" "afID a \<notin> afID ` set (awRows w)" by (auto simp: lives_on_def)
  then show ?thesis
  proof cases
    case (1 b)
    show ?thesis
    proof (cases "\<exists>c\<in>set (awRows w'). art_evo b c")
      case True
      with 1 show ?thesis by (auto simp: lives_on_def intro: art_evo_trans)
    next
      case False
      then have "afID b \<in> fst ` set (awClaims w')" using f 1(1) unfolding follows_def by blast
      moreover have "afID b \<notin> afID ` set (awRows w')"
      proof
        assume "afID b \<in> afID ` set (awRows w')"
        then obtain c where c: "c \<in> set (awRows w')" "afID c = afID b" by auto
        with 1(1) have "afID c \<in> afID ` set (awRows w) \<union> fst ` set (awClaims w)" by simp
        with follows_back [OF f c(1)] obtain d where d: "d \<in> set (awRows w)" "art_evo d c" by blast
        then have "afID d = afID b" using same_artifactD [OF d(2)] c(2) by simp
        then have "d = b" by (rule same_id [OF assms(1) d(1) 1(1)])
        with d(2) c(1) False show False by blast
      qed
      ultimately show ?thesis using same_artifactD [OF 1(2)] by (simp add: lives_on_def)
    qed
  next
    case 2
    have "afID c \<noteq> afID a" if "c \<in> set (awRows w')" for c
    proof
      assume eq: "afID c = afID a"
      with 2(1) have "afID c \<in> afID ` set (awRows w) \<union> fst ` set (awClaims w)" by simp
      with follows_back [OF f that] obtain d where d: "d \<in> set (awRows w)" "art_evo d c" by blast
      then have "afID d = afID a" using same_artifactD [OF d(2)] eq by simp
      with d(1) 2(2) show False by (metis imageI)
    qed
    moreover have "afID a \<in> fst ` set (awClaims w')" using f 2(1) by (auto simp: follows_def)
    ultimately show ?thesis by (auto simp: lives_on_def)
  qed
qed

lemma lives_on_steps:
  "(artifact_step once digest)\<^sup>*\<^sup>* w w' \<Longrightarrow> artifact_inv once digest w \<Longrightarrow> lives_on a w \<Longrightarrow>
     artifact_inv once digest w' \<and> lives_on a w'"
  by (induction rule: rtranclp_induct) (auto dest: lives_on_step artifact_inv_step)

text \<open>
  A finalized artifact is final. Once a row has left the pending state, whatever happens
  later (reissued tickets, second confirmations, retries, sweeps), it either keeps its key, path,
  size, digest and codec or is gone for good, and the only state it can move to is deletion.
\<close>

theorem ready_artifact_final:
  assumes "artifact_init w0" and "(artifact_step once digest)\<^sup>*\<^sup>* w0 w" and "a \<in> set (awRows w)"
    and "afStatus a \<noteq> ArtifactPending"
    and "(artifact_step once digest)\<^sup>*\<^sup>* w w'" and "b \<in> set (awRows w')" and "afID b = afID a"
  shows "afStorageKey b = afStorageKey a \<and> afJobRunID b = afJobRunID a \<and> afPath b = afPath a \<and>
    afSizeBytes b = afSizeBytes a \<and> afContentSHA256 b = afContentSHA256 a \<and> afContentType b = afContentType a \<and>
    afStatus b \<in> {afStatus a, ArtifactDeleting}"
proof -
  have inv: "artifact_inv once digest w" by (rule artifact_system.inv_reachable [OF assms(1,2)])
  have "lives_on a w" using assms(3) by (auto simp: lives_on_def intro: bexI [of _ a])
  with lives_on_steps [OF assms(5) inv] have w': "artifact_inv once digest w'" "lives_on a w'" by auto
  then obtain c where c: "c \<in> set (awRows w')" "art_evo a c" using assms(6,7) by (auto simp: lives_on_def)
  have "afID c = afID b" using same_artifactD [OF c(2)] assms(7) by simp
  then have "c = b" by (rule same_id [OF w'(1) c(1) assms(6)])
  with c(2) assms(4) show ?thesis
    by (cases "afStatus a"; cases "afStatus b") (auto simp: art_evo_def same_artifact_def)
qed

section \<open>Witnesses\<close>

text \<open>One ticket, one upload, a confirmed artifact, and the retry that retires it.\<close>

definition ex_sessions :: SessionStore where
  "ex_sessions = NewSessionStore\<lparr>stHeap := [new_session ''s'' 7 [] 1 1 []], stByID := [''s'' \<mapsto> 0]\<rparr>"

definition ex_upload :: upload_env where
  "ex_upload = \<lparr>uaBackend = True, uaParse = (\<lambda>s. Some (if s = ''r'' then 1 else 100)), uaShow = (\<lambda>_. ''u''),
     uaProjectOf = (\<lambda>_. Some 6), uaFresh = (\<lambda>i. (Suc i, replicate i (CHR ''x''))), uaSign = Some,
     uaNow = 10, uaRetention = 1000\<rparr>"

definition ex_request :: RequestArtifactUploadRequest where
  "ex_request = \<lparr>ruSessionID = ''s'', ruRunID = ''r'', ruJobID = ''j'', ruPaths = [''dist/'', ''dist'']\<rparr>"

definition ex_digest :: "nat list \<Rightarrow> string" where
  "ex_digest bytes = replicate (length bytes) (CHR ''d'')"

definition ex_key :: string where "ex_key = ''run/u/job/u/''"

definition ex_info :: ObjectInfo where
  "ex_info = \<lparr>oiSize = 2, oiContentSHA256 = ''dd'', oiContentType = ''application/gzip''\<rparr>"

definition ex_empty :: artifact_world where
  "ex_empty = \<lparr>awRows = [], awObjects = (\<lambda>_. None), awClaims = [], awSeen = []\<rparr>"

definition ex_issued :: artifact_world where
  "ex_issued = ex_empty\<lparr>awRows := snd (RequestArtifactUpload ex_upload ex_sessions (rvDB ex_mid) ex_request (awRows ex_empty))\<rparr>"

definition ex_uploaded :: artifact_world where
  "ex_uploaded = ex_issued\<lparr>awObjects := (awObjects ex_issued)(ex_key \<mapsto> [31, 139])\<rparr>"

definition ex_read :: artifact_world where
  "ex_read = ex_uploaded\<lparr>awSeen := (ex_key, ex_info) # awSeen ex_uploaded\<rparr>"

definition ex_finalized :: artifact_world where
  "ex_finalized = ex_read\<lparr>awRows := snd (MarkArtifactReady ex_key (oiSize ex_info) (oiContentSHA256 ex_info)
     (oiContentType ex_info) (awRows ex_read))\<rparr>"

definition ex_retired :: artifact_world where
  "ex_retired = ex_finalized\<lparr>awRows := RetireArtifactsByJobRun 100 50 (awRows ex_finalized)\<rparr>"

lemma ex_finalized_reached: "(artifact_step True ex_digest)\<^sup>*\<^sup>* ex_empty ex_finalized"
proof -
  have "fresh_draws ex_upload ex_empty" by (simp add: fresh_draws_def ex_upload_def ex_empty_def inj_def)
  then have "artifact_step True ex_digest ex_empty ex_issued" unfolding ex_issued_def by (rule artifact_step.request)
  moreover have "artifact_step True ex_digest ex_issued ex_uploaded" unfolding ex_uploaded_def
    by (rule artifact_step.upload) (simp add: ex_issued_def ex_empty_def)
  moreover have "artifact_step True ex_digest ex_uploaded ex_read" unfolding ex_read_def
    by (rule artifact_step.inspect) (simp add: ex_uploaded_def InspectObject_def ex_info_def ex_digest_def
      detectContentType_def numeral_2_eq_2)
  moreover have "artifact_step True ex_digest ex_read ex_finalized" unfolding ex_finalized_def
    by (rule artifact_step.confirm) (simp add: ex_read_def)
  ultimately show ?thesis by (meson converse_rtranclp_into_rtranclp rtranclp.rtrancl_refl)
qed

lemma ex_retired_reached: "(artifact_step True ex_digest)\<^sup>*\<^sup>* ex_finalized ex_retired"
  unfolding ex_retired_def by (rule r_into_rtranclp) (rule artifact_step.retire)

definition ex_artifact :: Artifact where "ex_artifact = hd (awRows ex_finalized)"

lemma ex_empty_init: "artifact_init ex_empty"
  by (simp add: artifact_init_def ex_empty_def)

lemma ex_artifact_rows:
  "ListReadyArtifactsByRunAndJob (rvDB ex_mid) 1 ''compile'' [''dist//''] (awRows ex_finalized) = [ex_artifact]"
  "awRows ex_finalized = [ex_artifact]" "afStatus ex_artifact = ArtifactReady" "afStorageKey ex_artifact = ex_key"
  "map afID (awRows ex_retired) = [afID ex_artifact]" "map afStatus (awRows ex_retired) = [ArtifactDeleting]"
  by code_simp+

theorem downloads_verified_witness:
  "\<exists>bytes. awObjects ex_finalized ex_key = Some bytes \<and> afSizeBytes ex_artifact = int (length bytes)
     \<and> afContentSHA256 ex_artifact = ex_digest bytes"
proof -
  have "ex_artifact \<in> set (ListReadyArtifactsByRunAndJob (rvDB ex_mid) 1 ''compile'' [''dist//''] (awRows ex_finalized))"
    by (subst ex_artifact_rows(1)) simp
  from downloads_verified [OF ex_empty_init ex_finalized_reached this] show ?thesis
    by (auto simp: ex_artifact_rows)
qed

theorem artifact_rows_sound_witness:
  "active_at 100 ''dist'' ex_artifact \<and> (afStatus ex_artifact = ArtifactDeleting \<longleftrightarrow> afDeletedAt ex_artifact \<noteq> None)"
proof -
  have "active_at 100 ''dist'' ex_artifact" by code_simp
  with artifact_rows_sound [OF ex_empty_init ex_finalized_reached, of ex_artifact ex_artifact] show ?thesis by (simp add: ex_artifact_rows)
qed

theorem ready_artifact_final_witness:
  "afContentSHA256 (hd (awRows ex_retired)) = ''dd'' \<and> afStatus (hd (awRows ex_retired)) = ArtifactDeleting"
proof -
  obtain b where b: "awRows ex_retired = [b]" "afID b = afID ex_artifact" "afStatus b = ArtifactDeleting"
    using ex_artifact_rows(5,6) by (cases "awRows ex_retired") auto
  have "afContentSHA256 ex_artifact = ''dd''" by code_simp
  with ready_artifact_final [OF ex_empty_init ex_finalized_reached _ _ ex_retired_reached, of ex_artifact b] b
  show ?thesis by (simp add: ex_artifact_rows)
qed

end
