(* ===== verification/ArtifactRules.thy ===== *)
theory ArtifactRules
  imports ArtifactLife GoStrings
begin

text \<open>
  What single operations on artifacts do: upload tickets, the confirmation of a result, the
  demotion layers and the sweep of \<open>Artifacts\<close>, each against a declarative reading.
\<close>

section \<open>Demotion\<close>

lemma demoted_take:
  assumes "\<And>a. a \<in> set xs \<Longrightarrow> 0 \<le> afSizeBytes a"
  shows "\<exists>m\<le>length xs. demoted_ids excess c xs = map afID (take m xs)
    \<and> (\<forall>i<m. c + sum_list (map afSizeBytes (take i xs)) < excess)
    \<and> (m < length xs \<longrightarrow> excess \<le> c + sum_list (map afSizeBytes (take m xs)))"
  using assms
proof (induction xs arbitrary: c)
  case (Cons a xs)
  obtain m where m: "m \<le> length xs" "demoted_ids excess (c + afSizeBytes a) xs = map afID (take m xs)"
    "\<forall>i<m. c + afSizeBytes a + sum_list (map afSizeBytes (take i xs)) < excess"
    "m < length xs \<longrightarrow> excess \<le> c + afSizeBytes a + sum_list (map afSizeBytes (take m xs))"
    using Cons.IH [of "c + afSizeBytes a"] Cons.prems by auto
  show ?case
  proof (cases "c < excess")
    case True
    have "c + sum_list (map afSizeBytes (take i (a # xs))) < excess" if "i < Suc m" for i
      using that True m(3) by (cases i) (auto simp: add.assoc)
    with True m show ?thesis by (intro exI [of _ "Suc m"]) (auto simp: add.assoc)
  next
    case False
    have "m = 0"
    proof (rule ccontr)
      assume "m \<noteq> 0"
      with m(3) have "c + afSizeBytes a < excess" by (metis add.right_neutral gr0I list.simps(8) sum_list.Nil take0)
      with False Cons.prems [of a] show False by simp
    qed
    with False m(2) show ?thesis by (intro exI [of _ 0]) auto
  qed
qed simp

lemma sum_filter_split:
  "sum_list (map f (filter P xs)) = sum_list (map f (filter (\<lambda>a. P a \<and> Q a) xs)) + sum_list (map f (filter (\<lambda>a. P a \<and> \<not> Q a) xs))"
  for f :: "'a \<Rightarrow> int"
  by (induction xs) auto

lemma sum_mset_list: "mset xs = mset ys \<Longrightarrow> sum_list (map f xs) = sum_list (map f ys)" for f :: "'a \<Rightarrow> int"
  by (metis mset_map sum_mset_sum_list)

lemma sum_filter_mono:
  fixes f :: "'a \<Rightarrow> int"
  assumes "\<And>x. x \<in> set xs \<Longrightarrow> P x \<Longrightarrow> Q x" and "\<And>x. x \<in> set xs \<Longrightarrow> 0 \<le> f x"
  shows "sum_list (map f (filter P xs)) \<le> sum_list (map f (filter Q xs))"
  using assms by (induction xs) (auto simp: add_increasing)

lemma ordered_filter:
  assumes "sorts ord"
  shows "mset (filter Q (ord k (filter P xs))) = mset (filter (\<lambda>b. P b \<and> Q b) xs)"
  using sorts_mset [OF assms] by (simp add: filter_filter_mset conj_commute)

text \<open>The rows that a demotion by \<open>excess\<close> hits, read off the table.\<close>

lemma expire_oldest_spec:
  assumes ord: "sorts ord" and ids: "distinct (map afID rows)"
    and sizes: "\<And>a. a \<in> set rows \<Longrightarrow> 0 \<le> afSizeBytes a"
    and excess: "excess \<le> sum_list (map afSizeBytes (filter sel rows))"
  obtains D where "snd (expire_oldest ord sel excess now rows) = upd_where (\<lambda>a. a \<in> D) (\<lambda>a. a\<lparr>afExpiresAt := Some now\<rparr>) rows"
    and "D \<subseteq> {a \<in> set rows. sel a}"
    and "\<And>a b. a \<in> D \<Longrightarrow> b \<in> set rows \<Longrightarrow> sel b \<Longrightarrow> b \<notin> D \<Longrightarrow> afCreatedAt a \<le> afCreatedAt b"
    and "sum_list (map afSizeBytes (filter (\<lambda>a. sel a \<and> a \<notin> D) rows)) \<le> sum_list (map afSizeBytes (filter sel rows)) - excess"
    and "\<And>a. a \<in> D \<Longrightarrow> sum_list (map afSizeBytes (filter sel rows)) - excess
        < sum_list (map afSizeBytes (filter (\<lambda>b. sel b \<and> afCreatedAt a \<le> afCreatedAt b) rows))"
proof -
  let ?L = "ord afCreatedAt (filter sel rows)"
  let ?sum = "\<lambda>xs. sum_list (map afSizeBytes xs)"
  have set_L: "set ?L = {a \<in> set rows. sel a}" using sorts_set [OF ord] by auto
  have "distinct (filter sel rows)" using ids by (auto simp: distinct_map)
  then have dL: "distinct ?L" using sorts_mset [OF ord] by (metis mset_eq_imp_distinct_iff)
  have pos: "\<And>a. a \<in> set ?L \<Longrightarrow> 0 \<le> afSizeBytes a" using sizes set_L by auto
  obtain m where m: "m \<le> length ?L" "demoted_ids excess 0 ?L = map afID (take m ?L)"
    "\<forall>i<m. 0 + ?sum (take i ?L) < excess" "m < length ?L \<longrightarrow> excess \<le> 0 + ?sum (take m ?L)"
    using demoted_take [of ?L excess 0] pos by blast
  let ?D = "set (take m ?L)"
  have D: "?D \<subseteq> {a \<in> set rows. sel a}" using set_L set_take_subset by fastforce
  have hit: "afID a \<in> set (map afID (take m ?L)) \<longleftrightarrow> a \<in> ?D" if "a \<in> set rows" for a
  proof -
    have "inj_on afID (set rows)" using ids by (simp add: distinct_map)
    then show ?thesis using that D by (auto simp: inj_on_def)
  qed
  have total: "?sum ?L = ?sum (filter sel rows)" by (rule sum_mset_list) (rule sorts_mset [OF ord])
  have rest: "?sum (drop m ?L) = ?sum (filter (\<lambda>a. sel a \<and> a \<notin> ?D) rows)"
  proof (rule sum_mset_list)
    have "filter (\<lambda>a. a \<notin> ?D) ?L = drop m ?L"
    proof -
      have "filter (\<lambda>a. a \<notin> ?D) (take m ?L @ drop m ?L) = drop m ?L"
        using dL by (simp only: filter_append) (auto simp: filter_empty_conv filter_id_conv
          dest: set_take_disj_set_drop_if_distinct [of _ m m])
      then show ?thesis by simp
    qed
    then show "mset (drop m ?L) = mset (filter (\<lambda>a. sel a \<and> a \<notin> ?D) rows)"
      using ordered_filter [OF ord, of "\<lambda>a. a \<notin> ?D" afCreatedAt sel rows] by simp
  qed
  have split: "?sum ?L = ?sum (take m ?L) + ?sum (drop m ?L)"
    by (metis append_take_drop_id map_append sum_list_append)
  show thesis
  proof (rule that [of ?D])
    show "snd (expire_oldest ord sel excess now rows) = upd_where (\<lambda>a. a \<in> ?D) (\<lambda>a. a\<lparr>afExpiresAt := Some now\<rparr>) rows"
      using hit by (simp add: expire_oldest_def Let_def m(2) upd_where_def)
    show "?D \<subseteq> {a \<in> set rows. sel a}" by (rule D)
    show "afCreatedAt a \<le> afCreatedAt b" if "a \<in> ?D" "b \<in> set rows" "sel b" "b \<notin> ?D" for a b
    proof -
      have "b \<in> set (drop m ?L)" using that set_L by (metis (mono_tags, lifting) UnE append_take_drop_id mem_Collect_eq set_append)
      moreover have "sorted (map afCreatedAt (take m ?L @ drop m ?L))" using sorts_sorted [OF ord] by simp
      ultimately show ?thesis using that(1) by (auto simp: sorted_append simp del: append_take_drop_id)
    qed
    show "?sum (filter (\<lambda>a. sel a \<and> a \<notin> ?D) rows) \<le> ?sum (filter sel rows) - excess"
    proof -
      have "excess \<le> ?sum (take m ?L)"
      proof (cases "m < length ?L")
        case True
        with m(4) show ?thesis by simp
      next
        case False
        then have "take m ?L = ?L" by simp
        with total excess show ?thesis by simp
      qed
      with rest total split show ?thesis by linarith
    qed
    show "?sum (filter sel rows) - excess < ?sum (filter (\<lambda>b. sel b \<and> afCreatedAt a \<le> afCreatedAt b) rows)" if a: "a \<in> ?D" for a
    proof -
      obtain i where i: "i < m" "i < length ?L" "a = ?L ! i" using a by (auto simp: in_set_conv_nth)
      have "?sum (filter sel rows) - excess < ?sum (drop i ?L)"
      proof -
        have "?sum ?L = ?sum (take i ?L) + ?sum (drop i ?L)"
          by (metis append_take_drop_id map_append sum_list_append)
        moreover have "?sum (take i ?L) < excess" using m(3) i(1) by simp
        ultimately show ?thesis using total by simp
      qed
      also have "drop i ?L = filter (\<lambda>b. b \<in> set (drop i ?L)) ?L"
      proof -
        have "filter (\<lambda>b. b \<in> set (drop i ?L)) (take i ?L @ drop i ?L) = drop i ?L"
          using dL by (simp only: filter_append) (auto simp: filter_empty_conv filter_id_conv
            dest: set_take_disj_set_drop_if_distinct [of _ i i])
        then show ?thesis by simp
      qed
      also have "?sum (filter (\<lambda>b. b \<in> set (drop i ?L)) ?L) \<le> ?sum (filter (\<lambda>b. afCreatedAt a \<le> afCreatedAt b) ?L)"
      proof (rule sum_filter_mono)
        fix b assume "b \<in> set ?L" "b \<in> set (drop i ?L)"
        then obtain j where "j < length ?L" "i \<le> j" "b = ?L ! j"
          by (auto simp: in_set_conv_nth) (metis le_add1 less_diff_conv add.commute)
        then show "afCreatedAt a \<le> afCreatedAt b"
          using sorts_sorted [OF ord, of afCreatedAt "filter sel rows"] i(3) by (auto simp: sorted_iff_nth_mono)
      qed (rule pos)
      also have "\<dots> = ?sum (filter (\<lambda>b. sel b \<and> afCreatedAt a \<le> afCreatedAt b) rows)"
        by (rule sum_mset_list) (rule ordered_filter [OF ord])
      finally show ?thesis .
    qed
  qed
qed

section \<open>Quotas and keep-last\<close>

text \<open>
  C30: a project over its quota is brought back exactly to it. Of a project the quota query
  reports, the layer stamps live artifacts as expired, nothing else; it takes the oldest, so
  that every live artifact it leaves is at least as new as every one it stamps; what is left
  fits the quota; and none is stamped needlessly: a stamped artifact together with the live
  artifacts not older than it is more than the quota.
\<close>

theorem project_quota_exact:
  assumes "sorts ord" and "distinct (map afID rows)" and "\<And>a. a \<in> set rows \<Longrightarrow> 0 \<le> afSizeBytes a" and "0 \<le> quota"
    and "(project, bytes) \<in> set (ListProjectsOverArtifactQuota quota rows)"
  shows "\<exists>D\<subseteq>{a \<in> set rows. afProjectID a = project \<and> live_bytes a}.
    snd (ExpireOldestInProjectByExcess ord project (bytes - quota) now rows) =
      upd_where (\<lambda>a. a \<in> D) (\<lambda>a. a\<lparr>afExpiresAt := Some now\<rparr>) rows \<and>
    (\<forall>a\<in>D. \<forall>b\<in>set rows. afProjectID b = project \<and> live_bytes b \<and> b \<notin> D \<longrightarrow> afCreatedAt a \<le> afCreatedAt b) \<and>
    sum_list (map afSizeBytes (filter (\<lambda>a. (afProjectID a = project \<and> live_bytes a) \<and> a \<notin> D) rows)) \<le> quota \<and>
    (\<forall>a\<in>D. quota < sum_list (map afSizeBytes
       (filter (\<lambda>b. (afProjectID b = project \<and> live_bytes b) \<and> afCreatedAt a \<le> afCreatedAt b) rows)))"
proof -
  let ?sel = "\<lambda>a. afProjectID a = project \<and> live_bytes a"
  have bytes: "bytes = sum_list (map afSizeBytes (filter ?sel rows))"
    using assms(5) by (auto simp: ListProjectsOverArtifactQuota_def Let_def conj_commute)
  obtain D where D: "snd (expire_oldest ord ?sel (bytes - quota) now rows) = upd_where (\<lambda>a. a \<in> D) (\<lambda>a. a\<lparr>afExpiresAt := Some now\<rparr>) rows"
    "D \<subseteq> {a \<in> set rows. ?sel a}"
    "\<And>a b. a \<in> D \<Longrightarrow> b \<in> set rows \<Longrightarrow> ?sel b \<Longrightarrow> b \<notin> D \<Longrightarrow> afCreatedAt a \<le> afCreatedAt b"
    "sum_list (map afSizeBytes (filter (\<lambda>a. ?sel a \<and> a \<notin> D) rows)) \<le> bytes - (bytes - quota)"
    "\<And>a. a \<in> D \<Longrightarrow> bytes - (bytes - quota)
        < sum_list (map afSizeBytes (filter (\<lambda>b. ?sel b \<and> afCreatedAt a \<le> afCreatedAt b) rows))"
    using assms(4) unfolding bytes by (rule_tac expire_oldest_spec [OF assms(1-3), of "bytes - quota" ?sel now]) (auto simp: bytes)
  show ?thesis
    by (rule exI [of _ D]) (use D in \<open>simp add: ExpireOldestInProjectByExcess_def\<close>)
qed






section \<open>Confirmation\<close>

text \<open>A reference the server accepts for a job, over the rows before the confirmation.\<close>

definition ref_matches :: "(string \<Rightarrow> ObjectInfo option) \<Rightarrow> uuid \<Rightarrow> ArtifactRef \<Rightarrow> Artifact \<Rightarrow> bool" where
  "ref_matches inspect job rf a =
     (afJobRunID a = job \<and> rfStorageKey rf \<noteq> [] \<and> afStorageKey a = rfStorageKey rf
      \<and> afPath a = NormalizeArtifactPath (rfPath rf) \<and> 0 \<le> rfSize rf
      \<and> (case (normalizeSHA256 (rfContentSHA256 rf), inspect (rfStorageKey rf)) of
           (Some want, Some info) \<Rightarrow> oiSize info = rfSize rf \<and> oiContentSHA256 info = want
             \<and> (afStatus a = ArtifactPending \<or> afStatus a = ArtifactReady \<and> ready_as info a)
         | _ \<Rightarrow> False))"

definition ref_accepted :: "(string \<Rightarrow> ObjectInfo option) \<Rightarrow> uuid \<Rightarrow> Artifact list \<Rightarrow> ArtifactRef \<Rightarrow> bool" where
  "ref_accepted inspect job rows rf = list_ex (ref_matches inspect job rf) rows"

text \<open>The rows with the given keys marked.\<close>

definition mark_row :: "(string \<Rightarrow> ObjectInfo option) \<Rightarrow> Artifact \<Rightarrow> Artifact" where
  "mark_row inspect a =
     (case inspect (afStorageKey a) of
        None \<Rightarrow> a
      | Some info \<Rightarrow>
          a\<lparr>afStatus := ArtifactReady, afSizeBytes := oiSize info, afContentSHA256 := oiContentSHA256 info,
            afContentType := (if oiContentType info = [] then ''application/gzip'' else oiContentType info)\<rparr>)"

definition marked :: "(string \<Rightarrow> ObjectInfo option) \<Rightarrow> string set \<Rightarrow> Artifact list \<Rightarrow> Artifact list" where
  "marked inspect keys rows =
     upd_where (\<lambda>a. afStatus a = ArtifactPending \<and> afStorageKey a \<in> keys) (mark_row inspect) rows"

lemma mark_row_key [simp]: "afStorageKey (mark_row inspect a) = afStorageKey a"
  by (simp add: mark_row_def split: option.split)

lemma find_map_key:
  "(\<And>b. k (g b) = k b) \<Longrightarrow> find (\<lambda>b. k b = x) (map g rows) = map_option g (find (\<lambda>b. k b = x) rows)"
  by (induction rows) auto

lemma marked_empty [simp]: "marked inspect {} rows = rows"
  by (simp add: marked_def upd_where_none)

lemma find_unique:
  "(\<And>x y. x \<in> set xs \<Longrightarrow> y \<in> set xs \<Longrightarrow> p x \<Longrightarrow> p y \<Longrightarrow> x = y) \<Longrightarrow> find p xs = Some x \<longleftrightarrow> x \<in> set xs \<and> p x"
  by (induction xs) auto

lemma find_issued:
  assumes "distinct (map afStorageKey rows)"
  shows "find (\<lambda>a. afStorageKey a = key) (List.rev (ListArtifactsByJobRun job rows)) = Some a \<longleftrightarrow>
    a \<in> set rows \<and> afJobRunID a = job \<and> afStorageKey a = key"
proof -
  have "inj_on afStorageKey (set rows)" using assms by (simp add: distinct_map)
  then show ?thesis
    by (subst find_unique) (auto simp: ListArtifactsByJobRun_def dest: inj_onD)
qed

lemma check_ref_iff:
  assumes "distinct (map afStorageKey rows)"
  shows "check_ref inspect (ListArtifactsByJobRun job rows) rf = Inr (a, info) \<longleftrightarrow>
    a \<in> set rows \<and> afJobRunID a = job \<and> rfStorageKey rf \<noteq> [] \<and> afStorageKey a = rfStorageKey rf
    \<and> afPath a = NormalizeArtifactPath (rfPath rf) \<and> 0 \<le> rfSize rf
    \<and> normalizeSHA256 (rfContentSHA256 rf) = Some (oiContentSHA256 info)
    \<and> inspect (rfStorageKey rf) = Some info \<and> oiSize info = rfSize rf"
proof (cases "find (\<lambda>a. afStorageKey a = rfStorageKey rf) (List.rev (ListArtifactsByJobRun job rows))")
  case None
  with find_issued [OF assms, of "rfStorageKey rf" job a]
  have "\<not> (a \<in> set rows \<and> afJobRunID a = job \<and> afStorageKey a = rfStorageKey rf)" by simp
  with None show ?thesis by (auto simp: check_ref_def)
next
  case (Some b)
  have b: "b \<in> set rows" "afJobRunID b = job" "afStorageKey b = rfStorageKey rf"
    using find_issued [OF assms, of "rfStorageKey rf" job b] Some by simp_all
  have eq: "a \<in> set rows \<and> afJobRunID a = job \<and> afStorageKey a = rfStorageKey rf \<longleftrightarrow> a = b"
    using find_issued [OF assms, of "rfStorageKey rf" job a] Some by auto
  show ?thesis
  proof (cases "a = b")
    case True
    with b Some show ?thesis by (auto simp: check_ref_def split: option.splits)
  next
    case False
    then have "check_ref inspect (ListArtifactsByJobRun job rows) rf \<noteq> Inr (a, info)"
      using Some by (auto simp: check_ref_def split: option.splits)
    with False eq show ?thesis by blast
  qed
qed

lemma find_key:
  assumes "distinct (map afStorageKey rows)" and "a \<in> set rows"
  shows "find (\<lambda>b. afStorageKey b = afStorageKey a) rows = Some a"
proof -
  have "inj_on afStorageKey (set rows)" using assms(1) by (simp add: distinct_map)
  then show ?thesis using assms(2) by (subst find_unique) (auto dest: inj_onD)
qed

lemma marked_row:
  assumes "distinct (map afStorageKey rows)" and "a \<in> set rows"
  shows "find (\<lambda>b. afStorageKey b = afStorageKey a) (marked inspect keys rows) =
    Some (if afStatus a = ArtifactPending \<and> afStorageKey a \<in> keys then mark_row inspect a else a)"
  unfolding marked_def upd_where_def
  by (subst find_map_key) (simp_all add: find_key [OF assms])

text \<open>One turn over the partly marked table.\<close>

lemma confirm_ref_marked:
  assumes dist: "distinct (map afStorageKey rows)"
  shows "(fst (confirm_ref inspect (ListArtifactsByJobRun job rows) rf (marked inspect keys rows)) = None
      \<longleftrightarrow> ref_accepted inspect job rows rf) \<and>
    snd (confirm_ref inspect (ListArtifactsByJobRun job rows) rf (marked inspect keys rows)) =
      marked inspect (if ref_accepted inspect job rows rf then insert (rfStorageKey rf) keys else keys) rows"
proof (cases "check_ref inspect (ListArtifactsByJobRun job rows) rf")
  case (Inl c)
  have "\<not> ref_accepted inspect job rows rf"
  proof
    assume "ref_accepted inspect job rows rf"
    then obtain a where "a \<in> set rows" "ref_matches inspect job rf a" by (auto simp: ref_accepted_def list_ex_iff)
    then have "\<exists>info. check_ref inspect (ListArtifactsByJobRun job rows) rf = Inr (a, info)"
      unfolding check_ref_iff [OF dist] by (auto simp: ref_matches_def split: option.splits)
    with Inl show False by simp
  qed
  with Inl show ?thesis by (simp add: confirm_ref_def)
next
  case (Inr p)
  obtain a info where p: "p = (a, info)" by (rule prod.exhaust)
  from Inr have c: "a \<in> set rows" "afJobRunID a = job" "rfStorageKey rf \<noteq> []" "afStorageKey a = rfStorageKey rf"
    "afPath a = NormalizeArtifactPath (rfPath rf)" "0 \<le> rfSize rf"
    "normalizeSHA256 (rfContentSHA256 rf) = Some (oiContentSHA256 info)"
    "inspect (rfStorageKey rf) = Some info" "oiSize info = rfSize rf"
    unfolding p check_ref_iff [OF dist] by auto
  have only: "b = a" if "b \<in> set rows" "afStorageKey b = rfStorageKey rf" for b
  proof -
    have "inj_on afStorageKey (set rows)" using dist by (simp add: distinct_map)
    then show ?thesis using that(2) c(4) that(1) c(1) by (auto intro: inj_onD)
  qed
  have acc: "ref_accepted inspect job rows rf \<longleftrightarrow>
      (afStatus a = ArtifactPending \<or> afStatus a = ArtifactReady \<and> ready_as info a)"
  proof -
    have "ref_accepted inspect job rows rf \<longleftrightarrow> ref_matches inspect job rf a"
    proof
      assume "ref_accepted inspect job rows rf"
      then obtain b where b: "b \<in> set rows" "ref_matches inspect job rf b" by (auto simp: ref_accepted_def list_ex_iff)
      then have "b = a" by (intro only) (simp_all add: ref_matches_def)
      with b(2) show "ref_matches inspect job rf a" by simp
    next
      assume "ref_matches inspect job rf a"
      with c(1) show "ref_accepted inspect job rows rf" by (auto simp: ref_accepted_def list_ex_iff)
    qed
    then show ?thesis using c by (simp add: ref_matches_def)
  qed
  have stay: "marked inspect (insert (rfStorageKey rf) keys) rows = marked inspect keys rows"
    if "afStatus a \<noteq> ArtifactPending"
    unfolding marked_def upd_where_def using only that by (intro map_cong) auto
  show ?thesis
  proof (cases "afStatus a")
    case ArtifactReady
    with Inr p acc stay show ?thesis by (simp add: confirm_ref_def)
  next
    case ArtifactDeleting
    with Inr p acc stay show ?thesis by (simp add: confirm_ref_def)
  next
    case ArtifactPending
    let ?m = "MarkArtifactReady (rfStorageKey rf) (oiSize info) (oiContentSHA256 info) (oiContentType info) (marked inspect keys rows)"
    have mark: "mark_row inspect a = a\<lparr>afStatus := ArtifactReady, afSizeBytes := oiSize info,
         afContentSHA256 := oiContentSHA256 info,
         afContentType := (if oiContentType info = [] then ''application/gzip'' else oiContentType info)\<rparr>"
      using c(4,8) by (simp add: mark_row_def)
    have found: "find (\<lambda>b. afStorageKey b = rfStorageKey rf) (marked inspect keys rows) =
      Some (if rfStorageKey rf \<in> keys then mark_row inspect a else a)"
      using marked_row [OF dist c(1), of inspect keys] c(4) ArtifactPending by simp
    have rows: "snd ?m = marked inspect (insert (rfStorageKey rf) keys) rows"
      unfolding MarkArtifactReady_def Let_def snd_conv marked_def upd_where_def map_map
    proof (intro map_cong refl)
      fix b
      show "((\<lambda>r. if afStorageKey r = rfStorageKey rf \<and> afStatus r = ArtifactPending
            then r\<lparr>afStatus := ArtifactReady, afSizeBytes := oiSize info, afContentSHA256 := oiContentSHA256 info,
              afContentType := if oiContentType info = [] then ''application/gzip'' else oiContentType info\<rparr> else r) \<circ>
          (\<lambda>r. if afStatus r = ArtifactPending \<and> afStorageKey r \<in> keys then mark_row inspect r else r)) b =
          (if afStatus b = ArtifactPending \<and> afStorageKey b \<in> insert (rfStorageKey rf) keys then mark_row inspect b else b)"
      proof (cases "afStorageKey b = rfStorageKey rf")
        case True
        with c(8) have "mark_row inspect b = b\<lparr>afStatus := ArtifactReady, afSizeBytes := oiSize info,
            afContentSHA256 := oiContentSHA256 info,
            afContentType := (if oiContentType info = [] then ''application/gzip'' else oiContentType info)\<rparr>"
          by (simp add: mark_row_def)
        with True show ?thesis by simp
      qed simp
    qed
    show ?thesis
    proof (cases "rfStorageKey rf \<in> keys")
      case True
      have "fst ?m = False"
      proof -
        have "\<not> (afStorageKey b = rfStorageKey rf \<and> afStatus b = ArtifactPending)"
          if row: "b \<in> set (marked inspect keys rows)" for b
        proof
          assume b: "afStorageKey b = rfStorageKey rf \<and> afStatus b = ArtifactPending"
          obtain x where x: "x \<in> set rows"
            "b = (if afStatus x = ArtifactPending \<and> afStorageKey x \<in> keys then mark_row inspect x else x)"
            using row unfolding marked_def set_upd_where by blast
          have kx: "afStorageKey x = rfStorageKey rf" using b x(2) by (simp split: if_splits)
          have "afStatus (mark_row inspect x) = ArtifactReady" using kx c(8) by (simp add: mark_row_def)
          with b x(2) kx True show False by (simp split: if_splits)
        qed
        then show ?thesis by (auto simp: MarkArtifactReady_def Let_def count_where_def filter_empty_conv)
      qed
      moreover have "insert (rfStorageKey rf) keys = keys" using True by auto
      ultimately show ?thesis
        using Inr p ArtifactPending acc found True rows mark
        by (auto simp: confirm_ref_def GetArtifactByStorageKey_def ready_as_def equal_fold_def case_prod_beta)
    next
      case False
      have "fst ?m = True"
      proof -
        have "a \<in> set (marked inspect keys rows)"
          using c(1,4) False by (auto simp: marked_def set_upd_where intro!: image_eqI [of _ _ a])
        then show ?thesis using c(4) ArtifactPending by (auto simp: MarkArtifactReady_def Let_def count_where_pos_iff)
      qed
      then show ?thesis using Inr p ArtifactPending acc rows by (auto simp: confirm_ref_def case_prod_beta)
    qed
  qed
qed

lemma confirm_loop_marked:
  assumes dist: "distinct (map afStorageKey rows)"
  shows "(fst (confirm_loop (\<lambda>_ r. r) inspect (ListArtifactsByJobRun job rows) i refs (marked inspect keys rows)) = []
      \<longleftrightarrow> (\<forall>rf\<in>set refs. ref_accepted inspect job rows rf)) \<and>
    snd (confirm_loop (\<lambda>_ r. r) inspect (ListArtifactsByJobRun job rows) i refs (marked inspect keys rows)) =
      marked inspect (keys \<union> {rfStorageKey rf | rf. rf \<in> set refs \<and> ref_accepted inspect job rows rf}) rows"
proof (induction refs arbitrary: i keys)
  case (Cons rf refs)
  let ?keys = "if ref_accepted inspect job rows rf then insert (rfStorageKey rf) keys else keys"
  obtain c where one: "confirm_ref inspect (ListArtifactsByJobRun job rows) rf (marked inspect keys rows) = (c, marked inspect ?keys rows)"
    and acc: "c = None \<longleftrightarrow> ref_accepted inspect job rows rf"
    using confirm_ref_marked [OF dist, of inspect job rf keys] by (metis prod.collapse)
  have keys: "?keys \<union> {rfStorageKey rf' | rf'. rf' \<in> set refs \<and> ref_accepted inspect job rows rf'} =
      keys \<union> {rfStorageKey rf' | rf'. rf' \<in> set (rf # refs) \<and> ref_accepted inspect job rows rf'}" by auto
  obtain bad rows2 where rest: "confirm_loop (\<lambda>_ r. r) inspect (ListArtifactsByJobRun job rows) (Suc i) refs
      (marked inspect ?keys rows) = (bad, rows2)" by (rule prod.exhaust)
  have "confirm_loop (\<lambda>_ r. r) inspect (ListArtifactsByJobRun job rows) i (rf # refs) (marked inspect keys rows) =
      ((case c of None \<Rightarrow> bad | Some x \<Rightarrow> x # bad), rows2)"
    by (simp only: confirm_loop.simps one rest Let_def prod.case)
  moreover have "(bad = [] \<longleftrightarrow> (\<forall>rf\<in>set refs. ref_accepted inspect job rows rf)) \<and> rows2 = marked inspect
      (keys \<union> {rfStorageKey rf' | rf'. rf' \<in> set (rf # refs) \<and> ref_accepted inspect job rows rf'}) rows"
    using Cons.IH [of "Suc i" ?keys] unfolding keys rest by simp
  ultimately show ?case using acc by (cases c) simp_all
qed simp

text \<open>
  C29: the confirmation of a result does exactly what it says. Without interference the verdict
  is empty exactly when every reference names a row issued to this job under the same path,
  carries a well-formed digest and the size and digest of the stored object, and finds the row
  pending, or already ready with these figures. The rows of the accepted references are turned
  ready with the figures of the object, also when another reference fails; no other row
  changes.
\<close>

theorem confirmation_exact:
  assumes "distinct (map afStorageKey rows)" and "refs \<noteq> []"
  shows "(fst (confirmArtifacts True (\<lambda>_ r. r) inspect job refs rows) = [] \<longleftrightarrow>
      (\<forall>rf\<in>set refs. ref_accepted inspect job rows rf)) \<and>
    snd (confirmArtifacts True (\<lambda>_ r. r) inspect job refs rows) =
      marked inspect {rfStorageKey rf | rf. rf \<in> set refs \<and> ref_accepted inspect job rows rf} rows"
  using confirm_loop_marked [OF assms(1), of inspect job 0 refs "{}"] assms(2)
  by (simp add: confirmArtifacts_def case_prod_beta)

section \<open>Upload tickets\<close>

text \<open>The canonical paths of a request: each once, in the order of its first occurrence.\<close>

definition canonical_paths :: "string list \<Rightarrow> string list" where
  "canonical_paths paths = List.rev (remdups (List.rev (map NormalizeArtifactPath paths)))"

lemma remdups_snoc: "remdups (xs @ [x]) = filter (\<lambda>y. y \<noteq> x) (remdups xs) @ [x]"
  by (induction xs) auto

lemma dedupe_canonical:
  "dedupe_paths seen paths = Some ps \<Longrightarrow>
   map NormalizeArtifactPath ps = filter (\<lambda>p. p \<notin> set seen) (canonical_paths paths)"
proof (induction seen paths arbitrary: ps rule: dedupe_paths.induct)
  case (2 seen p paths)
  let ?n = "NormalizeArtifactPath p"
  have front: "canonical_paths (p # paths) = ?n # filter (\<lambda>y. y \<noteq> ?n) (canonical_paths paths)"
    by (simp add: canonical_paths_def remdups_snoc rev_filter)
  show ?case
  proof (cases "?n \<in> set seen")
    case True
    then have "dedupe_paths seen paths = Some ps" "p \<noteq> []" using 2(3) by (auto split: if_splits)
    with 2(1) True have "map NormalizeArtifactPath ps = filter (\<lambda>p. p \<notin> set seen) (canonical_paths paths)" by simp
    also have "\<dots> = filter (\<lambda>p. p \<notin> set seen) (canonical_paths (p # paths))"
      using True unfolding front by (auto intro!: filter_cong)
    finally show ?thesis .
  next
    case False
    then obtain qs where qs: "dedupe_paths (?n # seen) paths = Some qs" "ps = p # qs" "p \<noteq> []"
      using 2(3) by (auto split: if_splits)
    have "map NormalizeArtifactPath qs = filter (\<lambda>q. q \<notin> set (?n # seen)) (canonical_paths paths)"
      by (rule 2(2) [OF qs(3) False qs(1)])
    then show ?thesis using False unfolding front qs(2) by (auto intro!: filter_cong)
  qed
qed (simp add: canonical_paths_def)

lemma canonical_distinct: "distinct (canonical_paths paths)"
  by (simp add: canonical_paths_def)

definition ticket_row :: "uuid \<Rightarrow> string \<Rightarrow> gotime option \<Rightarrow> Artifact \<Rightarrow> bool" where
  "ticket_row job path e a = (active_at job path a \<and> afStatus a = ArtifactPending \<and> afExpiresAt a = e)"

lemma insert_row_ticket:
  assumes "InsertPendingArtifactRow i now p rows = (Inr a, rows1)"
  shows "a \<in> set rows1 \<and> ticket_row (ipJobRunID p) (NormalizeArtifactPath (ipPath p)) (ipExpiresAt p) a"
    and "\<And>b. b \<in> set rows \<Longrightarrow> \<not> active_at (ipJobRunID p) (NormalizeArtifactPath (ipPath p)) b \<Longrightarrow> b \<in> set rows1"
proof -
  let ?at = "active_at (ipJobRunID p) (NormalizeArtifactPath (ipPath p))"
  have "(a \<in> set rows1 \<and> ticket_row (ipJobRunID p) (NormalizeArtifactPath (ipPath p)) (ipExpiresAt p) a)
      \<and> (\<forall>b\<in>set rows. \<not> ?at b \<longrightarrow> b \<in> set rows1)"
  proof (cases "find ?at rows")
    case None
    with assms show ?thesis
      by (auto simp: InsertPendingArtifactRow_def Let_def ticket_row_def active_at_def pending_artifact_def
        split: if_splits)
  next
    case (Some c)
    then have c: "c \<in> set rows" "?at c" by (auto simp: find_Some_iff)
    from Some assms have "afStatus c = ArtifactPending" "a = c\<lparr>afExpiresAt := ipExpiresAt p\<rparr>"
      "rows1 = upd_where ?at (\<lambda>a. a\<lparr>afExpiresAt := ipExpiresAt p\<rparr>) rows"
      by (auto simp: InsertPendingArtifactRow_def Let_def split: if_splits)
    with c show ?thesis
      by (auto simp: set_upd_where ticket_row_def active_at_def intro!: image_eqI [of _ _ c])
  qed
  then show "a \<in> set rows1 \<and> ticket_row (ipJobRunID p) (NormalizeArtifactPath (ipPath p)) (ipExpiresAt p) a"
    and "\<And>b. b \<in> set rows \<Longrightarrow> \<not> ?at b \<Longrightarrow> b \<in> set rows1" by auto
qed

lemma insert_loop_tickets:
  assumes "insert_loop now ps rows = (Inr out, rows')" and "\<forall>(i, p)\<in>set ps. ipJobRunID p = job"
    and "distinct (map (\<lambda>p. NormalizeArtifactPath (ipPath (snd p))) ps)"
  shows "list_all2 (\<lambda>p a. a \<in> set rows' \<and> ticket_row job (NormalizeArtifactPath (ipPath (snd p))) (ipExpiresAt (snd p)) a) ps out"
    and "\<And>b. b \<in> set rows \<Longrightarrow> \<forall>p\<in>set ps. \<not> active_at job (NormalizeArtifactPath (ipPath (snd p))) b \<Longrightarrow> b \<in> set rows'"
proof -
  have "list_all2 (\<lambda>p a. a \<in> set rows' \<and> ticket_row job (NormalizeArtifactPath (ipPath (snd p))) (ipExpiresAt (snd p)) a) ps out
    \<and> (\<forall>b\<in>set rows. (\<forall>p\<in>set ps. \<not> active_at job (NormalizeArtifactPath (ipPath (snd p))) b) \<longrightarrow> b \<in> set rows')"
    using assms
  proof (induction now ps rows arbitrary: out rows' rule: insert_loop.induct)
    case (2 now i p ps rows)
    obtain r rows1 where one: "InsertPendingArtifactRow i now p rows = (r, rows1)" by (rule prod.exhaust)
    with 2(2) obtain a rest where a: "r = Inr a" "insert_loop now ps rows1 = (Inr rest, rows')" "out = a # rest"
      by (auto split: sum.splits prod.splits)
    have job: "ipJobRunID p = job" and jobs: "\<forall>(i, p)\<in>set ps. ipJobRunID p = job" using 2(3) by auto
    note IH = 2(1) [OF one [symmetric] a(1) a(2) jobs]
    note first = insert_row_ticket [OF one [unfolded a(1)]]
    from IH 2(4) have rest: "list_all2 (\<lambda>p a. a \<in> set rows' \<and> ticket_row job (NormalizeArtifactPath (ipPath (snd p))) (ipExpiresAt (snd p)) a) ps rest"
      and keep: "\<forall>b\<in>set rows1. (\<forall>p\<in>set ps. \<not> active_at job (NormalizeArtifactPath (ipPath (snd p))) b) \<longrightarrow> b \<in> set rows'" by simp_all
    have "\<forall>p'\<in>set ps. \<not> active_at job (NormalizeArtifactPath (ipPath (snd p'))) a"
    proof
      fix p' assume "p' \<in> set ps"
      then have "NormalizeArtifactPath (ipPath (snd p')) \<noteq> NormalizeArtifactPath (ipPath p)"
        using 2(4) by (auto simp: image_iff)
      then show "\<not> active_at job (NormalizeArtifactPath (ipPath (snd p'))) a"
        using first(1) by (auto simp: ticket_row_def active_at_def)
    qed
    with keep first(1) have "a \<in> set rows'" by blast
    with first(1) job rest a(3) have "list_all2 (\<lambda>p a. a \<in> set rows' \<and> ticket_row job (NormalizeArtifactPath (ipPath (snd p))) (ipExpiresAt (snd p)) a) ((i, p) # ps) out"
      by simp
    moreover have "b \<in> set rows'"
      if "b \<in> set rows" "\<forall>p'\<in>set ((i, p) # ps). \<not> active_at job (NormalizeArtifactPath (ipPath (snd p'))) b" for b
      using that first(2) [of b] keep job by auto
    ultimately show ?case by blast
  qed simp
  then show "list_all2 (\<lambda>p a. a \<in> set rows' \<and> ticket_row job (NormalizeArtifactPath (ipPath (snd p))) (ipExpiresAt (snd p)) a) ps out"
    and "\<And>b. b \<in> set rows \<Longrightarrow> \<forall>p\<in>set ps. \<not> active_at job (NormalizeArtifactPath (ipPath (snd p))) b \<Longrightarrow> b \<in> set rows'"
    by blast+
qed

lemma sign_loop_tickets:
  "sign_loop e xs = Some ts \<Longrightarrow>
   list_all2 (\<lambda>(p, a) t. utPath t = p \<and> utStorageKey t = afStorageKey a \<and> uaSign e (afStorageKey a) = Some (utPutURL t)) xs ts"
  by (induction e xs arbitrary: ts rule: sign_loop.induct) (auto split: option.splits)

lemma upload_rows_facts:
  "\<forall>(i, p)\<in>set (upload_rows e run job pipeline project ps). ipJobRunID p = job"
  "map (\<lambda>p. ipPath (snd p)) (upload_rows e run job pipeline project ps) = ps"
  "\<forall>p\<in>set (upload_rows e run job pipeline project ps). ipExpiresAt (snd p) = Some (uaNow e + uaRetention e)"
  by (auto simp: upload_rows_def o_def map_nth)

text \<open>What a ticket stands for: a signed URL on the key of the row of its path.\<close>

definition good_ticket :: "upload_env \<Rightarrow> uuid \<Rightarrow> Artifact list \<Rightarrow> ArtifactUploadTicket \<Rightarrow> bool" where
  "good_ticket e job rows t =
     (uaSign e (utStorageKey t) = Some (utPutURL t) \<and>
      list_ex (\<lambda>a. afStorageKey a = utStorageKey t \<and>
        ticket_row job (NormalizeArtifactPath (utPath t)) (Some (uaNow e + uaRetention e)) a) rows)"

lemma issue_tickets_ok:
  assumes "issue_tickets e run job pipeline project paths rows = (Inr tickets, rows')"
  shows "map (\<lambda>t. NormalizeArtifactPath (utPath t)) tickets = canonical_paths paths \<and> (\<forall>t\<in>set tickets. good_ticket e job rows' t)"
proof -
  obtain ps where ps: "dedupe_paths [] paths = Some ps" using assms by (auto simp: issue_tickets_def split: option.splits)
  let ?ups = "upload_rows e run job pipeline project ps"
  obtain out where out: "insert_loop (uaNow e) ?ups rows = (Inr out, rows')" and sign: "sign_loop e (zip ps out) = Some tickets"
    using assms by (auto simp: issue_tickets_def ps InsertPendingArtifactsBatch_def
        split: prod.splits sum.splits artifact_error.splits option.splits)
  have canon: "map NormalizeArtifactPath ps = canonical_paths paths" using dedupe_canonical [OF ps] by simp
  note up = upload_rows_facts [of e run job pipeline project ps]
  have "map (\<lambda>p. NormalizeArtifactPath (ipPath (snd p))) ?ups = map NormalizeArtifactPath ps"
    by (metis (no_types, lifting) list.map_comp comp_apply map_cong up(2))
  then have "distinct (map (\<lambda>p. NormalizeArtifactPath (ipPath (snd p))) ?ups)" by (simp add: canon canonical_distinct)
  note rows = insert_loop_tickets(1) [OF out up(1) this]
  have len: "length ps = length ?ups" by (simp add: upload_rows_def)
  have "list_all2 (\<lambda>p a. a \<in> set rows' \<and> ticket_row job (NormalizeArtifactPath p) (Some (uaNow e + uaRetention e)) a) ps out"
    unfolding list_all2_conv_all_nth
  proof (intro conjI allI impI)
    show "length ps = length out" using rows len by (simp add: list_all2_lengthD)
    fix i assume i: "i < length ps"
    then have "ipPath (snd (?ups ! i)) = ps ! i" "ipExpiresAt (snd (?ups ! i)) = Some (uaNow e + uaRetention e)"
      using up(2,3) len by (metis nth_map, simp)
    with list_all2_nthD [OF rows, of i] i len
    show "out ! i \<in> set rows'" "ticket_row job (NormalizeArtifactPath (ps ! i)) (Some (uaNow e + uaRetention e)) (out ! i)" by simp_all
  qed
  then have pairs: "length ps = length out \<and> (\<forall>(p, a)\<in>set (zip ps out). a \<in> set rows' \<and> ticket_row job (NormalizeArtifactPath p) (Some (uaNow e + uaRetention e)) a)"
    by (simp add: list_all2_iff)
  have ts: "length (zip ps out) = length tickets" "\<forall>(x, t)\<in>set (zip (zip ps out) tickets).
      utPath t = fst x \<and> utStorageKey t = afStorageKey (snd x) \<and> uaSign e (afStorageKey (snd x)) = Some (utPutURL t)"
    using sign_loop_tickets [OF sign] by (auto simp: list_all2_iff)
  have "map utPath tickets = ps"
  proof (rule nth_equalityI)
    show "length (map utPath tickets) = length ps" using ts(1) pairs by simp
    fix i assume i: "i < length (map utPath tickets)"
    then have "utPath (tickets ! i) = fst (zip ps out ! i)"
      using list_all2_nthD2 [OF sign_loop_tickets [OF sign], of i] by (simp split: prod.splits)
    then show "map utPath tickets ! i = ps ! i" using i ts(1) pairs by simp
  qed
  then have paths: "map (\<lambda>t. NormalizeArtifactPath (utPath t)) tickets = canonical_paths paths"
    using canon by (metis (no_types, lifting) list.map_comp comp_apply map_cong)
  have "good_ticket e job rows' t" if t: "t \<in> set tickets" for t
  proof -
    obtain x where x: "(x, t) \<in> set (zip (zip ps out) tickets)"
      using t ts(1) by (metis in_set_impl_in_set_zip2)
    then have "x \<in> set (zip ps out)" by (rule set_zip_leftD)
    with pairs have a: "snd x \<in> set rows'" "ticket_row job (NormalizeArtifactPath (fst x)) (Some (uaNow e + uaRetention e)) (snd x)"
      by (auto simp: split_beta)
    from ts(2) x have "utPath t = fst x" "utStorageKey t = afStorageKey (snd x)"
      "uaSign e (afStorageKey (snd x)) = Some (utPutURL t)" by auto
    with a show ?thesis by (auto simp: good_ticket_def list_ex_iff intro!: bexI [of _ "snd x"])
  qed
  with paths show ?thesis by blast
qed

lemma issue_tickets_refused:
  "issue_tickets e run job pipeline project paths rows = (Inl c, rows') \<Longrightarrow> c \<noteq> CodeInternal \<Longrightarrow> rows' = rows"
  by (auto simp: issue_tickets_def InsertPendingArtifactsBatch_def
      split: option.splits prod.splits sum.splits artifact_error.splits)

lemma request_outcomes:
  assumes "RequestArtifactUpload e st d q rows = (res, rows')"
  obtains (early) c where "res = Inl c" "rows' = rows"
  | (none) "res = Inr []" "rows' = rows" "ruPaths q = []"
  | (issued) r run job pipeline project where "Lookup st (ruSessionID q) = Some r" "uaParse e (ruRunID q) = Some run"
      "uaParse e (ruJobID q) = Some job" "JobRunParents (uaProjectOf e) job run d = Some (pipeline, project, ssAgentID (sess_at st r))"
      "ssAgentID (sess_at st r) \<noteq> uuid_Nil" "issue_tickets e run job pipeline project (ruPaths q) rows = (res, rows')"
  using assms unfolding RequestArtifactUpload_def
  by (auto split: if_splits option.splits prod.splits)

lemma job_parents_owner:
  assumes "JobRunParents project_of job run d = Some (pipeline, project, owner)" and "owner \<noteq> uuid_Nil"
  shows "\<exists>j\<in>set (dbJobs d). jrID j = job \<and> jrRunID j = run \<and> jrAgentID j = Some owner"
proof -
  obtain j where "find (\<lambda>j. jrID j = job \<and> jrRunID j = run) (dbJobs d) = Some j"
      "owner = (case jrAgentID j of None \<Rightarrow> uuid_Nil | Some a \<Rightarrow> a)"
    using assms(1) by (auto simp: JobRunParents_def split: option.splits)
  with assms(2) show ?thesis by (auto simp: find_Some_iff split: option.splits)
qed

text \<open>
  C28: upload tickets are handed out to the agent that runs the job, and to no one else. A
  request that is granted any comes from a session of the agent the job row is assigned to. The
  tickets are one for each distinct path of the request up to trailing slashes, in the order of
  the request, and each is a signed URL on the key of the one pending row of its job and path.
  A refused request leaves the table alone, unless the refusal is an internal error.
\<close>

theorem upload_tickets_exact:
  assumes "RequestArtifactUpload e st d q rows = (res, rows')"
  shows "case res of
      Inl c \<Rightarrow> c \<noteq> CodeInternal \<longrightarrow> rows' = rows
    | Inr tickets \<Rightarrow> map (\<lambda>t. NormalizeArtifactPath (utPath t)) tickets = canonical_paths (ruPaths q) \<and>
        (tickets \<noteq> [] \<longrightarrow> (\<exists>r run job. Lookup st (ruSessionID q) = Some r \<and> uaParse e (ruRunID q) = Some run
           \<and> uaParse e (ruJobID q) = Some job
           \<and> (\<exists>j\<in>set (dbJobs d). jrID j = job \<and> jrRunID j = run \<and> jrAgentID j = Some (ssAgentID (sess_at st r)))
           \<and> (\<forall>t\<in>set tickets. good_ticket e job rows' t)))"
  using assms
proof (cases rule: request_outcomes)
  case none
  then show ?thesis by (simp add: canonical_paths_def)
next
  case (issued r run job pipeline project)
  show ?thesis
  proof (cases res)
    case (Inl c)
    with issued(6) issue_tickets_refused show ?thesis by auto
  next
    case (Inr tickets)
    with issue_tickets_ok issued(6) job_parents_owner [OF issued(4,5)] issued(1-3)
    show ?thesis by (simp; blast)
  qed
qed simp

section \<open>The sweep against a running job\<close>

lemma claimed_row:
  assumes "sorts ord" and "distinct (map afID rows)" and "a \<in> set rows" and "sweepable now grace a" and "\<not> locked (afID a)"
    and "length (filter (sweepable now grace) rows) \<le> limit"
  shows "b \<in> set (snd (ClaimArtifactsForSweep ord locked limit grace now rows)) \<Longrightarrow> afID b = afID a \<Longrightarrow>
    b = a\<lparr>afStatus := ArtifactDeleting, afDeletedAt := Some now\<rparr>"
proof -
  let ?Q = "\<lambda>a. sweepable now grace a \<and> \<not> locked (afID a)"
  have "length (filter ?Q rows) \<le> length (filter (sweepable now grace) rows)"
    by (induction rows) auto
  then have "length (ord sweep_order (filter ?Q rows)) \<le> limit"
    using assms(6) sorts_mset [OF assms(1)] by (metis le_trans mset_eq_length)
  then have batch: "set (take limit (ord sweep_order (filter ?Q rows))) = set (filter ?Q rows)"
    using sorts_set [OF assms(1)] by simp
  have "inj_on afID (set rows)" using assms(2) by (simp add: distinct_map)
  then have same: "x = a" if "x \<in> set rows" "afID x = afID a" for x using that assms(3) by (auto dest: inj_onD)
  have hit: "afID a \<in> afID ` set (take limit (ord sweep_order (filter ?Q rows)))"
    unfolding batch using assms(3-5) by auto
  assume "b \<in> set (snd (ClaimArtifactsForSweep ord locked limit grace now rows))" and id: "afID b = afID a"
  then obtain x where x: "x \<in> set rows" "b = (if afID x \<in> afID ` set (take limit (ord sweep_order (filter ?Q rows)))
      then x\<lparr>afStatus := ArtifactDeleting, afDeletedAt := Some now\<rparr> else x)"
    unfolding ClaimArtifactsForSweep_def Let_def snd_conv set_upd_where by blast
  then have "afID x = afID a" using id by (simp split: if_splits)
  with same [OF x(1)] have "x = a" by simp
  with x(2) hit show "b = a\<lparr>afStatus := ArtifactDeleting, afDeletedAt := Some now\<rparr>" by simp
qed

lemma claim_keys: "map afStorageKey (snd (ClaimArtifactsForSweep ord locked limit grace now rows)) = map afStorageKey rows"
  "map afID (snd (ClaimArtifactsForSweep ord locked limit grace now rows)) = map afID rows"
  by (simp_all add: ClaimArtifactsForSweep_def Let_def upd_where_def o_def if_distrib cong: if_cong)

text \<open>
  An upload that takes longer than the grace of the sweeper is lost. With the defaults a
  pass that comes more than five minutes after a ticket was issued claims the row, pending or
  not, although the signed URL is still good; the result that reports the upload afterwards is
  refused, whatever was stored.
\<close>

theorem slow_upload_discarded:
  assumes "sorts ord" and "distinct (map afID rows)" and "distinct (map afStorageKey rows)" and "a \<in> set rows"
    and "afStatus a = ArtifactPending" and "afPinnedAt a = None" and "afCreatedAt a < now - 5 * minutes"
    and "\<not> locked (afID a)" and "length (filter (sweepable now 5) rows) \<le> 500"
    and "rf \<in> set refs" and "rfStorageKey rf = afStorageKey a"
  shows "fst (confirmArtifacts True (\<lambda>_ r. r) inspect job refs
      (snd (ClaimArtifactsForSweep ord locked (swkBatchSize New_sweeper) (swkGraceMinutes New_sweeper) now rows))) \<noteq> []"
proof -
  let ?rows = "snd (ClaimArtifactsForSweep ord locked 500 5 now rows)"
  have due: "sweepable now 5 a" using assms(5-7) by (simp add: sweepable_def)
  have dist: "distinct (map afStorageKey ?rows)" using assms(3) by (simp add: claim_keys)
  have "\<not> ref_accepted inspect job ?rows rf"
  proof
    assume "ref_accepted inspect job ?rows rf"
    then obtain b where b: "b \<in> set ?rows" "ref_matches inspect job rf b" by (auto simp: ref_accepted_def list_ex_iff)
    then have key: "afStorageKey b = afStorageKey a" using assms(11) by (simp add: ref_matches_def)
    obtain x where x: "x \<in> set rows" "afID b = afID x" "afStorageKey b = afStorageKey x"
      using b(1) unfolding ClaimArtifactsForSweep_def Let_def snd_conv set_upd_where by auto
    have "inj_on afStorageKey (set rows)" using assms(3) by (simp add: distinct_map)
    with x key assms(4) have "x = a" by (auto dest: inj_onD)
    with claimed_row [OF assms(1,2,4) due assms(8,9) b(1)] x(2) have "afStatus b = ArtifactDeleting" by simp
    with b(2) show False by (auto simp: ref_matches_def split: option.splits)
  qed
  with confirm_loop_marked [OF dist, of inspect job 0 refs "{}"] assms(10)
  have "fst (confirm_loop (\<lambda>_ r. r) inspect (ListArtifactsByJobRun job ?rows) 0 refs ?rows) \<noteq> []" by auto
  then show ?thesis using assms(10) by (auto simp: confirmArtifacts_def case_prod_beta New_sweeper_def)
qed

section \<open>Witnesses\<close>

definition ex_row :: "uuid \<Rightarrow> gotime \<Rightarrow> int \<Rightarrow> ArtifactStatus \<Rightarrow> Artifact" where
  "ex_row i created sz status =
     (pending_artifact i created
        \<lparr>ipRunID = 1, ipJobRunID = 100, ipPipelineID = 5, ipProjectID = 6, ipPath = replicate i (CHR ''p''),
         ipStorageKey = replicate i (CHR ''k''), ipExpiresAt = None\<rparr>)\<lparr>afSizeBytes := sz, afStatus := status\<rparr>"

definition ex_rows :: "Artifact list" where
  "ex_rows = [ex_row 1 10 60 ArtifactReady, ex_row 2 20 60 ArtifactReady]"

definition ex_ref :: "nat \<Rightarrow> ArtifactRef" where
  "ex_ref i = \<lparr>rfPath = replicate i (CHR ''p''), rfStorageKey = replicate i (CHR ''k''),
     rfContentSHA256 = replicate 64 (CHR ''D''), rfSize = 2\<rparr>"

definition ex_inspect :: "string \<Rightarrow> ObjectInfo option" where
  "ex_inspect _ = Some \<lparr>oiSize = 2, oiContentSHA256 = replicate 64 (CHR ''d''), oiContentType = []\<rparr>"

lemma ex_row_simps [simp]:
  "afID (ex_row i t n s) = i" "afJobRunID (ex_row i t n s) = 100" "afStorageKey (ex_row i t n s) = replicate i (CHR ''k'')"
  "afPath (ex_row i t n s) = NormalizeArtifactPath (replicate i (CHR ''p''))" "afStatus (ex_row i t n s) = s"
  "afPinnedAt (ex_row i t n s) = None" "afCreatedAt (ex_row i t n s) = t"
  by (simp_all add: ex_row_def pending_artifact_def)

lemma ex_ref_simps:
  "rfStorageKey (ex_ref i) = replicate i (CHR ''k'')" "rfPath (ex_ref i) = replicate i (CHR ''p'')" "rfSize (ex_ref i) = 2"
  by (simp_all add: ex_ref_def)

lemma ex_ref_sum: "normalizeSHA256 (rfContentSHA256 (ex_ref i)) = Some (replicate 64 (CHR ''d''))"
proof -
  have plain: "\<not> has_prefix (replicate 64 (CHR ''D'')) e" if "e \<in> set space_encodings \<union> set (map List.rev space_encodings)" for e
  proof -
    have "list_all (\<lambda>e. e \<noteq> [] \<and> hd e \<noteq> CHR ''D'') (space_encodings @ map List.rev space_encodings)" by code_simp
    with that have "e \<noteq> [] \<and> hd e \<noteq> CHR ''D''" unfolding list_all_iff by auto
    then obtain c r where "e = c # r" "c \<noteq> CHR ''D''" by (cases e) simp_all
    moreover have "replicate 64 (CHR ''D'') = CHR ''D'' # replicate 63 (CHR ''D'')" by (simp flip: replicate_Suc)
    ultimately show ?thesis by (simp add: has_prefix_def)
  qed
  then have "trim_space (replicate 64 (CHR ''D'')) = replicate 64 (CHR ''D'')"
    by (simp add: trim_space_def trim_left_id untrimmable_def)
  moreover have "is_hex (CHR ''D'')" "lower_ascii (CHR ''D'') = CHR ''d''" by code_simp+
  ultimately show ?thesis by (simp add: normalizeSHA256_def ex_ref_def list_all_iff)
qed

lemma ex_rows_facts:
  "distinct (map afID ex_rows)" "distinct (map afStorageKey ex_rows)" "list_all (\<lambda>a. 0 \<le> afSizeBytes a) ex_rows"
  "ListProjectsOverArtifactQuota 100 ex_rows = [(6, 120)]" "unpinned (hd ex_rows)" "afExpiresAt (hd ex_rows) = None"
  "length (filter (\<lambda>b. afPipelineID b = afPipelineID (hd ex_rows) \<and> unpinned b \<and> afRunID b = afRunID (hd ex_rows)) ex_rows) = 2"
  by code_simp+

theorem project_quota_exact_witness:
  "\<exists>D. snd (ExpireOldestInProjectByExcess sort_key 6 20 30 ex_rows) = upd_where (\<lambda>a. a \<in> D) (\<lambda>a. a\<lparr>afExpiresAt := Some 30\<rparr>) ex_rows
     \<and> sum_list (map afSizeBytes (filter (\<lambda>a. (afProjectID a = 6 \<and> live_bytes a) \<and> a \<notin> D) ex_rows)) \<le> 100"
  using project_quota_exact [of sort_key ex_rows 100 6 120 30] ex_rows_facts sorts_sort_key
  by (auto simp: list_all_iff)


theorem confirmation_exact_witness:
  "fst (confirmArtifacts True (\<lambda>_ r. r) ex_inspect 100 [ex_ref 1, ex_ref 2] [ex_row 1 10 0 ArtifactPending, ex_row 2 20 2 ArtifactPending]) = []"
proof -
  let ?rows = "[ex_row 1 10 0 ArtifactPending, ex_row 2 20 2 ArtifactPending]"
  have "ref_accepted ex_inspect 100 ?rows (ex_ref 1)" "ref_accepted ex_inspect 100 ?rows (ex_ref 2)"
    by (simp_all add: ref_accepted_def ref_matches_def ex_ref_sum ex_ref_simps ex_inspect_def)
  moreover have "distinct (map afStorageKey ?rows)" by (simp add: numeral_2_eq_2)
  ultimately show ?thesis using confirmation_exact [of ?rows "[ex_ref 1, ex_ref 2]" ex_inspect 100] by simp
qed

theorem upload_tickets_exact_witness:
  "map (\<lambda>t. NormalizeArtifactPath (utPath t))
     (projr (fst (RequestArtifactUpload ex_upload ex_sessions (rvDB ex_mid) ex_request []))) = [''dist'']"
proof -
  obtain res rows' where r: "RequestArtifactUpload ex_upload ex_sessions (rvDB ex_mid) ex_request [] = (res, rows')"
    by (rule prod.exhaust)
  have ok: "\<not> isl (fst (RequestArtifactUpload ex_upload ex_sessions (rvDB ex_mid) ex_request []))"
    "canonical_paths (ruPaths ex_request) = [''dist'']" by code_simp+
  then obtain ts where "res = Inr ts" using r by (cases res) auto
  with upload_tickets_exact [OF r] ok(2) r show ?thesis by simp
qed

theorem slow_upload_discarded_witness:
  "fst (confirmArtifacts True (\<lambda>_ r. r) ex_inspect 100 [ex_ref 1]
     (snd (ClaimArtifactsForSweep sort_key (\<lambda>_. False) (swkBatchSize New_sweeper) (swkGraceMinutes New_sweeper)
       (6 * minutes) [ex_row 1 10 0 ArtifactPending]))) \<noteq> []"
proof -
  have f: "distinct (map afID [ex_row 1 10 0 ArtifactPending])" "distinct (map afStorageKey [ex_row 1 10 0 ArtifactPending])"
    "afStatus (ex_row 1 10 0 ArtifactPending) = ArtifactPending" "afPinnedAt (ex_row 1 10 0 ArtifactPending) = None"
    "afCreatedAt (ex_row 1 10 0 ArtifactPending) < 6 * minutes - 5 * minutes"
    by (simp_all add: minutes_def)
  show ?thesis
    by (rule slow_upload_discarded [where rf = "ex_ref 1", OF sorts_sort_key f(1,2) _ f(3,4,5)]) (simp_all add: ex_ref_simps)
qed

end
