(* ===== verification/Compliance.thy ===== *)
theory Compliance
  imports GateGraph GoStrings "HOL-Library.Product_Lexorder"
begin

text \<open>
  Compliance pipelines: the merge of mandatory policies into a repository's pipeline
  (\<open>server/pkg/compliance/merge.go\<close>), the server-owned pipeline (\<open>synth.go\<close>), and the store
  transactions on policies, frameworks and projects with the reconciliation that keeps what is
  enforced in line with them (\<open>server/internal/store/compliance.go\<close>, \<open>compliance_enforce.go\<close>,
  \<open>compliance_synth.go\<close>, \<open>projects.go\<close>).
\<close>

section \<open>The merge\<close>

definition ModeInject :: string where
  "ModeInject = ''inject''"

definition ModeOverride :: string where
  "ModeOverride = ''override''"

definition ReservedPrefix :: string where
  "ReservedPrefix = ''_compliance_''"

record Policy =
  poName :: string
  poMode :: string
  poPriority :: int
  poPositionBefore :: string
  poPositionAfter :: string
  poPipeline :: Pipeline

definition reserved :: "string \<Rightarrow> bool" where
  "reserved s = has_prefix s ReservedPrefix"

definition stripReservedStages :: "string list \<Rightarrow> string list" where
  "stripReservedStages stages = filter (\<lambda>s. \<not> reserved s) stages"

definition stripReservedJobs :: "Job list \<Rightarrow> Job list" where
  "stripReservedJobs jobs = filter (\<lambda>j. \<not> reserved (jName j)) jobs"

fun append_unique :: "string set \<Rightarrow> Job list \<Rightarrow> Job list" where
  "append_unique seen [] = []"
| "append_unique seen (j # js) =
     (if jName j \<in> seen then append_unique seen js else j # append_unique (insert (jName j) seen) js)"

definition appendUniqueJobs :: "Job list \<Rightarrow> Job list \<Rightarrow> Job list" where
  "appendUniqueJobs existing add = existing @ append_unique (jName ` set existing) add"

fun indexOf :: "string list \<Rightarrow> string \<Rightarrow> nat option" where
  "indexOf [] want = None"
| "indexOf (s # ss) want = (if s = want then Some 0 else map_option Suc (indexOf ss want))"

definition anchor_index :: "string list \<Rightarrow> string \<Rightarrow> string \<Rightarrow> nat" where
  "anchor_index base before after =
     (if before \<noteq> [] \<and> indexOf base before \<noteq> None then the (indexOf base before)
      else if after \<noteq> [] \<and> indexOf base after \<noteq> None then the (indexOf base after) + 1
      else 0)"

definition insertStages :: "string list \<Rightarrow> string list \<Rightarrow> string \<Rightarrow> string \<Rightarrow> string list" where
  "insertStages base add before after =
     (let fresh = dedup base add; idx = anchor_index base before after in
      if fresh = [] then base else take idx base @ fresh @ drop idx base)"

definition merge_policy :: "Policy \<Rightarrow> Pipeline \<Rightarrow> Pipeline" where
  "merge_policy p out =
     (if poMode p = ModeOverride
      then out\<lparr>plStages := plStages (poPipeline p), plJobs := plJobs (poPipeline p)\<rparr>
      else out\<lparr>plStages := insertStages (plStages out) (plStages (poPipeline p)) (poPositionBefore p) (poPositionAfter p),
               plJobs := appendUniqueJobs (plJobs out) (plJobs (poPipeline p))\<rparr>)"

definition policy_key :: "Policy \<Rightarrow> int \<times> string" where
  "policy_key p = (poPriority p, poName p)"

definition ApplyPolicies :: "Pipeline \<Rightarrow> Policy list \<Rightarrow> Pipeline" where
  "ApplyPolicies raw policies =
     (if policies = [] then raw
      else fold merge_policy (sort_key policy_key policies)
        (raw\<lparr>plStages := stripReservedStages (plStages raw), plJobs := stripReservedJobs (plJobs raw)\<rparr>))"

datatype reserved_error = UnprefixedStage string | UnprefixedJob string | ReservedStage string | ReservedJob string

definition ValidatePolicyNames :: "Pipeline \<Rightarrow> reserved_error option" where
  "ValidatePolicyNames p =
     (case find (\<lambda>s. \<not> reserved s) (plStages p) of
        Some s \<Rightarrow> Some (UnprefixedStage s)
      | None \<Rightarrow>
          (case find (\<lambda>j. \<not> reserved (jName j)) (plJobs p) of
             Some j \<Rightarrow> Some (UnprefixedJob (jName j))
           | None \<Rightarrow> None))"

definition RejectReservedNames :: "Pipeline \<Rightarrow> reserved_error option" where
  "RejectReservedNames raw =
     (case find reserved (plStages raw) of
        Some s \<Rightarrow> Some (ReservedStage s)
      | None \<Rightarrow>
          (case find (\<lambda>j. reserved (jName j)) (plJobs raw) of
             Some j \<Rightarrow> Some (ReservedJob (jName j))
           | None \<Rightarrow> None))"

text \<open>
  \<open>decode\<close> stands for the YAML decoder and the conversion of its job definitions; what
  \<open>parser.ParseNamed\<close> checks afterwards is written out.
\<close>

definition ParseNamed :: "(string \<Rightarrow> Pipeline option) \<Rightarrow> string \<Rightarrow> Pipeline option" where
  "ParseNamed decode src =
     (case decode src of
        None \<Rightarrow> None
      | Some p \<Rightarrow>
          (if NotificationStageName \<in> set (plStages p) then None
           else if \<not> stages_declared p then None
           else if validateNeeds (plJobs p) (plStages p) \<noteq> None then None
           else if validateNoCycles (plJobs p) \<noteq> None then None
           else Some p))"

definition CompilePolicy :: "(string \<Rightarrow> Pipeline option) \<Rightarrow> string \<Rightarrow> Pipeline option" where
  "CompilePolicy decode src =
     (case ParseNamed decode src of
        None \<Rightarrow> None
      | Some p \<Rightarrow>
          (if ValidatePolicyNames p \<noteq> None then None
           else Some (zero_pipeline\<lparr>plStages := plStages p, plJobs := plJobs p\<rparr>)))"

section \<open>Git materials and the server-owned pipeline\<close>

definition drop_user :: "string \<Rightarrow> string" where
  "drop_user rest = (case str_index rest ''@'' of None \<Rightarrow> rest | Some i \<Rightarrow> drop (i + 1) rest)"

definition lower_host :: "(string \<Rightarrow> string) \<Rightarrow> string \<Rightarrow> string" where
  "lower_host lower rest = (case str_index rest ''/'' of Some i \<Rightarrow> lower (take i rest) @ drop i rest | None \<Rightarrow> lower rest)"

text \<open>The branches of \<open>NormalizeGitURL\<close>, after the trailing slashes and \<open>.git\<close> are cut.\<close>

definition normalize_trimmed :: "(string \<Rightarrow> string) \<Rightarrow> string \<Rightarrow> string" where
  "normalize_trimmed lower s =
     (if has_prefix s ''git@'' then
        (case str_index (trim_prefix s ''git@'') '':'' of
           Some i \<Rightarrow>
             (if i > 0 then lower (take i (trim_prefix s ''git@'')) @ ''/''
                @ trim_left (drop (i + 1) (trim_prefix s ''git@'')) (CHR ''/'') else lower s)
         | None \<Rightarrow> lower s)
      else
        (case str_index s ''://'' of
           None \<Rightarrow> s
         | Some i \<Rightarrow> lower_host lower (drop_user (drop (i + 3) s))))"

definition normalizeGitURL :: "(string \<Rightarrow> string) \<Rightarrow> string \<Rightarrow> string" where
  "normalizeGitURL lower raw =
     normalize_trimmed lower (trim_suffix (trim_right (trim_space raw) (CHR ''/'')) ''.git'')"

definition HTTPCloneURL :: "string \<Rightarrow> string" where
  "HTTPCloneURL canonical =
     (let s = trim_space canonical in
      if s = [] then []
      else if str_contains s ''://'' \<or> has_prefix s ''git@'' then s
      else ''https://'' @ s)"

text \<open>\<open>geHash\<close> is SHA-256 in hex, \<open>geLower\<close> is \<open>strings.ToLower\<close>.\<close>

record git_env =
  geHash :: "string \<Rightarrow> string"
  geLower :: "string \<Rightarrow> string"

definition GitFingerprint :: "git_env \<Rightarrow> string \<Rightarrow> string \<Rightarrow> string" where
  "GitFingerprint e cloneURL branch = geHash e (normalizeGitURL (geLower e) cloneURL @ [CHR 0x00] @ branch)"

definition PipelineName :: string where
  "PipelineName = ''_compliance''"

definition IsReservedPipelineName :: "string \<Rightarrow> bool" where
  "IsReservedPipelineName name = has_prefix name PipelineName"

definition ComplianceMaterial :: "git_env \<Rightarrow> string \<Rightarrow> string \<Rightarrow> Material" where
  "ComplianceMaterial e scmURL defaultBranch0 =
     (let defaultBranch = (if defaultBranch0 = [] then ''main'' else defaultBranch0) in
      \<lparr>mtID = [], mtType = MaterialGit, mtFingerprint = GitFingerprint e scmURL defaultBranch,
       mtAutoUpdate = True, mtImplicit = True,
       mtGit = Some \<lparr>gmURL = HTTPCloneURL scmURL, gmBranch = defaultBranch, gmEvents = [''push''],
         gmAutoRegisterWebhook = True, gmSecretRef = [], gmPaths = [], gmPollInterval = 0\<rparr>,
       mtUpstream = None, mtCron = None\<rparr>)"

definition SyntheticPipeline :: "git_env \<Rightarrow> string \<Rightarrow> string \<Rightarrow> Pipeline" where
  "SyntheticPipeline e scmURL defaultBranch =
     zero_pipeline\<lparr>plName := PipelineName, plMaterials := [ComplianceMaterial e scmURL defaultBranch]\<rparr>"

section \<open>The tables\<close>

record PolicyRow =
  cpID :: uuid
  cpName :: string
  cpEnabled :: bool
  cpMode :: string
  cpPriority :: int
  cpAppliesToAll :: bool
  cpPositionBefore :: string
  cpPositionAfter :: string
  cpConfig :: Pipeline

record PipelineRow =
  pwID :: uuid
  pwProject :: uuid
  pwName :: string
  pwSystemManaged :: bool
  pwRaw :: Pipeline
  pwDefinition :: Pipeline

datatype material_config =
  GitConfig "GitMaterial option" | UpstreamConfig "UpstreamMaterial option"
| CronConfig "CronMaterial option" | EmptyConfig

record MaterialRow =
  mwPipeline :: uuid
  mwType :: MaterialType
  mwConfig :: material_config
  mwFingerprint :: string
  mwAutoUpdate :: bool

record ScmRow =
  scProject :: uuid
  scURL :: string
  scDefaultBranch :: string

record ComplianceDB =
  cdProjects :: "(uuid \<times> string) list"
  cdScm :: "ScmRow list"
  cdFrameworks :: "(uuid \<times> string) list"
  cdProjectFrameworks :: "(uuid \<times> uuid) list"
  cdPolicies :: "PolicyRow list"
  cdPolicyFrameworks :: "(uuid \<times> uuid) list"
  cdPipelines :: "PipelineRow list"
  cdMaterials :: "MaterialRow list"

datatype compliance_error =
  ErrFrameworkNotFound | ErrPolicyNotFound | ErrComplianceWouldDropEnforcement | ErrProjectNotFound | ErrCompliance

text \<open>A freshly drawn id, from the ids in use.\<close>

type_synonym draw = "uuid list \<Rightarrow> uuid"

definition zero_git :: GitMaterial where
  "zero_git = \<lparr>gmURL = [], gmBranch = [], gmEvents = [], gmAutoRegisterWebhook = False, gmSecretRef = [],
     gmPaths = [], gmPollInterval = 0\<rparr>"

definition marshalPipelineDefinition :: "Pipeline \<Rightarrow> Pipeline" where
  "marshalPipelineDefinition p =
     p\<lparr>plID := [], plProjectID := [], plMaterials := map (\<lambda>m. m\<lparr>mtID := []\<rparr>) (plMaterials p)\<rparr>"

definition marshalMaterialConfig :: "Material \<Rightarrow> material_config" where
  "marshalMaterialConfig m =
     (case mtType m of
        MaterialGit \<Rightarrow> GitConfig (mtGit m)
      | MaterialUpstream \<Rightarrow> UpstreamConfig (mtUpstream m)
      | MaterialCron \<Rightarrow> CronConfig (mtCron m)
      | MaterialManual \<Rightarrow> EmptyConfig)"

text \<open>\<open>ON CONFLICT (pipeline_id, fingerprint)\<close> and \<open>ON CONFLICT (project_id, name)\<close>.\<close>

definition UpsertMaterial :: "uuid \<Rightarrow> Material \<Rightarrow> ComplianceDB \<Rightarrow> ComplianceDB" where
  "UpsertMaterial pipeline m d =
     (let p = (\<lambda>r. mwPipeline r = pipeline \<and> mwFingerprint r = mtFingerprint m) in
      if list_ex p (cdMaterials d)
      then d\<lparr>cdMaterials := upd_where p
             (\<lambda>r. r\<lparr>mwType := mtType m, mwConfig := marshalMaterialConfig m, mwAutoUpdate := mtAutoUpdate m\<rparr>)
             (cdMaterials d)\<rparr>
      else d\<lparr>cdMaterials := cdMaterials d @
             [\<lparr>mwPipeline = pipeline, mwType = mtType m, mwConfig = marshalMaterialConfig m,
               mwFingerprint = mtFingerprint m, mwAutoUpdate = mtAutoUpdate m\<rparr>]\<rparr>)"

definition UpsertPipeline ::
  "draw \<Rightarrow> uuid \<Rightarrow> string \<Rightarrow> Pipeline \<Rightarrow> Pipeline \<Rightarrow> bool \<Rightarrow> ComplianceDB \<Rightarrow> uuid \<times> ComplianceDB" where
  "UpsertPipeline nx project name definition raw systemManaged d =
     (let p = (\<lambda>r. pwProject r = project \<and> pwName r = name) in
      case find p (cdPipelines d) of
        Some r \<Rightarrow> (pwID r, d\<lparr>cdPipelines := upd_where p
          (\<lambda>r. r\<lparr>pwDefinition := definition, pwRaw := raw, pwSystemManaged := systemManaged\<rparr>) (cdPipelines d)\<rparr>)
      | None \<Rightarrow>
          (let i = nx (map pwID (cdPipelines d)) in
           (i, d\<lparr>cdPipelines := cdPipelines d @
             [\<lparr>pwID = i, pwProject = project, pwName = name, pwSystemManaged = systemManaged, pwRaw = raw,
               pwDefinition = definition\<rparr>]\<rparr>)))"

text \<open>Deleting a pipeline deletes its materials (\<open>ON DELETE CASCADE\<close>).\<close>

definition DeletePipeline :: "uuid \<Rightarrow> ComplianceDB \<Rightarrow> ComplianceDB" where
  "DeletePipeline i d =
     d\<lparr>cdPipelines := filter (\<lambda>r. pwID r \<noteq> i) (cdPipelines d),
       cdMaterials := filter (\<lambda>m. mwPipeline m \<noteq> i) (cdMaterials d)\<rparr>"

definition DeleteMaterials :: "uuid \<Rightarrow> (string \<Rightarrow> bool) \<Rightarrow> ComplianceDB \<Rightarrow> ComplianceDB" where
  "DeleteMaterials pipeline stale d =
     d\<lparr>cdMaterials := filter (\<lambda>m. \<not> (mwPipeline m = pipeline \<and> stale (mwFingerprint m))) (cdMaterials d)\<rparr>"

definition ListPipelineKindsByProject :: "uuid \<Rightarrow> ComplianceDB \<Rightarrow> PipelineRow list" where
  "ListPipelineKindsByProject project d = sort_key pwName (filter (\<lambda>r. pwProject r = project) (cdPipelines d))"

definition ListMaterialsByPipeline :: "uuid \<Rightarrow> ComplianceDB \<Rightarrow> MaterialRow list" where
  "ListMaterialsByPipeline pipeline d = sort_key mwFingerprint (filter (\<lambda>m. mwPipeline m = pipeline) (cdMaterials d))"

section \<open>Which policies are in force\<close>

definition policy_row_key :: "PolicyRow \<Rightarrow> int \<times> string" where
  "policy_row_key r = (cpPriority r, cpName r)"

definition applies :: "ComplianceDB \<Rightarrow> uuid \<Rightarrow> PolicyRow \<Rightarrow> bool" where
  "applies d project p =
     (cpEnabled p \<and>
      (cpAppliesToAll p \<or>
       list_ex (\<lambda>(po, fw). po = cpID p \<and> (project, fw) \<in> set (cdProjectFrameworks d)) (cdPolicyFrameworks d)))"

definition ResolvePoliciesForProject :: "ComplianceDB \<Rightarrow> uuid \<Rightarrow> PolicyRow list" where
  "ResolvePoliciesForProject d project = sort_key policy_row_key (filter (applies d project) (cdPolicies d))"

definition policy_of_row :: "PolicyRow \<Rightarrow> Policy" where
  "policy_of_row r =
     \<lparr>poName = cpName r, poMode = cpMode r, poPriority = cpPriority r, poPositionBefore = cpPositionBefore r,
      poPositionAfter = cpPositionAfter r, poPipeline = cpConfig r\<rparr>"

definition policiesForProject :: "ComplianceDB \<Rightarrow> uuid \<Rightarrow> Policy list" where
  "policiesForProject d project = map policy_of_row (ResolvePoliciesForProject d project)"

section \<open>Reconciliation\<close>

definition eventsIncludePush :: "string list \<Rightarrow> bool" where
  "eventsIncludePush events = (events = [] \<or> ''push'' \<in> set events)"

definition unionEvents :: "string list \<Rightarrow> string \<Rightarrow> string list" where
  "unionEvents existing want = dedup [] (existing @ [want])"

text \<open>\<open>json.Unmarshal\<close> of a stored configuration into a git material.\<close>

definition decode_git :: "material_config \<Rightarrow> GitMaterial" where
  "decode_git c = (case c of GitConfig (Some g) \<Rightarrow> g | _ \<Rightarrow> zero_git)"

definition harden :: "git_env \<Rightarrow> string \<Rightarrow> string \<Rightarrow> GitMaterial \<Rightarrow> Material" where
  "harden e scmURL defaultBranch prev =
     (let base = ComplianceMaterial e scmURL defaultBranch in
      base\<lparr>mtGit := map_option (\<lambda>g.
        g\<lparr>gmURL := (if gmURL prev \<noteq> [] then gmURL prev else gmURL g), gmSecretRef := gmSecretRef prev,
          gmPollInterval := gmPollInterval prev,
          gmAutoRegisterWebhook := (gmAutoRegisterWebhook prev \<or> gmAutoRegisterWebhook g),
          gmEvents := unionEvents (gmEvents prev) ''push'', gmPaths := []\<rparr>) (mtGit base)\<rparr>)"

definition hardenedPushMaterial ::
  "git_env \<Rightarrow> uuid \<Rightarrow> string \<Rightarrow> string \<Rightarrow> string \<Rightarrow> ComplianceDB \<Rightarrow> Material option" where
  "hardenedPushMaterial e pipeline scmURL defaultBranch complianceFP d =
     (case find (\<lambda>m. mwFingerprint m = complianceFP \<and> mwType m = MaterialGit) (ListMaterialsByPipeline pipeline d) of
        None \<Rightarrow> None
      | Some m \<Rightarrow>
          (let prev = decode_git (mwConfig m) in
           if \<not> eventsIncludePush (gmEvents prev) then None else Some (harden e scmURL defaultBranch prev)))"

fun harden_loop ::
  "git_env \<Rightarrow> string \<Rightarrow> string \<Rightarrow> PipelineRow list \<Rightarrow> bool \<Rightarrow> ComplianceDB \<Rightarrow> bool \<times> ComplianceDB" where
  "harden_loop e scmURL defaultBranch [] anyPush d = (anyPush, d)"
| "harden_loop e scmURL defaultBranch (p # ps) anyPush d =
     (if pwSystemManaged p then harden_loop e scmURL defaultBranch ps anyPush d
      else
        (case hardenedPushMaterial e (pwID p) scmURL defaultBranch (GitFingerprint e scmURL defaultBranch) d of
           None \<Rightarrow> harden_loop e scmURL defaultBranch ps anyPush d
         | Some mat \<Rightarrow> harden_loop e scmURL defaultBranch ps True (UpsertMaterial (pwID p) mat d)))"

definition dropSyntheticIfPresent :: "uuid \<Rightarrow> ComplianceDB \<Rightarrow> ComplianceDB" where
  "dropSyntheticIfPresent project d =
     fold (\<lambda>p. if pwSystemManaged p then DeletePipeline (pwID p) else id) (ListPipelineKindsByProject project d) d"

definition createSyntheticPipeline ::
  "git_env \<Rightarrow> draw \<Rightarrow> uuid \<Rightarrow> string \<Rightarrow> string \<Rightarrow> Policy list \<Rightarrow> ComplianceDB \<Rightarrow> ComplianceDB" where
  "createSyntheticPipeline e nx project scmURL defaultBranch policies d =
     (let raw = SyntheticPipeline e scmURL defaultBranch;
          (i, d1) = UpsertPipeline nx project PipelineName (marshalPipelineDefinition (ApplyPolicies raw policies))
                      (marshalPipelineDefinition raw) True d;
          mat = ComplianceMaterial e scmURL defaultBranch in
      DeleteMaterials i (\<lambda>fp. fp \<noteq> mtFingerprint mat) (UpsertMaterial i mat d1))"

definition scmForProject :: "uuid \<Rightarrow> ComplianceDB \<Rightarrow> (string \<times> string) option" where
  "scmForProject project d =
     map_option (\<lambda>r. (scURL r, scDefaultBranch r)) (find (\<lambda>r. scProject r = project) (cdScm d))"

definition reconcileGovernance ::
  "git_env \<Rightarrow> draw \<Rightarrow> uuid \<Rightarrow> Policy list \<Rightarrow> ComplianceDB \<Rightarrow> compliance_error + ComplianceDB" where
  "reconcileGovernance e nx project policies d =
     (if policies = [] then Inr (dropSyntheticIfPresent project d)
      else
        (case scmForProject project d of
           None \<Rightarrow> Inl ErrComplianceWouldDropEnforcement
         | Some (scmURL, defaultBranch) \<Rightarrow>
             (let pipes = ListPipelineKindsByProject project d;
                  (anyPush, d1) = harden_loop e scmURL defaultBranch pipes False d in
              if \<not> anyPush then Inr (createSyntheticPipeline e nx project scmURL defaultBranch policies d1)
              else
                (case filter pwSystemManaged pipes of
                   [] \<Rightarrow> Inr d1
                 | synths \<Rightarrow> Inr (DeletePipeline (pwID (last synths)) d1)))))"

definition recomputeProjectEffective ::
  "git_env \<Rightarrow> draw \<Rightarrow> uuid \<Rightarrow> ComplianceDB \<Rightarrow> compliance_error + ComplianceDB" where
  "recomputeProjectEffective e nx project d =
     (let policies = policiesForProject d project;
          d1 = d\<lparr>cdPipelines := upd_where (\<lambda>r. pwProject r = project)
                 (\<lambda>r. r\<lparr>pwDefinition := marshalPipelineDefinition (ApplyPolicies (pwRaw r) policies)\<rparr>) (cdPipelines d)\<rparr> in
      reconcileGovernance e nx project policies d1)"

fun recomputeProjects ::
  "git_env \<Rightarrow> draw \<Rightarrow> uuid list \<Rightarrow> ComplianceDB \<Rightarrow> compliance_error + ComplianceDB" where
  "recomputeProjects e nx [] d = Inr d"
| "recomputeProjects e nx (i # is) d =
     (case recomputeProjectEffective e nx i d of
        Inl x \<Rightarrow> Inl x
      | Inr d1 \<Rightarrow> recomputeProjects e nx is d1)"

definition ListProjectIDsByFrameworks :: "uuid list \<Rightarrow> ComplianceDB \<Rightarrow> uuid list" where
  "ListProjectIDsByFrameworks fws d =
     remdups (map fst (filter (\<lambda>(_, fw). fw \<in> set fws) (cdProjectFrameworks d)))"

definition affectedProjectIDs :: "bool \<Rightarrow> uuid list \<Rightarrow> ComplianceDB \<Rightarrow> uuid list" where
  "affectedProjectIDs appliesToAll fws d =
     (if appliesToAll then map fst (cdProjects d) else ListProjectIDsByFrameworks fws d)"

section \<open>The transactions\<close>

text \<open>
  Each holds the compliance lock, shared for \<open>ApplyProject\<close>, which also holds the row of its
  project, and exclusive for the others: each is one step. An error rolls everything back.
\<close>

record PolicyInput =
  piName :: string
  piEnabled :: bool
  piMode :: string
  piPriority :: int
  piAppliesToAll :: bool
  piPositionBefore :: string
  piPositionAfter :: string
  piFrameworkIDs :: "string list"
  piConfigYAML :: string

text \<open>The mode after the default, and the compiled pipeline.\<close>

definition validatePolicyInput :: "(string \<Rightarrow> Pipeline option) \<Rightarrow> PolicyInput \<Rightarrow> (string \<times> Pipeline) option" where
  "validatePolicyInput decode i =
     (let mode = (if piMode i = [] then ModeInject else piMode i) in
      if piName i = [] then None
      else if mode \<noteq> ModeInject \<and> mode \<noteq> ModeOverride then None
      else if piPositionBefore i \<noteq> [] \<and> piPositionAfter i \<noteq> [] then None
      else map_option (\<lambda>p. (mode, p)) (CompilePolicy decode (piConfigYAML i)))"

definition checkPolicyNameCollisions :: "uuid \<Rightarrow> Pipeline \<Rightarrow> ComplianceDB \<Rightarrow> bool" where
  "checkPolicyNameCollisions excludeID compiled d =
     (let rows = filter (\<lambda>r. cpID r \<noteq> excludeID) (cdPolicies d);
          usedStage = concat (map (\<lambda>r. plStages (cpConfig r)) rows);
          usedJob = concat (map (\<lambda>r. map jName (plJobs (cpConfig r))) rows) in
      list_all (\<lambda>s. s \<notin> set usedStage) (plStages compiled)
      \<and> list_all (\<lambda>j. jName j \<notin> set usedJob) (plJobs compiled))"

definition parseUUIDs :: "(string \<Rightarrow> uuid option) \<Rightarrow> string list \<Rightarrow> uuid list option" where
  "parseUUIDs parse ids = (if list_all (\<lambda>s. parse s \<noteq> None) ids then Some (map (\<lambda>s. the (parse s)) ids) else None)"

definition policy_row :: "uuid \<Rightarrow> PolicyInput \<Rightarrow> string \<Rightarrow> Pipeline \<Rightarrow> PolicyRow" where
  "policy_row i inp mode cfg =
     \<lparr>cpID = i, cpName = piName inp, cpEnabled = piEnabled inp, cpMode = mode, cpPriority = int32 (piPriority inp),
      cpAppliesToAll = piAppliesToAll inp, cpPositionBefore = piPositionBefore inp,
      cpPositionAfter = piPositionAfter inp, cpConfig = cfg\<rparr>"

text \<open>The inserts into \<open>policy_frameworks\<close>: an unknown framework violates the foreign key.\<close>

definition link_frameworks :: "uuid \<Rightarrow> uuid list \<Rightarrow> ComplianceDB \<Rightarrow> ComplianceDB option" where
  "link_frameworks policy fws d =
     (if set fws \<subseteq> fst ` set (cdFrameworks d)
      then Some (d\<lparr>cdPolicyFrameworks := cdPolicyFrameworks d
             @ filter (\<lambda>l. l \<notin> set (cdPolicyFrameworks d)) (remdups (map (\<lambda>fw. (policy, fw)) fws))\<rparr>)
      else None)"

record admin_env =
  aeGit :: git_env
  aeDraw :: draw
  aeDecode :: "string \<Rightarrow> Pipeline option"
  aeParse :: "string \<Rightarrow> uuid option"

definition InsertComplianceFramework ::
  "admin_env \<Rightarrow> string \<Rightarrow> ComplianceDB \<Rightarrow> compliance_error + ComplianceDB" where
  "InsertComplianceFramework e name d =
     (if name = [] \<or> name \<in> snd ` set (cdFrameworks d) then Inl ErrCompliance
      else Inr (d\<lparr>cdFrameworks := cdFrameworks d @ [(aeDraw e (map fst (cdFrameworks d)), name)]\<rparr>))"

definition UpdateComplianceFramework ::
  "admin_env \<Rightarrow> string \<Rightarrow> string \<Rightarrow> ComplianceDB \<Rightarrow> compliance_error + ComplianceDB" where
  "UpdateComplianceFramework e fwid name d =
     (case aeParse e fwid of
        None \<Rightarrow> Inl ErrFrameworkNotFound
      | Some i \<Rightarrow>
          (if name = [] then Inl ErrCompliance
           else if list_ex (\<lambda>(j, n). j \<noteq> i \<and> n = name) (cdFrameworks d) \<and> i \<in> fst ` set (cdFrameworks d) then Inl ErrCompliance
           else if i \<notin> fst ` set (cdFrameworks d) then Inl ErrFrameworkNotFound
           else Inr (d\<lparr>cdFrameworks := map (\<lambda>(j, n). (j, if j = i then name else n)) (cdFrameworks d)\<rparr>)))"

definition DeleteComplianceFramework ::
  "admin_env \<Rightarrow> string \<Rightarrow> ComplianceDB \<Rightarrow> compliance_error + ComplianceDB" where
  "DeleteComplianceFramework e fwid d =
     (case aeParse e fwid of
        None \<Rightarrow> Inl ErrFrameworkNotFound
      | Some i \<Rightarrow>
          (let affected = ListProjectIDsByFrameworks [i] d in
           recomputeProjects (aeGit e) (aeDraw e) affected
             (d\<lparr>cdFrameworks := filter (\<lambda>(j, _). j \<noteq> i) (cdFrameworks d),
                cdProjectFrameworks := filter (\<lambda>(_, j). j \<noteq> i) (cdProjectFrameworks d),
                cdPolicyFrameworks := filter (\<lambda>(_, j). j \<noteq> i) (cdPolicyFrameworks d)\<rparr>)))"

definition SetProjectFrameworks ::
  "admin_env \<Rightarrow> uuid \<Rightarrow> string list \<Rightarrow> ComplianceDB \<Rightarrow> compliance_error + ComplianceDB" where
  "SetProjectFrameworks e project ids d =
     (case parseUUIDs (aeParse e) ids of
        None \<Rightarrow> Inl ErrCompliance
      | Some fws \<Rightarrow>
          (if fws \<noteq> [] \<and> (project \<notin> fst ` set (cdProjects d) \<or> \<not> set fws \<subseteq> fst ` set (cdFrameworks d)) then Inl ErrCompliance
           else recomputeProjectEffective (aeGit e) (aeDraw e) project
             (d\<lparr>cdProjectFrameworks := filter (\<lambda>(p, _). p \<noteq> project) (cdProjectFrameworks d)
                 @ map (\<lambda>fw. (project, fw)) (remdups fws)\<rparr>)))"

definition InsertCompliancePolicy ::
  "admin_env \<Rightarrow> PolicyInput \<Rightarrow> ComplianceDB \<Rightarrow> compliance_error + ComplianceDB" where
  "InsertCompliancePolicy e inp d =
     (case (validatePolicyInput (aeDecode e) inp, parseUUIDs (aeParse e) (piFrameworkIDs inp)) of
        (Some (mode, cfg), Some fws) \<Rightarrow>
          (if \<not> checkPolicyNameCollisions uuid_Nil cfg d then Inl ErrCompliance
           else if piName inp \<in> cpName ` set (cdPolicies d) then Inl ErrCompliance
           else
             (let i = aeDraw e (uuid_Nil # map cpID (cdPolicies d)) in
              case link_frameworks i fws (d\<lparr>cdPolicies := cdPolicies d @ [policy_row i inp mode cfg]\<rparr>) of
                None \<Rightarrow> Inl ErrCompliance
              | Some d1 \<Rightarrow>
                  (if piEnabled inp
                   then recomputeProjects (aeGit e) (aeDraw e) (affectedProjectIDs (piAppliesToAll inp) fws d1) d1
                   else Inr d1)))
      | _ \<Rightarrow> Inl ErrCompliance)"

definition UpdateCompliancePolicy ::
  "admin_env \<Rightarrow> string \<Rightarrow> PolicyInput \<Rightarrow> ComplianceDB \<Rightarrow> compliance_error + ComplianceDB" where
  "UpdateCompliancePolicy e pid inp d =
     (case aeParse e pid of
        None \<Rightarrow> Inl ErrPolicyNotFound
      | Some i \<Rightarrow>
          (case (validatePolicyInput (aeDecode e) inp, parseUUIDs (aeParse e) (piFrameworkIDs inp)) of
             (Some (mode, cfg), Some newFW) \<Rightarrow>
               (if \<not> checkPolicyNameCollisions i cfg d then Inl ErrCompliance
                else
                  (case find (\<lambda>r. cpID r = i) (cdPolicies d) of
                     None \<Rightarrow> Inl ErrPolicyNotFound
                   | Some old \<Rightarrow>
                       (let oldFW = map snd (filter (\<lambda>(p, _). p = i) (cdPolicyFrameworks d)) in
                        if list_ex (\<lambda>r. cpID r \<noteq> i \<and> cpName r = piName inp) (cdPolicies d) then Inl ErrCompliance
                        else
                          (case link_frameworks i newFW
                              (d\<lparr>cdPolicies := upd_where (\<lambda>r. cpID r = i) (\<lambda>_. policy_row i inp mode cfg) (cdPolicies d),
                                 cdPolicyFrameworks := filter (\<lambda>(p, _). p \<noteq> i) (cdPolicyFrameworks d)\<rparr>) of
                             None \<Rightarrow> Inl ErrCompliance
                           | Some d1 \<Rightarrow>
                               recomputeProjects (aeGit e) (aeDraw e)
                                 (affectedProjectIDs (cpAppliesToAll old \<or> piAppliesToAll inp) (dedup [] (oldFW @ newFW)) d1) d1))))
           | _ \<Rightarrow> Inl ErrCompliance))"

definition DeleteCompliancePolicy ::
  "admin_env \<Rightarrow> string \<Rightarrow> ComplianceDB \<Rightarrow> compliance_error + ComplianceDB" where
  "DeleteCompliancePolicy e pid d =
     (case aeParse e pid of
        None \<Rightarrow> Inl ErrPolicyNotFound
      | Some i \<Rightarrow>
          (case find (\<lambda>r. cpID r = i) (cdPolicies d) of
             None \<Rightarrow> Inl ErrPolicyNotFound
           | Some old \<Rightarrow>
               (let oldFW = map snd (filter (\<lambda>(p, _). p = i) (cdPolicyFrameworks d));
                    affected = affectedProjectIDs (cpAppliesToAll old) oldFW d in
                recomputeProjects (aeGit e) (aeDraw e) affected
                  (d\<lparr>cdPolicies := filter (\<lambda>r. cpID r \<noteq> i) (cdPolicies d),
                     cdPolicyFrameworks := filter (\<lambda>(p, _). p \<noteq> i) (cdPolicyFrameworks d)\<rparr>))))"

section \<open>Applying a project\<close>

record SCMSourceInput =
  siProvider :: string
  siURL :: string
  siDefaultBranch :: string

record ApplyProjectInput =
  aiSlug :: string
  aiPipelines :: "Pipeline list"
  aiSCM :: "SCMSourceInput option"

text \<open>
  Without its credentials, which the server seals and stores beside it. The table accepts
  the four providers only.
\<close>

definition upsertSCMSource ::
  "git_env \<Rightarrow> bool \<Rightarrow> uuid \<Rightarrow> SCMSourceInput \<Rightarrow> ComplianceDB \<Rightarrow> compliance_error + ComplianceDB" where
  "upsertSCMSource e cipher project i d =
     (if siURL i = [] \<or> siProvider i \<notin> {''github'', ''gitlab'', ''bitbucket'', ''manual''} \<or> \<not> cipher then Inl ErrCompliance
      else
        (let row = \<lparr>scProject = project, scURL = normalizeGitURL (geLower e) (siURL i),
                    scDefaultBranch = (if siDefaultBranch i = [] then ''main'' else siDefaultBranch i)\<rparr> in
         Inr (d\<lparr>cdScm := (if list_ex (\<lambda>r. scProject r = project) (cdScm d)
             then upd_where (\<lambda>r. scProject r = project) (\<lambda>_. row) (cdScm d) else cdScm d @ [row])\<rparr>)))"

definition UpsertProject :: "draw \<Rightarrow> string \<Rightarrow> ComplianceDB \<Rightarrow> uuid \<times> ComplianceDB" where
  "UpsertProject nx slug d =
     (case find (\<lambda>(_, s). s = slug) (cdProjects d) of
        Some (i, _) \<Rightarrow> (i, d)
      | None \<Rightarrow> (let i = nx (map fst (cdProjects d)) in (i, d\<lparr>cdProjects := cdProjects d @ [(i, slug)]\<rparr>)))"

definition applyPipeline ::
  "draw \<Rightarrow> uuid \<Rightarrow> Policy list \<Rightarrow> Pipeline \<Rightarrow> ComplianceDB \<Rightarrow> compliance_error + ComplianceDB" where
  "applyPipeline nx project policies p d =
     (if RejectReservedNames p \<noteq> None then Inl ErrCompliance
      else
        (let (i, d1) = UpsertPipeline nx project (plName p) (marshalPipelineDefinition (ApplyPolicies p policies))
                         (marshalPipelineDefinition p) False d;
             d2 = fold (UpsertMaterial i) (plMaterials p) d1 in
         Inr (DeleteMaterials i (\<lambda>fp. fp \<notin> mtFingerprint ` set (plMaterials p)) d2)))"

fun apply_pipelines ::
  "draw \<Rightarrow> uuid \<Rightarrow> Policy list \<Rightarrow> Pipeline list \<Rightarrow> ComplianceDB \<Rightarrow> compliance_error + ComplianceDB" where
  "apply_pipelines nx project policies [] d = Inr d"
| "apply_pipelines nx project policies (p # ps) d =
     (case applyPipeline nx project policies p d of
        Inl x \<Rightarrow> Inl x
      | Inr d1 \<Rightarrow> apply_pipelines nx project policies ps d1)"

definition remove_unwanted :: "uuid \<Rightarrow> string list \<Rightarrow> ComplianceDB \<Rightarrow> ComplianceDB" where
  "remove_unwanted project wanted d =
     fold (\<lambda>r. if pwSystemManaged r \<or> pwName r \<in> set wanted then id else DeletePipeline (pwID r))
       (ListPipelineKindsByProject project d) d"

definition apply_bound ::
  "admin_env \<Rightarrow> uuid \<Rightarrow> Pipeline list \<Rightarrow> ComplianceDB \<Rightarrow> compliance_error + ComplianceDB" where
  "apply_bound e project pipelines d =
     (let names = map plName pipelines in
      if [] \<in> set names \<or> \<not> distinct names then Inl ErrCompliance
      else
        (let d1 = remove_unwanted project names d;
             policies = policiesForProject d1 project in
         if list_ex IsReservedPipelineName names then Inl ErrCompliance
         else
           (case apply_pipelines (aeDraw e) project policies pipelines d1 of
              Inl x \<Rightarrow> Inl x
            | Inr d2 \<Rightarrow> reconcileGovernance (aeGit e) (aeDraw e) project policies d2)))"

definition ApplyProject ::
  "admin_env \<Rightarrow> bool \<Rightarrow> ApplyProjectInput \<Rightarrow> ComplianceDB \<Rightarrow> compliance_error + ComplianceDB" where
  "ApplyProject e cipher inp d =
     (if aiSlug inp = [] then Inl ErrCompliance
      else
        (let (project, d1) = UpsertProject (aeDraw e) (aiSlug inp) d in
         case (case aiSCM inp of None \<Rightarrow> Inr d1 | Some i \<Rightarrow> upsertSCMSource (aeGit e) cipher project i d1) of
           Inl x \<Rightarrow> Inl x
         | Inr d2 \<Rightarrow> apply_bound e project (aiPipelines inp) d2))"

text \<open>Deleting a project deletes what belongs to it (\<open>ON DELETE CASCADE\<close>).\<close>

definition project_by_slug :: "string \<Rightarrow> ComplianceDB \<Rightarrow> uuid option" where
  "project_by_slug slug d = map_option fst (find (\<lambda>(_, s). s = slug) (cdProjects d))"

definition DeleteProject :: "string \<Rightarrow> ComplianceDB \<Rightarrow> compliance_error + ComplianceDB" where
  "DeleteProject slug d =
     (case project_by_slug slug d of
        None \<Rightarrow> Inl ErrProjectNotFound
      | Some i \<Rightarrow>
          (let gone = map pwID (filter (\<lambda>r. pwProject r = i) (cdPipelines d)) in
           Inr (d\<lparr>cdProjects := filter (\<lambda>(j, _). j \<noteq> i) (cdProjects d),
                  cdScm := filter (\<lambda>r. scProject r \<noteq> i) (cdScm d),
                  cdProjectFrameworks := filter (\<lambda>(j, _). j \<noteq> i) (cdProjectFrameworks d),
                  cdPipelines := filter (\<lambda>r. pwProject r \<noteq> i) (cdPipelines d),
                  cdMaterials := filter (\<lambda>m. mwPipeline m \<notin> set gone) (cdMaterials d)\<rparr>)))"

section \<open>Reads and previews\<close>

definition ProjectHasCompliancePolicies :: "uuid \<Rightarrow> ComplianceDB \<Rightarrow> bool" where
  "ProjectHasCompliancePolicies project d = (ResolvePoliciesForProject d project \<noteq> [])"

record FrameworkUsage =
  fuProjects :: nat
  fuPolicies :: nat

definition CountFrameworkUsage :: "uuid \<Rightarrow> ComplianceDB \<Rightarrow> FrameworkUsage" where
  "CountFrameworkUsage i d =
     \<lparr>fuProjects = length (filter (\<lambda>(_, fw). fw = i) (cdProjectFrameworks d)),
      fuPolicies = length (filter (\<lambda>(_, fw). fw = i) (cdPolicyFrameworks d))\<rparr>"

record EffectivePipelineView =
  evName :: string
  evSystemManaged :: bool
  evRaw :: Pipeline
  evEffective :: Pipeline

definition ListPipelinesForPreview :: "uuid \<Rightarrow> ComplianceDB \<Rightarrow> PipelineRow list" where
  "ListPipelinesForPreview project d =
     sort_key (\<lambda>r. (\<not> pwSystemManaged r, pwName r)) (filter (\<lambda>r. pwProject r = project) (cdPipelines d))"

definition ResolvePoliciesByFrameworks :: "uuid list \<Rightarrow> ComplianceDB \<Rightarrow> PolicyRow list" where
  "ResolvePoliciesByFrameworks fws d =
     sort_key policy_row_key
       (filter (\<lambda>p. cpEnabled p \<and>
          (cpAppliesToAll p \<or> list_ex (\<lambda>(po, fw). po = cpID p \<and> fw \<in> set fws) (cdPolicyFrameworks d))) (cdPolicies d))"

definition policiesByFrameworks :: "uuid list \<Rightarrow> ComplianceDB \<Rightarrow> Policy list" where
  "policiesByFrameworks fws d = map policy_of_row (ResolvePoliciesByFrameworks fws d)"

definition previewStored :: "PipelineRow list \<Rightarrow> EffectivePipelineView list" where
  "previewStored rows =
     map (\<lambda>r. \<lparr>evName = pwName r, evSystemManaged = pwSystemManaged r, evRaw = pwRaw r, evEffective = pwDefinition r\<rparr>) rows"

definition preview_repo :: "Policy list \<Rightarrow> PipelineRow list \<Rightarrow> EffectivePipelineView list" where
  "preview_repo policies rows =
     map (\<lambda>r. \<lparr>evName = pwName r, evSystemManaged = False, evRaw = pwRaw r,
            evEffective = ApplyPolicies (pwRaw r) policies\<rparr>) (filter (\<lambda>r. \<not> pwSystemManaged r) rows)"

definition previewWhatIf ::
  "admin_env \<Rightarrow> uuid \<Rightarrow> PipelineRow list \<Rightarrow> string list \<Rightarrow> Policy list \<Rightarrow> ComplianceDB \<Rightarrow>
   compliance_error + EffectivePipelineView list" where
  "previewWhatIf e project rows frameworkIDs extra d =
     (case parseUUIDs (aeParse e) frameworkIDs of
        None \<Rightarrow> Inl ErrCompliance
      | Some fws \<Rightarrow>
          (let policies = policiesByFrameworks fws d @ extra; out = preview_repo policies rows in
           if policies = [] then Inr out
           else
             (case scmForProject project d of
                None \<Rightarrow> Inl ErrComplianceWouldDropEnforcement
              | Some (scmURL, branch) \<Rightarrow>
                  (let raw = SyntheticPipeline (aeGit e) scmURL branch in
                   Inr (if out = []
                        then [\<lparr>evName = PipelineName, evSystemManaged = True, evRaw = raw,
                               evEffective = ApplyPolicies raw policies\<rparr>]
                        else out)))))"

definition PreviewEffectivePipelines ::
  "admin_env \<Rightarrow> string \<Rightarrow> string list option \<Rightarrow> ComplianceDB \<Rightarrow> compliance_error + EffectivePipelineView list" where
  "PreviewEffectivePipelines e slug whatIf d =
     (case project_by_slug slug d of
        None \<Rightarrow> Inl ErrProjectNotFound
      | Some i \<Rightarrow>
          (case whatIf of
             None \<Rightarrow> Inr (previewStored (ListPipelinesForPreview i d))
           | Some ids \<Rightarrow> previewWhatIf e i (ListPipelinesForPreview i d) ids [] d))"

definition PreviewWithDraft ::
  "admin_env \<Rightarrow> string \<Rightarrow> string list \<Rightarrow> Policy \<Rightarrow> ComplianceDB \<Rightarrow> compliance_error + EffectivePipelineView list" where
  "PreviewWithDraft e slug ids draft d =
     (case project_by_slug slug d of
        None \<Rightarrow> Inl ErrProjectNotFound
      | Some i \<Rightarrow> previewWhatIf e i (ListPipelinesForPreview i d) ids [draft] d)"

end
