(* ===== verification/ComplianceMerge.thy ===== *)
theory ComplianceMerge
  imports Compliance
begin

text \<open>
  What the merge of policies guarantees: mandatory jobs are there and found first, the
  repository's own stages and jobs stay as they are, and a merge of accepted pipelines is
  accepted, so that it cannot deadlock the dispatcher.
\<close>

section \<open>One policy\<close>

definition stage_names :: "Policy \<Rightarrow> string set" where
  "stage_names p = set (plStages (poPipeline p))"

definition job_names :: "Policy \<Rightarrow> string set" where
  "job_names p = jName ` set (plJobs (poPipeline p))"

text \<open>The policies of a list own their names.\<close>

definition well_named :: "Policy \<Rightarrow> bool" where
  "well_named p =
     ((\<forall>s\<in>stage_names p. reserved s) \<and> (\<forall>n\<in>job_names p. reserved n)
      \<and> distinct (map jName (plJobs (poPipeline p))))"

definition disjoint_names :: "Policy \<Rightarrow> Policy \<Rightarrow> bool" where
  "disjoint_names p q = (stage_names p \<inter> stage_names q = {} \<and> job_names p \<inter> job_names q = {})"

definition own_names :: "Policy list \<Rightarrow> bool" where
  "own_names ps =
     (list_all well_named ps \<and> distinct ps \<and> (\<forall>p\<in>set ps. \<forall>q\<in>set ps. p \<noteq> q \<longrightarrow> disjoint_names p q))"

definition overriding :: "Policy \<Rightarrow> bool" where
  "overriding p = (poMode p = ModeOverride)"

definition findJob :: "Pipeline \<Rightarrow> string \<Rightarrow> Job option" where
  "findJob p n = find (\<lambda>j. jName j = n) (plJobs p)"

lemma find_append: "find P (xs @ ys) = (case find P xs of None \<Rightarrow> find P ys | Some x \<Rightarrow> Some x)"
  by (induction xs) auto

lemma find_distinct_name:
  "distinct (map jName js) \<Longrightarrow> j \<in> set js \<Longrightarrow> find (\<lambda>x. jName x = jName j) js = Some j"
  by (induction js) (auto simp: image_iff)

lemma append_unique_filter:
  "distinct (map jName js) \<Longrightarrow> append_unique seen js = filter (\<lambda>j. jName j \<notin> seen) js"
proof (induction seen js rule: append_unique.induct)
  case (2 seen j js)
  have "filter (\<lambda>x. jName x \<notin> insert (jName j) seen) js = filter (\<lambda>x. jName x \<notin> seen) js"
    using 2(3) by (intro filter_cong) (auto simp: image_iff)
  with 2 show ?case by simp
qed simp

lemma append_unique_names: "jName ` set (append_unique seen js) = jName ` set js - seen"
  by (induction seen js rule: append_unique.induct) auto

lemma append_unique_sub: "set (append_unique seen js) \<subseteq> set js"
  by (induction seen js rule: append_unique.induct) auto

lemma distinct_append_unique: "distinct (map jName (append_unique seen js))"
  by (induction seen js rule: append_unique.induct) (simp_all add: append_unique_names)

lemma stages_insertStages: "set (insertStages base add b a) = set base \<union> set add"
proof -
  have "set (take i base) \<union> set (drop i base) = set base" for i
    by (metis append_take_drop_id set_append)
  moreover have "dedup base add = [] \<Longrightarrow> set add \<subseteq> set base"
    using set_dedup [of base add] by simp
  ultimately show ?thesis by (auto simp: insertStages_def Let_def)
qed

lemma merge_policy_frame:
  "merge_policy p out = out\<lparr>plStages := plStages (merge_policy p out), plJobs := plJobs (merge_policy p out)\<rparr>"
  by (simp add: merge_policy_def)

lemma merge_inject:
  assumes "\<not> overriding p"
  shows "plStages (merge_policy p out) =
      insertStages (plStages out) (plStages (poPipeline p)) (poPositionBefore p) (poPositionAfter p)"
    and "plJobs (merge_policy p out) = plJobs out @ append_unique (jName ` set (plJobs out)) (plJobs (poPipeline p))"
  using assms by (simp_all add: merge_policy_def overriding_def appendUniqueJobs_def)

lemma merge_override:
  assumes "overriding p"
  shows "plStages (merge_policy p out) = plStages (poPipeline p)" "plJobs (merge_policy p out) = plJobs (poPipeline p)"
  using assms by (simp_all add: merge_policy_def overriding_def)

section \<open>Mandatory jobs\<close>

text \<open>The reserved names of a merge belong to its policies.\<close>

definition owned_by :: "Policy set \<Rightarrow> Pipeline \<Rightarrow> bool" where
  "owned_by ps out =
     ((\<forall>s\<in>set (plStages out). reserved s \<longrightarrow> (\<exists>p\<in>ps. s \<in> stage_names p))
      \<and> (\<forall>j\<in>set (plJobs out). reserved (jName j) \<longrightarrow> (\<exists>p\<in>ps. j \<in> set (plJobs (poPipeline p)))))"

lemma owned_merge: "owned_by ps out \<Longrightarrow> owned_by (insert p ps) (merge_policy p out)"
  by (cases "overriding p")
    (auto simp: owned_by_def merge_override merge_inject stages_insertStages stage_names_def dest: append_unique_sub [THEN subsetD])

lemma owned_fold: "owned_by ps out \<Longrightarrow> owned_by (ps \<union> set qs) (fold merge_policy qs out)"
proof (induction qs arbitrary: ps out)
  case (Cons q qs)
  have "owned_by (insert q ps \<union> set qs) (fold merge_policy qs (merge_policy q out))"
    by (rule Cons.IH) (rule owned_merge [OF Cons.prems])
  then show ?case by simp
qed simp

text \<open>A policy in force: its stages are declared and each of its jobs is the one its name finds.\<close>

definition enforced :: "Policy \<Rightarrow> Pipeline \<Rightarrow> bool" where
  "enforced p out =
     (stage_names p \<subseteq> set (plStages out)
      \<and> (\<forall>j\<in>set (plJobs (poPipeline p)). findJob out (jName j) = Some j))"

lemma enforced_later:
  assumes "enforced p out" and "\<not> overriding q"
  shows "enforced p (merge_policy q out)"
  using assms by (auto simp: enforced_def merge_inject stages_insertStages findJob_def find_append split: option.split)

lemma enforced_fold:
  "enforced p out \<Longrightarrow> \<forall>q\<in>set qs. \<not> overriding q \<Longrightarrow> enforced p (fold merge_policy qs out)"
  by (induction qs arbitrary: out) (auto intro: enforced_later)

lemma find_None_name: "n \<notin> jName ` set js \<Longrightarrow> find (\<lambda>x. jName x = n) js = None"
  by (auto simp: find_None_iff)

lemma enforced_merge:
  assumes "well_named p" and "owned_by ps out" and "\<forall>q\<in>ps. disjoint_names p q"
  shows "enforced p (merge_policy p out)"
proof (cases "overriding p")
  case True
  with assms(1) show ?thesis
    by (auto simp: enforced_def merge_override findJob_def stage_names_def well_named_def find_distinct_name)
next
  case False
  have new: "jName j \<notin> jName ` set (plJobs out)" if j: "j \<in> set (plJobs (poPipeline p))" for j
  proof
    assume "jName j \<in> jName ` set (plJobs out)"
    then obtain k where k: "k \<in> set (plJobs out)" "jName k = jName j" by auto
    have "reserved (jName j)" using assms(1) j by (auto simp: well_named_def job_names_def)
    with k assms(2) obtain q where q: "q \<in> ps" "k \<in> set (plJobs (poPipeline q))" by (auto simp: owned_by_def)
    have "jName j \<in> job_names p \<inter> job_names q" using j q(2) k(2) unfolding job_names_def by (metis IntI image_eqI)
    with assms(3) q(1) show False by (auto simp: disjoint_names_def)
  qed
  have dist: "distinct (map jName (plJobs (poPipeline p)))" using assms(1) by (simp add: well_named_def)
  have "append_unique (jName ` set (plJobs out)) (plJobs (poPipeline p)) = plJobs (poPipeline p)"
    using new by (simp add: append_unique_filter [OF dist] filter_id_conv)
  then have "findJob (merge_policy p out) (jName j) = Some j" if "j \<in> set (plJobs (poPipeline p))" for j
    using that new [OF that] dist by (simp add: findJob_def merge_inject [OF False] find_append find_None_name find_distinct_name)
  then show ?thesis by (auto simp: enforced_def merge_inject [OF False] stages_insertStages stage_names_def)
qed

lemma owned_stripped:
  "owned_by {} (raw\<lparr>plStages := stripReservedStages (plStages raw), plJobs := stripReservedJobs (plJobs raw)\<rparr>)"
  by (auto simp: owned_by_def stripReservedStages_def stripReservedJobs_def)

lemma sort_split:
  assumes "own_names ps" and "p \<in> set ps"
  obtains before after where "sort_key policy_key ps = before @ p # after" and "p \<notin> set before" and "p \<notin> set after"
proof -
  have d: "distinct (sort_key policy_key ps)" using assms(1) by (simp add: own_names_def)
  have "p \<in> set (sort_key policy_key ps)" using assms(2) by simp
  then obtain before after where "sort_key policy_key ps = before @ p # after" using split_list by metis
  with d show thesis by (intro that) auto
qed

lemma ApplyPolicies_fold:
  "ps \<noteq> [] \<Longrightarrow> ApplyPolicies raw ps = fold merge_policy (sort_key policy_key ps)
     (raw\<lparr>plStages := stripReservedStages (plStages raw), plJobs := stripReservedJobs (plJobs raw)\<rparr>)"
  by (simp add: ApplyPolicies_def)

lemma merge_owned: "ps \<noteq> [] \<Longrightarrow> owned_by (set ps) (ApplyPolicies raw ps)"
  using owned_fold [OF owned_stripped, of "sort_key policy_key ps" raw] by (simp add: ApplyPolicies_fold)

text \<open>A policy is in force unless an overriding one comes after it in the order of the merge.\<close>

definition in_force :: "Policy list \<Rightarrow> Policy \<Rightarrow> bool" where
  "in_force ps p = (p \<in> set ps \<and> (\<forall>q\<in>set ps. overriding q \<longrightarrow> q = p \<or> policy_key q < policy_key p))"

lemma merge_enforces:
  assumes own: "own_names ps" and force: "in_force ps p"
  shows "enforced p (ApplyPolicies raw ps)"
proof -
  have mem: "p \<in> set ps" using force by (simp add: in_force_def)
  obtain before after where split: "sort_key policy_key ps = before @ p # after" "p \<notin> set before" "p \<notin> set after"
    by (rule sort_split [OF own mem])
  have sets: "set before \<subseteq> set ps" "set after \<subseteq> set ps" using split(1) by (metis set_sort set_append list.set_intros(2) UnI1 UnI2 subsetI)+
  have sorted: "sorted (map policy_key (before @ p # after))" by (metis split(1) sorted_sort_key)
  have late: "\<not> overriding q" if q: "q \<in> set after" for q
  proof
    assume "overriding q"
    with force sets(2) q split(3) have "policy_key q < policy_key p" by (auto simp: in_force_def)
    moreover have "policy_key p \<le> policy_key q" using sorted q by (simp add: sorted_append)
    ultimately show False by simp
  qed
  let ?base = "raw\<lparr>plStages := stripReservedStages (plStages raw), plJobs := stripReservedJobs (plJobs raw)\<rparr>"
  have "owned_by (set before) (fold merge_policy before ?base)" using owned_fold [OF owned_stripped, of before raw] by simp
  moreover have "well_named p" "\<forall>q\<in>set before. disjoint_names p q"
    using own mem sets(1) split(2) unfolding own_names_def list_all_iff by (blast, metis subsetD)
  ultimately have "enforced p (merge_policy p (fold merge_policy before ?base))" by (intro enforced_merge)
  then have "enforced p (fold merge_policy after (merge_policy p (fold merge_policy before ?base)))"
    using late by (intro enforced_fold) auto
  moreover have "ps \<noteq> []" using mem by auto
  ultimately show ?thesis by (simp add: ApplyPolicies_fold split(1))
qed

text \<open>An overriding policy erases the policies before it.\<close>

lemma override_erases:
  assumes own: "own_names ps" and mem: "p \<in> set ps" "q \<in> set ps" and over: "overriding q" "policy_key p < policy_key q"
    and j: "j \<in> set (plJobs (poPipeline p))"
  shows "findJob (ApplyPolicies raw ps) (jName j) = None"
proof -
  obtain before after where split: "sort_key policy_key ps = before @ q # after" "q \<notin> set before" "q \<notin> set after"
    by (rule sort_split [OF own mem(2)])
  have sorted: "sorted (map policy_key (before @ q # after))" by (metis split(1) sorted_sort_key)
  have pout: "p \<notin> set (q # after)"
    using sorted over(2) by (auto simp: sorted_append)
  let ?base = "fold merge_policy before (raw\<lparr>plStages := stripReservedStages (plStages raw), plJobs := stripReservedJobs (plJobs raw)\<rparr>)"
  have "owned_by {q} (merge_policy q ?base)"
    by (auto simp: owned_by_def merge_override [OF over(1)] stage_names_def)
  then have o: "owned_by ({q} \<union> set after) (fold merge_policy after (merge_policy q ?base))" by (rule owned_fold)
  have "ps \<noteq> []" using mem(1) by auto
  with split(1) have eq: "ApplyPolicies raw ps = fold merge_policy after (merge_policy q ?base)" by (simp add: ApplyPolicies_fold)
  have sub: "set (q # after) \<subseteq> set ps" by (metis set_sort split(1) set_append Un_upper2)
  show ?thesis
  proof (rule ccontr)
    assume "findJob (ApplyPolicies raw ps) (jName j) \<noteq> None"
    then obtain k where k: "k \<in> set (plJobs (ApplyPolicies raw ps))" "jName k = jName j"
      unfolding findJob_def by (auto dest!: find_SomeD)
    have wn: "well_named p" using own mem(1) by (auto simp: own_names_def list_all_iff)
    then have "reserved (jName k)" using j k(2) by (auto simp: well_named_def job_names_def)
    then obtain r where r: "r \<in> set (q # after)" "k \<in> set (plJobs (poPipeline r))" using o k(1) by (auto simp: owned_by_def eq)
    with pout have ne: "r \<noteq> p" by auto
    have "jName j \<in> job_names p \<inter> job_names r" using j r(2) k(2) unfolding job_names_def by (metis IntI image_eqI)
    moreover have "disjoint_names p r" using own mem(1) r(1) sub ne by (auto simp: own_names_def)
    ultimately show False by (auto simp: disjoint_names_def)
  qed
qed

section \<open>The repository's part\<close>

lemma filter_dedup: "\<forall>s\<in>set add. \<not> P s \<Longrightarrow> filter P (dedup base add) = []"
  by (auto simp: filter_empty_conv)

lemma repo_stages: "\<forall>s\<in>set add. reserved s \<Longrightarrow>
  filter (\<lambda>s. \<not> reserved s) (insertStages base add b a) = filter (\<lambda>s. \<not> reserved s) base"
proof -
  assume add: "\<forall>s\<in>set add. reserved s"
  have "filter P (take i base) @ filter P (drop i base) = filter P base" for P and i
    by (metis append_take_drop_id filter_append)
  then show ?thesis using add by (simp add: insertStages_def Let_def filter_dedup)
qed

lemma repo_merge:
  assumes "well_named p" and "\<not> overriding p"
  shows "stripReservedStages (plStages (merge_policy p out)) = stripReservedStages (plStages out)
    \<and> stripReservedJobs (plJobs (merge_policy p out)) = stripReservedJobs (plJobs out)"
proof
  show "stripReservedStages (plStages (merge_policy p out)) = stripReservedStages (plStages out)"
    using assms by (simp add: stripReservedStages_def merge_inject repo_stages well_named_def stage_names_def)
  have "filter (\<lambda>j. \<not> reserved (jName j)) (append_unique seen (plJobs (poPipeline p))) = []" for seen
    using assms(1) append_unique_sub [of seen "plJobs (poPipeline p)"]
    by (auto simp: filter_empty_conv well_named_def job_names_def)
  then show "stripReservedJobs (plJobs (merge_policy p out)) = stripReservedJobs (plJobs out)"
    by (simp add: stripReservedJobs_def merge_inject [OF assms(2)])
qed

lemma repo_fold:
  "\<forall>p\<in>set ps. well_named p \<and> \<not> overriding p \<Longrightarrow>
   stripReservedStages (plStages (fold merge_policy ps out)) = stripReservedStages (plStages out)
    \<and> stripReservedJobs (plJobs (fold merge_policy ps out)) = stripReservedJobs (plJobs out)"
  by (induction ps arbitrary: out) (simp_all add: repo_merge)

lemma merge_keeps_repo:
  assumes "\<forall>p\<in>set ps. well_named p \<and> \<not> overriding p"
  shows "stripReservedStages (plStages (ApplyPolicies raw ps)) = stripReservedStages (plStages raw)
    \<and> stripReservedJobs (plJobs (ApplyPolicies raw ps)) = stripReservedJobs (plJobs raw)"
proof (cases "ps = []")
  case False
  with repo_fold [of "sort_key policy_key ps" "raw\<lparr>plStages := stripReservedStages (plStages raw), plJobs := stripReservedJobs (plJobs raw)\<rparr>"] assms
  show ?thesis by (simp add: ApplyPolicies_fold) (simp add: stripReservedStages_def stripReservedJobs_def)
qed (simp add: ApplyPolicies_def)

section \<open>Acceptance\<close>

lemma acyclic_disjoint:
  assumes "acyclic r" and "acyclic s" and "fst ` r \<union> snd ` r \<subseteq> A" and "fst ` s \<union> snd ` s \<subseteq> B" and "A \<inter> B = {}"
  shows "acyclic (r \<union> s)"
proof -
  have "(a \<in> A \<and> (a, b) \<in> r\<^sup>+ \<and> b \<in> A) \<or> (a \<in> B \<and> (a, b) \<in> s\<^sup>+ \<and> b \<in> B)" if "(a, b) \<in> (r \<union> s)\<^sup>+" for a b
    using that
  proof (induction rule: trancl_induct)
    case (base b)
    with assms(3,4) show ?case by force
  next
    case (step b c)
    have "(b, c) \<in> r \<Longrightarrow> b \<in> A \<and> c \<in> A" "(b, c) \<in> s \<Longrightarrow> b \<in> B \<and> c \<in> B" using assms(3,4) by force+
    with step assms(5) show ?case by (auto intro: trancl_into_trancl)
  qed
  with assms(1,2) show ?thesis unfolding acyclic_def by blast
qed

lemma job_named_append:
  assumes "jName ` set js \<inter> jName ` set ks = {}"
  shows "job_named (js @ ks) n = (if n \<in> jName ` set js then job_named js n else job_named ks n)"
proof (cases "n \<in> jName ` set js")
  case True
  then have "n \<notin> dom (job_named ks)" using assms unfolding dom_job_named by auto
  with True show ?thesis by (auto simp: job_named_def map_add_def split: option.split)
next
  case False
  then have "n \<notin> dom (job_named js)" unfolding dom_job_named by auto
  with False show ?thesis by (auto simp: job_named_def map_add_def split: option.split)
qed

lemma needs_rel_names: "fst ` needs_rel jobs \<subseteq> jName ` set jobs"
proof -
  have "a \<in> dom (needs_of jobs)" if "(a, b) \<in> needs_rel jobs" for a b using that by (auto simp: needs_rel_def)
  then show ?thesis unfolding dom_needs_of by force
qed

lemma accepted_closed: "accepted p \<Longrightarrow> snd ` needs_rel (plJobs p) \<subseteq> jName ` set (plJobs p)"
proof -
  assume acc: "accepted p"
  have "b \<in> jName ` set (plJobs p)" if r: "(a, b) \<in> needs_rel (plJobs p)" for a b
  proof -
    have "a \<in> jName ` set (plJobs p)" using r needs_rel_names [of "plJobs p"] by force
    then obtain j where "j \<in> set (plJobs p)" "jName j = a" by auto
    then have "byName p a = Some j" using accepted_byName [OF acc] by auto
    with accepted_needs [OF acc r] show ?thesis by (auto simp: byName_def dest: job_named_SomeD)
  qed
  then show ?thesis by auto
qed

text \<open>Where the stages of both parts end up.\<close>

lemma ordinal_spliced:
  assumes dist: "distinct (base @ add)" and k: "k \<le> length base"
  shows "i < length base \<Longrightarrow> stage_ordinal (take k base @ add @ drop k base) (base ! i) =
      Some (if i < k then i else i + length add)"
    and "i < length add \<Longrightarrow> stage_ordinal (take k base @ add @ drop k base) (add ! i) = Some (k + i)"
proof -
  let ?m = "take k base @ add @ drop k base"
  have "set (take k base) \<inter> set (drop k base) = {}" using dist by (simp add: set_take_disj_set_drop_if_distinct)
  then have d: "distinct ?m" using dist by (auto dest: in_set_takeD in_set_dropD)
  have len: "length ?m = length base + length add" by simp
  show "stage_ordinal ?m (base ! i) = Some (if i < k then i else i + length add)" if i: "i < length base"
  proof -
    have "?m ! (if i < k then i else i + length add) = base ! i" using i k by (auto simp: nth_append)
    moreover have "(if i < k then i else i + length add) < length ?m" using i len by simp
    ultimately show ?thesis using stage_ordinal_nth [OF d, of "if i < k then i else i + length add"] by simp
  qed
  show "stage_ordinal ?m (add ! i) = Some (k + i)" if i: "i < length add"
  proof -
    have "?m ! (k + i) = add ! i" using i k by (simp add: nth_append)
    moreover have "k + i < length ?m" using i k len by simp
    ultimately show ?thesis using stage_ordinal_nth [OF d, of "k + i"] by metis
  qed
qed

lemma dedup_id: "distinct add \<Longrightarrow> set add \<inter> set base = {} \<Longrightarrow> dedup base add = add"
proof (induction add arbitrary: base)
  case (Cons a add)
  then show ?case by (simp add: Cons.IH [of "a # base"])
qed simp

lemma anchor_within: "anchor_index base b a \<le> length base"
proof -
  have "indexOf ss w = Some i \<Longrightarrow> i < length ss" for ss w i
    by (induction ss w arbitrary: i rule: indexOf.induct) (auto split: if_splits)
  then show ?thesis by (auto simp: anchor_index_def Suc_le_eq intro: less_imp_le)
qed

lemma insertStages_spliced:
  assumes "distinct add" and "set add \<inter> set base = {}"
  shows "\<exists>k\<le>length base. insertStages base add b a = take k base @ add @ drop k base"
  using anchor_within [of base b a] dedup_id [OF assms]
  by (cases "add = []") (auto simp: insertStages_def Let_def intro!: exI [of _ "anchor_index base b a"])

lemma ordinal_order:
  assumes dist: "distinct (base @ add)" and k: "k \<le> length base"
    and part: "part = base \<or> part = add" and st: "s \<in> set part" "t \<in> set part"
    and le: "the (stage_ordinal part t) \<le> the (stage_ordinal part s)"
  shows "\<exists>i j. stage_ordinal (take k base @ add @ drop k base) s = Some i
    \<and> stage_ordinal (take k base @ add @ drop k base) t = Some j \<and> j \<le> i"
proof -
  obtain i j where i: "i < length part" "s = part ! i" and j: "j < length part" "t = part ! j"
    using st by (metis in_set_conv_nth)
  have "distinct part" using part dist by auto
  then have "j \<le> i" using le i j by (simp add: stage_ordinal_nth)
  with part show ?thesis
    using i j ordinal_spliced(1) [OF dist k, of i] ordinal_spliced(1) [OF dist k, of j]
      ordinal_spliced(2) [OF dist k, of i] ordinal_spliced(2) [OF dist k, of j] by auto
qed

lemma dep_in_part:
  assumes acc: "accepted q" and j: "j \<in> set (plJobs q)" and dep: "dep \<in> set (jNeeds j)"
  obtains t where "job_named (plJobs q) dep = Some t" "dep \<noteq> jName j" "jStage j \<in> set (plStages q)" "jStage t \<in> set (plStages q)"
    "the (stage_ordinal (plStages q) (jStage t)) \<le> the (stage_ordinal (plStages q) (jStage j))"
proof -
  have ok: "dep_ok (plJobs q) (plStages q) j dep" using acc j dep by (auto simp: accepted_def validateNeeds_None_iff)
  then obtain t where t: "job_named (plJobs q) dep = Some t" "dep \<noteq> jName j" by (auto simp: dep_ok_def split: option.splits)
  then have "t \<in> set (plJobs q)" by (auto dest: job_named_SomeD)
  with acc j have st: "jStage j \<in> set (plStages q)" "jStage t \<in> set (plStages q)"
    by (auto simp: accepted_def stages_declared_def list_all_iff)
  obtain a b where "stage_ordinal (plStages q) (jStage j) = Some a" "stage_ordinal (plStages q) (jStage t) = Some b"
    using stage_ordinal_declared [OF st(1)] stage_ordinal_declared [OF st(2)] by auto
  with ok t show thesis by (intro that [OF t st]) (simp add: dep_ok_def)
qed

definition sound_pipeline :: "Pipeline \<Rightarrow> bool" where
  "sound_pipeline p = (accepted p \<and> distinct (plStages p))"

lemma merge_accepted:
  assumes base: "sound_pipeline out" and add: "sound_pipeline (poPipeline p)"
    and stages: "set (plStages out) \<inter> stage_names p = {}" and jobs: "jName ` set (plJobs out) \<inter> job_names p = {}"
    and inject: "\<not> overriding p"
  shows "sound_pipeline (merge_policy p out)"
proof -
  let ?q = "poPipeline p" and ?m = "merge_policy p out"
  have acc: "accepted out" "accepted ?q" and ds: "distinct (plStages out @ plStages ?q)"
    using base add stages by (auto simp: sound_pipeline_def stage_names_def)
  have dj: "distinct (map jName (plJobs out))" "distinct (map jName (plJobs ?q))" using acc by (simp_all add: accepted_def)
  obtain k where k: "k \<le> length (plStages out)" "plStages ?m = take k (plStages out) @ plStages ?q @ drop k (plStages out)"
    using insertStages_spliced [of "plStages ?q" "plStages out"] ds merge_inject(1) [OF inject, of out] by (metis distinct_append inf_commute)
  have J: "plJobs ?m = plJobs out @ plJobs ?q"
    using jobs by (subst merge_inject(2) [OF inject], subst append_unique_filter [OF dj(2)]) (auto simp: filter_id_conv job_names_def)
  have disj: "jName ` set (plJobs out) \<inter> jName ` set (plJobs ?q) = {}" using jobs by (simp add: job_names_def)
  have dist: "distinct (map jName (plJobs ?m))" using dj disj by (auto simp: J)
  have stages_eq: "set (plStages ?m) = set (plStages out) \<union> set (plStages ?q)"
    by (simp add: merge_inject [OF inject] stages_insertStages)
  have named: "job_named (plJobs ?m) n = (if n \<in> jName ` set (plJobs out) then job_named (plJobs out) n else job_named (plJobs ?q) n)" for n
    unfolding J by (rule job_named_append [OF disj])
  have rel: "needs_rel (plJobs ?m) \<subseteq> needs_rel (plJobs out) \<union> needs_rel (plJobs ?q)"
    by (auto simp: needs_rel_job_named needs_rel_def needs_of_job_named named split: if_splits)
  have "acyclic (needs_rel (plJobs out) \<union> needs_rel (plJobs ?q))"
    using acc accepted_closed [OF acc(1)] accepted_closed [OF acc(2)] needs_rel_names [of "plJobs out"] needs_rel_names [of "plJobs ?q"] disj
    by (intro acyclic_disjoint [where A = "jName ` set (plJobs out)" and B = "jName ` set (plJobs ?q)"])
      (simp_all add: accepted_def validateNoCycles_None_iff)
  then have acyc: "validateNoCycles (plJobs ?m) = None" using rel by (auto simp: validateNoCycles_None_iff intro: acyclic_subset)
  have needs: "dep_ok (plJobs ?m) (plStages ?m) j dep" if "j \<in> set (plJobs ?m)" "dep \<in> set (jNeeds j)" for j dep
  proof -
    from that(1) consider (base) "j \<in> set (plJobs out)" | (add) "j \<in> set (plJobs ?q)" by (auto simp: J)
    then obtain part t where part: "part = plStages out \<or> part = plStages ?q" and st: "jStage j \<in> set part" "jStage t \<in> set part"
      and t: "job_named (plJobs ?m) dep = Some t" "dep \<noteq> jName j"
      and le: "the (stage_ordinal part (jStage t)) \<le> the (stage_ordinal part (jStage j))"
    proof cases
      case base
      obtain t where t: "job_named (plJobs out) dep = Some t" "dep \<noteq> jName j" "jStage j \<in> set (plStages out)"
        "jStage t \<in> set (plStages out)" "the (stage_ordinal (plStages out) (jStage t)) \<le> the (stage_ordinal (plStages out) (jStage j))"
        by (rule dep_in_part [OF acc(1) base \<open>dep \<in> set (jNeeds j)\<close>])
      moreover have "dep \<in> jName ` set (plJobs out)" using t(1) by (auto dest: job_named_SomeD)
      ultimately show thesis using that [of "plStages out" t] by (simp add: named)
    next
      case add
      obtain t where t: "job_named (plJobs ?q) dep = Some t" "dep \<noteq> jName j" "jStage j \<in> set (plStages ?q)"
        "jStage t \<in> set (plStages ?q)" "the (stage_ordinal (plStages ?q) (jStage t)) \<le> the (stage_ordinal (plStages ?q) (jStage j))"
        by (rule dep_in_part [OF acc(2) add \<open>dep \<in> set (jNeeds j)\<close>])
      moreover have "dep \<notin> jName ` set (plJobs out)" using t(1) disj by (auto dest: job_named_SomeD)
      ultimately show thesis using that [of "plStages ?q" t] by (simp add: named)
    qed
    from ordinal_order [OF ds k(1) part st le] t show ?thesis by (auto simp: dep_ok_def k(2))
  qed
  have "stages_declared ?m" using acc stages_eq by (auto simp: accepted_def stages_declared_def list_all_iff J)
  moreover have "distinct (plStages ?m)"
    using ds set_take_disj_set_drop_if_distinct [of "plStages out" k k] by (auto simp: k(2) dest: in_set_takeD in_set_dropD)
  ultimately show ?thesis using dist acyc needs by (simp add: sound_pipeline_def accepted_def validateNeeds_None_iff)
qed

lemma owned_fresh:
  assumes "well_named p" and "owned_by ps out" and "\<forall>q\<in>ps. disjoint_names p q"
  shows "set (plStages out) \<inter> stage_names p = {}" and "jName ` set (plJobs out) \<inter> job_names p = {}"
proof -
  have "s \<notin> stage_names p" if "s \<in> set (plStages out)" for s
  proof
    assume s: "s \<in> stage_names p"
    with assms(1,2) that obtain q where "q \<in> ps" "s \<in> stage_names q" by (auto simp: well_named_def owned_by_def)
    with assms(3) s show False by (auto simp: disjoint_names_def)
  qed
  then show "set (plStages out) \<inter> stage_names p = {}" by auto
  have "jName j \<notin> job_names p" if j: "j \<in> set (plJobs out)" for j
  proof
    assume n: "jName j \<in> job_names p"
    with assms(1,2) j obtain q where "q \<in> ps" "j \<in> set (plJobs (poPipeline q))" by (auto simp: well_named_def owned_by_def)
    with assms(3) n show False by (auto simp: disjoint_names_def job_names_def)
  qed
  then show "jName ` set (plJobs out) \<inter> job_names p = {}" by auto
qed

lemma merge_fold_sound:
  assumes "sound_pipeline out" and "owned_by ps out" and "\<forall>q\<in>set qs. well_named q \<and> sound_pipeline (poPipeline q)"
    and "distinct qs" and "set qs \<inter> ps = {}" and "\<forall>p\<in>ps \<union> set qs. \<forall>q\<in>ps \<union> set qs. p \<noteq> q \<longrightarrow> disjoint_names p q"
  shows "sound_pipeline (fold merge_policy qs out)"
  using assms
proof (induction qs arbitrary: out ps)
  case (Cons q qs)
  have dq: "\<forall>p\<in>ps. disjoint_names q p"
  proof
    fix p assume "p \<in> ps"
    moreover from this Cons.prems(5) have "q \<noteq> p" by auto
    ultimately show "disjoint_names q p" using Cons.prems(6) by simp
  qed
  have wq: "well_named q" "sound_pipeline (poPipeline q)" using Cons.prems(3) by simp_all
  have "sound_pipeline (merge_policy q out)"
  proof (cases "overriding q")
    case True
    then have "plStages (merge_policy q out) = plStages (poPipeline q)" "plJobs (merge_policy q out) = plJobs (poPipeline q)"
      by (simp_all add: merge_override)
    with wq(2) show ?thesis by (simp add: sound_pipeline_def accepted_def stages_declared_def)
  next
    case False
    then show ?thesis
      by (intro merge_accepted owned_fresh [OF wq(1) Cons.prems(2) dq] Cons.prems(1) wq(2))
  qed
  moreover have "owned_by (insert q ps) (merge_policy q out)" by (rule owned_merge [OF Cons.prems(2)])
  moreover have "set qs \<inter> insert q ps = {}" using Cons.prems(4,5) by auto
  moreover have "insert q ps \<union> set qs = ps \<union> set (q # qs)" by auto
  ultimately have "sound_pipeline (fold merge_policy qs (merge_policy q out))"
    using Cons.prems by (intro Cons.IH [of _ "insert q ps"]) simp_all
  then show ?case by simp
qed simp

lemma unreserved_strip:
  assumes "RejectReservedNames raw = None"
  shows "stripReservedStages (plStages raw) = plStages raw" "stripReservedJobs (plJobs raw) = plJobs raw"
  using assms by (auto simp: RejectReservedNames_def stripReservedStages_def stripReservedJobs_def filter_id_conv
      find_None_iff split: option.splits)

lemma merge_sound:
  assumes raw: "sound_pipeline raw" "RejectReservedNames raw = None"
    and own: "own_names ps" and sound: "\<forall>p\<in>set ps. sound_pipeline (poPipeline p)"
  shows "sound_pipeline (ApplyPolicies raw ps)"
proof (cases "ps = []")
  case False
  let ?base = "raw\<lparr>plStages := stripReservedStages (plStages raw), plJobs := stripReservedJobs (plJobs raw)\<rparr>"
  have "?base = raw" using unreserved_strip [OF raw(2)] by simp
  then have "sound_pipeline (fold merge_policy (sort_key policy_key ps) raw)"
    using own sound owned_stripped [of raw] raw(1)
    by (intro merge_fold_sound [where ps = "{}"]) (simp_all add: own_names_def list_all_iff)
  with \<open>?base = raw\<close> show ?thesis by (simp add: ApplyPolicies_fold [OF False])
qed (simp add: ApplyPolicies_def raw(1))

end
