(* ===== verification/ComplianceReconcile.thy ===== *)
theory ComplianceReconcile
  imports ComplianceMerge
begin

text \<open>
  What reconciliation, recomputation and the apply of a repository guarantee of one project,
  and what they leave of the others: every stored definition is the merge of its repository
  part with the policies in force, and a governed project has a pipeline that a push to its
  default branch starts.
\<close>

section \<open>Frames\<close>

definition same_admin :: "ComplianceDB \<Rightarrow> ComplianceDB \<Rightarrow> bool" where
  "same_admin d d' =
     (cdProjects d' = cdProjects d \<and> cdScm d' = cdScm d \<and> cdFrameworks d' = cdFrameworks d
      \<and> cdProjectFrameworks d' = cdProjectFrameworks d \<and> cdPolicies d' = cdPolicies d
      \<and> cdPolicyFrameworks d' = cdPolicyFrameworks d)"

lemma same_admin_policies: "same_admin d d' \<Longrightarrow> policiesForProject d' P = policiesForProject d P"
  by (simp add: same_admin_def policiesForProject_def ResolvePoliciesForProject_def applies_def cong: filter_cong)

lemma same_admin_scm: "same_admin d d' \<Longrightarrow> scmForProject P d' = scmForProject P d"
  by (simp add: same_admin_def scmForProject_def)

text \<open>The keys of the pipeline table, and the owner of its one reserved name.\<close>

definition pipelines_ok :: "ComplianceDB \<Rightarrow> bool" where
  "pipelines_ok d =
     (distinct (map pwID (cdPipelines d)) \<and> distinct (map (\<lambda>r. (pwProject r, pwName r)) (cdPipelines d))
      \<and> (\<forall>r\<in>set (cdPipelines d). pwSystemManaged r \<longleftrightarrow> pwName r = PipelineName)
      \<and> (\<forall>r\<in>set (cdPipelines d). RejectReservedNames (pwRaw r) = None))"

text \<open>A change within one project.\<close>

definition within :: "uuid \<Rightarrow> ComplianceDB \<Rightarrow> ComplianceDB \<Rightarrow> bool" where
  "within P d d' =
     (same_admin d d'
      \<and> (\<forall>r. pwProject r \<noteq> P \<longrightarrow> (r \<in> set (cdPipelines d') \<longleftrightarrow> r \<in> set (cdPipelines d)))
      \<and> (\<forall>r\<in>set (cdPipelines d). pwProject r \<noteq> P \<longrightarrow>
           (\<forall>m. mwPipeline m = pwID r \<longrightarrow> (m \<in> set (cdMaterials d') \<longleftrightarrow> m \<in> set (cdMaterials d)))))"

text \<open>The repository's own pipelines stay.\<close>

definition repo_kept :: "uuid \<Rightarrow> ComplianceDB \<Rightarrow> ComplianceDB \<Rightarrow> bool" where
  "repo_kept P d d' =
     (\<forall>r. pwProject r = P \<and> \<not> pwSystemManaged r \<longrightarrow> (r \<in> set (cdPipelines d') \<longleftrightarrow> r \<in> set (cdPipelines d)))"

lemma within_refl [simp]: "within P d d"
  by (simp add: within_def same_admin_def)

lemma same_admin_trans: "same_admin d d1 \<Longrightarrow> same_admin d1 d2 \<Longrightarrow> same_admin d d2"
  by (simp add: same_admin_def)

lemma within_trans: "within P d d1 \<Longrightarrow> within P d1 d2 \<Longrightarrow> within P d d2"
  unfolding within_def by (intro conjI; blast intro: same_admin_trans)

text \<open>What is kept of the pipelines when only materials change.\<close>

definition keeps_pipelines :: "ComplianceDB \<Rightarrow> ComplianceDB \<Rightarrow> bool" where
  "keeps_pipelines d d' = (same_admin d d' \<and> cdPipelines d' = cdPipelines d)"

lemma same_pipeline_id:
  "pipelines_ok d \<Longrightarrow> r \<in> set (cdPipelines d) \<Longrightarrow> q \<in> set (cdPipelines d) \<Longrightarrow> pwID r = pwID q \<Longrightarrow> r = q"
  by (auto simp: pipelines_ok_def distinct_map dest: inj_onD)

lemma same_pipeline_slot:
  "pipelines_ok d \<Longrightarrow> r \<in> set (cdPipelines d) \<Longrightarrow> q \<in> set (cdPipelines d) \<Longrightarrow> pwProject r = pwProject q \<Longrightarrow>
   pwName r = pwName q \<Longrightarrow> r = q"
  by (auto simp: pipelines_ok_def distinct_map dest: inj_onD)

lemma UpsertMaterial_frame [simp]:
  "cdPipelines (UpsertMaterial i m d) = cdPipelines d" "same_admin d (UpsertMaterial i m d)"
  by (auto simp: UpsertMaterial_def Let_def same_admin_def)

lemma UpsertMaterial_other:
  "mwPipeline m \<noteq> i \<or> mwFingerprint m \<noteq> mtFingerprint mat \<Longrightarrow>
   m \<in> set (cdMaterials (UpsertMaterial i mat d)) \<longleftrightarrow> m \<in> set (cdMaterials d)"
  by (auto simp: UpsertMaterial_def Let_def set_upd_where image_iff)

lemma UpsertMaterial_there:
  "\<exists>m\<in>set (cdMaterials (UpsertMaterial i mat d)). mwPipeline m = i \<and> mwFingerprint m = mtFingerprint mat
     \<and> mwType m = mtType mat \<and> mwConfig m = marshalMaterialConfig mat"
proof (cases "list_ex (\<lambda>r. mwPipeline r = i \<and> mwFingerprint r = mtFingerprint mat) (cdMaterials d)")
  case True
  then obtain r where "r \<in> set (cdMaterials d)" "mwPipeline r = i" "mwFingerprint r = mtFingerprint mat" by (auto simp: list_ex_iff)
  with True show ?thesis
    by (auto simp: UpsertMaterial_def Let_def set_upd_where
        intro!: bexI [of _ "r\<lparr>mwType := mtType mat, mwConfig := marshalMaterialConfig mat, mwAutoUpdate := mtAutoUpdate mat\<rparr>"]
          image_eqI [of _ _ r])
qed (simp add: UpsertMaterial_def Let_def)

lemma DeleteMaterials_frame [simp]:
  "cdPipelines (DeleteMaterials i p d) = cdPipelines d" "same_admin d (DeleteMaterials i p d)"
  by (simp_all add: DeleteMaterials_def same_admin_def)

lemma DeletePipeline_frame [simp]: "same_admin d (DeletePipeline i d)"
  by (simp add: DeletePipeline_def same_admin_def)

text \<open>An id of a pipeline of the project, if of any.\<close>

definition owns :: "uuid \<Rightarrow> uuid \<Rightarrow> ComplianceDB \<Rightarrow> bool" where
  "owns P i d = (\<forall>r\<in>set (cdPipelines d). pwID r = i \<longrightarrow> pwProject r = P)"

lemma owns_row: "pipelines_ok d \<Longrightarrow> p \<in> set (cdPipelines d) \<Longrightarrow> owns (pwProject p) (pwID p) d"
  by (auto simp: owns_def dest: same_pipeline_id)

lemma within_UpsertMaterial: "owns P i d \<Longrightarrow> within P d (UpsertMaterial i mat d)"
  by (auto simp: within_def owns_def UpsertMaterial_other)

lemma within_DeleteMaterials: "owns P i d \<Longrightarrow> within P d (DeleteMaterials i stale d)"
  by (auto simp: within_def owns_def DeleteMaterials_def same_admin_def)

lemma within_DeletePipeline: "owns P i d \<Longrightarrow> within P d (DeletePipeline i d)"
  by (auto simp: within_def owns_def DeletePipeline_def same_admin_def)

lemma pipelines_ok_DeletePipeline: "pipelines_ok d \<Longrightarrow> pipelines_ok (DeletePipeline i d)"
  by (auto simp: pipelines_ok_def DeletePipeline_def distinct_map_filter)

lemma pipelines_ok_cong: "cdPipelines d' = cdPipelines d \<Longrightarrow> pipelines_ok d \<Longrightarrow> pipelines_ok d'"
  by (simp add: pipelines_ok_def)

section \<open>Reconciliation\<close>

text \<open>A pipeline that every push to the default branch starts.\<close>

definition fires :: "git_env \<Rightarrow> string \<Rightarrow> string \<Rightarrow> uuid \<Rightarrow> ComplianceDB \<Rightarrow> bool" where
  "fires e url branch i d =
     list_ex (\<lambda>m. mwPipeline m = i \<and> mwFingerprint m = GitFingerprint e url branch \<and> mwType m = MaterialGit
       \<and> ''push'' \<in> set (gmEvents (decode_git (mwConfig m))) \<and> gmPaths (decode_git (mwConfig m)) = []) (cdMaterials d)"

lemma harden_simps:
  assumes "branch \<noteq> []"
  shows "mtFingerprint (harden e url branch prev) = GitFingerprint e url branch" "mtType (harden e url branch prev) = MaterialGit"
    "''push'' \<in> set (gmEvents (decode_git (marshalMaterialConfig (harden e url branch prev))))"
    "gmPaths (decode_git (marshalMaterialConfig (harden e url branch prev))) = []"
  using assms by (simp_all add: harden_def ComplianceMaterial_def Let_def marshalMaterialConfig_def decode_git_def unionEvents_def)

lemma ComplianceMaterial_simps:
  assumes "branch \<noteq> []"
  shows "mtFingerprint (ComplianceMaterial e url branch) = GitFingerprint e url branch" "mtType (ComplianceMaterial e url branch) = MaterialGit"
    "''push'' \<in> set (gmEvents (decode_git (marshalMaterialConfig (ComplianceMaterial e url branch))))"
    "gmPaths (decode_git (marshalMaterialConfig (ComplianceMaterial e url branch))) = []"
  using assms by (simp_all add: ComplianceMaterial_def Let_def marshalMaterialConfig_def decode_git_def)

lemma fires_upsert:
  assumes "mtFingerprint mat = GitFingerprint e url branch" and "mtType mat = MaterialGit"
    and "''push'' \<in> set (gmEvents (decode_git (marshalMaterialConfig mat)))" and "gmPaths (decode_git (marshalMaterialConfig mat)) = []"
  shows "fires e url branch i (UpsertMaterial i mat d)"
proof -
  obtain m where "m \<in> set (cdMaterials (UpsertMaterial i mat d))" "mwPipeline m = i" "mwFingerprint m = mtFingerprint mat"
    "mwType m = mtType mat" "mwConfig m = marshalMaterialConfig mat" using UpsertMaterial_there by metis
  with assms show ?thesis by (auto simp: fires_def list_ex_iff)
qed

lemma fires_keep:
  assumes "fires e url branch i d"
    and "\<And>m. mwPipeline m = i \<Longrightarrow> mwFingerprint m = GitFingerprint e url branch \<Longrightarrow> m \<in> set (cdMaterials d) \<Longrightarrow> m \<in> set (cdMaterials d')"
  shows "fires e url branch i d'"
  using assms by (auto simp: fires_def list_ex_iff)

lemma fires_other: "fires e url branch i d \<Longrightarrow> j \<noteq> i \<Longrightarrow> fires e url branch i (UpsertMaterial j mat d)"
  by (erule fires_keep) (auto simp: UpsertMaterial_other)

lemma fires_harden_loop:
  "fires e u b i d \<Longrightarrow> i \<notin> pwID ` set ps \<Longrightarrow> fires e u b i (snd (harden_loop e url branch ps any d))"
  by (induction e url branch ps any d rule: harden_loop.induct) (auto split: option.split intro: fires_other)

lemma harden_loop_spec:
  assumes "harden_loop e url branch ps any d = (any', d')" and "pipelines_ok d" and "branch \<noteq> []"
    and "\<forall>p\<in>set ps. p \<in> set (cdPipelines d) \<and> pwProject p = P" and "distinct (map pwID ps)"
  shows "cdPipelines d' = cdPipelines d \<and> within P d d'
    \<and> (any' \<longrightarrow> any \<or> (\<exists>p\<in>set ps. \<not> pwSystemManaged p \<and> fires e url branch (pwID p) d'))"
  using assms
proof (induction e url branch ps any d arbitrary: any' d' rule: harden_loop.induct)
  case (2 e url branch p ps any d)
  show ?case
  proof (cases "\<not> pwSystemManaged p \<and> hardenedPushMaterial e (pwID p) url branch (GitFingerprint e url branch) d \<noteq> None")
    case False
    then have "harden_loop e url branch ps any d = (any', d')" using 2(4) by (cases "pwSystemManaged p") auto
    then have "cdPipelines d' = cdPipelines d \<and> within P d d'
        \<and> (any' \<longrightarrow> any \<or> (\<exists>p\<in>set ps. \<not> pwSystemManaged p \<and> fires e url branch (pwID p) d'))"
      using 2(1,2) 2(5-8) False by (cases "pwSystemManaged p") auto
    then show ?thesis by auto
  next
    case True
    then obtain prev where mat: "hardenedPushMaterial e (pwID p) url branch (GitFingerprint e url branch) d = Some (harden e url branch prev)"
      by (auto simp: hardenedPushMaterial_def Let_def split: option.splits if_splits)
    let ?d1 = "UpsertMaterial (pwID p) (harden e url branch prev) d"
    have loop: "harden_loop e url branch ps True ?d1 = (any', d')" using 2(4) True mat by simp
    have ok: "pipelines_ok ?d1" by (rule pipelines_ok_cong [OF _ 2(5)]) simp
    have rest: "cdPipelines d' = cdPipelines ?d1 \<and> within P ?d1 d'"
      using 2(3) [OF _ mat loop ok 2(6)] True 2(7,8) by simp
    have "within P d ?d1" using owns_row [OF 2(5), of p] 2(7) by (intro within_UpsertMaterial) simp
    moreover have "fires e url branch (pwID p) ?d1" by (rule fires_upsert [OF harden_simps [OF 2(6)]])
    then have "fires e url branch (pwID p) (snd (harden_loop e url branch ps True ?d1))"
      using 2(8) by (intro fires_harden_loop) simp_all
    then have "fires e url branch (pwID p) d'" by (simp add: loop)
    ultimately show ?thesis using rest True by (auto intro: within_trans)
  qed
qed auto

text \<open>What a project is promised.\<close>

definition current_row :: "ComplianceDB \<Rightarrow> PipelineRow \<Rightarrow> bool" where
  "current_row d r =
     (pwDefinition r = marshalPipelineDefinition (ApplyPolicies (pwRaw r) (policiesForProject d (pwProject r))))"

definition push_path :: "git_env \<Rightarrow> ComplianceDB \<Rightarrow> uuid \<Rightarrow> bool" where
  "push_path e d P =
     (case scmForProject P d of
        None \<Rightarrow> False
      | Some (url, branch) \<Rightarrow> list_ex (\<lambda>r. pwProject r = P \<and> fires e url branch (pwID r) d) (cdPipelines d))"

definition good_project :: "git_env \<Rightarrow> ComplianceDB \<Rightarrow> uuid \<Rightarrow> bool" where
  "good_project e d P =
     ((\<forall>r\<in>set (cdPipelines d). pwProject r = P \<longrightarrow> current_row d r)
      \<and> (policiesForProject d P \<noteq> [] \<longrightarrow> push_path e d P))"

lemma within_admin: "within P d d' \<Longrightarrow> same_admin d d'"
  by (simp add: within_def)

lemma fires_cong:
  assumes "\<And>m. mwPipeline m = i \<Longrightarrow> m \<in> set (cdMaterials d') \<longleftrightarrow> m \<in> set (cdMaterials d)"
  shows "fires e u b i d' \<longleftrightarrow> fires e u b i d"
  using assms by (auto simp: fires_def list_ex_iff)

lemma good_project_within:
  assumes "good_project e d Q" and "within P d d'" and "Q \<noteq> P"
  shows "good_project e d' Q"
proof -
  have adm: "same_admin d d'" by (rule within_admin [OF assms(2)])
  have rows: "r \<in> set (cdPipelines d') \<longleftrightarrow> r \<in> set (cdPipelines d)" if "pwProject r = Q" for r
    using assms(2,3) that by (auto simp: within_def)
  have fire: "fires e u b (pwID r) d' \<longleftrightarrow> fires e u b (pwID r) d" if "r \<in> set (cdPipelines d)" "pwProject r = Q" for r u b
    using assms(2,3) that by (intro fires_cong) (auto simp: within_def)
  have "push_path e d' Q" if "push_path e d Q"
    using that rows fire by (auto simp: push_path_def same_admin_scm [OF adm] list_ex_iff split: option.splits)
  moreover have "current_row d' r \<longleftrightarrow> current_row d r" for r by (simp add: current_row_def same_admin_policies [OF adm])
  ultimately show ?thesis using assms(1) rows by (auto simp: good_project_def same_admin_policies [OF adm])
qed

lemma marshal_merge: "marshalPipelineDefinition (merge_policy q p) = merge_policy q (marshalPipelineDefinition p)"
  by (simp add: merge_policy_def marshalPipelineDefinition_def)

lemma marshal_idem: "marshalPipelineDefinition (marshalPipelineDefinition p) = marshalPipelineDefinition p"
  by (simp add: marshalPipelineDefinition_def o_def)

lemma marshal_apply: "marshalPipelineDefinition (ApplyPolicies p ps) = ApplyPolicies (marshalPipelineDefinition p) ps"
proof -
  have "marshalPipelineDefinition (fold merge_policy qs p) = fold merge_policy qs (marshalPipelineDefinition p)" for qs p
    by (induction qs arbitrary: p) (simp_all add: marshal_merge)
  moreover have "marshalPipelineDefinition (p\<lparr>plStages := a, plJobs := b\<rparr>) = (marshalPipelineDefinition p)\<lparr>plStages := a, plJobs := b\<rparr>" for a b
    by (simp add: marshalPipelineDefinition_def)
  moreover have "plStages (marshalPipelineDefinition p) = plStages p" "plJobs (marshalPipelineDefinition p) = plJobs p"
    by (simp_all add: marshalPipelineDefinition_def)
  ultimately show ?thesis by (simp add: ApplyPolicies_def)
qed

lemma marshal_parts [simp]: "plStages (marshalPipelineDefinition p) = plStages p" "plJobs (marshalPipelineDefinition p) = plJobs p"
  by (simp_all add: marshalPipelineDefinition_def)

lemma marshal_reject [simp]: "RejectReservedNames (marshalPipelineDefinition p) = RejectReservedNames p"
  unfolding RejectReservedNames_def marshal_parts by (rule refl)

text \<open>The upsert of a pipeline row.\<close>

definition fresh_draw :: "draw \<Rightarrow> bool" where
  "fresh_draw nx = (\<forall>xs. nx xs \<notin> set xs)"

lemma UpsertPipeline_spec:
  assumes up: "UpsertPipeline nx P name def raw sys d = (i, d')" and ok: "pipelines_ok d" and nx: "fresh_draw nx"
    and raw: "RejectReservedNames raw = None" and sys: "sys \<longleftrightarrow> name = PipelineName"
  shows "pipelines_ok d' \<and> within P d d' \<and> cdMaterials d' = cdMaterials d \<and>
    set (cdPipelines d') = {r \<in> set (cdPipelines d). pwProject r \<noteq> P \<or> pwName r \<noteq> name}
      \<union> {\<lparr>pwID = i, pwProject = P, pwName = name, pwSystemManaged = sys, pwRaw = raw, pwDefinition = def\<rparr>}"
proof (cases "find (\<lambda>r. pwProject r = P \<and> pwName r = name) (cdPipelines d)")
  case None
  let ?new = "\<lparr>pwID = i, pwProject = P, pwName = name, pwSystemManaged = sys, pwRaw = raw, pwDefinition = def\<rparr>"
  have i: "i \<notin> set (map pwID (cdPipelines d))" and d': "d' = d\<lparr>cdPipelines := cdPipelines d @ [?new]\<rparr>"
    using up None nx [unfolded fresh_draw_def, THEN spec, of "map pwID (cdPipelines d)"]
    by (auto simp: UpsertPipeline_def Let_def simp del: set_map)
  have none: "\<forall>r\<in>set (cdPipelines d). pwProject r \<noteq> P \<or> pwName r \<noteq> name" using None by (auto simp: find_None_iff)
  have "pipelines_ok d'" using ok i none raw sys by (auto simp: pipelines_ok_def d')
  moreover have "within P d d'" by (auto simp: within_def d' same_admin_def)
  ultimately show ?thesis using none by (auto simp: d')
next
  case (Some r)
  let ?p = "\<lambda>r. pwProject r = P \<and> pwName r = name"
  let ?f = "\<lambda>r. r\<lparr>pwDefinition := def, pwRaw := raw, pwSystemManaged := sys\<rparr>"
  have r: "r \<in> set (cdPipelines d)" "pwProject r = P" "pwName r = name" using Some by (auto dest!: find_SomeD)
  have eq: "i = pwID r" "d' = d\<lparr>cdPipelines := upd_where ?p ?f (cdPipelines d)\<rparr>" using up Some by (auto simp: UpsertPipeline_def Let_def)
  have ids: "map pwID (cdPipelines d') = map pwID (cdPipelines d)"
    "map (\<lambda>r. (pwProject r, pwName r)) (cdPipelines d') = map (\<lambda>r. (pwProject r, pwName r)) (cdPipelines d)"
    by (simp_all add: eq(2) upd_where_def)
  have ok': "pipelines_ok d'"
    using ok raw sys unfolding pipelines_ok_def ids by (auto simp: eq(2) set_upd_where)
  have only: "q = r" if "q \<in> set (cdPipelines d)" "?p q" for q
    using same_pipeline_slot [OF ok that(1) r(1)] that(2) r by simp
  have rows: "set (cdPipelines d') = {q \<in> set (cdPipelines d). \<not> ?p q} \<union> {?f r}"
  proof -
    have split: "(\<lambda>q. if p q then f q else q) ` S = {q \<in> S. \<not> p q} \<union> f ` {q \<in> S. p q}"
      for p and f :: "PipelineRow \<Rightarrow> PipelineRow" and S by auto
    have c: "cdPipelines d' = upd_where ?p ?f (cdPipelines d)" by (simp add: eq(2))
    have hit: "{q \<in> set (cdPipelines d). ?p q} = {r}" using only r by blast
    show ?thesis unfolding c set_upd_where split hit by (simp only: image_insert image_empty)
  qed
  have "?f r = \<lparr>pwID = i, pwProject = P, pwName = name, pwSystemManaged = sys, pwRaw = raw, pwDefinition = def\<rparr>"
    using r eq(1) by simp
  with ok' rows show ?thesis by (auto simp: within_def eq(2) same_admin_def)
qed

lemma delete_fold:
  assumes "\<forall>p\<in>set ps. owns P (pwID p) d"
  shows "within P d (fold (\<lambda>p. if c p then DeletePipeline (pwID p) else id) ps d)
    \<and> (pipelines_ok d \<longrightarrow> pipelines_ok (fold (\<lambda>p. if c p then DeletePipeline (pwID p) else id) ps d))
    \<and> set (cdPipelines (fold (\<lambda>p. if c p then DeletePipeline (pwID p) else id) ps d)) =
        {r \<in> set (cdPipelines d). \<forall>p\<in>set ps. c p \<longrightarrow> pwID r \<noteq> pwID p}"
  using assms
proof (induction ps arbitrary: d)
  case (Cons p ps)
  let ?d1 = "if c p then DeletePipeline (pwID p) d else d"
  let ?f = "\<lambda>p. if c p then DeletePipeline (pwID p) else id"
  have own: "owns P (pwID p) d" using Cons.prems by simp
  have rows: "set (cdPipelines ?d1) = {r \<in> set (cdPipelines d). c p \<longrightarrow> pwID r \<noteq> pwID p}" by (auto simp: DeletePipeline_def)
  have step: "within P d ?d1" using within_DeletePipeline [OF own] by simp
  have keys: "pipelines_ok d \<longrightarrow> pipelines_ok ?d1" by (simp add: pipelines_ok_DeletePipeline)
  have "\<forall>q\<in>set ps. owns P (pwID q) ?d1" using Cons.prems rows by (simp add: owns_def)
  from Cons.IH [OF this] have
    IH: "within P ?d1 (fold ?f ps ?d1)" "pipelines_ok ?d1 \<longrightarrow> pipelines_ok (fold ?f ps ?d1)"
      "set (cdPipelines (fold ?f ps ?d1)) = {r \<in> set (cdPipelines ?d1). \<forall>p\<in>set ps. c p \<longrightarrow> pwID r \<noteq> pwID p}" by blast+
  have fold: "fold ?f (p # ps) d = fold ?f ps ?d1" by simp
  show ?case unfolding fold IH(3) rows using within_trans [OF step IH(1)] keys IH(2) by auto
qed simp

lemma kinds_set [simp]: "set (ListPipelineKindsByProject P d) = {r \<in> set (cdPipelines d). pwProject r = P}"
  by (auto simp: ListPipelineKindsByProject_def)

lemma kinds_distinct: "pipelines_ok d \<Longrightarrow> distinct (map pwID (ListPipelineKindsByProject P d))"
proof -
  assume ok: "pipelines_ok d"
  then have "distinct (ListPipelineKindsByProject P d)"
    by (auto simp: ListPipelineKindsByProject_def pipelines_ok_def distinct_map)
  moreover have "inj_on pwID (set (ListPipelineKindsByProject P d))"
    using ok by (auto simp: pipelines_ok_def distinct_map intro: inj_on_subset)
  ultimately show ?thesis by (simp add: distinct_map)
qed

lemma kinds_owned: "pipelines_ok d \<Longrightarrow> \<forall>p\<in>set (ListPipelineKindsByProject P d). owns P (pwID p) d"
  using owns_row [of d] by auto

definition scm_ok :: "ComplianceDB \<Rightarrow> bool" where
  "scm_ok d = (\<forall>r\<in>set (cdScm d). scDefaultBranch r \<noteq> [])"

lemma scm_branch: "scm_ok d \<Longrightarrow> scmForProject P d = Some (url, branch) \<Longrightarrow> branch \<noteq> []"
  by (auto simp: scm_ok_def scmForProject_def dest!: find_SomeD)

lemma synthetic_unreserved: "RejectReservedNames (SyntheticPipeline e url branch) = None"
  by (simp add: RejectReservedNames_def SyntheticPipeline_def zero_pipeline_def)

lemma createSynthetic_spec:
  assumes ok: "pipelines_ok d" and nx: "fresh_draw nx" and branch: "branch \<noteq> []"
    and scm: "scmForProject P d = Some (url, branch)" and policies: "policies = policiesForProject d P"
    and rows: "\<forall>r\<in>set (cdPipelines d). pwProject r = P \<and> \<not> pwSystemManaged r \<longrightarrow> current_row d r"
  shows "pipelines_ok (createSyntheticPipeline e nx P url branch policies d)
    \<and> within P d (createSyntheticPipeline e nx P url branch policies d)
    \<and> good_project e (createSyntheticPipeline e nx P url branch policies d) P
    \<and> repo_kept P d (createSyntheticPipeline e nx P url branch policies d)"
proof -
  let ?raw = "SyntheticPipeline e url branch"
  let ?mat = "ComplianceMaterial e url branch"
  obtain i d1 where up: "UpsertPipeline nx P PipelineName (marshalPipelineDefinition (ApplyPolicies ?raw policies))
      (marshalPipelineDefinition ?raw) True d = (i, d1)" by (rule prod.exhaust)
  let ?row = "\<lparr>pwID = i, pwProject = P, pwName = PipelineName, pwSystemManaged = True,
      pwRaw = marshalPipelineDefinition ?raw, pwDefinition = marshalPipelineDefinition (ApplyPolicies ?raw policies)\<rparr>"
  let ?d2 = "UpsertMaterial i ?mat d1"
  let ?d3 = "DeleteMaterials i (\<lambda>fp. fp \<noteq> mtFingerprint ?mat) ?d2"
  have eq: "createSyntheticPipeline e nx P url branch policies d = ?d3"
    by (simp add: createSyntheticPipeline_def Let_def up)
  have u: "pipelines_ok d1" "within P d d1" "set (cdPipelines d1) = {r \<in> set (cdPipelines d). pwProject r \<noteq> P \<or> pwName r \<noteq> PipelineName} \<union> {?row}"
    using UpsertPipeline_spec [OF up ok nx] synthetic_unreserved by simp_all
  have own: "owns P i d1" using owns_row [OF u(1), of ?row] u(3) by simp
  then have own2: "owns P i ?d2" by (simp add: owns_def)
  have w: "within P d ?d3"
    by (rule within_trans [OF within_trans [OF u(2) within_UpsertMaterial [OF own]] within_DeleteMaterials [OF own2]])
  note adm = within_admin [OF w]
  have "fires e url branch i ?d2" by (rule fires_upsert [OF ComplianceMaterial_simps [OF branch]])
  then have "fires e url branch i ?d3"
    by (rule fires_keep) (simp add: DeleteMaterials_def ComplianceMaterial_simps [OF branch])
  then have "push_path e ?d3 P"
    using u(3) by (auto simp: push_path_def same_admin_scm [OF adm] scm list_ex_iff)
  moreover have "current_row ?d3 r" if r: "r \<in> set (cdPipelines ?d3)" "pwProject r = P" for r
  proof (cases "r = ?row")
    case True
    then show ?thesis by (simp add: current_row_def same_admin_policies [OF adm] policies marshal_apply marshal_idem)
  next
    case False
    with r u(3) have old: "r \<in> set (cdPipelines d)" "pwName r \<noteq> PipelineName" by auto
    with ok have "\<not> pwSystemManaged r" by (auto simp: pipelines_ok_def)
    with old(1) r(2) rows have "current_row d r" by simp
    then show ?thesis by (simp add: current_row_def same_admin_policies [OF adm])
  qed
  moreover have "pipelines_ok ?d3" by (rule pipelines_ok_cong [OF _ u(1)]) simp
  moreover have "repo_kept P d ?d3"
  proof -
    have "r \<in> set (cdPipelines d1) \<longleftrightarrow> r \<in> set (cdPipelines d)" if r: "pwProject r = P" "\<not> pwSystemManaged r" for r
    proof -
      have "r \<noteq> ?row" using r(2) by (metis PipelineRow.select_convs(4))
      moreover have "r \<in> set (cdPipelines d) \<Longrightarrow> pwName r \<noteq> PipelineName" using ok r(2) by (simp add: pipelines_ok_def)
      ultimately show ?thesis unfolding u(3) using r(1) by blast
    qed
    then show ?thesis by (simp only: repo_kept_def DeleteMaterials_frame(1) UpsertMaterial_frame(1)) blast
  qed
  ultimately show ?thesis using w unfolding eq good_project_def by blast
qed

lemma reconcile_spec:
  assumes rec: "reconcileGovernance e nx P policies d = Inr d'" and ok: "pipelines_ok d" and nx: "fresh_draw nx"
    and scm: "scm_ok d" and policies: "policies = policiesForProject d P"
    and rows: "\<forall>r\<in>set (cdPipelines d). pwProject r = P \<and> \<not> pwSystemManaged r \<longrightarrow> current_row d r"
  shows "pipelines_ok d' \<and> within P d d' \<and> good_project e d' P \<and> repo_kept P d d'"
proof (cases "policies = []")
  case True
  then have d': "d' = fold (\<lambda>p. if pwSystemManaged p then DeletePipeline (pwID p) else id) (ListPipelineKindsByProject P d) d"
    using rec by (simp add: reconcileGovernance_def dropSyntheticIfPresent_def)
  have del: "within P d d'" "pipelines_ok d'"
    "set (cdPipelines d') = {r \<in> set (cdPipelines d). \<forall>p\<in>set (ListPipelineKindsByProject P d). pwSystemManaged p \<longrightarrow> pwID r \<noteq> pwID p}"
    using delete_fold [OF kinds_owned [OF ok], of P pwSystemManaged] ok unfolding d' by simp_all
  have "current_row d' r" if "r \<in> set (cdPipelines d')" "pwProject r = P" for r
    using that del(3) rows by (auto simp: current_row_def same_admin_policies [OF within_admin [OF del(1)]])
  moreover have "repo_kept P d d'"
  proof -
    have "pwID r \<noteq> pwID p" if "r \<in> set (cdPipelines d)" "\<not> pwSystemManaged r" "p \<in> set (cdPipelines d)" "pwSystemManaged p" for r p
      using same_pipeline_id [OF ok that(1,3)] that(2,4) by auto
    then show ?thesis unfolding repo_kept_def del(3) kinds_set by blast
  qed
  ultimately show ?thesis
    using del True policies by (auto simp: good_project_def same_admin_policies [OF within_admin [OF del(1)]])
next
  case False
  then obtain url branch where s: "scmForProject P d = Some (url, branch)"
    using rec by (auto simp: reconcileGovernance_def split: option.splits)
  note branch = scm_branch [OF scm s]
  let ?pipes = "ListPipelineKindsByProject P d"
  obtain any d1 where loop: "harden_loop e url branch ?pipes False d = (any, d1)" by (rule prod.exhaust)
  have l: "cdPipelines d1 = cdPipelines d" "within P d d1"
      "any \<longrightarrow> (\<exists>p\<in>set ?pipes. \<not> pwSystemManaged p \<and> fires e url branch (pwID p) d1)"
    using harden_loop_spec [OF loop ok branch _ kinds_distinct [OF ok], of P] by simp_all
  have ok1: "pipelines_ok d1" by (rule pipelines_ok_cong [OF l(1) ok])
  note adm1 = within_admin [OF l(2)]
  have rows1: "\<forall>r\<in>set (cdPipelines d1). pwProject r = P \<and> \<not> pwSystemManaged r \<longrightarrow> current_row d1 r"
    using rows by (simp add: l(1) current_row_def same_admin_policies [OF adm1])
  have eq: "d' = (if \<not> any then createSyntheticPipeline e nx P url branch policies d1
      else case filter pwSystemManaged ?pipes of [] \<Rightarrow> d1 | synths \<Rightarrow> DeletePipeline (pwID (last synths)) d1)"
    using rec False by (auto simp: reconcileGovernance_def s loop Let_def split: list.splits if_splits)
  show ?thesis
  proof (cases any)
    case False
    have "pipelines_ok d' \<and> within P d1 d' \<and> good_project e d' P \<and> repo_kept P d1 d'"
      unfolding eq using createSynthetic_spec [OF ok1 nx branch _ _ rows1, of url policies e] False s policies
      by (simp add: same_admin_scm [OF adm1] same_admin_policies [OF adm1])
    with within_trans [OF l(2)] l(1) show ?thesis by (simp add: repo_kept_def)
  next
    case True
    then obtain p where p: "p \<in> set (cdPipelines d)" "pwProject p = P" "\<not> pwSystemManaged p" "fires e url branch (pwID p) d1"
      using l(3) by auto
    have sys: "q = r" if "q \<in> set (cdPipelines d)" "pwProject q = P" "pwSystemManaged q" "r \<in> set (cdPipelines d)" "pwProject r = P" "pwSystemManaged r" for q r
      using that ok same_pipeline_slot [OF ok that(1,4)] by (auto simp: pipelines_ok_def)
    have rows': "set (cdPipelines d') = {r \<in> set (cdPipelines d). \<not> (pwProject r = P \<and> pwSystemManaged r)} \<and> within P d1 d'
      \<and> pipelines_ok d' \<and> (\<forall>m. mwPipeline m = pwID p \<longrightarrow> m \<in> set (cdMaterials d1) \<longrightarrow> m \<in> set (cdMaterials d'))"
    proof (cases "filter pwSystemManaged ?pipes")
      case Nil
      then have "\<forall>r\<in>set (cdPipelines d). \<not> (pwProject r = P \<and> pwSystemManaged r)" by (auto simp: filter_empty_conv)
      with Nil True show ?thesis using ok1 by (auto simp: eq l(1))
    next
      case (Cons q qs)
      let ?x = "last (q # qs)"
      have "?x \<in> set (filter pwSystemManaged ?pipes)" unfolding Cons by (rule last_in_set) simp
      then have x: "?x \<in> set (cdPipelines d)" "pwProject ?x = P" "pwSystemManaged ?x" by auto
      have d': "d' = DeletePipeline (pwID ?x) d1" using Cons True by (simp add: eq)
      have ne: "pwID p \<noteq> pwID ?x" using same_pipeline_id [OF ok p(1) x(1)] p(3) x(3) by auto
      have iff: "pwID r \<noteq> pwID ?x \<longleftrightarrow> \<not> (pwProject r = P \<and> pwSystemManaged r)" if "r \<in> set (cdPipelines d)" for r
        using same_pipeline_id [OF ok that x(1)] sys [OF that _ _ x] x by metis
      have "set (cdPipelines d') = {r \<in> set (cdPipelines d). pwID r \<noteq> pwID ?x}"
        unfolding d' by (simp only: DeletePipeline_def) (simp add: l(1))
      also have "\<dots> = {r \<in> set (cdPipelines d). \<not> (pwProject r = P \<and> pwSystemManaged r)}"
        using iff by blast
      finally have "set (cdPipelines d') = {r \<in> set (cdPipelines d). \<not> (pwProject r = P \<and> pwSystemManaged r)}" .
      moreover have "owns P (pwID ?x) d1" using owns_row [OF ok1, of ?x] x by (simp add: l(1))
      then have "within P d1 d'" unfolding d' by (rule within_DeletePipeline)
      moreover have "pipelines_ok d'" unfolding d' by (rule pipelines_ok_DeletePipeline [OF ok1])
      moreover have "\<forall>m. mwPipeline m = pwID p \<longrightarrow> m \<in> set (cdMaterials d1) \<longrightarrow> m \<in> set (cdMaterials d')"
        using ne unfolding d' DeletePipeline_def by simp
      ultimately show ?thesis by blast
    qed
    then have w: "within P d d'" using within_trans [OF l(2)] by blast
    note adm = within_admin [OF w]
    have "fires e url branch (pwID p) d'" by (rule fires_keep [OF p(4)]) (use rows' in blast)
    then have "push_path e d' P" using rows' p by (auto simp: push_path_def same_admin_scm [OF adm] s list_ex_iff)
    moreover have "current_row d' r" if "r \<in> set (cdPipelines d')" "pwProject r = P" for r
      using that rows' rows by (simp add: current_row_def same_admin_policies [OF adm])
    moreover have "repo_kept P d d'" using rows' by (simp add: repo_kept_def)
    ultimately show ?thesis using w rows' unfolding good_project_def by blast
  qed
qed

section \<open>Recomputation and application\<close>

definition recomputed :: "uuid \<Rightarrow> ComplianceDB \<Rightarrow> PipelineRow \<Rightarrow> PipelineRow" where
  "recomputed P d r = r\<lparr>pwDefinition := marshalPipelineDefinition (ApplyPolicies (pwRaw r) (policiesForProject d P))\<rparr>"

lemma recomputed_simps [simp]:
  "pwID (recomputed P d r) = pwID r" "pwProject (recomputed P d r) = pwProject r" "pwName (recomputed P d r) = pwName r"
  "pwSystemManaged (recomputed P d r) = pwSystemManaged r" "pwRaw (recomputed P d r) = pwRaw r"
  by (simp_all add: recomputed_def)

lemma recompute_spec:
  assumes rec: "recomputeProjectEffective e nx P d = Inr d'" and ok: "pipelines_ok d" and nx: "fresh_draw nx" and scm: "scm_ok d"
  shows "pipelines_ok d' \<and> within P d d' \<and> good_project e d' P
    \<and> {r \<in> set (cdPipelines d'). pwProject r = P \<and> \<not> pwSystemManaged r}
        = recomputed P d ` {r \<in> set (cdPipelines d). pwProject r = P \<and> \<not> pwSystemManaged r}"
proof -
  let ?f = "\<lambda>r. r\<lparr>pwDefinition := marshalPipelineDefinition (ApplyPolicies (pwRaw r) (policiesForProject d P))\<rparr>"
  let ?d1 = "d\<lparr>cdPipelines := upd_where (\<lambda>r. pwProject r = P) ?f (cdPipelines d)\<rparr>"
  have maps: "map pwID (cdPipelines ?d1) = map pwID (cdPipelines d)"
    "map (\<lambda>r. (pwProject r, pwName r)) (cdPipelines ?d1) = map (\<lambda>r. (pwProject r, pwName r)) (cdPipelines d)"
    by (simp_all add: upd_where_def)
  have ok1: "pipelines_ok ?d1"
    using ok unfolding pipelines_ok_def maps by (auto simp: set_upd_where)
  have w1: "within P d ?d1" by (auto simp: within_def same_admin_def set_upd_where image_iff)
  note adm = within_admin [OF w1]
  have cur: "\<forall>r\<in>set (cdPipelines ?d1). pwProject r = P \<and> \<not> pwSystemManaged r \<longrightarrow> current_row ?d1 r"
  proof (intro ballI impI)
    fix r assume r: "r \<in> set (cdPipelines ?d1)" and P: "pwProject r = P \<and> \<not> pwSystemManaged r"
    have "r \<in> (\<lambda>r. if pwProject r = P then ?f r else r) ` set (cdPipelines d)" using r by (simp add: set_upd_where)
    then obtain x where x: "r = (if pwProject x = P then ?f x else x)" by (rule imageE)
    show "current_row ?d1 r"
    proof (cases "pwProject x = P")
      case True
      then have "r = ?f x" using x by simp
      then show ?thesis unfolding current_row_def same_admin_policies [OF adm] using True by simp
    qed (use x P in simp)
  qed
  have scm1: "scm_ok ?d1" using scm by (simp add: scm_ok_def)
  have "reconcileGovernance e nx P (policiesForProject d P) ?d1 = Inr d'"
    using rec by (simp add: recomputeProjectEffective_def Let_def)
  from reconcile_spec [OF this ok1 nx scm1 _ cur]
  have s: "pipelines_ok d'" "within P ?d1 d'" "good_project e d' P" "repo_kept P ?d1 d'"
    by (simp_all add: same_admin_policies [OF adm])
  have "{r \<in> set (cdPipelines d'). pwProject r = P \<and> \<not> pwSystemManaged r}
      = {r \<in> set (cdPipelines ?d1). pwProject r = P \<and> \<not> pwSystemManaged r}"
    using s(4) unfolding repo_kept_def by blast
  also have "\<dots> = recomputed P d ` {r \<in> set (cdPipelines d). pwProject r = P \<and> \<not> pwSystemManaged r}"
  proof -
    have hit: "{r \<in> (\<lambda>r. if pwProject r = P then f r else r) ` S. pwProject r = P \<and> \<not> pwSystemManaged r}
        = f ` {r \<in> S. pwProject r = P \<and> \<not> pwSystemManaged r}"
      if "\<And>r. pwProject (f r) = pwProject r \<and> pwSystemManaged (f r) = pwSystemManaged r" for f S
      using that by auto
    show ?thesis using hit [of "recomputed P d" "set (cdPipelines d)"] by (simp add: set_upd_where recomputed_def)
  qed
  finally show ?thesis using within_trans [OF w1 s(2)] s(1,3) by blast
qed

lemma same_admin_scm_ok: "same_admin d d' \<Longrightarrow> scm_ok d' \<longleftrightarrow> scm_ok d"
  by (simp add: same_admin_def scm_ok_def)

lemma recomputeProjects_spec:
  assumes "recomputeProjects e nx is d = Inr d'" and "pipelines_ok d" and "fresh_draw nx" and "scm_ok d"
  shows "pipelines_ok d' \<and> same_admin d d' \<and> (\<forall>P. P \<in> set is \<or> good_project e d P \<longrightarrow> good_project e d' P)"
  using assms
proof (induction e nx "is" d arbitrary: d' rule: recomputeProjects.induct)
  case (1 e nx d)
  then show ?case by (simp add: same_admin_def)
next
  case (2 e nx i "is" d)
  obtain d1 where one: "recomputeProjectEffective e nx i d = Inr d1" and rest: "recomputeProjects e nx is d1 = Inr d'"
    using 2(2) by (auto split: sum.splits)
  have s: "pipelines_ok d1" "within i d d1" "good_project e d1 i" using recompute_spec [OF one 2(3-5)] by auto
  note adm = within_admin [OF s(2)]
  have "pipelines_ok d' \<and> same_admin d1 d' \<and> (\<forall>P. P \<in> set is \<or> good_project e d1 P \<longrightarrow> good_project e d' P)"
    using 2(1) [OF one rest s(1) 2(4)] 2(5) same_admin_scm_ok [OF adm] by blast
  moreover have "good_project e d1 P" if "P = i \<or> good_project e d P" for P
    using that s(3) good_project_within [OF _ s(2), of e P] by (cases "P = i") auto
  ultimately show ?case using same_admin_trans [OF adm] by auto
qed

lemma owns_cong: "cdPipelines d' = cdPipelines d \<Longrightarrow> owns P i d' \<longleftrightarrow> owns P i d"
  by (simp add: owns_def)

lemma upsert_materials: "cdPipelines (fold (UpsertMaterial i) ms d) = cdPipelines d \<and> (owns P i d \<longrightarrow> within P d (fold (UpsertMaterial i) ms d))"
proof (induction ms arbitrary: d)
  case (Cons m ms)
  from Cons [of "UpsertMaterial i m d"] show ?case
    using within_trans [OF within_UpsertMaterial [of P i d m]] by (auto simp: owns_cong [of "UpsertMaterial i m d" d])
qed simp

lemma applyPipeline_spec:
  assumes app: "applyPipeline nx P policies p d = Inr d'" and ok: "pipelines_ok d" and nx: "fresh_draw nx"
    and policies: "policies = policiesForProject d P" and name: "plName p \<noteq> PipelineName"
  shows "pipelines_ok d' \<and> within P d d' \<and>
    (\<forall>r\<in>set (cdPipelines d'). pwProject r = P \<longrightarrow> current_row d' r \<or> r \<in> set (cdPipelines d) \<and> pwName r \<noteq> plName p)"
proof -
  have raw: "RejectReservedNames p = None" using app by (auto simp: applyPipeline_def split: if_splits)
  obtain i d1 where up: "UpsertPipeline nx P (plName p) (marshalPipelineDefinition (ApplyPolicies p policies))
      (marshalPipelineDefinition p) False d = (i, d1)" by (rule prod.exhaust)
  let ?row = "\<lparr>pwID = i, pwProject = P, pwName = plName p, pwSystemManaged = False,
      pwRaw = marshalPipelineDefinition p, pwDefinition = marshalPipelineDefinition (ApplyPolicies p policies)\<rparr>"
  have u: "pipelines_ok d1" "within P d d1" "set (cdPipelines d1) = {r \<in> set (cdPipelines d). pwProject r \<noteq> P \<or> pwName r \<noteq> plName p} \<union> {?row}"
    using UpsertPipeline_spec [OF up ok nx] raw name by simp_all
  have own: "owns P i d1" using owns_row [OF u(1), of ?row] u(3) by simp
  let ?d2 = "fold (UpsertMaterial i) (plMaterials p) d1"
  note um = upsert_materials [of i "plMaterials p" d1 P]
  have d': "d' = DeleteMaterials i (\<lambda>fp. fp \<notin> mtFingerprint ` set (plMaterials p)) ?d2"
    using app raw by (simp add: applyPipeline_def up)
  have own2: "owns P i ?d2" using own um by (simp add: owns_def)
  have w: "within P d d'"
    unfolding d' by (rule within_trans [OF within_trans [OF u(2)] within_DeleteMaterials [OF own2]]) (use um own in blast)
  note adm = within_admin [OF w]
  have rows: "cdPipelines d' = cdPipelines d1" using um by (simp add: d')
  have new: "current_row d' ?row"
    by (simp add: current_row_def same_admin_policies [OF adm] policies marshal_apply marshal_idem)
  have "pipelines_ok d'" by (rule pipelines_ok_cong [OF rows u(1)])
  moreover have "current_row d' r \<or> r \<in> set (cdPipelines d) \<and> pwName r \<noteq> plName p" if "r \<in> set (cdPipelines d')" "pwProject r = P" for r
    using that new unfolding rows u(3) by auto
  ultimately show ?thesis using w by blast
qed

lemma apply_pipelines_spec:
  assumes "apply_pipelines nx P policies ps d = Inr d'" and "pipelines_ok d" and "fresh_draw nx" and "policies = policiesForProject d P"
    and "PipelineName \<notin> plName ` set ps"
  shows "pipelines_ok d' \<and> within P d d' \<and>
    (\<forall>r\<in>set (cdPipelines d'). pwProject r = P \<longrightarrow> current_row d' r \<or> r \<in> set (cdPipelines d) \<and> pwName r \<notin> plName ` set ps)"
  using assms
proof (induction nx P policies ps d arbitrary: d' rule: apply_pipelines.induct)
  case (2 nx P policies p ps d)
  obtain d1 where one: "applyPipeline nx P policies p d = Inr d1" and rest: "apply_pipelines nx P policies ps d1 = Inr d'"
    using 2(2) by (auto split: sum.splits)
  have a: "pipelines_ok d1" "within P d d1"
    "\<And>r. r \<in> set (cdPipelines d1) \<Longrightarrow> pwProject r = P \<Longrightarrow> current_row d1 r \<or> r \<in> set (cdPipelines d) \<and> pwName r \<noteq> plName p"
    using applyPipeline_spec [OF one 2(3-5)] 2(6) by auto
  note adm = within_admin [OF a(2)]
  have b: "pipelines_ok d'" "within P d1 d'"
    "\<And>r. r \<in> set (cdPipelines d') \<Longrightarrow> pwProject r = P \<Longrightarrow> current_row d' r \<or> r \<in> set (cdPipelines d1) \<and> pwName r \<notin> plName ` set ps"
    using 2(1) [OF one rest a(1) 2(4)] 2(5,6) same_admin_policies [OF adm] by auto
  have adm1: "same_admin d1 d'" by (rule within_admin [OF b(2)])
  have "current_row d' r \<or> r \<in> set (cdPipelines d) \<and> pwName r \<notin> plName ` set (p # ps)"
    if r: "r \<in> set (cdPipelines d')" "pwProject r = P" for r
    using b(3) [OF r] a(3) [of r] r(2) by (auto simp: current_row_def same_admin_policies [OF adm1])
  with b(1) within_trans [OF a(2) b(2)] show ?case by blast
qed auto

lemma remove_unwanted_spec:
  assumes "pipelines_ok d"
  shows "pipelines_ok (remove_unwanted P wanted d) \<and> within P d (remove_unwanted P wanted d)
    \<and> (\<forall>r\<in>set (cdPipelines (remove_unwanted P wanted d)). pwProject r = P \<longrightarrow> pwSystemManaged r \<or> pwName r \<in> set wanted)"
proof -
  have eq: "remove_unwanted P wanted d =
      fold (\<lambda>p. if \<not> (pwSystemManaged p \<or> pwName p \<in> set wanted) then DeletePipeline (pwID p) else id) (ListPipelineKindsByProject P d) d"
    unfolding remove_unwanted_def by (rule fold_cong) auto
  show ?thesis
    using delete_fold [OF kinds_owned [OF assms], of P "\<lambda>p. \<not> (pwSystemManaged p \<or> pwName p \<in> set wanted)"] assms
    unfolding eq by auto
qed

lemma apply_bound_spec:
  assumes app: "apply_bound e P ps d = Inr d'" and ok: "pipelines_ok d" and nx: "fresh_draw (aeDraw e)" and scm: "scm_ok d"
  shows "pipelines_ok d' \<and> within P d d' \<and> good_project (aeGit e) d' P"
proof -
  let ?d1 = "remove_unwanted P (map plName ps) d"
  let ?pol = "policiesForProject ?d1 P"
  obtain d2 where two: "apply_pipelines (aeDraw e) P ?pol ps ?d1 = Inr d2" and rec: "reconcileGovernance (aeGit e) (aeDraw e) P ?pol d2 = Inr d'"
    and free: "PipelineName \<notin> plName ` set ps"
  proof -
    have names: "\<not> list_ex IsReservedPipelineName (map plName ps)" using app by (auto simp: apply_bound_def Let_def split: if_splits)
    have "IsReservedPipelineName PipelineName" by (simp add: IsReservedPipelineName_def has_prefix_def)
    with names have "PipelineName \<notin> plName ` set ps" by (auto simp: list_ex_iff)
    with app show thesis by (auto simp: apply_bound_def Let_def intro: that split: if_splits sum.splits)
  qed
  have r: "pipelines_ok ?d1" "within P d ?d1"
    "\<And>r. r \<in> set (cdPipelines ?d1) \<Longrightarrow> pwProject r = P \<Longrightarrow> pwSystemManaged r \<or> pwName r \<in> set (map plName ps)"
    using remove_unwanted_spec [OF ok, of P "map plName ps"] by auto
  have a: "pipelines_ok d2" "within P ?d1 d2"
    "\<And>r. r \<in> set (cdPipelines d2) \<Longrightarrow> pwProject r = P \<Longrightarrow> current_row d2 r \<or> r \<in> set (cdPipelines ?d1) \<and> pwName r \<notin> plName ` set ps"
    using apply_pipelines_spec [OF two r(1) nx refl free] by auto
  have cur: "\<forall>r\<in>set (cdPipelines d2). pwProject r = P \<and> \<not> pwSystemManaged r \<longrightarrow> current_row d2 r"
  proof (intro ballI impI)
    fix x assume "x \<in> set (cdPipelines d2)" "pwProject x = P \<and> \<not> pwSystemManaged x"
    with a(3) [of x] r(3) [of x] show "current_row d2 x" by auto
  qed
  have w2: "within P d d2" by (rule within_trans [OF r(2) a(2)])
  have "scm_ok d2" using scm same_admin_scm_ok [OF within_admin [OF w2]] by simp
  from reconcile_spec [OF rec a(1) nx this _ cur] have "pipelines_ok d' \<and> within P d2 d' \<and> good_project (aeGit e) d' P"
    by (simp add: same_admin_policies [OF within_admin [OF a(2)]])
  with within_trans [OF w2] show ?thesis by blast
qed

end
