(* ===== verification/ComplianceLife.thy ===== *)
theory ComplianceLife
  imports ComplianceReconcile
begin

text \<open>
  Compliance as a system: administrators that edit frameworks, policies and assignments, and
  repositories that are applied, in any order. The invariant says what every reachable state
  enforces; the properties read it off for one project.
\<close>

section \<open>The system\<close>

inductive compliance_step :: "admin_env \<Rightarrow> ComplianceDB \<Rightarrow> ComplianceDB \<Rightarrow> bool" for e where
  step_apply: "ApplyProject e cipher inp d = Inr d' \<Longrightarrow> compliance_step e d d'"
| step_insert_framework: "InsertComplianceFramework e name d = Inr d' \<Longrightarrow> compliance_step e d d'"
| step_update_framework: "UpdateComplianceFramework e i name d = Inr d' \<Longrightarrow> compliance_step e d d'"
| step_delete_framework: "DeleteComplianceFramework e i d = Inr d' \<Longrightarrow> compliance_step e d d'"
| step_assign: "SetProjectFrameworks e project ids d = Inr d' \<Longrightarrow> compliance_step e d d'"
| step_insert_policy: "InsertCompliancePolicy e pinp d = Inr d' \<Longrightarrow> compliance_step e d d'"
| step_update_policy: "UpdateCompliancePolicy e i pinp d = Inr d' \<Longrightarrow> compliance_step e d d'"
| step_delete_policy: "DeleteCompliancePolicy e i d = Inr d' \<Longrightarrow> compliance_step e d d'"
| step_delete_project: "DeleteProject slug d = Inr d' \<Longrightarrow> compliance_step e d d'"

text \<open>
  Ids are drawn unused, and the decoder reads the jobs from a mapping, so that their names
  are distinct.
\<close>

definition admin_ok :: "admin_env \<Rightarrow> bool" where
  "admin_ok e = (fresh_draw (aeDraw e) \<and> (\<forall>src p. aeDecode e src = Some p \<longrightarrow> distinct (map jName (plJobs p))))"

definition empty_db :: ComplianceDB where
  "empty_db = \<lparr>cdProjects = [], cdScm = [], cdFrameworks = [], cdProjectFrameworks = [], cdPolicies = [],
     cdPolicyFrameworks = [], cdPipelines = [], cdMaterials = []\<rparr>"

definition compliance_init :: "admin_env \<Rightarrow> ComplianceDB \<Rightarrow> bool" where
  "compliance_init e d = (admin_ok e \<and> d = empty_db)"

definition project_ids :: "ComplianceDB \<Rightarrow> uuid set" where
  "project_ids d = fst ` set (cdProjects d)"

definition policies_ok :: "ComplianceDB \<Rightarrow> bool" where
  "policies_ok d =
     (distinct (map cpID (cdPolicies d)) \<and> distinct (map cpName (cdPolicies d))
      \<and> uuid_Nil \<notin> cpID ` set (cdPolicies d)
      \<and> (\<forall>r\<in>set (cdPolicies d). well_named (policy_of_row r) \<and> accepted (cpConfig r))
      \<and> (\<forall>r\<in>set (cdPolicies d). \<forall>q\<in>set (cdPolicies d). cpID r \<noteq> cpID q \<longrightarrow>
           disjoint_names (policy_of_row r) (policy_of_row q))
      \<and> fst ` set (cdPolicyFrameworks d) \<subseteq> cpID ` set (cdPolicies d))"

definition compliance_inv :: "admin_env \<Rightarrow> ComplianceDB \<Rightarrow> bool" where
  "compliance_inv e d =
     (admin_ok e \<and> pipelines_ok d \<and> scm_ok d \<and> policies_ok d \<and> (\<forall>P\<in>project_ids d. good_project (aeGit e) d P))"

section \<open>Which projects a change concerns\<close>

lemma applies_iff:
  "applies d P r \<longleftrightarrow> cpEnabled r \<and>
     (cpAppliesToAll r \<or> (\<exists>fw. (cpID r, fw) \<in> set (cdPolicyFrameworks d) \<and> (P, fw) \<in> set (cdProjectFrameworks d)))"
  by (auto simp: applies_def list_ex_iff split: prod.splits)

lemma policies_cong:
  "filter (applies d' P) (cdPolicies d') = filter (applies d P) (cdPolicies d) \<Longrightarrow>
   policiesForProject d' P = policiesForProject d P"
  by (simp add: policiesForProject_def ResolvePoliciesForProject_def)

lemma policies_same:
  assumes "cdPolicies d' = cdPolicies d" and "\<And>r. applies d' P r \<longleftrightarrow> applies d P r"
  shows "policiesForProject d' P = policiesForProject d P"
  by (rule policies_cong) (simp add: assms cong: filter_cong)

lemma policies_set: "set (policiesForProject d P) = policy_of_row ` {r \<in> set (cdPolicies d). applies d P r}"
  by (simp add: policiesForProject_def ResolvePoliciesForProject_def)

lemma affected_iff:
  "P \<in> project_ids d \<Longrightarrow>
   P \<in> set (affectedProjectIDs all fws d) \<longleftrightarrow> all \<or> (\<exists>fw\<in>set fws. (P, fw) \<in> set (cdProjectFrameworks d))"
  by (force simp: affectedProjectIDs_def ListProjectIDsByFrameworks_def project_ids_def)

lemma filter_upd_where:
  assumes "\<And>r. r \<in> set t \<Longrightarrow> \<not> p r \<Longrightarrow> Q' r = Q r" and "\<And>r. r \<in> set t \<Longrightarrow> p r \<Longrightarrow> \<not> Q r \<and> \<not> Q' (f r)"
  shows "filter Q' (upd_where p f t) = filter Q t"
  using assms by (induction t) (auto simp: upd_where_def)

text \<open>A project whose policies and repository are untouched stays as it is.\<close>

lemma good_project_cong:
  assumes "policiesForProject d' P = policiesForProject d P" and "scmForProject P d' = scmForProject P d"
    and "cdPipelines d' = cdPipelines d" and "cdMaterials d' = cdMaterials d"
  shows "good_project e d' P \<longleftrightarrow> good_project e d P"
proof -
  have fire: "fires e u b i d' = fires e u b i d" for u b i by (rule fires_cong) (simp add: assms(4))
  have "push_path e d' P \<longleftrightarrow> push_path e d P" unfolding push_path_def assms(2,3) fire by (rule refl)
  moreover have "current_row d' r \<longleftrightarrow> current_row d r" if "pwProject r = P" for r
    using that by (simp add: current_row_def assms(1))
  ultimately show ?thesis by (auto simp: good_project_def assms(1,3))
qed

text \<open>An administrative change followed by the recomputation of the projects it concerns.\<close>

lemma recomputed_inv:
  assumes inv: "compliance_inv e d" and rec: "recomputeProjects (aeGit e) (aeDraw e) Ps d1 = Inr d'"
    and same: "cdPipelines d1 = cdPipelines d" "cdMaterials d1 = cdMaterials d" "cdScm d1 = cdScm d" "cdProjects d1 = cdProjects d"
    and pol: "policies_ok d1"
    and others: "\<And>P. P \<in> project_ids d \<Longrightarrow> P \<notin> set Ps \<Longrightarrow> policiesForProject d1 P = policiesForProject d P"
  shows "compliance_inv e d'"
proof -
  have ok: "admin_ok e" "pipelines_ok d" "scm_ok d" "\<forall>P\<in>project_ids d. good_project (aeGit e) d P" using inv by (simp_all add: compliance_inv_def)
  have ok1: "pipelines_ok d1" "scm_ok d1" "fresh_draw (aeDraw e)"
    using ok pipelines_ok_cong [OF same(1)] by (simp_all add: scm_ok_def same admin_ok_def)
  from recomputeProjects_spec [OF rec ok1(1,3,2)]
  have r: "pipelines_ok d'" "same_admin d1 d'" "\<And>P. P \<in> set Ps \<or> good_project (aeGit e) d1 P \<Longrightarrow> good_project (aeGit e) d' P"
    by blast+
  have "good_project (aeGit e) d' P" if P: "P \<in> project_ids d'" for P
  proof (rule r(3), cases "P \<in> set Ps")
    case False
    have P': "P \<in> project_ids d" using P r(2) same(4) by (simp add: project_ids_def same_admin_def)
    from good_project_cong [OF others [OF this False] _ same(1,2)] show "P \<in> set Ps \<or> good_project (aeGit e) d1 P"
      using ok(4) P' by (simp add: scmForProject_def same(3))
  qed simp
  moreover have "policies_ok d'" using pol r(2) by (simp add: policies_ok_def same_admin_def)
  ultimately show ?thesis using ok(1) r(1) same_admin_scm_ok [OF r(2)] ok1(2) by (simp add: compliance_inv_def)
qed

lemma recomputed_one:
  "recomputeProjectEffective e nx P d = Inr d' \<Longrightarrow> recomputeProjects e nx [P] d = Inr d'"
  by simp

section \<open>Frameworks and assignments\<close>

lemma policies_ok_links:
  "policies_ok d \<Longrightarrow> cdPolicies d1 = cdPolicies d \<Longrightarrow> set (cdPolicyFrameworks d1) \<subseteq> set (cdPolicyFrameworks d) \<Longrightarrow> policies_ok d1"
  unfolding policies_ok_def by (simp, blast)

lemma frameworks_inv:
  assumes inv: "compliance_inv e d" and d1: "d1 = d\<lparr>cdFrameworks := fws\<rparr>"
  shows "compliance_inv e d1"
proof (rule recomputed_inv [OF inv, where Ps = "[]" and ?d1.0 = d1])
  show "policies_ok d1" by (rule policies_ok_links [of d]) (use inv in \<open>simp_all add: compliance_inv_def d1\<close>)
  show "policiesForProject d1 P = policiesForProject d P" for P
    by (rule policies_same) (simp_all add: d1 applies_iff)
qed (simp_all add: d1)

lemma InsertComplianceFramework_inv:
  "compliance_inv e d \<Longrightarrow> InsertComplianceFramework e name d = Inr d' \<Longrightarrow> compliance_inv e d'"
  by (auto simp: InsertComplianceFramework_def split: if_splits intro: frameworks_inv)

lemma UpdateComplianceFramework_inv:
  "compliance_inv e d \<Longrightarrow> UpdateComplianceFramework e i name d = Inr d' \<Longrightarrow> compliance_inv e d'"
  by (auto simp: UpdateComplianceFramework_def split: if_splits option.splits intro: frameworks_inv)

lemma DeleteComplianceFramework_inv:
  assumes inv: "compliance_inv e d" and del: "DeleteComplianceFramework e s d = Inr d'"
  shows "compliance_inv e d'"
proof -
  obtain i where i: "aeParse e s = Some i" using del by (auto simp: DeleteComplianceFramework_def split: option.splits)
  let ?d1 = "d\<lparr>cdFrameworks := filter (\<lambda>(j, _). j \<noteq> i) (cdFrameworks d),
      cdProjectFrameworks := filter (\<lambda>(_, j). j \<noteq> i) (cdProjectFrameworks d),
      cdPolicyFrameworks := filter (\<lambda>(_, j). j \<noteq> i) (cdPolicyFrameworks d)\<rparr>"
  have rec: "recomputeProjects (aeGit e) (aeDraw e) (ListProjectIDsByFrameworks [i] d) ?d1 = Inr d'"
    using del by (simp add: DeleteComplianceFramework_def i Let_def)
  show ?thesis
  proof (rule recomputed_inv [OF inv rec])
    show "policies_ok ?d1" by (rule policies_ok_links [of d]) (use inv in \<open>auto simp: compliance_inv_def\<close>)
    fix P assume P: "P \<notin> set (ListProjectIDsByFrameworks [i] d)"
    then have "(P, i) \<notin> set (cdProjectFrameworks d)" by (force simp: ListProjectIDsByFrameworks_def)
    then have "(\<exists>fw. (q, fw) \<in> set (cdPolicyFrameworks ?d1) \<and> (P, fw) \<in> set (cdProjectFrameworks ?d1))
        \<longleftrightarrow> (\<exists>fw. (q, fw) \<in> set (cdPolicyFrameworks d) \<and> (P, fw) \<in> set (cdProjectFrameworks d))" for q by (simp, metis)
    then have "applies ?d1 P r \<longleftrightarrow> applies d P r" for r unfolding applies_iff by simp
    then show "policiesForProject ?d1 P = policiesForProject d P" by (rule policies_same [rotated]) simp
  qed simp_all
qed

lemma SetProjectFrameworks_inv:
  assumes inv: "compliance_inv e d" and upd: "SetProjectFrameworks e Q ids d = Inr d'"
  shows "compliance_inv e d'"
proof -
  obtain fws where rec: "recomputeProjectEffective (aeGit e) (aeDraw e) Q
      (d\<lparr>cdProjectFrameworks := filter (\<lambda>(p, _). p \<noteq> Q) (cdProjectFrameworks d) @ map (\<lambda>fw. (Q, fw)) (remdups fws)\<rparr>) = Inr d'"
    using upd by (auto simp: SetProjectFrameworks_def split: option.splits if_splits)
  show ?thesis
  proof (rule recomputed_inv [OF inv recomputed_one [OF rec]])
    fix P assume "P \<notin> set [Q]"
    then show "policiesForProject (d\<lparr>cdProjectFrameworks := filter (\<lambda>(p, _). p \<noteq> Q) (cdProjectFrameworks d)
        @ map (\<lambda>fw. (Q, fw)) (remdups fws)\<rparr>) P = policiesForProject d P"
      by (intro policies_same) (auto simp: applies_iff)
  qed (use inv in \<open>simp_all add: compliance_inv_def policies_ok_def\<close>)
qed

section \<open>Policies\<close>

lemma CompilePolicy_parts:
  assumes "CompilePolicy decode src = Some p" and names: "\<And>q. decode src = Some q \<Longrightarrow> distinct (map jName (plJobs q))"
  shows "(\<forall>s\<in>set (plStages p). reserved s) \<and> (\<forall>j\<in>set (plJobs p). reserved (jName j))
    \<and> distinct (map jName (plJobs p)) \<and> accepted p"
proof -
  obtain q where q: "ParseNamed decode src = Some q" "ValidatePolicyNames q = None"
    "p = zero_pipeline\<lparr>plStages := plStages q, plJobs := plJobs q\<rparr>"
    using assms(1) by (auto simp: CompilePolicy_def split: option.splits if_splits)
  have d: "decode src = Some q" "stages_declared q" "validateNeeds (plJobs q) (plStages q) = None" "validateNoCycles (plJobs q) = None"
    using q(1) by (auto simp: ParseNamed_def split: option.splits if_splits)
  moreover have "(\<forall>s\<in>set (plStages q). reserved s) \<and> (\<forall>j\<in>set (plJobs q). reserved (jName j))"
    using q(2) by (auto simp: ValidatePolicyNames_def find_None_iff split: option.splits)
  ultimately show ?thesis using names [OF d(1)] by (simp add: q(3) accepted_def stages_declared_def)
qed

lemma policy_row_ok:
  assumes "validatePolicyInput decode inp = Some (mode, cfg)" and "\<And>src q. decode src = Some q \<Longrightarrow> distinct (map jName (plJobs q))"
  shows "well_named (policy_of_row (policy_row i inp mode cfg)) \<and> accepted (cpConfig (policy_row i inp mode cfg))"
proof -
  have "CompilePolicy decode (piConfigYAML inp) = Some cfg"
    using assms(1) by (auto simp: validatePolicyInput_def Let_def split: if_splits)
  from CompilePolicy_parts [OF this assms(2)] show ?thesis
    by (simp add: policy_row_def policy_of_row_def well_named_def stage_names_def job_names_def)
qed

lemma disjoint_names_sym: "disjoint_names p q \<longleftrightarrow> disjoint_names q p"
  unfolding disjoint_names_def by blast

lemma collisions_disjoint:
  assumes "checkPolicyNameCollisions i cfg d" and r: "r \<in> set (cdPolicies d)" "cpID r \<noteq> i"
  shows "disjoint_names (policy_of_row (policy_row k inp mode cfg)) (policy_of_row r)"
proof -
  have s: "s \<notin> set (plStages (cpConfig r))" if "s \<in> set (plStages cfg)" for s
    using assms that by (auto simp: checkPolicyNameCollisions_def Let_def list_all_iff)
  have j: "jName j \<notin> jName ` set (plJobs (cpConfig r))" if "j \<in> set (plJobs cfg)" for j
    using assms that by (simp add: checkPolicyNameCollisions_def Let_def list_all_iff)
  show ?thesis
    unfolding disjoint_names_def stage_names_def job_names_def policy_of_row_def policy_row_def
    by (simp, use s j in blast)
qed

text \<open>A link set of one policy, and the rows of the others.\<close>

lemma link_frameworks_spec:
  assumes "link_frameworks i fws d = Some d1"
  obtains links where "d1 = d\<lparr>cdPolicyFrameworks := links\<rparr>"
    and "set links = set (cdPolicyFrameworks d) \<union> {(i, fw) | fw. fw \<in> set fws}"
  using assms by (fastforce simp: link_frameworks_def split: if_splits)

lemma InsertCompliancePolicy_inv:
  assumes inv: "compliance_inv e d" and ins: "InsertCompliancePolicy e inp d = Inr d'"
  shows "compliance_inv e d'"
proof -
  obtain mode cfg fws where v: "validatePolicyInput (aeDecode e) inp = Some (mode, cfg)" "checkPolicyNameCollisions uuid_Nil cfg d"
      "piName inp \<notin> cpName ` set (cdPolicies d)" "parseUUIDs (aeParse e) (piFrameworkIDs inp) = Some fws"
    using ins by (auto simp: InsertCompliancePolicy_def split: option.splits if_splits)
  let ?i = "aeDraw e (uuid_Nil # map cpID (cdPolicies d))"
  let ?row = "policy_row ?i inp mode cfg"
  obtain d1 where l: "link_frameworks ?i fws (d\<lparr>cdPolicies := cdPolicies d @ [?row]\<rparr>) = Some d1"
    and r: "recomputeProjects (aeGit e) (aeDraw e) (if piEnabled inp then affectedProjectIDs (piAppliesToAll inp) fws d1 else []) d1 = Inr d'"
    using ins v by (auto simp: InsertCompliancePolicy_def Let_def split: option.splits if_splits)
  obtain links where d1: "d1 = d\<lparr>cdPolicies := cdPolicies d @ [?row], cdPolicyFrameworks := links\<rparr>"
      "set links = set (cdPolicyFrameworks d) \<union> {(?i, fw) | fw. fw \<in> set fws}"
    by (rule link_frameworks_spec [OF l]) simp
  have a: "admin_ok e" "policies_ok d" using inv by (simp_all add: compliance_inv_def)
  have i: "?i \<notin> set (uuid_Nil # map cpID (cdPolicies d))" using a(1) unfolding admin_ok_def fresh_draw_def by blast
  have row: "well_named (policy_of_row ?row)" "accepted (cpConfig ?row)"
    using policy_row_ok [OF v(1), of ?i] a(1) by (auto simp: admin_ok_def)
  have dis: "disjoint_names (policy_of_row ?row) (policy_of_row q)" if "q \<in> set (cdPolicies d)" for q
  proof (rule collisions_disjoint [OF v(2) that])
    show "cpID q \<noteq> uuid_Nil" using a(2) that unfolding policies_ok_def by (metis image_eqI)
  qed
  have parts: "cdPolicies d1 = cdPolicies d @ [?row]" "cdProjectFrameworks d1 = cdProjectFrameworks d"
    "cdPipelines d1 = cdPipelines d" "cdMaterials d1 = cdMaterials d" "cdScm d1 = cdScm d" "cdProjects d1 = cdProjects d"
    by (simp_all add: d1(1))
  have key: "cpID ?row = ?i" "cpName ?row = piName inp" "cpEnabled ?row = piEnabled inp" "cpAppliesToAll ?row = piAppliesToAll inp"
    by (simp_all add: policy_row_def)
  show ?thesis
  proof (rule recomputed_inv [OF inv r])
    show "policies_ok d1"
      using a(2) i row dis v(3) d1(2) unfolding policies_ok_def parts
      by (simp add: key d1(1)) (auto simp: disjoint_names_sym)
    fix P assume P: "P \<in> project_ids d" "P \<notin> set (if piEnabled inp then affectedProjectIDs (piAppliesToAll inp) fws d1 else [])"
    have links: "(cpID q, fw) \<in> set (cdPolicyFrameworks d1) \<longleftrightarrow> (cpID q, fw) \<in> set (cdPolicyFrameworks d)"
      if "q \<in> set (cdPolicies d)" for q fw
    proof -
      have "cpID q \<noteq> ?i" using that i by (metis image_eqI list.set_intros(2) set_map)
      then show ?thesis by (simp add: d1)
    qed
    have "applies d1 P q \<longleftrightarrow> applies d P q" if "q \<in> set (cdPolicies d)" for q
      unfolding applies_iff links [OF that] parts by simp
    moreover have "(?i, fw) \<in> set (cdPolicyFrameworks d1) \<longleftrightarrow> fw \<in> set fws" for fw
      using d1 i a(2) by (force simp: policies_ok_def)
    then have "\<not> applies d1 P ?row"
      using P affected_iff [of P d1 "piAppliesToAll inp" fws]
      unfolding applies_iff key by (auto simp: parts project_ids_def split: if_splits)
    ultimately show "policiesForProject d1 P = policiesForProject d P"
      by (intro policies_cong) (simp add: parts cong: filter_cong)
  qed (simp_all add: parts)
qed

text \<open>A policy replaced by a row of the same id.\<close>

lemma policies_ok_updated:
  assumes ok: "policies_ok d" and old: "old \<in> set (cdPolicies d)" "cpID old = i"
    and name: "\<not> list_ex (\<lambda>r. cpID r \<noteq> i \<and> cpName r = cpName row) (cdPolicies d)"
    and row: "cpID row = i" "well_named (policy_of_row row)" "accepted (cpConfig row)"
    and dis: "\<And>q. q \<in> set (cdPolicies d) \<Longrightarrow> cpID q \<noteq> i \<Longrightarrow> disjoint_names (policy_of_row row) (policy_of_row q)"
    and d1: "cdPolicies d1 = upd_where (\<lambda>r. cpID r = i) (\<lambda>_. row) (cdPolicies d)"
    and links: "fst ` set (cdPolicyFrameworks d1) \<subseteq> insert i (fst ` set (cdPolicyFrameworks d))"
  shows "policies_ok d1"
proof -
  have ids: "map cpID (cdPolicies d1) = map cpID (cdPolicies d)" by (simp add: d1 upd_where_def row(1))
  have set1: "q \<in> set (cdPolicies d1) \<longleftrightarrow> q = row \<or> (q \<in> set (cdPolicies d) \<and> cpID q \<noteq> i)" for q
    using old row(1) by (auto simp: d1 set_upd_where image_iff)
  have ok': "distinct (map cpID (cdPolicies d))" "distinct (map cpName (cdPolicies d))" "uuid_Nil \<notin> cpID ` set (cdPolicies d)"
    "\<forall>r\<in>set (cdPolicies d). well_named (policy_of_row r) \<and> accepted (cpConfig r)"
    "\<forall>r\<in>set (cdPolicies d). \<forall>q\<in>set (cdPolicies d). cpID r \<noteq> cpID q \<longrightarrow> disjoint_names (policy_of_row r) (policy_of_row q)"
    "fst ` set (cdPolicyFrameworks d) \<subseteq> cpID ` set (cdPolicies d)"
    using ok by (simp_all add: policies_ok_def)
  have d1dist: "distinct (cdPolicies d1)" using ok'(1) ids by (metis distinct_map)
  have "inj_on cpName (set (cdPolicies d1))"
  proof (rule inj_onI)
    fix q r assume "q \<in> set (cdPolicies d1)" "r \<in> set (cdPolicies d1)" "cpName q = cpName r"
    then show "q = r" using name ok'(2) by (auto simp: set1 list_ex_iff distinct_map dest: inj_onD)
  qed
  then have names: "distinct (map cpName (cdPolicies d1))" using d1dist by (simp add: distinct_map)
  have rows: "\<forall>r\<in>set (cdPolicies d1). well_named (policy_of_row r) \<and> accepted (cpConfig r)"
    using ok'(4) row(2,3) by (auto simp: set1)
  have pairs: "\<forall>r\<in>set (cdPolicies d1). \<forall>q\<in>set (cdPolicies d1). cpID r \<noteq> cpID q \<longrightarrow> disjoint_names (policy_of_row r) (policy_of_row q)"
  proof (intro ballI impI)
    fix r q assume "r \<in> set (cdPolicies d1)" "q \<in> set (cdPolicies d1)" "cpID r \<noteq> cpID q"
    then show "disjoint_names (policy_of_row r) (policy_of_row q)"
      using ok'(5) dis row(1) disjoint_names_sym unfolding set1 by metis
  qed
  have idset: "cpID ` set (cdPolicies d1) = cpID ` set (cdPolicies d)" using ids by (metis set_map)
  have "i \<in> cpID ` set (cdPolicies d)" using old by blast
  then have "fst ` set (cdPolicyFrameworks d1) \<subseteq> cpID ` set (cdPolicies d1)" using links ok'(6) unfolding idset by blast
  then show ?thesis using ok'(1,3) ids idset names rows pairs by (simp add: policies_ok_def)
qed

lemma UpdateCompliancePolicy_inv:
  assumes inv: "compliance_inv e d" and upd: "UpdateCompliancePolicy e pid inp d = Inr d'"
  shows "compliance_inv e d'"
proof -
  obtain i mode cfg newFW old where v: "aeParse e pid = Some i" "validatePolicyInput (aeDecode e) inp = Some (mode, cfg)"
      "parseUUIDs (aeParse e) (piFrameworkIDs inp) = Some newFW" "checkPolicyNameCollisions i cfg d"
      "find (\<lambda>r. cpID r = i) (cdPolicies d) = Some old" "\<not> list_ex (\<lambda>r. cpID r \<noteq> i \<and> cpName r = piName inp) (cdPolicies d)"
    using upd by (auto simp: UpdateCompliancePolicy_def Let_def split: option.splits if_splits)
  let ?row = "policy_row i inp mode cfg"
  let ?oldFW = "map snd (filter (\<lambda>(p, _). p = i) (cdPolicyFrameworks d))"
  let ?pols = "upd_where (\<lambda>r. cpID r = i) (\<lambda>_. ?row) (cdPolicies d)"
  obtain d1 where l: "link_frameworks i newFW (d\<lparr>cdPolicies := ?pols,
        cdPolicyFrameworks := filter (\<lambda>(p, _). p \<noteq> i) (cdPolicyFrameworks d)\<rparr>) = Some d1"
    and r: "recomputeProjects (aeGit e) (aeDraw e)
        (affectedProjectIDs (cpAppliesToAll old \<or> piAppliesToAll inp) (dedup [] (?oldFW @ newFW)) d1) d1 = Inr d'"
    using upd v by (auto simp: UpdateCompliancePolicy_def Let_def split: option.splits if_splits)
  obtain links where d1: "d1 = d\<lparr>cdPolicies := ?pols, cdPolicyFrameworks := links\<rparr>"
      "set links = set (filter (\<lambda>(p, _). p \<noteq> i) (cdPolicyFrameworks d)) \<union> {(i, fw) | fw. fw \<in> set newFW}"
    by (rule link_frameworks_spec [OF l]) simp
  have a: "admin_ok e" "policies_ok d" using inv by (simp_all add: compliance_inv_def)
  have old: "old \<in> set (cdPolicies d)" "cpID old = i" using find_SomeD [OF v(5)] by simp_all
  have only: "q = old" if "q \<in> set (cdPolicies d)" "cpID q = i" for q
    using a(2) that old by (auto simp: policies_ok_def distinct_map dest: inj_onD)
  have parts: "cdPolicies d1 = ?pols" "cdProjectFrameworks d1 = cdProjectFrameworks d"
    "cdPipelines d1 = cdPipelines d" "cdMaterials d1 = cdMaterials d" "cdScm d1 = cdScm d" "cdProjects d1 = cdProjects d"
    by (simp_all add: d1(1))
  have key: "cpID ?row = i" "cpName ?row = piName inp" "cpEnabled ?row = piEnabled inp" "cpAppliesToAll ?row = piAppliesToAll inp"
    by (simp_all add: policy_row_def)
  show ?thesis
  proof (rule recomputed_inv [OF inv r])
    show "policies_ok d1"
    proof (rule policies_ok_updated [OF a(2) old _ key(1) _ _ _ parts(1)])
      show "\<not> list_ex (\<lambda>r. cpID r \<noteq> i \<and> cpName r = cpName ?row) (cdPolicies d)" using v(6) by (simp add: key)
      show "well_named (policy_of_row ?row)" "accepted (cpConfig ?row)"
        using policy_row_ok [OF v(2), of i] a(1) by (auto simp: admin_ok_def)
      show "disjoint_names (policy_of_row ?row) (policy_of_row q)" if "q \<in> set (cdPolicies d)" "cpID q \<noteq> i" for q
        by (rule collisions_disjoint [OF v(4) that])
      show "fst ` set (cdPolicyFrameworks d1) \<subseteq> insert i (fst ` set (cdPolicyFrameworks d))" by (auto simp: d1)
    qed
    fix P assume P: "P \<in> project_ids d"
      "P \<notin> set (affectedProjectIDs (cpAppliesToAll old \<or> piAppliesToAll inp) (dedup [] (?oldFW @ newFW)) d1)"
    then have un: "\<not> cpAppliesToAll old" "\<not> piAppliesToAll inp"
      "\<And>fw. fw \<in> set ?oldFW \<union> set newFW \<Longrightarrow> (P, fw) \<notin> set (cdProjectFrameworks d)"
      using affected_iff [of P d1 "cpAppliesToAll old \<or> piAppliesToAll inp" "dedup [] (?oldFW @ newFW)"]
      by (auto simp: parts project_ids_def set_dedup)
    show "policiesForProject d1 P = policiesForProject d P"
    proof (rule policies_cong, unfold parts, rule filter_upd_where)
      fix q assume "q \<in> set (cdPolicies d)" "cpID q \<noteq> i"
      then show "applies d1 P q = applies d P q" by (auto simp: applies_iff d1)
    next
      fix q assume "q \<in> set (cdPolicies d)" "cpID q = i"
      then have "q = old" by (rule only)
      moreover have "\<not> applies d P old" using un by (force simp: applies_iff old(2))
      moreover have "\<not> applies d1 P ?row" using un by (auto simp: applies_iff key d1)
      ultimately show "\<not> applies d P q \<and> \<not> applies d1 P ?row" by simp
    qed
  qed (simp_all add: parts)
qed

lemma DeleteCompliancePolicy_inv:
  assumes inv: "compliance_inv e d" and del: "DeleteCompliancePolicy e pid d = Inr d'"
  shows "compliance_inv e d'"
proof -
  obtain i old where v: "aeParse e pid = Some i" "find (\<lambda>r. cpID r = i) (cdPolicies d) = Some old"
    using del by (auto simp: DeleteCompliancePolicy_def split: option.splits)
  let ?oldFW = "map snd (filter (\<lambda>(p, _). p = i) (cdPolicyFrameworks d))"
  let ?d1 = "d\<lparr>cdPolicies := filter (\<lambda>r. cpID r \<noteq> i) (cdPolicies d),
      cdPolicyFrameworks := filter (\<lambda>(p, _). p \<noteq> i) (cdPolicyFrameworks d)\<rparr>"
  have rec: "recomputeProjects (aeGit e) (aeDraw e) (affectedProjectIDs (cpAppliesToAll old) ?oldFW d) ?d1 = Inr d'"
    using del by (simp add: DeleteCompliancePolicy_def v Let_def)
  have a: "policies_ok d" using inv by (simp add: compliance_inv_def)
  have old: "old \<in> set (cdPolicies d)" "cpID old = i" using find_SomeD [OF v(2)] by simp_all
  have only: "q = old" if "q \<in> set (cdPolicies d)" "cpID q = i" for q
    using a that old by (auto simp: policies_ok_def distinct_map dest: inj_onD)
  show ?thesis
  proof (rule recomputed_inv [OF inv rec])
    show "policies_ok ?d1" using a by (auto simp: policies_ok_def distinct_map_filter)
    fix P assume P: "P \<in> project_ids d" "P \<notin> set (affectedProjectIDs (cpAppliesToAll old) ?oldFW d)"
    then have un: "\<not> cpAppliesToAll old" "\<And>fw. fw \<in> set ?oldFW \<Longrightarrow> (P, fw) \<notin> set (cdProjectFrameworks d)"
      using affected_iff [of P d "cpAppliesToAll old" ?oldFW] by auto
    have "applies ?d1 P q \<longleftrightarrow> applies d P q" if "cpID q \<noteq> i" for q using that by (auto simp: applies_iff)
    moreover have "\<not> applies d P old" using un by (force simp: applies_iff old(2))
    ultimately show "policiesForProject ?d1 P = policiesForProject d P"
      by (intro policies_cong) (auto intro!: filter_cong dest: only)
  qed simp_all
qed

section \<open>Applying a project\<close>

lemma UpsertProject_spec:
  assumes "UpsertProject nx slug d = (P, d1)"
  shows "d1 = d\<lparr>cdProjects := cdProjects d1\<rparr> \<and> project_ids d1 = insert P (project_ids d)"
proof (cases "find (\<lambda>(_, s). s = slug) (cdProjects d)")
  case (Some x)
  then have "x \<in> set (cdProjects d)" by (auto dest!: find_SomeD)
  with Some assms show ?thesis by (force simp: UpsertProject_def project_ids_def split: prod.splits)
qed (use assms in \<open>auto simp: UpsertProject_def Let_def project_ids_def\<close>)

lemma upsertSCM_spec:
  assumes "upsertSCMSource e cipher P i d = Inr d1"
  shows "d1 = d\<lparr>cdScm := cdScm d1\<rparr> \<and> (scm_ok d \<longrightarrow> scm_ok d1) \<and> (Q \<noteq> P \<longrightarrow> scmForProject Q d1 = scmForProject Q d)"
proof -
  let ?row = "\<lparr>scProject = P, scURL = normalizeGitURL (geLower e) (siURL i),
      scDefaultBranch = (if siDefaultBranch i = [] then ''main'' else siDefaultBranch i)\<rparr>"
  have d1: "d1 = d\<lparr>cdScm := (if list_ex (\<lambda>r. scProject r = P) (cdScm d)
      then upd_where (\<lambda>r. scProject r = P) (\<lambda>_. ?row) (cdScm d) else cdScm d @ [?row])\<rparr>"
    using assms by (auto simp: upsertSCMSource_def Let_def split: if_splits)
  have f: "find (\<lambda>r. scProject r = Q) (upd_where (\<lambda>r. scProject r = P) (\<lambda>_. ?row) t) = find (\<lambda>r. scProject r = Q) t"
    if "Q \<noteq> P" for t using that by (induction t) (auto simp: upd_where_def)
  have g: "find (\<lambda>r. scProject r = Q) (t @ [?row]) = find (\<lambda>r. scProject r = Q) t" if "Q \<noteq> P" for t
    using that by (induction t) auto
  show ?thesis using f g by (auto simp: d1 scm_ok_def scmForProject_def set_upd_where)
qed

lemma ApplyProject_inv:
  assumes inv: "compliance_inv e d" and app: "ApplyProject e cipher inp d = Inr d'"
  shows "compliance_inv e d'"
proof -
  obtain P d1 where one: "UpsertProject (aeDraw e) (aiSlug inp) d = (P, d1)" by (rule prod.exhaust)
  obtain d2 where two: "(case aiSCM inp of None \<Rightarrow> Inr d1 | Some i \<Rightarrow> upsertSCMSource (aeGit e) cipher P i d1) = Inr d2"
    and three: "apply_bound e P (aiPipelines inp) d2 = Inr d'"
    using app one by (auto simp: ApplyProject_def split: if_splits sum.splits)
  note p = UpsertProject_spec [OF one]
  have s: "d2 = d1\<lparr>cdScm := cdScm d2\<rparr> \<and> (scm_ok d1 \<longrightarrow> scm_ok d2) \<and> (Q \<noteq> P \<longrightarrow> scmForProject Q d2 = scmForProject Q d1)" for Q
    using two upsertSCM_spec [of "aeGit e" cipher P _ d1 d2 Q] by (cases "aiSCM inp") auto
  have eq: "cdPipelines d2 = cdPipelines d" "cdMaterials d2 = cdMaterials d" "cdPolicies d2 = cdPolicies d"
    "cdPolicyFrameworks d2 = cdPolicyFrameworks d" "cdProjectFrameworks d2 = cdProjectFrameworks d"
    "cdProjects d2 = cdProjects d1" "cdScm d1 = cdScm d"
    using p s by (metis ComplianceDB.select_convs ComplianceDB.surjective ComplianceDB.update_convs)+
  have i: "admin_ok e" "pipelines_ok d" "scm_ok d" "policies_ok d" "\<forall>Q\<in>project_ids d. good_project (aeGit e) d Q"
    using inv by (simp_all add: compliance_inv_def)
  have ok2: "pipelines_ok d2" "scm_ok d2" "policies_ok d2"
    using i pipelines_ok_cong [OF eq(1)] s by (simp_all add: scm_ok_def eq(7) policies_ok_def eq)
  have nx: "fresh_draw (aeDraw e)" using i(1) by (simp add: admin_ok_def)
  from apply_bound_spec [OF three ok2(1) nx ok2(2)]
  have b: "pipelines_ok d'" "within P d2 d'" "good_project (aeGit e) d' P" by blast+
  note adm = within_admin [OF b(2)]
  have "good_project (aeGit e) d' Q" if Q: "Q \<in> project_ids d'" for Q
  proof (cases "Q = P")
    case False
    have "Q \<in> project_ids d" using Q False p adm by (auto simp: project_ids_def same_admin_def eq(6))
    moreover have "policiesForProject d2 Q = policiesForProject d Q" by (rule policies_same) (simp_all add: applies_iff eq)
    moreover have "scmForProject Q d2 = scmForProject Q d" using s [of Q] False by (simp add: scmForProject_def eq(7))
    ultimately have "good_project (aeGit e) d2 Q" using good_project_cong [of d2 Q d "aeGit e"] i(5) by (simp add: eq)
    from good_project_within [OF this b(2) False] show ?thesis .
  qed (use b(3) in simp)
  moreover have "policies_ok d'" using ok2(3) adm by (simp add: policies_ok_def same_admin_def)
  ultimately show ?thesis using i(1) b(1) same_admin_scm_ok [OF adm] ok2(2) by (simp add: compliance_inv_def)
qed

lemma DeleteProject_inv:
  assumes inv: "compliance_inv e d" and del: "DeleteProject slug d = Inr d'"
  shows "compliance_inv e d'"
proof -
  obtain i where i: "project_by_slug slug d = Some i" using del by (auto simp: DeleteProject_def split: option.splits)
  have d': "cdPipelines d' = filter (\<lambda>r. pwProject r \<noteq> i) (cdPipelines d)" "cdScm d' = filter (\<lambda>r. scProject r \<noteq> i) (cdScm d)"
    "cdPolicies d' = cdPolicies d" "cdPolicyFrameworks d' = cdPolicyFrameworks d"
    "cdProjectFrameworks d' = filter (\<lambda>(j, _). j \<noteq> i) (cdProjectFrameworks d)"
    "cdProjects d' = filter (\<lambda>(j, _). j \<noteq> i) (cdProjects d)"
    "cdMaterials d' = filter (\<lambda>m. mwPipeline m \<notin> pwID ` {r \<in> set (cdPipelines d). pwProject r = i}) (cdMaterials d)"
    using del by (auto simp: DeleteProject_def i Let_def)
  have ok: "admin_ok e" "pipelines_ok d" "scm_ok d" "policies_ok d" "\<forall>Q\<in>project_ids d. good_project (aeGit e) d Q"
    using inv by (simp_all add: compliance_inv_def)
  have "good_project (aeGit e) d' P" if P: "P \<in> project_ids d'" for P
  proof -
    have ne: "P \<noteq> i" "P \<in> project_ids d" using P by (auto simp: project_ids_def d'(6))
    have good: "good_project (aeGit e) d P" using ok(5) ne(2) by blast
    have pol: "policiesForProject d' P = policiesForProject d P" by (rule policies_same) (use ne in \<open>simp_all add: applies_iff d'\<close>)
    have scm: "scmForProject P d' = scmForProject P d"
    proof -
      have f: "find (\<lambda>r. scProject r = P) (filter (\<lambda>r. scProject r \<noteq> i) t) = find (\<lambda>r. scProject r = P) t" for t
        using ne(1) by (induction t) auto
      show ?thesis unfolding scmForProject_def d'(2) f by (rule refl)
    qed
    have fire: "fires (aeGit e) u b (pwID r) d' = fires (aeGit e) u b (pwID r) d"
      if r: "r \<in> set (cdPipelines d)" "pwProject r = P" for r u b
    proof (rule fires_cong)
      fix m :: MaterialRow
      assume "mwPipeline m = pwID r"
      moreover have "pwID r \<notin> pwID ` {r \<in> set (cdPipelines d). pwProject r = i}"
        using same_pipeline_id [OF ok(2) r(1)] r(2) ne(1) by blast
      ultimately show "m \<in> set (cdMaterials d') \<longleftrightarrow> m \<in> set (cdMaterials d)" by (simp add: d')
    qed
    have "push_path (aeGit e) d' P" if "push_path (aeGit e) d P"
      using that fire ne(1) by (auto simp: push_path_def scm list_ex_iff d' split: option.splits)
    moreover have "current_row d' r \<longleftrightarrow> current_row d r" if "pwProject r = P" for r
      using that by (simp add: current_row_def pol)
    ultimately show ?thesis using good by (auto simp: good_project_def pol d')
  qed
  moreover have "pipelines_ok d'" using ok(2) by (auto simp: pipelines_ok_def d' distinct_map_filter)
  moreover have "policies_ok d'" using ok(4) by (simp add: policies_ok_def d')
  moreover have "scm_ok d'" using ok(3) by (simp add: scm_ok_def d')
  ultimately show ?thesis using ok(1) by (simp add: compliance_inv_def)
qed

lemma compliance_inv_init: "compliance_init e d \<Longrightarrow> compliance_inv e d"
  by (simp add: compliance_init_def compliance_inv_def empty_db_def pipelines_ok_def scm_ok_def policies_ok_def project_ids_def)

lemma compliance_inv_step: "compliance_inv e d \<Longrightarrow> compliance_step e d d' \<Longrightarrow> compliance_inv e d'"
  by (erule compliance_step.cases)
    (blast intro: ApplyProject_inv InsertComplianceFramework_inv UpdateComplianceFramework_inv DeleteComplianceFramework_inv
      SetProjectFrameworks_inv InsertCompliancePolicy_inv UpdateCompliancePolicy_inv DeleteCompliancePolicy_inv DeleteProject_inv)+

interpretation compliance_system: invariant_system "compliance_init e" "compliance_step e" "compliance_inv e" for e
  by unfold_locales (auto intro: compliance_inv_init dest: compliance_inv_step)

end
