(* ===== verification/ComplianceRules.thy ===== *)
theory ComplianceRules
  imports ComplianceLife
begin

text \<open>
  What compliance promises of every project in every state administrators and repositories
  can reach, and one governed project on which each promise is evaluated.
\<close>

section \<open>From the invariant\<close>

lemma inv_project:
  assumes "compliance_inv e d" and "r \<in> set (cdPipelines d)" and "pwProject r \<in> project_ids d"
  shows "pwDefinition r = marshalPipelineDefinition (ApplyPolicies (pwRaw r) (policiesForProject d (pwProject r)))"
    and "RejectReservedNames (pwRaw r) = None"
  using assms by (auto simp: compliance_inv_def good_project_def current_row_def pipelines_ok_def)

lemma own_names_project:
  assumes "policies_ok d"
  shows "own_names (policiesForProject d P)"
proof -
  let ?rows = "ResolvePoliciesForProject d P"
  have rows: "set ?rows \<subseteq> set (cdPolicies d)" by (auto simp: ResolvePoliciesForProject_def)
  have "distinct (map cpName (cdPolicies d))" "distinct (map cpID (cdPolicies d))" using assms by (simp_all add: policies_ok_def)
  then have inj: "inj_on cpName (set (cdPolicies d))" "distinct (cdPolicies d)" by (simp_all add: distinct_map)
  have poinj: "inj_on policy_of_row (set ?rows)"
  proof (rule inj_onI)
    fix r q assume rq: "r \<in> set ?rows" "q \<in> set ?rows" "policy_of_row r = policy_of_row q"
    then have "cpName r = cpName q" by (simp add: policy_of_row_def)
    with rq rows inj(1) show "r = q" by (auto dest: inj_onD)
  qed
  have "distinct ?rows" using inj(2) by (simp add: ResolvePoliciesForProject_def)
  then have "distinct (policiesForProject d P)" using poinj by (simp add: policiesForProject_def distinct_map)
  moreover have "list_all well_named (policiesForProject d P)"
    using assms rows by (auto simp: policiesForProject_def list_all_iff policies_ok_def)
  moreover have "disjoint_names p q" if pq: "p \<in> set (policiesForProject d P)" "q \<in> set (policiesForProject d P)" "p \<noteq> q" for p q
  proof -
    obtain r s where rs: "r \<in> set (cdPolicies d)" "p = policy_of_row r" "s \<in> set (cdPolicies d)" "q = policy_of_row s"
      using pq(1,2) rows by (auto simp: policiesForProject_def)
    have "cpID r \<noteq> cpID s" using rs pq(3) \<open>distinct (map cpID (cdPolicies d))\<close> by (auto simp: distinct_map dest: inj_onD)
    then show ?thesis using assms rs by (simp add: policies_ok_def)
  qed
  ultimately show ?thesis by (simp add: own_names_def)
qed

lemma enforced_marshal [simp]: "enforced p (marshalPipelineDefinition q) \<longleftrightarrow> enforced p q"
  by (simp add: enforced_def findJob_def)

lemma findJob_marshal [simp]: "findJob (marshalPipelineDefinition q) n = findJob q n"
  by (simp add: findJob_def)

lemma sound_marshal [simp]: "sound_pipeline (marshalPipelineDefinition q) \<longleftrightarrow> sound_pipeline q"
  by (simp add: sound_pipeline_def accepted_def stages_declared_def)

lemma reachable_inv: "compliance_init e d0 \<Longrightarrow> (compliance_step e)\<^sup>*\<^sup>* d0 d \<Longrightarrow> compliance_inv e d"
  by (rule compliance_system.inv_reachable)

lemma reachable_own: "compliance_inv e d \<Longrightarrow> own_names (policiesForProject d P)"
  by (simp add: own_names_project compliance_inv_def)

lemma DeleteCompliancePolicy_rows:
  assumes inv: "compliance_inv e d" and i: "aeParse e pid = Some i" and del: "DeleteCompliancePolicy e pid d = Inr d'"
  shows "set (cdPolicies d') = {q \<in> set (cdPolicies d). cpID q \<noteq> i}"
proof -
  obtain old where v: "find (\<lambda>r. cpID r = i) (cdPolicies d) = Some old"
    using del i by (auto simp: DeleteCompliancePolicy_def split: option.splits)
  let ?d1 = "d\<lparr>cdPolicies := filter (\<lambda>r. cpID r \<noteq> i) (cdPolicies d),
      cdPolicyFrameworks := filter (\<lambda>(p, _). p \<noteq> i) (cdPolicyFrameworks d)\<rparr>"
  obtain Ps where rec: "recomputeProjects (aeGit e) (aeDraw e) Ps ?d1 = Inr d'"
    using del i v by (auto simp: DeleteCompliancePolicy_def Let_def)
  have "pipelines_ok ?d1" "fresh_draw (aeDraw e)" "scm_ok ?d1"
    using inv by (simp_all add: compliance_inv_def admin_ok_def scm_ok_def pipelines_ok_def)
  from recomputeProjects_spec [OF rec this] show ?thesis by (simp add: same_admin_def)
qed

section \<open>Properties\<close>

text \<open>
  C20: whatever administrators and repositories do, and in whatever order, the definition that
  runs are created from is, for every pipeline of every project, the merge of its repository
  part with the policies in force for the project at that moment.
\<close>
theorem effective_definitions_current:
  assumes "compliance_init e d0" and "(compliance_step e)\<^sup>*\<^sup>* d0 d"
    and "r \<in> set (cdPipelines d)" and "pwProject r \<in> project_ids d"
  shows "pwDefinition r = marshalPipelineDefinition (ApplyPolicies (pwRaw r) (policiesForProject d (pwProject r)))"
  using inv_project(1) [OF reachable_inv [OF assms(1,2)] assms(3,4)] .

text \<open>
  C19: a repository can neither drop nor replace a mandatory job: in every pipeline of a
  governed project each stage of a policy in force is declared and each of its jobs is the
  job of its name; every job with a reserved name is a job of a policy, and every stage with a
  reserved name is a stage of a policy.
\<close>
theorem mandatory_jobs_enforced:
  assumes "compliance_init e d0" and "(compliance_step e)\<^sup>*\<^sup>* d0 d"
    and "r \<in> set (cdPipelines d)" and "pwProject r \<in> project_ids d"
    and "in_force (policiesForProject d (pwProject r)) p"
  shows "set (plStages (poPipeline p)) \<subseteq> set (plStages (pwDefinition r))
    \<and> (\<forall>j\<in>set (plJobs (poPipeline p)). findJob (pwDefinition r) (jName j) = Some j)
    \<and> (\<forall>j\<in>set (plJobs (pwDefinition r)). reserved (jName j) \<longrightarrow>
         (\<exists>q\<in>set (policiesForProject d (pwProject r)). j \<in> set (plJobs (poPipeline q))))
    \<and> (\<forall>s\<in>set (plStages (pwDefinition r)). reserved s \<longrightarrow>
         (\<exists>q\<in>set (policiesForProject d (pwProject r)). s \<in> set (plStages (poPipeline q))))"
proof -
  note inv = reachable_inv [OF assms(1,2)]
  let ?ps = "policiesForProject d (pwProject r)"
  have "enforced p (pwDefinition r)"
    using merge_enforces [OF reachable_own [OF inv] assms(5)] by (simp add: inv_project(1) [OF inv assms(3,4)])
  moreover have "?ps \<noteq> []" using assms(5) by (auto simp: in_force_def)
  then have "owned_by (set ?ps) (ApplyPolicies (pwRaw r) ?ps)" by (rule merge_owned)
  then have "\<forall>j\<in>set (plJobs (pwDefinition r)). reserved (jName j) \<longrightarrow> (\<exists>q\<in>set ?ps. j \<in> set (plJobs (poPipeline q)))"
    and "\<forall>s\<in>set (plStages (pwDefinition r)). reserved s \<longrightarrow> (\<exists>q\<in>set ?ps. s \<in> set (plStages (poPipeline q)))"
    unfolding inv_project(1) [OF inv assms(3,4)] by (simp_all add: owned_by_def stage_names_def)
  ultimately show ?thesis by (simp add: enforced_def stage_names_def)
qed

text \<open>
  C21: a governed project cannot be made to run nothing: it is bound to a repository, and one
  of its pipelines has a git material for the default branch that listens to pushes and has
  no path filter, so that every push to that branch starts it.
\<close>
theorem governed_push_path:
  assumes "compliance_init e d0" and "(compliance_step e)\<^sup>*\<^sup>* d0 d"
    and "P \<in> project_ids d" and "policiesForProject d P \<noteq> []"
  shows "\<exists>url branch. scmForProject P d = Some (url, branch) \<and>
    (\<exists>r\<in>set (cdPipelines d). pwProject r = P \<and>
      (\<exists>m\<in>set (cdMaterials d). mwPipeline m = pwID r \<and> mwType m = MaterialGit
        \<and> mwFingerprint m = GitFingerprint (aeGit e) url branch
        \<and> ''push'' \<in> set (gmEvents (decode_git (mwConfig m))) \<and> gmPaths (decode_git (mwConfig m)) = []))"
proof -
  have "push_path (aeGit e) d P"
    using reachable_inv [OF assms(1,2)] assms(3,4) by (simp add: compliance_inv_def good_project_def)
  then show ?thesis by (auto simp: push_path_def fires_def list_ex_iff split: option.splits)
qed

text \<open>
  C25: policies that inject leave the repository's part as it is: without an overriding policy
  the stages and jobs with unreserved names are exactly those of the repository, in its order.
\<close>
theorem repo_part_preserved:
  assumes "compliance_init e d0" and "(compliance_step e)\<^sup>*\<^sup>* d0 d"
    and "r \<in> set (cdPipelines d)" and "pwProject r \<in> project_ids d"
    and "\<forall>p\<in>set (policiesForProject d (pwProject r)). poMode p \<noteq> ModeOverride"
  shows "filter (\<lambda>s. \<not> reserved s) (plStages (pwDefinition r)) = plStages (pwRaw r)
    \<and> filter (\<lambda>j. \<not> reserved (jName j)) (plJobs (pwDefinition r)) = plJobs (pwRaw r)"
proof -
  note inv = reachable_inv [OF assms(1,2)]
  note row = inv_project [OF inv assms(3,4)]
  have "\<forall>p\<in>set (policiesForProject d (pwProject r)). well_named p \<and> \<not> overriding p"
    using reachable_own [OF inv, of "pwProject r"] assms(5) by (simp add: own_names_def list_all_iff overriding_def)
  from merge_keeps_repo [OF this, of "pwRaw r"] unreserved_strip [OF row(2)] show ?thesis
    unfolding row(1) by (simp add: stripReservedStages_def stripReservedJobs_def)
qed

text \<open>
  C23: enforcing policies never breaks a pipeline: when the repository's part is a pipeline the
  parser accepts and declares no stage twice, and no policy in force declares a stage twice
  (policies are stored only when the parser accepts them), the merged definition is accepted
  too and declares no stage twice. Without the condition on stages it need not be: the parser
  does accept repeated stages.
\<close>
theorem merged_pipeline_accepted:
  assumes "compliance_init e d0" and "(compliance_step e)\<^sup>*\<^sup>* d0 d"
    and "r \<in> set (cdPipelines d)" and "pwProject r \<in> project_ids d"
    and "accepted (pwRaw r)" and "distinct (plStages (pwRaw r))"
    and "\<forall>p\<in>set (policiesForProject d (pwProject r)). distinct (plStages (poPipeline p))"
  shows "accepted (pwDefinition r) \<and> distinct (plStages (pwDefinition r))"
proof -
  note inv = reachable_inv [OF assms(1,2)]
  note row = inv_project [OF inv assms(3,4)]
  have "accepted (poPipeline p)" if "p \<in> set (policiesForProject d (pwProject r))" for p
    using inv that by (auto simp: compliance_inv_def policies_ok_def policies_set policy_of_row_def)
  then have "sound_pipeline (ApplyPolicies (pwRaw r) (policiesForProject d (pwProject r)))"
    using assms(5-7) by (intro merge_sound [OF _ row(2) reachable_own [OF inv]]) (simp_all add: sound_pipeline_def)
  then have "sound_pipeline (pwDefinition r)" unfolding row(1) by simp
  then show ?thesis by (simp add: sound_pipeline_def)
qed

text \<open>
  C26: an overriding policy does not only replace the repository's part: it erases the jobs of
  every policy before it in the order of priority and name, from every pipeline.
\<close>
theorem override_drops_policies:
  assumes "compliance_init e d0" and "(compliance_step e)\<^sup>*\<^sup>* d0 d"
    and "r \<in> set (cdPipelines d)" and "pwProject r \<in> project_ids d"
    and "p \<in> set (policiesForProject d (pwProject r))" and "q \<in> set (policiesForProject d (pwProject r))"
    and "poMode q = ModeOverride" and "policy_key p < policy_key q" and "j \<in> set (plJobs (poPipeline p))"
  shows "findJob (pwDefinition r) (jName j) = None"
proof -
  note inv = reachable_inv [OF assms(1,2)]
  show ?thesis
    using override_erases [OF reachable_own [OF inv] assms(5,6) _ assms(8,9)] assms(7)
    by (simp add: overriding_def inv_project(1) [OF inv assms(3,4)])
qed

text \<open>
  C24: deleting a policy withdraws it everywhere at once: after the transaction no pipeline of
  any project has a job of one of its names.
\<close>
theorem deleted_policy_withdrawn:
  assumes "compliance_init e d0" and "(compliance_step e)\<^sup>*\<^sup>* d0 d"
    and "aeParse e pid = Some i" and "p \<in> set (cdPolicies d)" and "cpID p = i"
    and "DeleteCompliancePolicy e pid d = Inr d'"
    and "r \<in> set (cdPipelines d')" and "pwProject r \<in> project_ids d'" and "j \<in> set (plJobs (cpConfig p))"
  shows "findJob (pwDefinition r) (jName j) = None"
proof -
  note inv = reachable_inv [OF assms(1,2)]
  have inv': "compliance_inv e d'" by (rule DeleteCompliancePolicy_inv [OF inv assms(6)])
  note row = inv_project [OF inv' assms(7,8)]
  let ?ps = "policiesForProject d' (pwProject r)"
  have pol: "set (cdPolicies d') = {q \<in> set (cdPolicies d). cpID q \<noteq> i}" by (rule DeleteCompliancePolicy_rows [OF inv assms(3,6)])
  have ok: "policies_ok d" using inv by (simp add: compliance_inv_def)
  have res: "reserved (jName j)"
    using ok assms(4,9) by (auto simp: policies_ok_def well_named_def job_names_def policy_of_row_def)
  have no: "jName k \<noteq> jName j" if k: "k \<in> set (plJobs (ApplyPolicies (pwRaw r) ?ps))" for k
  proof
    assume eq: "jName k = jName j"
    show False
    proof (cases "?ps = []")
      case True
      then show False using k eq res row(2) by (auto simp: ApplyPolicies_def RejectReservedNames_def find_None_iff split: option.splits)
    next
      case False
      from merge_owned [OF this, of "pwRaw r"] k eq res
      obtain q where q: "q \<in> set (cdPolicies d)" "cpID q \<noteq> i" "k \<in> set (plJobs (cpConfig q))"
        by (auto simp: owned_by_def policies_set pol policy_of_row_def)
      have "disjoint_names (policy_of_row p) (policy_of_row q)" using ok assms(4,5) q by (auto simp: policies_ok_def)
      then show False using q(3) assms(9) eq by (auto simp: disjoint_names_def job_names_def policy_of_row_def)
    qed
  qed
  then show ?thesis unfolding row(1) by (auto simp: findJob_def find_None_iff)
qed

text \<open>The policies a set of frameworks would bring are those the assignment brings.\<close>

lemma policies_after_assignment:
  assumes "cdProjectFrameworks d1 = filter (\<lambda>(p, _). p \<noteq> P) (cdProjectFrameworks d) @ map (\<lambda>fw. (P, fw)) (remdups fws)"
    and "cdPolicies d1 = cdPolicies d" and "cdPolicyFrameworks d1 = cdPolicyFrameworks d"
  shows "policiesForProject d1 P = policiesByFrameworks fws d"
proof -
  have mem: "(P, fw) \<in> set (cdProjectFrameworks d1) \<longleftrightarrow> fw \<in> set fws" for fw by (auto simp: assms(1))
  have "applies d1 P r \<longleftrightarrow> cpEnabled r \<and> (cpAppliesToAll r
      \<or> list_ex (\<lambda>(po, fw). po = cpID r \<and> fw \<in> set fws) (cdPolicyFrameworks d))" for r
    unfolding applies_iff mem by (auto simp: assms(3) list_ex_iff)
  then show ?thesis
    by (simp add: policiesForProject_def ResolvePoliciesForProject_def policiesByFrameworks_def ResolvePoliciesByFrameworks_def
        assms(2) cong: filter_cong)
qed

lemma recompute_needs_scm:
  assumes "recomputeProjectEffective e nx P d = Inr d'" and "policiesForProject d P \<noteq> []"
  shows "scmForProject P d \<noteq> None"
proof
  assume "scmForProject P d = None"
  with assms show False by (simp add: recomputeProjectEffective_def reconcileGovernance_def Let_def scmForProject_def)
qed

text \<open>
  C22: the preview of an assignment of frameworks is what the assignment stores: whenever the
  assignment is accepted the preview is shown, and for the repository's own pipelines it lists
  exactly the raw and effective definitions that are stored afterwards. The server-owned
  pipeline it lists only when the repository has no pipeline of its own.
\<close>
theorem preview_exact:
  assumes "compliance_init e d0" and "(compliance_step e)\<^sup>*\<^sup>* d0 d"
    and "project_by_slug slug d = Some P" and "SetProjectFrameworks e P ids d = Inr d'"
  shows "\<exists>views. PreviewEffectivePipelines e slug (Some ids) d = Inr views
    \<and> (\<lambda>v. (evName v, evRaw v, marshalPipelineDefinition (evEffective v))) ` {v \<in> set views. \<not> evSystemManaged v}
        = (\<lambda>r. (pwName r, pwRaw r, pwDefinition r)) ` {r \<in> set (cdPipelines d'). pwProject r = P \<and> \<not> pwSystemManaged r}
    \<and> ((\<exists>v. v \<in> set views \<and> evSystemManaged v) \<longleftrightarrow>
        policiesForProject d' P \<noteq> [] \<and> {r \<in> set (cdPipelines d'). pwProject r = P \<and> \<not> pwSystemManaged r} = {})"
proof -
  note inv = reachable_inv [OF assms(1,2)]
  obtain fws d1 where f: "parseUUIDs (aeParse e) ids = Some fws"
    "d1 = d\<lparr>cdProjectFrameworks := filter (\<lambda>(p, _). p \<noteq> P) (cdProjectFrameworks d) @ map (\<lambda>fw. (P, fw)) (remdups fws)\<rparr>"
    and rec: "recomputeProjectEffective (aeGit e) (aeDraw e) P d1 = Inr d'"
    using assms(4) by (auto simp: SetProjectFrameworks_def split: option.splits if_splits)
  let ?ps = "policiesByFrameworks fws d"
  let ?repo = "{r \<in> set (cdPipelines d). pwProject r = P \<and> \<not> pwSystemManaged r}"
  let ?out = "preview_repo ?ps (ListPipelinesForPreview P d)"
  have pol: "policiesForProject d1 P = ?ps" by (rule policies_after_assignment) (simp_all add: f(2))
  have ok: "pipelines_ok d1" "fresh_draw (aeDraw e)" "scm_ok d1"
    using inv by (simp_all add: compliance_inv_def admin_ok_def f(2) scm_ok_def pipelines_ok_def)
  from recompute_spec [OF rec ok]
  have r: "within P d1 d'" "{r \<in> set (cdPipelines d'). pwProject r = P \<and> \<not> pwSystemManaged r} = recomputed P d1 ` ?repo"
    by (simp_all add: f(2))
  have pol': "policiesForProject d' P = ?ps" using same_admin_policies [OF within_admin [OF r(1)]] pol by simp
  have views: "set ?out = (\<lambda>r. \<lparr>evName = pwName r, evSystemManaged = False, evRaw = pwRaw r, evEffective = ApplyPolicies (pwRaw r) ?ps\<rparr>) ` ?repo"
    by (auto simp: preview_repo_def ListPipelinesForPreview_def)
  have repo: "(\<lambda>v. (evName v, evRaw v, marshalPipelineDefinition (evEffective v))) ` set ?out
      = (\<lambda>r. (pwName r, pwRaw r, pwDefinition r)) ` recomputed P d1 ` ?repo"
    unfolding views image_image by (simp add: recomputed_def pol)
  have user: "\<forall>v\<in>set ?out. \<not> evSystemManaged v" unfolding views by auto
  have none: "?out = [] \<longleftrightarrow> recomputed P d1 ` ?repo = {}"
    unfolding set_empty [symmetric] views image_is_empty by (rule refl)
  show ?thesis
  proof (cases "?ps = []")
    case True
    then have "PreviewEffectivePipelines e slug (Some ids) d = Inr ?out"
      by (simp add: PreviewEffectivePipelines_def assms(3) previewWhatIf_def f(1) Let_def)
    moreover have "{v \<in> set ?out. \<not> evSystemManaged v} = set ?out" using user by blast
    ultimately show ?thesis using repo user True unfolding r(2) pol' by simp
  next
    case False
    then have "policiesForProject d1 P \<noteq> []" unfolding pol .
    from recompute_needs_scm [OF rec this] have "scmForProject P d \<noteq> None" by (simp add: f(2) scmForProject_def)
    then obtain url branch where scm: "scmForProject P d = Some (url, branch)" by auto
    let ?syn = "\<lparr>evName = PipelineName, evSystemManaged = True, evRaw = SyntheticPipeline (aeGit e) url branch,
      evEffective = ApplyPolicies (SyntheticPipeline (aeGit e) url branch) ?ps\<rparr>"
    have p: "PreviewEffectivePipelines e slug (Some ids) d = Inr (if ?out = [] then [?syn] else ?out)"
      by (simp add: PreviewEffectivePipelines_def assms(3) previewWhatIf_def f(1) Let_def False scm)
    show ?thesis
    proof (cases "?out = []")
      case True
      then have e: "recomputed P d1 ` ?repo = {}" using none by blast
      show ?thesis unfolding r(2) pol' e p using True False by simp
    next
      case ne: False
      have all: "{v \<in> set ?out. \<not> evSystemManaged v} = set ?out" using user by blast
      have shown: "PreviewEffectivePipelines e slug (Some ids) d = Inr ?out" using p ne by (simp only: if_False)
      have no: "(\<exists>v. v \<in> set ?out \<and> evSystemManaged v) = (?ps \<noteq> [] \<and> recomputed P d1 ` ?repo = {})"
        using user ne none by blast
      show ?thesis unfolding r(2) pol' by (rule exI [of _ ?out], unfold all, rule conjI [OF shown conjI [OF repo no]])
    qed
  qed
qed

section \<open>A governed project\<close>

text \<open>
  A scan is injected into every project, a repository is applied, and then a second policy
  overrides it.
\<close>

definition ex_scan :: Pipeline where
  "ex_scan = zero_pipeline\<lparr>plStages := [''_compliance_scan''],
     plJobs := [zero_job\<lparr>jName := ''_compliance_sast'', jStage := ''_compliance_scan''\<rparr>]\<rparr>"

definition ex_freeze :: Pipeline where
  "ex_freeze = zero_pipeline\<lparr>plStages := [''_compliance_only''],
     plJobs := [zero_job\<lparr>jName := ''_compliance_audit'', jStage := ''_compliance_only''\<rparr>]\<rparr>"

definition ex_admin :: admin_env where
  "ex_admin = \<lparr>aeGit = \<lparr>geHash = (\<lambda>s. s), geLower = (\<lambda>s. s)\<rparr>, aeDraw = (\<lambda>xs. Suc (fold max xs 0)),
     aeDecode = (\<lambda>s. if s = ''scan'' then Some ex_scan else if s = ''freeze'' then Some ex_freeze else None),
     aeParse = (\<lambda>s. Some (length s))\<rparr>"

definition ex_policy :: "string \<Rightarrow> string \<Rightarrow> int \<Rightarrow> PolicyInput" where
  "ex_policy src mode priority =
     \<lparr>piName = src, piEnabled = True, piMode = mode, piPriority = priority, piAppliesToAll = True,
      piPositionBefore = [], piPositionAfter = [], piFrameworkIDs = [], piConfigYAML = src\<rparr>"

definition ex_git :: Material where
  "ex_git = \<lparr>mtID = [], mtType = MaterialGit,
     mtFingerprint = GitFingerprint (aeGit ex_admin) ''https://host/app.git'' ''main'', mtAutoUpdate = True, mtImplicit = False,
     mtGit = Some (zero_git\<lparr>gmURL := ''https://host/app.git'', gmBranch := ''main'', gmPaths := [''docs'']\<rparr>),
     mtUpstream = None, mtCron = None\<rparr>"

definition ex_repo :: Pipeline where
  "ex_repo = zero_pipeline\<lparr>plName := ''build'', plMaterials := [ex_git], plStages := [''test''],
     plJobs := [zero_job\<lparr>jName := ''unit'', jStage := ''test''\<rparr>]\<rparr>"

definition ex_apply :: ApplyProjectInput where
  "ex_apply = \<lparr>aiSlug = ''app'', aiPipelines = [ex_repo],
     aiSCM = Some \<lparr>siProvider = ''github'', siURL = ''https://host/app.git'', siDefaultBranch = []\<rparr>\<rparr>"

definition ex_scanned :: ComplianceDB where
  "ex_scanned = projr (InsertCompliancePolicy ex_admin (ex_policy ''scan'' [] 5) empty_db)"

definition ex_governed :: ComplianceDB where
  "ex_governed = projr (ApplyProject ex_admin True ex_apply ex_scanned)"

definition ex_overridden :: ComplianceDB where
  "ex_overridden = projr (InsertCompliancePolicy ex_admin (ex_policy ''freeze'' ModeOverride 9) ex_governed)"

definition ex_withdrawn :: ComplianceDB where
  "ex_withdrawn = projr (DeleteCompliancePolicy ex_admin ''x'' ex_overridden)"

lemma fold_max_ge: "x \<in> set xs \<Longrightarrow> (x::nat) \<le> fold max xs 0"
  using Max_ge [of "set (0 # xs)" x] by (simp only: Max.set_eq_fold) simp

lemma ex_admin_ok: "compliance_init ex_admin empty_db"
proof -
  have "Suc (fold max xs 0) \<notin> set xs" for xs :: "nat list" using fold_max_ge [of "Suc (fold max xs 0)" xs] by auto
  then show ?thesis
    by (auto simp: compliance_init_def admin_ok_def fresh_draw_def ex_admin_def ex_scan_def ex_freeze_def split: if_splits)
qed

lemma ex_results:
  "\<not> isl (InsertCompliancePolicy ex_admin (ex_policy ''scan'' [] 5) empty_db)"
  "\<not> isl (ApplyProject ex_admin True ex_apply ex_scanned)"
  "\<not> isl (InsertCompliancePolicy ex_admin (ex_policy ''freeze'' ModeOverride 9) ex_governed)"
  "\<not> isl (DeleteCompliancePolicy ex_admin ''x'' ex_overridden)"
  by code_simp+

lemma ex_overridden_reached:
  "(compliance_step ex_admin)\<^sup>*\<^sup>* empty_db ex_governed" "(compliance_step ex_admin)\<^sup>*\<^sup>* empty_db ex_overridden"
  "DeleteCompliancePolicy ex_admin ''x'' ex_overridden = Inr ex_withdrawn"
proof -
  have inr: "x = Inr (projr x)" if "\<not> isl x" for x :: "compliance_error + ComplianceDB" using that by (cases x) auto
  have s: "compliance_step ex_admin empty_db ex_scanned" "compliance_step ex_admin ex_scanned ex_governed"
    "compliance_step ex_admin ex_governed ex_overridden"
    unfolding ex_scanned_def ex_governed_def ex_overridden_def
    by (rule step_insert_policy [OF ex_results(1) [THEN inr]], rule step_apply [OF ex_results(2) [unfolded ex_scanned_def, THEN inr]],
      rule step_insert_policy [OF ex_results(3) [unfolded ex_governed_def ex_scanned_def, THEN inr]])
  then show "(compliance_step ex_admin)\<^sup>*\<^sup>* empty_db ex_governed" by (meson r_into_rtranclp rtranclp_trans)
  with s(3) show "(compliance_step ex_admin)\<^sup>*\<^sup>* empty_db ex_overridden" by (meson rtranclp.rtrancl_into_rtrancl)
  show "DeleteCompliancePolicy ex_admin ''x'' ex_overridden = Inr ex_withdrawn"
    using ex_results(4) [THEN inr] by (simp add: ex_withdrawn_def)
qed

definition ex_gov_row :: PipelineRow where "ex_gov_row = hd (cdPipelines ex_governed)"
definition ex_over_row :: PipelineRow where "ex_over_row = hd (cdPipelines ex_overridden)"
definition ex_last_row :: PipelineRow where "ex_last_row = hd (cdPipelines ex_withdrawn)"
definition ex_pol :: Policy where "ex_pol = hd (policiesForProject ex_governed 1)"

lemma ex_gov_rows:
  "length (cdPipelines ex_governed) = 1" "pwProject ex_gov_row = 1" "project_ids ex_governed = {1}"
  "length (cdPipelines ex_overridden) = 1" "pwProject ex_over_row = 1" "project_ids ex_overridden = {1}"
  "cdPipelines ex_withdrawn \<noteq> []" "pwProject ex_last_row = 1" "project_ids ex_withdrawn = {1}"
  by code_simp+

lemma ex_policies:
  "map poName (policiesForProject ex_governed 1) = [''scan'']"
  "map poName (policiesForProject ex_overridden 1) = [''scan'', ''freeze'']"
  "map poName (policiesForProject ex_withdrawn 1) = [''freeze'']"
  "map overriding (policiesForProject ex_governed 1) = [False]"
  by code_simp+

lemma ex_mem:
  "ex_gov_row \<in> set (cdPipelines ex_governed)" "ex_over_row \<in> set (cdPipelines ex_overridden)" "ex_last_row \<in> set (cdPipelines ex_withdrawn)"
  "pwProject ex_gov_row \<in> project_ids ex_governed" "pwProject ex_over_row \<in> project_ids ex_overridden"
  "pwProject ex_last_row \<in> project_ids ex_withdrawn"
proof -
  have ne: "cdPipelines ex_governed \<noteq> []" "cdPipelines ex_overridden \<noteq> []" using ex_gov_rows(1,4) by auto
  then show "ex_gov_row \<in> set (cdPipelines ex_governed)" "ex_over_row \<in> set (cdPipelines ex_overridden)"
    "ex_last_row \<in> set (cdPipelines ex_withdrawn)"
    using ex_gov_rows(7) by (simp_all add: ex_gov_row_def ex_over_row_def ex_last_row_def)
  show "pwProject ex_gov_row \<in> project_ids ex_governed" "pwProject ex_over_row \<in> project_ids ex_overridden"
    "pwProject ex_last_row \<in> project_ids ex_withdrawn"
    by (simp_all add: ex_gov_rows)
qed

lemma ex_pols:
  "policiesForProject ex_governed 1 = [ex_pol]" "\<not> overriding ex_pol"
  "\<exists>q. policiesForProject ex_overridden 1 = [ex_pol, q] \<and> poMode q = ModeOverride \<and> policy_key ex_pol < policy_key q"
proof -
  obtain x where x: "policiesForProject ex_governed 1 = [x]" using ex_policies(1) by auto
  then show "policiesForProject ex_governed 1 = [ex_pol]" "\<not> overriding ex_pol" using ex_policies(4) by (simp_all add: ex_pol_def)
  obtain y z where yz: "policiesForProject ex_overridden 1 = [y, z]" using ex_policies(2) by auto
  have "take 1 (policiesForProject ex_overridden 1) = policiesForProject ex_governed 1"
    "map poMode (policiesForProject ex_overridden 1) = [ModeInject, ModeOverride]"
    "map poPriority (policiesForProject ex_overridden 1) = [5, 9]" by code_simp+
  with yz x show "\<exists>q. policiesForProject ex_overridden 1 = [ex_pol, q] \<and> poMode q = ModeOverride \<and> policy_key ex_pol < policy_key q"
    by (simp add: ex_pol_def policy_key_def)
qed

lemma ex_pol_jobs: "map jName (plJobs (poPipeline ex_pol)) = [''_compliance_sast'']" "distinct (plStages (poPipeline ex_pol))"
  by code_simp+

lemma ex_scan_job: "hd (plJobs (poPipeline ex_pol)) \<in> set (plJobs (poPipeline ex_pol))"
  "jName (hd (plJobs (poPipeline ex_pol))) = ''_compliance_sast''"
  using ex_pol_jobs(1) by (cases "plJobs (poPipeline ex_pol)"; simp)+

theorem effective_definitions_current_witness:
  "pwDefinition ex_gov_row = marshalPipelineDefinition (ApplyPolicies (pwRaw ex_gov_row) [ex_pol])"
  using effective_definitions_current [OF ex_admin_ok ex_overridden_reached(1) ex_mem(1,4)] by (simp add: ex_gov_rows(2) ex_pols(1) del: One_nat_def)

theorem mandatory_jobs_enforced_witness:
  "findJob (pwDefinition ex_gov_row) ''_compliance_sast'' = Some (hd (plJobs (poPipeline ex_pol)))"
proof -
  have "in_force (policiesForProject ex_governed (pwProject ex_gov_row)) ex_pol" by (simp add: in_force_def ex_gov_rows(2) ex_pols(1,2) del: One_nat_def)
  from mandatory_jobs_enforced [OF ex_admin_ok ex_overridden_reached(1) ex_mem(1,4) this] ex_scan_job
  show ?thesis by metis
qed

theorem governed_push_path_witness:
  "\<exists>m. m \<in> set (cdMaterials ex_governed) \<and> ''push'' \<in> set (gmEvents (decode_git (mwConfig m)))
     \<and> gmPaths (decode_git (mwConfig m)) = []"
  using governed_push_path [OF ex_admin_ok ex_overridden_reached(1), of 1] by (auto simp: ex_gov_rows(3) ex_pols(1) simp del: One_nat_def)

theorem repo_part_preserved_witness:
  "filter (\<lambda>j. \<not> reserved (jName j)) (plJobs (pwDefinition ex_gov_row)) = plJobs (pwRaw ex_gov_row)"
  using repo_part_preserved [OF ex_admin_ok ex_overridden_reached(1) ex_mem(1,4)] ex_pols(2)
  by (simp add: ex_gov_rows(2) ex_pols(1) overriding_def del: One_nat_def)

theorem merged_pipeline_accepted_witness: "accepted (pwDefinition ex_gov_row)"
proof -
  have "accepted (pwRaw ex_gov_row)" "distinct (plStages (pwRaw ex_gov_row))" by code_simp+
  with merged_pipeline_accepted [OF ex_admin_ok ex_overridden_reached(1) ex_mem(1,4)] ex_pol_jobs(2) show ?thesis
    by (simp add: ex_gov_rows(2) ex_pols(1) del: One_nat_def)
qed

theorem override_drops_policies_witness: "findJob (pwDefinition ex_over_row) ''_compliance_sast'' = None"
proof -
  obtain q where q: "policiesForProject ex_overridden 1 = [ex_pol, q]" "poMode q = ModeOverride" "policy_key ex_pol < policy_key q"
    using ex_pols(3) by blast
  from override_drops_policies [OF ex_admin_ok ex_overridden_reached(2) ex_mem(2,5) _ _ q(2,3) ex_scan_job(1)] show ?thesis
    by (simp add: ex_gov_rows(5) q(1) ex_scan_job(2) del: One_nat_def)
qed

theorem deleted_policy_withdrawn_witness: "findJob (pwDefinition ex_last_row) ''_compliance_sast'' = None"
proof -
  let ?p = "hd (cdPolicies ex_overridden)"
  have p: "cdPolicies ex_overridden \<noteq> []" "cpID ?p = 1" "aeParse ex_admin ''x'' = Some 1"
    "map jName (plJobs (cpConfig ?p)) = [''_compliance_sast'']"
    by code_simp+
  have "?p \<in> set (cdPolicies ex_overridden)" using p(1) by simp
  moreover obtain j where "j \<in> set (plJobs (cpConfig ?p))" "jName j = ''_compliance_sast''" using p(4) by auto
  ultimately show ?thesis
    using deleted_policy_withdrawn [OF ex_admin_ok ex_overridden_reached(2) p(3) _ p(2) ex_overridden_reached(3) ex_mem(3,6)] by metis
qed

definition ex_reassigned :: ComplianceDB where
  "ex_reassigned = projr (SetProjectFrameworks ex_admin 1 [] ex_governed)"

theorem preview_exact_witness:
  "\<exists>views. PreviewEffectivePipelines ex_admin ''app'' (Some []) ex_governed = Inr views
     \<and> (\<lambda>v. (evName v, evRaw v, marshalPipelineDefinition (evEffective v))) ` {v \<in> set views. \<not> evSystemManaged v}
         = (\<lambda>r. (pwName r, pwRaw r, pwDefinition r)) ` {r \<in> set (cdPipelines ex_reassigned). pwProject r = 1 \<and> \<not> pwSystemManaged r}"
proof -
  have "\<not> isl (SetProjectFrameworks ex_admin 1 [] ex_governed)" "project_by_slug ''app'' ex_governed = Some 1" by code_simp+
  moreover from this(1) have "SetProjectFrameworks ex_admin 1 [] ex_governed = Inr ex_reassigned"
    by (cases "SetProjectFrameworks ex_admin 1 [] ex_governed") (simp_all add: ex_reassigned_def)
  ultimately show ?thesis
    using preview_exact [OF ex_admin_ok ex_overridden_reached(1), of "''app''" 1 "[]" ex_reassigned] by blast
qed

text \<open>
  A pipeline for pull requests only does not fire on push, so that the server adds its own;
  the preview of the same assignment does not show it.
\<close>

definition ex_pr_repo :: Pipeline where
  "ex_pr_repo = ex_repo\<lparr>plMaterials := map (\<lambda>m. m\<lparr>mtGit := map_option (\<lambda>g. g\<lparr>gmEvents := [''pull_request'']\<rparr>) (mtGit m)\<rparr>)
     (plMaterials ex_repo)\<rparr>"

definition ex_pr_governed :: ComplianceDB where
  "ex_pr_governed = projr (ApplyProject ex_admin True (ex_apply\<lparr>aiPipelines := [ex_pr_repo]\<rparr>) ex_scanned)"

lemma ex_preview_omits:
  "map pwName (cdPipelines ex_pr_governed) = [''build'', ''_compliance'']"
  "map pwName (cdPipelines (projr (SetProjectFrameworks ex_admin 1 [] ex_pr_governed))) = [''build'', ''_compliance'']"
  "map evName (projr (PreviewEffectivePipelines ex_admin ''app'' (Some []) ex_pr_governed)) = [''build'']"
  by code_simp+

end
