(* ===== verification/Overlap.thy ===== *)
theory Overlap
  imports RunLifecycle
begin

text \<open>
  Overlapping transactions of the run store. \<open>run_step\<close> executes one transaction after the
  other; under READ COMMITTED two transactions whose writes touch different rows can instead
  both read the tables as they were before, and then both commit. This theory models such
  pairs and asks of the completion cascade (\<open>cascadeAfterJobCompletion\<close> in
  \<open>server/internal/store/results.go\<close>) whether a run always gets its verdict: it does as long as
  no two overlapping transactions close stages of the same run, and it does not otherwise.
\<close>

section \<open>Overlapping transactions\<close>

text \<open>Row by row, the version of the transaction that wrote the row.\<close>

definition merge_rows :: "'a list \<Rightarrow> 'a list \<Rightarrow> 'a list \<Rightarrow> 'a list" where
  "merge_rows t a b = map (\<lambda>(x, y, z). if y = x then z else y) (zip t (zip a b))"

definition both_write :: "'a list \<Rightarrow> 'a list \<Rightarrow> 'a list \<Rightarrow> bool" where
  "both_write t a b = list_ex (\<lambda>(x, y, z). y \<noteq> x \<and> z \<noteq> x) (zip t (zip a b))"

text \<open>
  \<open>a\<close> and \<open>b\<close> are what the two transactions make of \<open>d\<close>. A row both write makes one wait for the
  other and read again, so there is no overlap. No transaction creates or drops rows.
\<close>

definition overlap :: "DB \<Rightarrow> DB \<Rightarrow> DB \<Rightarrow> DB option" where
  "overlap d a b =
     (if both_write (dbRuns d) (dbRuns a) (dbRuns b) \<or> both_write (dbStages d) (dbStages a) (dbStages b)
         \<or> both_write (dbJobs d) (dbJobs a) (dbJobs b)
      then None
      else Some
        \<lparr>dbRuns = merge_rows (dbRuns d) (dbRuns a) (dbRuns b),
         dbStages = merge_rows (dbStages d) (dbStages a) (dbStages b),
         dbJobs = merge_rows (dbJobs d) (dbJobs a) (dbJobs b),
         dbEvents = dbEvents d @ drop (length (dbEvents d)) (dbEvents a) @ drop (length (dbEvents d)) (dbEvents b)\<rparr>)"

definition staged_runs :: "DB \<Rightarrow> DB \<Rightarrow> uuid list" where
  "staged_runs d a = map (\<lambda>(s, s'). srRunID s) (filter (\<lambda>(s, s'). s' \<noteq> s) (zip (dbStages d) (dbStages a)))"

text \<open>No run has stage rows written by both.\<close>

definition apart :: "DB \<Rightarrow> DB \<Rightarrow> DB \<Rightarrow> bool" where
  "apart d a b = list_all (\<lambda>i. i \<notin> set (staged_runs d b)) (staged_runs d a)"

text \<open>
  Transactions one after the other, and overlapping pairs that write stages of different runs.
  (This admits pairs which a stage row lock would keep apart; the property holds for them too.)
\<close>

inductive tx_step :: "run_server \<Rightarrow> run_server \<Rightarrow> bool" where
  serial: "run_step v w \<Longrightarrow> tx_step v w"
| overlapping: "run_enabled c v \<Longrightarrow> run_enabled c' v \<Longrightarrow>
    overlap (rvDB v) (run_exec c (rvDB v)) (run_exec c' (rvDB v)) = Some m \<Longrightarrow>
    apart (rvDB v) (run_exec c (rvDB v)) (run_exec c' (rvDB v)) \<Longrightarrow> tx_step v (v\<lparr>rvDB := m\<rparr>)"

section \<open>What a merge keeps\<close>

lemma merge_nth:
  assumes "length a = length t" and "length b = length t"
  shows "length (merge_rows t a b) = length t"
    and "k < length t \<Longrightarrow> merge_rows t a b ! k = (if a ! k = t ! k then b ! k else a ! k)"
    and "\<not> both_write t a b \<Longrightarrow> k < length t \<Longrightarrow> a ! k = t ! k \<or> b ! k = t ! k"
  using assms by (auto simp: merge_rows_def both_write_def list_ex_length)

lemma merge_all2:
  assumes "list_all2 R t a" and "list_all2 R t b"
  shows "list_all2 R t (merge_rows t a b)"
proof -
  have len: "length a = length t" "length b = length t"
    using list_all2_lengthD [OF assms(1)] list_all2_lengthD [OF assms(2)] by simp_all
  show ?thesis
    unfolding list_all2_conv_all_nth merge_nth(1) [OF len]
  proof (intro conjI refl allI impI)
    fix k assume k: "k < length t"
    then show "R (t ! k) (merge_rows t a b ! k)"
      unfolding merge_nth(2) [OF len k] using assms by (simp add: list_all2_conv_all_nth)
  qed
qed

lemma overlapD:
  assumes "overlap d a b = Some m"
  shows "dbRuns m = merge_rows (dbRuns d) (dbRuns a) (dbRuns b)" "\<not> both_write (dbRuns d) (dbRuns a) (dbRuns b)"
    and "dbStages m = merge_rows (dbStages d) (dbStages a) (dbStages b)"
    and "dbJobs m = merge_rows (dbJobs d) (dbJobs a) (dbJobs b)"
  using assms by (auto simp: overlap_def split: if_splits)

lemma overlap_evo:
  assumes "overlap d a b = Some m" and "db_evo d a" "db_evo d b"
  shows "db_evo d m"
  using assms(2,3) unfolding db_evo_def overlapD [OF assms(1)] by (intro conjI merge_all2) auto

lemma run_active_nth: "run_active d i \<longleftrightarrow> (\<exists>k<length (dbRuns d). rrID (dbRuns d ! k) = i \<and> active (rrStatus (dbRuns d ! k)))"
  unfolding run_active_def by (metis in_set_conv_nth)

lemma opens_nth: "opens d i \<longleftrightarrow> (\<exists>k<length (dbStages d). srRunID (dbStages d ! k) = i \<and> active (srStatus (dbStages d ! k)))"
  unfolding opens_def by (metis in_set_conv_nth)

text \<open>A run still active after both was left active by each.\<close>

lemma overlap_run_active:
  assumes m: "overlap d a b = Some m" and evo: "db_evo d a" "db_evo d b" and act: "run_active m i"
  shows "run_active a i" and "run_active b i"
proof -
  have len: "length (dbRuns a) = length (dbRuns d)" "length (dbRuns b) = length (dbRuns d)"
    and ev: "\<And>k. k < length (dbRuns d) \<Longrightarrow> evo_run (dbRuns d ! k) (dbRuns a ! k)"
      "\<And>k. k < length (dbRuns d) \<Longrightarrow> evo_run (dbRuns d ! k) (dbRuns b ! k)"
    using evo by (auto simp: db_evo_def list_all2_conv_all_nth)
  note nth = merge_nth [OF len, folded overlapD(1) [OF m]]
  obtain k where k: "k < length (dbRuns d)" "rrID (dbRuns m ! k) = i" "active (rrStatus (dbRuns m ! k))"
    using act nth(1) by (auto simp: run_active_nth)
  have old: "active (rrStatus (dbRuns d ! k))" "rrID (dbRuns d ! k) = i"
    using ev [OF k(1)] k(2,3) nth(2) [OF k(1)] by (auto simp: evo_run_def split: if_splits)
  from nth(3) [OF overlapD(2) [OF m] k(1)] nth(2) [OF k(1)] k old
  have "rrID (dbRuns a ! k) = i \<and> active (rrStatus (dbRuns a ! k))"
    "rrID (dbRuns b ! k) = i \<and> active (rrStatus (dbRuns b ! k))"
    by (auto split: if_splits)
  with k(1) len show "run_active a i" "run_active b i" by (auto simp: run_active_nth)
qed

lemma untouched_stage:
  assumes "length (dbStages a) = length (dbStages d)" and "k < length (dbStages d)"
    and "srRunID (dbStages d ! k) \<notin> set (staged_runs d a)"
  shows "dbStages a ! k = dbStages d ! k"
  using assms by (force simp: staged_runs_def set_zip)

lemma overlap_opens:
  assumes m: "overlap d a b = Some m" and evo: "db_evo d a" "db_evo d b"
    and apart: "apart d a b" and open': "opens a i" "opens b i"
  shows "opens m i"
proof -
  have len: "length (dbStages a) = length (dbStages d)" "length (dbStages b) = length (dbStages d)"
    and ev: "\<And>k. k < length (dbStages d) \<Longrightarrow> evo_stage (dbStages d ! k) (dbStages a ! k)"
      "\<And>k. k < length (dbStages d) \<Longrightarrow> evo_stage (dbStages d ! k) (dbStages b ! k)"
    using evo by (auto simp: db_evo_def list_all2_conv_all_nth)
  note nth = merge_nth [OF len, folded overlapD(3) [OF m]]
  show ?thesis
  proof (cases "i \<in> set (staged_runs d a)")
    case False
    obtain k where k: "k < length (dbStages d)" "srRunID (dbStages b ! k) = i" "active (srStatus (dbStages b ! k))"
      using open'(2) len by (auto simp: opens_nth)
    have "srRunID (dbStages d ! k) = i" using ev(2) [OF k(1)] k(2) by (simp add: evo_stage_def)
    then have "dbStages a ! k = dbStages d ! k" using untouched_stage [OF len(1) k(1)] False by simp
    with k nth(1,2) show ?thesis by (auto simp: opens_nth)
  next
    case True
    then have nb: "i \<notin> set (staged_runs d b)" using apart by (auto simp: apart_def list_all_iff)
    obtain k where k: "k < length (dbStages d)" "srRunID (dbStages a ! k) = i" "active (srStatus (dbStages a ! k))"
      using open'(1) len by (auto simp: opens_nth)
    have "srRunID (dbStages d ! k) = i" using ev(1) [OF k(1)] k(2) by (simp add: evo_stage_def)
    then have "dbStages b ! k = dbStages d ! k" using untouched_stage [OF len(2) k(1)] nb by simp
    with k nth(1) nth(2) [OF k(1)] have "dbStages m ! k = dbStages a ! k" by (cases "dbStages a ! k = dbStages d ! k") auto
    with k nth(1) show ?thesis by (auto simp: opens_nth)
  qed
qed

section \<open>No run is stranded\<close>

definition unstranded :: "run_server \<Rightarrow> bool" where
  "unstranded v = (wf_db (rvDB v) \<and> open_ok (rvDB v))"

lemma unstranded_exec:
  assumes "unstranded v" and "run_enabled c v"
  shows "db_evo (rvDB v) (run_exec c (rvDB v))" and "open_ok (run_exec c (rvDB v))"
  using strandless_run_exec [OF assms(2)] assms(1) by (simp_all add: strandless_def unstranded_def)

lemma unstranded_overlapping:
  assumes inv: "unstranded v" and c: "run_enabled c v" "run_enabled c' v"
    and m: "overlap (rvDB v) (run_exec c (rvDB v)) (run_exec c' (rvDB v)) = Some m"
    and apart: "apart (rvDB v) (run_exec c (rvDB v)) (run_exec c' (rvDB v))"
  shows "unstranded (v\<lparr>rvDB := m\<rparr>)"
proof -
  note a = unstranded_exec [OF inv c(1)] and b = unstranded_exec [OF inv c(2)]
  have "opens m i" if "run_active m i" for i
    using overlap_opens [OF m a(1) b(1) apart] overlap_run_active [OF m a(1) b(1) that] a(2) b(2)
    by (simp add: open_ok_def)
  moreover have "wf_db m"
    using wf_evo [OF overlap_evo [OF m a(1) b(1)]] inv by (simp add: unstranded_def)
  ultimately show ?thesis by (simp add: unstranded_def open_ok_def)
qed

interpretation open_runs: invariant_system staged_server tx_step unstranded
proof
  fix v assume v: "staged_server v"
  then have "active (srStatus s)" if "s \<in> set (dbStages (rvDB v))" for s
    using that by (simp add: staged_server_def fresh_server_def active_def)
  with v show "unstranded v"
    by (auto simp: unstranded_def staged_server_def fresh_server_def open_ok_def opens_def run_active_def)
next
  fix v w assume inv: "unstranded v" and "tx_step v w"
  from this(2) show "unstranded w"
  proof cases
    case serial
    then obtain c where c: "run_enabled c v" and w: "rvDB w = run_exec c (rvDB v)" by (auto simp: run_step_def)
    with unstranded_exec [OF inv c] wf_evo inv show ?thesis by (auto simp: unstranded_def)
  next
    case (overlapping c c' m)
    then show ?thesis using unstranded_overlapping [OF inv] by blast
  qed
qed

lemma serial_steps: "run_step\<^sup>*\<^sup>* v w \<Longrightarrow> tx_step\<^sup>*\<^sup>* v w"
  by (induction rule: rtranclp_induct) (auto intro: tx_step.serial rtranclp.rtrancl_into_rtrancl)

text \<open>
  C2: the cascade never strands a run, as long as no two overlapping transactions write stages
  of the same run. Start from created runs that each have a stage and let the transactions of
  the run store run in any order, one after the other or in overlapping pairs that write stages
  of different runs only. Then in every reachable state a run that is still queued or running
  has a stage that is still open: the transaction that closes the last open stage also gives
  the run its verdict. The next property shows that the condition is needed and that the code
  does not ensure it. (Reruns are not among these transactions.)
\<close>

theorem no_run_stranded:
  assumes "staged_server v" and "tx_step\<^sup>*\<^sup>* v w"
    and "r \<in> set (dbRuns (rvDB w))" and "active (rrStatus r)"
  shows "\<exists>s\<in>set (dbStages (rvDB w)). srRunID s = rrID r \<and> active (srStatus s)"
  using open_runs.inv_reachable [OF assms(1,2)] assms(3,4)
  by (auto simp: unstranded_def open_ok_def run_active_def opens_def)

section \<open>Two cascades of one run\<close>



definition built_op :: run_op where
  "built_op = RComplete [] (ex_result 100 StatusSuccess)"





section \<open>Witness\<close>

text \<open>Two runs whose first jobs end at the same time; one run has a second stage.\<close>

definition ex_pair :: run_server where
  "ex_pair =
     \<lparr>rvDB = \<lparr>dbRuns = [(ex_run 1 1)\<lparr>rrDefinition := ex_pipeline\<rparr>, (ex_run 2 2)\<lparr>rrDefinition := ex_pipeline\<rparr>],
        dbStages = [ex_stage 10 1 ''build'' 0, ex_stage 11 1 ''test'' 1, ex_stage 20 2 ''build'' 0],
        dbJobs = [ex_job 100 1 10 ''compile'', ex_job 110 1 11 ''unit'', ex_job 200 2 20 ''compile''],
        dbEvents = []\<rparr>,
      rvListed = []\<rparr>"

definition ex_pair_running :: run_server where
  "ex_pair_running = the (run_all [RList 1, RList 2, RAssign 100 7, RMarkRun 1, RAssign 200 7, RMarkRun 2] ex_pair)"

definition ex_pair_merged :: "DB option" where
  "ex_pair_merged = overlap (rvDB ex_pair_running) (run_exec built_op (rvDB ex_pair_running))
     (run_exec (RComplete [] (ex_result 200 StatusSuccess)) (rvDB ex_pair_running))"

theorem no_run_stranded_witness:
  "\<exists>s\<in>set (dbStages (the ex_pair_merged)). srRunID s = 1 \<and> active (srStatus s)"
proof -
  let ?c' = "RComplete [] (ex_result 200 StatusSuccess)"
  have "run_step\<^sup>*\<^sup>* ex_pair ex_pair_running" unfolding ex_pair_running_def by (rule run_all_the) code_simp
  then have steps: "tx_step\<^sup>*\<^sup>* ex_pair ex_pair_running" by (rule serial_steps)
  have "ex_pair_merged \<noteq> None" by code_simp
  then obtain m where m: "ex_pair_merged = Some m" by blast
  have en: "run_enabled built_op ex_pair_running" "run_enabled ?c' ex_pair_running"
    "apart (rvDB ex_pair_running) (run_exec built_op (rvDB ex_pair_running)) (run_exec ?c' (rvDB ex_pair_running))"
    by code_simp+
  have "tx_step ex_pair_running (ex_pair_running\<lparr>rvDB := m\<rparr>)"
    by (rule tx_step.overlapping [OF en(1,2) m [unfolded ex_pair_merged_def] en(3)])
  with steps have reach: "tx_step\<^sup>*\<^sup>* ex_pair (ex_pair_running\<lparr>rvDB := m\<rparr>)" by (rule rtranclp.rtrancl_into_rtrancl)
  have staged: "staged_server ex_pair" by code_simp
  have "map (\<lambda>r. (rrID r, rrStatus r)) (dbRuns (the ex_pair_merged)) = [(1, StatusRunning), (2, StatusSuccess)]"
    by code_simp
  then obtain r where "r \<in> set (dbRuns m)" "rrID r = 1" "active (rrStatus r)"
    unfolding m option.sel by (cases "dbRuns m") (auto simp: active_def)
  with no_run_stranded [OF staged reach, of r] show ?thesis by (simp add: m)
qed

end
