(* ===== verification/Spec2Isabelle.thy ===== *)
theory Spec2Isabelle
  imports GateGraph Sessions DeployDecide RunSupersede NeedsGate Approvals LogBatcher RunLocal DeployWatcher Reaper ArtifactRules
    ComplianceRules Overlap
begin

text \<open>
  A verification development for gocdnext, a continuous-delivery server written in Go.

  \<^bold>\<open>The program.\<close> The server keeps runs of pipelines in PostgreSQL. A run has stages, a stage
  has jobs, and a job is either executed by an agent, decided by people (an approval gate), or
  driven by the server itself (a native deploy). The scheduler (\<open>src/server/internal/scheduler\<close>)
  looks at queued runs, asks the needs gate whether a job may start, and assigns it to a session
  of an agent; agents hold a stream to \<open>src/server/internal/grpcsrv\<close>, over which jobs go out and
  log lines, artifacts and results come back; every result goes through a store transaction
  (\<open>src/server/internal/store\<close>) that completes the job and cascades to its stage and run. The
  reaper takes jobs back from agents that fell silent, deploy watchers follow rollouts, and a
  sweeper enforces retention. The database is the one shared state: the components meet in its
  rows, and several replicas of a component may run at once.

  \<^bold>\<open>How it is modelled.\<close> A table is a list of rows (a record per table, the fields that the
  modelled statements read or write), a statement is a function on it, and a transaction that
  locks the rows it reads is one step; its branches, errors included, follow the Go function
  and the SQL it runs, from \<open>src/server/internal/db/queries\<close>. Work that is not done under one
  lock is cut into the steps that the locks allow: the interleavings are the traces of an
  \<open>inductive\<close> step relation or of a disjunction of steps, and what holds in all of them is an
  invariant, established through the locales \<open>invariant_system\<close> and \<open>absorbing_system\<close> of
  \<open>Prelude\<close>. Clocks, random draws, group membership, storage backends and clusters are
  arguments of the definitions. Strings are byte strings; a session generation and a hash are
  64-bit words, and other integers are unbounded where the code only compares or counts.

  \<^bold>\<open>Theories and source.\<close>
  \<^item> \<open>Prelude\<close>, \<open>GoStrings\<close>, \<open>GoChan\<close>: the parts of the Go standard library that the source uses
    (string functions, buffered channels), tables, the two locales on transition systems, and
    the locale of a bounded queue with its interpretation on channels.
  \<^item> \<open>Domain\<close>: the types of \<open>pkg/domain/pipeline.go\<close> and the policies beside them.
  \<^item> \<open>NeedsGraph\<close>: \<open>validateNeeds\<close> and \<open>validateNoCycles\<close> of \<open>pkg/parser/parse_validate.go\<close>; the
    depth-first search accepts exactly the acyclic graphs and returns a genuine cycle.
  \<^item> \<open>GateGraph\<close>: \<open>pkg/domain/gategraph.go\<close>, which approval gates govern which jobs; the locale
    \<open>strict_order_system\<close> with its dual gives the closest-gate characterizations, and an accepted
    pipeline cannot deadlock.
  \<^item> \<open>RunStore\<close>: the tables of runs, stages and jobs with the transactions of \<open>store/dispatch.go\<close>,
    \<open>results.go\<close>, \<open>runs_actions.go\<close>, \<open>supersede.go\<close> and \<open>sweeper.go\<close>, and \<open>run_step\<close>, a server
    that executes them in any order. \<open>JobMoves\<close>: how a transaction moves single rows (locale
    \<open>job_relation\<close>) and the abstract life cycle of a job. \<open>RunLifecycle\<close>: the invariants of
    whole histories (well-formed tables, terminal outcomes, an honest green run). \<open>Overlap\<close>: two
    transactions that read the tables before the other commits; cascades of different runs
    never strand a run, cascades of one run can. \<open>Rerun\<close>: \<open>RerunJob\<close>, which opens finished rows
    again; what it leaves of the finality of outcomes, and the refinement of the life cycle by
    every transaction with reruns. \<open>RunSupersede\<close>: which runs latest-wins cancels.
  \<^item> \<open>Approvals\<close>: \<open>store/approvals.go\<close>, \<open>approver_authz.go\<close>, \<open>approvals_freeze.go\<close> and
    \<open>gatepass.go\<close>: authorization, votes, quorum, freezes and gate-pass markers, under decisions,
    transactions and reruns in any order.
  \<^item> \<open>NeedsGate\<close>: \<open>scheduler/needs.go\<close>: the verdict on a queued job, its stability under the
    transactions of \<open>RunStore\<close>, matrix keys and the grouping of outputs.
  \<^item> \<open>Sessions\<close>: \<open>grpcsrv/sessions.go\<close>: sessions on a heap (they are shared by pointer), every
    critical section a step; at most one live session per agent, no panic on a closed queue.
  \<^item> \<open>LogBatcher\<close>: \<open>grpcsrv/log_batcher.go\<close>: the receiving loop and the flusher as concurrent
    steps over a channel; accounting, bounds, ordering of barriers, and the end of the flusher.
  \<^item> \<open>Reaper\<close>: \<open>scheduler/reaper.go\<close>, \<open>store/sweeper.go\<close> and \<open>store/disruption.go\<close>: cancels of
    unreachable agents, lost jobs, fences and wake-ups, and disruption reports.
  \<^item> \<open>DeployDecide\<close>: \<open>internal/deploy/decide.go\<close>, \<open>convergence.go\<close>, \<open>provider.go\<close>, \<open>rollout.go\<close>: the
    decision of a watcher on an observation. \<open>DeployWatches\<close>: the rows of a deploy in flight, with
    lease, rollout gate and finalization. \<open>DeployWatcher\<close>: \<open>deploysvc/watcher.go\<close> and
    \<open>watcher_gate.go\<close> as any number of replicas that claim, observe, act and commit in steps.
  \<^item> \<open>Artifacts\<close>: \<open>store/artifacts.go\<close>, \<open>queries/artifacts.sql\<close>, the rpc \<open>RequestArtifactUpload\<close>,
    \<open>confirmArtifacts\<close> of \<open>grpcsrv/connect.go\<close> and the artifact layers of \<open>retention/sweeper.go\<close>.
    \<open>ArtifactLife\<close>: agents, handlers, retries and sweepers interleaved; what can be downloaded
    is stored as recorded. \<open>ArtifactRules\<close>: tickets, confirmation, quotas and keep-last against
    declarative readings.
  \<^item> \<open>Compliance\<close>: \<open>pkg/compliance\<close> (the merge of mandatory policies into a pipeline, the
    server-owned pipeline) and the transactions of \<open>store/compliance.go\<close>, \<open>compliance_enforce.go\<close>,
    \<open>compliance_synth.go\<close>, \<open>compliance_preview.go\<close>, \<open>projects.go\<close> and \<open>projects_delete.go\<close>.
    \<open>ComplianceMerge\<close>: what one merge guarantees. \<open>ComplianceReconcile\<close>: what a recomputation or an
    apply does to its project and leaves of the others. \<open>ComplianceLife\<close>: administrators and
    repositories in any order, and the invariant. \<open>ComplianceRules\<close>: mandatory jobs are enforced,
    pushes cannot dodge them, merges stay dispatchable, previews are exact.
  \<^item> \<open>RunLocal\<close>: \<open>src/cli/internal/runlocal/plan.go\<close>, the plan of \<open>gocdnext run-local\<close>.

  \<^bold>\<open>Termination and bounds.\<close> No definition carries fuel. The graph searches terminate because
  every call shrinks the set of unvisited names, the string loops because the rest gets
  shorter, and the topological sort because every round takes a job; these are the \<open>termination\<close>
  proofs beside them. Loops that run for ever in the program (ticks, the flusher, a watcher) are
  step relations: of the flusher it is proved that it returns once its channel is closed, and
  of the others what every reachable state satisfies. Limits of the code (the send buffer of a
  session, the clamps of the log batcher, lease lengths, grace and quotas of the sweeper) are
  the constants of the source or arguments.

  \<^bold>\<open>Assumptions.\<close> A failing database is not modelled, except where a definition says so. A
  transaction of the run store is one step of \<open>run_step\<close>: the properties over \<open>run_step\<close> speak of
  transactions that run one after the other, which row locks ensure for transactions on the
  same job or stage, but not for two that write different stages of one run; \<open>Overlap\<close> says what
  that changes. \<open>run_step\<close> has no reruns; \<open>store_step\<close> of \<open>Rerun\<close> and \<open>ap_step\<close> of \<open>Approvals\<close> have. Primary keys and
  random draws are fresh. \<open>ORDER BY\<close> leaves equal keys in any order: where it matters, the order
  is an argument that sorts. \<open>fresh_server\<close> and its variants state the shape in which run creation
  leaves the tables. Membership of a group, the observation of a cluster, the storage backend
  and the digest of an object are arbitrary arguments, and so are the YAML decoder (job names
  are the keys of a mapping, hence distinct), SHA-256 and \<open>strings.ToLower\<close>. Compliance starts
  from empty tables: rows from before its migrations are not considered.

  \<^bold>\<open>Not modelled.\<close> Run creation, the rerun of a whole run and the fan-out to downstream pipelines
  (they insert the runs that the transition systems start from); the scheduler's loop and the assignment it builds
  (its transactions and its dispatch to a session are modelled); the \<open>Connect\<close> stream loop and
  the handlers of tests, coverage and service events; cache rows and the cache, log-partition,
  archive and build-cache passes of the sweeper; the approval expirer, merge groups, the editing
  of environments and freezes; the YAML parser and the substitution of references; webhooks, forge clients, polling and cron; authentication, secrets and the HTTP
  api with its views; the agent (containers, pods, files); the clients of ArgoCD, Kubernetes and
  the object stores; start-up, migrations, the command line and the web interface. Most of it is
  I/O around the modelled core, or decoding; what is core and still missing is said in the notes
  of the components.
\<close>

end
